(* ===== verification/Py_Prelude.thy ===== *)
theory Py_Prelude
  imports Main "HOL-Library.Char_ord" "HOL-Library.List_Lexorder"
begin

text \<open>
  What the components share: the exceptions a Python call can raise and the
  result type that carries them, the sequencing combinators for fallible steps,
  the string methods the sources call (\<open>startswith\<close>, \<open>endswith\<close>, \<open>split\<close>,
  \<open>rsplit\<close>, \<open>join\<close>, \<open>rstrip\<close>, \<open>replace\<close> of one character), and the decimal
  rendering of integers (\<open>str\<close>).  The string and integer definitions model the
  language; no source line of the repository corresponds to them.
\<close>

named_theorems py_simps \<open>defining equations of the Python primitives\<close>
named_theorems res_simps \<open>case analysis on results\<close>

subsection \<open>Exceptions and results\<close>

text \<open>
  One constructor per exception class; the string is the message of an explicit
  \<open>raise\<close>, and names the failing operation where the interpreter raises.
\<close>

datatype exn =
    GypError string
  | CircularException string
  | TypeError string
  | ValueError string
  | KeyError string
  | IndexError
  | AttributeError string
  | AssertionError
  | NameError string
  | CycleError "string list"
  | UnknownASTNode string
  | SyntaxError string
  | RuntimeError string

type_synonym 'a res = "exn + 'a"

definition bindE :: "'e + 'a \<Rightarrow> ('a \<Rightarrow> 'e + 'b) \<Rightarrow> 'e + 'b" where
  "bindE m f = (case m of Inl e \<Rightarrow> Inl e | Inr x \<Rightarrow> f x)"

lemma bindE_simps [simp, res_simps]:
  "bindE (Inl e) f = Inl e"
  "bindE (Inr x) f = f x"
  by (simp_all add: bindE_def)

lemma bindE_cong [fundef_cong]:
  "m = m' \<Longrightarrow> (\<And>x. m' = Inr x \<Longrightarrow> f x = f' x) \<Longrightarrow> bindE m f = bindE m' f'"
  by (simp add: bindE_def split: sum.splits)

lemma bindE_Inr_iff [res_simps]:
  "bindE m f = Inr y \<longleftrightarrow> (\<exists>x. m = Inr x \<and> f x = Inr y)"
  by (cases m) auto

lemma bindE_Inl_iff [res_simps]:
  "bindE m f = Inl e \<longleftrightarrow> m = Inl e \<or> (\<exists>x. m = Inr x \<and> f x = Inl e)"
  by (cases m) auto

lemma bindE_InrE:
  assumes "bindE m f = Inr y"
  obtains x where "m = Inr x" and "f x = Inr y"
  using assms by (auto simp: bindE_Inr_iff)

text \<open>A \<open>for\<close> loop whose body may raise, threading the state it updates.\<close>

fun foldE :: "('s \<Rightarrow> 'a \<Rightarrow> 'e + 's) \<Rightarrow> 's \<Rightarrow> 'a list \<Rightarrow> 'e + 's" where
  "foldE f s [] = Inr s"
| "foldE f s (x # xs) = bindE (f s x) (\<lambda>s'. foldE f s' xs)"

text \<open>A list comprehension whose expression may raise.\<close>

fun mapE :: "('a \<Rightarrow> 'e + 'b) \<Rightarrow> 'a list \<Rightarrow> 'e + 'b list" where
  "mapE f [] = Inr []"
| "mapE f (x # xs) = bindE (f x) (\<lambda>y. bindE (mapE f xs) (\<lambda>ys. Inr (y # ys)))"

lemma foldE_cong [fundef_cong]:
  "s = s' \<Longrightarrow> xs = ys \<Longrightarrow> (\<And>t x. x \<in> set ys \<Longrightarrow> f t x = g t x) \<Longrightarrow>
    foldE f s xs = foldE g s' ys"
  by (induction xs arbitrary: s s' ys) (auto intro: bindE_cong)

lemma mapE_cong [fundef_cong]:
  "xs = ys \<Longrightarrow> (\<And>x. x \<in> set ys \<Longrightarrow> f x = g x) \<Longrightarrow> mapE f xs = mapE g ys"
  by (induction xs arbitrary: ys) (auto intro: bindE_cong)

lemma foldE_append: "foldE f s (xs @ ys) = bindE (foldE f s xs) (\<lambda>t. foldE f t ys)"
proof (induction xs arbitrary: s)
  case Nil
  show ?case by simp
next
  case (Cons x xs)
  then show ?case by (cases "f s x") simp_all
qed

lemma foldE_invariant:
  assumes "foldE f s xs = Inr t" and "P s"
    and "\<And>s x s'. P s \<Longrightarrow> x \<in> set xs \<Longrightarrow> f s x = Inr s' \<Longrightarrow> P s'"
  shows "P t"
  using assms
proof (induction xs arbitrary: s)
  case Nil
  then show ?case by simp
next
  case (Cons x xs)
  from Cons.prems(1) obtain s' where s': "f s x = Inr s'" and t: "foldE f s' xs = Inr t"
    by (auto simp: bindE_Inr_iff)
  show ?case
  proof (rule Cons.IH [OF t])
    show "P s'" by (rule Cons.prems(3) [OF Cons.prems(2) _ s']) simp
  qed (auto intro: Cons.prems(3))
qed

lemma mapE_Inr_iff:
  "mapE f xs = Inr ys \<longleftrightarrow> length ys = length xs \<and> (\<forall>i < length xs. f (xs ! i) = Inr (ys ! i))"
proof (induction xs arbitrary: ys)
  case Nil
  show ?case by auto
next
  case (Cons x xs)
  show ?case
  proof (cases ys)
    case Nil
    then show ?thesis by (auto simp: bindE_Inr_iff)
  next
    case (Cons y zs)
    with Cons.IH [of zs] show ?thesis
      by (auto simp: bindE_Inr_iff nth_Cons less_Suc_eq_0_disj split: nat.splits)
  qed
qed

lemma mapE_total: "(\<And>x. x \<in> set xs \<Longrightarrow> f x = Inr (g x)) \<Longrightarrow> mapE f xs = Inr (map g xs)"
  by (induction xs) auto

lemma mapE_fixed: "\<forall>x \<in> set xs. f x = Inr x \<Longrightarrow> mapE f xs = Inr xs"
  by (induction xs) simp_all

lemma mapE_results: "mapE f xs = Inr ys \<Longrightarrow> y \<in> set ys \<Longrightarrow> \<exists>x \<in> set xs. f x = Inr y"
  by (induction xs arbitrary: ys) (auto simp: bindE_Inr_iff)

text \<open>
  A computation that may raise and may also not return: \<open>None\<close> is running out of fuel.
\<close>

type_synonym 'a eval = "'a res option"

definition bindV :: "'a eval \<Rightarrow> ('a \<Rightarrow> 'b eval) \<Rightarrow> 'b eval" where
  "bindV m f = (case m of None \<Rightarrow> None | Some (Inl e) \<Rightarrow> Some (Inl e) | Some (Inr x) \<Rightarrow> f x)"

lemma bindV_simps [simp]:
  "bindV None f = None" "bindV (Some (Inl e)) f = Some (Inl e)" "bindV (Some (Inr x)) f = f x"
  by (simp_all add: bindV_def)

lemma bindV_cong [fundef_cong]:
  "m = n \<Longrightarrow> (\<And>x. n = Some (Inr x) \<Longrightarrow> f x = g x) \<Longrightarrow> bindV m f = bindV n g"
  by (auto simp: bindV_def split: option.splits sum.splits)

lemma bindV_Inr_iff: "bindV m f = Some (Inr y) \<longleftrightarrow> (\<exists>x. m = Some (Inr x) \<and> f x = Some (Inr y))"
  by (auto simp: bindV_def split: option.splits sum.splits)

fun foldV :: "('s \<Rightarrow> 'a \<Rightarrow> 's eval) \<Rightarrow> 's \<Rightarrow> 'a list \<Rightarrow> 's eval" where
  "foldV f s [] = Some (Inr s)"
| "foldV f s (x # xs) = bindV (f s x) (\<lambda>t. foldV f t xs)"

lemma foldV_append: "foldV f s (xs @ ys) = bindV (foldV f s xs) (\<lambda>t. foldV f t ys)"
  by (induction xs arbitrary: s) (auto simp: bindV_def split: option.splits sum.splits)

lemma foldV_invariant:
  assumes "foldV f s xs = Some (Inr s')" and "P {} s"
    and "\<And>s x s' A. x \<in> set xs \<Longrightarrow> f s x = Some (Inr s') \<Longrightarrow> P A s \<Longrightarrow> P (insert x A) s'"
  shows "P (set xs) s'"
proof -
  have "P (A \<union> set ys) s'" if "foldV f s ys = Some (Inr s')" "P A s" "set ys \<subseteq> set xs" for A ys s
    using that
  proof (induction ys arbitrary: s A)
    case (Cons y ys)
    then obtain t where "f s y = Some (Inr t)" "foldV f t ys = Some (Inr s')" by (auto simp: bindV_Inr_iff)
    moreover from this Cons assms(3) have "P (insert y A) t" by auto
    ultimately have "P (insert y A \<union> set ys) s'" using Cons.IH [of t "insert y A"] Cons.prems(3) by simp
    then show ?case by simp
  qed simp
  from this [OF assms(1,2)] show ?thesis by simp
qed

lemma foldV_total:
  assumes "P s" and "\<And>s x. x \<in> set xs \<Longrightarrow> P s \<Longrightarrow> f s x \<noteq> None \<and> (\<forall>s'. f s x = Some (Inr s') \<longrightarrow> P s')"
  shows "foldV f s xs \<noteq> None \<and> (\<forall>s'. foldV f s xs = Some (Inr s') \<longrightarrow> P s')"
  using assms
proof (induction xs arbitrary: s)
  case (Cons x xs)
  note x = Cons.prems(2) [OF list.set_intros(1) Cons.prems(1)]
  from x obtain r where r: "f s x = Some r" by blast
  show ?case
  proof (cases r)
    case (Inl e)
    with r show ?thesis by simp
  next
    case (Inr t)
    with x r have "P t" by simp
    from Cons.IH [OF this Cons.prems(2) [OF list.set_intros(2)]] r Inr show ?thesis by simp
  qed
qed simp

subsection \<open>Characters of the sources' literals\<close>

abbreviation (input) ch_newline :: char where "ch_newline \<equiv> CHR 0x0A"
abbreviation (input) ch_tab :: char where "ch_tab \<equiv> CHR 0x09"
abbreviation (input) ch_return :: char where "ch_return \<equiv> CHR 0x0D"
abbreviation (input) ch_dquote :: char where "ch_dquote \<equiv> CHR 0x22"
abbreviation (input) ch_squote :: char where "ch_squote \<equiv> CHR 0x27"
abbreviation (input) ch_backslash :: char where "ch_backslash \<equiv> CHR 0x5C"
abbreviation (input) ch_backquote :: char where "ch_backquote \<equiv> CHR 0x60"

subsection \<open>String methods\<close>

definition startswith :: "string \<Rightarrow> string \<Rightarrow> bool" where
  "startswith s p \<longleftrightarrow> take (length p) s = p"

definition endswith :: "string \<Rightarrow> string \<Rightarrow> bool" where
  "endswith s p \<longleftrightarrow> length p \<le> length s \<and> drop (length s - length p) s = p"

fun split_on :: "char \<Rightarrow> string \<Rightarrow> string list" where
  "split_on c [] = [[]]"
| "split_on c (x # xs) =
     (if x = c then [] # split_on c xs
      else (case split_on c xs of [] \<Rightarrow> [[x]] | w # ws \<Rightarrow> (x # w) # ws))"

fun join_with :: "string \<Rightarrow> string list \<Rightarrow> string" where
  "join_with sep [] = []"
| "join_with sep [w] = w"
| "join_with sep (w # v # ws) = w @ sep @ join_with sep (v # ws)"

text \<open>\<open>s.rsplit(c, 1)\<close> when \<open>c\<close> occurs: what stands before and after its last occurrence.\<close>

fun rsplit1 :: "char \<Rightarrow> string \<Rightarrow> (string \<times> string) option" where
  "rsplit1 c [] = None"
| "rsplit1 c (x # xs) =
     (case rsplit1 c xs of
        Some (a, b) \<Rightarrow> Some (x # a, b)
      | None \<Rightarrow> if x = c then Some ([], xs) else None)"

definition rstrip_char :: "char \<Rightarrow> string \<Rightarrow> string" where
  "rstrip_char c s = rev (dropWhile (\<lambda>x. x = c) (rev s))"

definition replace_char :: "char \<Rightarrow> string \<Rightarrow> string \<Rightarrow> string" where
  "replace_char c r s = concat (map (\<lambda>x. if x = c then r else [x]) s)"

lemma startswith_Nil [simp]: "startswith s []"
  by (simp add: startswith_def)

lemma startswith_append [simp]: "startswith (p @ s) p"
  by (simp add: startswith_def)

lemma startswith_Cons [simp]:
  "startswith (x # s) (y # p) \<longleftrightarrow> x = y \<and> startswith s p"
  "\<not> startswith [] (y # p)"
  by (auto simp: startswith_def)

lemma startswithD: "startswith s p \<Longrightarrow> \<exists>t. s = p @ t"
  by (metis append_take_drop_id startswith_def)

lemma endswith_iff: "endswith s p \<longleftrightarrow> (\<exists>t. s = t @ p)"
  unfolding endswith_def by (metis append_take_drop_id append_eq_append_conv diff_diff_cancel
      diff_le_self le_add2 length_append length_drop)

lemma endswith_append [simp]: "endswith (s @ p) p"
  by (auto simp: endswith_iff)

lemma split_on_not_Nil [simp]: "split_on c s \<noteq> []"
  by (induction s) (auto split: list.splits)

lemma split_on_no_sep [simp]: "c \<notin> set s \<Longrightarrow> split_on c s = [s]"
  by (induction s) auto

lemma split_on_append_sep:
  "c \<notin> set w \<Longrightarrow> split_on c (w @ c # s) = w # split_on c s"
  by (induction w) auto

lemma split_on_parts: "w \<in> set (split_on c s) \<Longrightarrow> c \<notin> set w"
  by (induction s arbitrary: w) (auto split: list.splits if_splits)

text \<open>Splitting at a character and joining with it are inverse to each other.\<close>

lemma join_with_split_on [simp]: "join_with [c] (split_on c s) = s"
proof (induction s)
  case Nil
  show ?case by simp
next
  case (Cons x xs)
  obtain w ws where sp: "split_on c xs = w # ws"
    using split_on_not_Nil [of c xs] by (cases "split_on c xs") auto
  with Cons.IH show ?case by (cases ws) auto
qed

lemma split_on_join_with:
  "ws \<noteq> [] \<Longrightarrow> \<forall>w \<in> set ws. c \<notin> set w \<Longrightarrow> split_on c (join_with [c] ws) = ws"
proof (induction "[c]" ws rule: join_with.induct)
  case (3 w v ws)
  then show ?case by (simp add: split_on_append_sep)
qed simp_all

lemma split_on_append:
  "split_on c (s @ c # t) = split_on c s @ split_on c t"
proof (induction s)
  case Nil
  show ?case by simp
next
  case (Cons x s)
  obtain w ws where "split_on c s = w # ws"
    using split_on_not_Nil [of c s] by (cases "split_on c s") auto
  with Cons.IH show ?case by auto
qed

lemma join_with_Cons:
  "ws \<noteq> [] \<Longrightarrow> join_with sep (w # ws) = w @ sep @ join_with sep ws"
  by (cases ws) auto

lemma rsplit1_None_iff: "rsplit1 c s = None \<longleftrightarrow> c \<notin> set s"
  by (induction s) (auto split: option.splits)

lemma rsplit1_Some_iff: "rsplit1 c s = Some (a, b) \<longleftrightarrow> s = a @ c # b \<and> c \<notin> set b"
proof (induction s arbitrary: a b)
  case Nil
  show ?case by simp
next
  case (Cons x xs)
  have none: "rsplit1 c xs = None \<longleftrightarrow> c \<notin> set xs" by (rule rsplit1_None_iff)
  show ?case
  proof (cases "rsplit1 c xs")
    case None
    with none show ?thesis by (cases a) auto
  next
    case (Some p)
    obtain a' b' where p: "p = (a', b')" by (cases p)
    from Some p Cons.IH have xs: "xs = a' @ c # b'" "c \<notin> set b'" by auto
    from Some p show ?thesis
      using Cons.IH by (cases a) (auto simp: xs)
  qed
qed

lemma rsplit1_append: "c \<notin> set b \<Longrightarrow> rsplit1 c (a @ c # b) = Some (a, b)"
  by (simp add: rsplit1_Some_iff)

lemma replace_char_simps [simp]:
  "replace_char c r [] = []"
  "replace_char c r (x # xs) = (if x = c then r else [x]) @ replace_char c r xs"
  by (simp_all add: replace_char_def)

lemma replace_char_append [simp]:
  "replace_char c r (s @ t) = replace_char c r s @ replace_char c r t"
  by (simp add: replace_char_def)

lemma replace_char_id [simp]: "c \<notin> set s \<Longrightarrow> replace_char c r s = s"
  by (induction s) auto

subsection \<open>Decimal rendering\<close>

definition digit_char :: "nat \<Rightarrow> char" where
  "digit_char d = char_of (48 + d)"

definition char_digit :: "char \<Rightarrow> nat" where
  "char_digit c = of_char c - 48"

definition is_digit :: "char \<Rightarrow> bool" where
  "is_digit c \<longleftrightarrow> 48 \<le> (of_char c :: nat) \<and> (of_char c :: nat) \<le> 57"

fun show_nat :: "nat \<Rightarrow> string" where
  "show_nat n = (if n < 10 then [digit_char n] else show_nat (n div 10) @ [digit_char (n mod 10)])"

declare show_nat.simps [simp del]

definition show_int :: "int \<Rightarrow> string" where
  "show_int i = (if i < 0 then CHR ''-'' # show_nat (nat (- i)) else show_nat (nat i))"

fun read_nat :: "nat \<Rightarrow> string \<Rightarrow> nat" where
  "read_nat acc [] = acc"
| "read_nat acc (c # cs) = read_nat (10 * acc + char_digit c) cs"

text \<open>\<open>int(s)\<close> on an optionally signed run of digits.\<close>

definition read_int :: "string \<Rightarrow> int" where
  "read_int s =
     (case s of
        [] \<Rightarrow> 0
      | c # cs \<Rightarrow> if c = CHR ''-'' then - int (read_nat 0 cs) else int (read_nat 0 s))"

lemma of_char_digit_char: "d < 10 \<Longrightarrow> (of_char (digit_char d) :: nat) = 48 + d"
  by (simp add: digit_char_def)

lemma char_digit_digit_char [simp]: "d < 10 \<Longrightarrow> char_digit (digit_char d) = d"
  by (simp add: char_digit_def of_char_digit_char)

lemma is_digit_digit_char [simp]: "d < 10 \<Longrightarrow> is_digit (digit_char d)"
  by (simp add: is_digit_def of_char_digit_char)

lemma digit_char_char_digit [simp]: "is_digit c \<Longrightarrow> digit_char (char_digit c) = c"
  by (simp add: digit_char_def char_digit_def is_digit_def)

lemma char_digit_less: "is_digit c \<Longrightarrow> char_digit c < 10"
  by (auto simp: char_digit_def is_digit_def)

lemma minus_not_digit [simp]: "\<not> is_digit (CHR ''-'')"
  by (simp add: is_digit_def)

lemma read_nat_append: "read_nat acc (s @ t) = read_nat (read_nat acc s) t"
  by (induction s arbitrary: acc) auto

lemma show_nat_digits: "\<forall>c \<in> set (show_nat n). is_digit c"
proof (induction n rule: show_nat.induct)
  case (1 n)
  then show ?case by (subst show_nat.simps) auto
qed

lemma show_nat_not_Nil [simp]: "show_nat n \<noteq> []"
  by (subst show_nat.simps) simp

lemma read_nat_show_nat [simp]: "read_nat 0 (show_nat n) = n"
proof (induction n rule: show_nat.induct)
  case (1 n)
  then show ?case by (subst show_nat.simps) (auto simp: read_nat_append)
qed

subsection \<open>White space\<close>

text \<open>\<open>str.isspace\<close> of a character, and \<open>str.strip\<close>.\<close>

definition is_space :: "char \<Rightarrow> bool" where
  "is_space c = (c \<in> {CHR '' '', ch_tab, ch_newline, ch_return, CHR 0x0B, CHR 0x0C})"

definition strip :: "string \<Rightarrow> string" where
  "strip s = rev (dropWhile is_space (rev (dropWhile is_space s)))"

lemma strip_id:
  assumes "s = [] \<or> (\<not> is_space (hd s) \<and> \<not> is_space (last s))"
  shows "strip s = s"
proof (cases "s = []")
  case False
  have drop: "dropWhile is_space t = t" if "t \<noteq> []" "\<not> is_space (hd t)" for t
    using that by (cases t) auto
  from False assms drop [of s] drop [of "rev s"] show ?thesis by (simp add: strip_def hd_rev)
qed (simp add: strip_def)

subsection \<open>Letters and case\<close>

text \<open>\<open>str.isalpha\<close> of a character and \<open>str.lower\<close>, for byte strings in the C locale.\<close>

definition is_upper :: "char \<Rightarrow> bool" where
  "is_upper c \<longleftrightarrow> 65 \<le> (of_char c :: nat) \<and> (of_char c :: nat) \<le> 90"

definition is_lower :: "char \<Rightarrow> bool" where
  "is_lower c \<longleftrightarrow> 97 \<le> (of_char c :: nat) \<and> (of_char c :: nat) \<le> 122"

definition is_alpha :: "char \<Rightarrow> bool" where
  "is_alpha c \<longleftrightarrow> is_upper c \<or> is_lower c"

definition lower_char :: "char \<Rightarrow> char" where
  "lower_char c = (if is_upper c then char_of (of_char c + 32 :: nat) else c)"

definition lower :: "string \<Rightarrow> string" where
  "lower s = map lower_char s"

lemma lower_id: "\<forall>c \<in> set s. \<not> is_upper c \<Longrightarrow> lower s = s"
  by (induction s) (auto simp: lower_def lower_char_def)

end
