(* ===== verification/Py_Path.thy ===== *)
theory Py_Path
  imports Py_Prelude
begin

text \<open>
  The functions of Python's \<open>os.path\<close> that the sources call, as \<open>posixpath\<close>
  defines them (the host is a POSIX system; \<open>os.getcwd()\<close> is the argument
  \<open>cwd\<close>), and what a path denotes: \<open>resolve st p\<close> walks the components of \<open>p\<close>
  from the directory with components \<open>st\<close>.  The lemmas relate every function to
  \<open>resolve\<close>, so that a component's path manipulation is verified by what the
  result denotes, not by how it is spelled.
\<close>

subsection \<open>posixpath\<close>

abbreviation (input) slash :: char where "slash \<equiv> CHR ''/''"

definition isabs :: "string \<Rightarrow> bool" where
  "isabs p \<longleftrightarrow> startswith p ''/''"

definition path_split :: "string \<Rightarrow> string \<times> string" where
  "path_split p =
     (case rsplit1 slash p of
        None \<Rightarrow> ([], p)
      | Some (a, b) \<Rightarrow>
          (let head = a @ [slash]
           in (if \<forall>c \<in> set head. c = slash then head else rstrip_char slash head, b)))"

definition dirname :: "string \<Rightarrow> string" where
  "dirname p = fst (path_split p)"

definition basename :: "string \<Rightarrow> string" where
  "basename p = snd (path_split p)"

definition path_join :: "string \<Rightarrow> string \<Rightarrow> string" where
  "path_join a b =
     (if startswith b ''/'' then b
      else if a = [] \<or> endswith a ''/'' then a @ b
      else a @ ''/'' @ b)"

text \<open>\<open>os.path.join(*parts)\<close> on a non-empty list.\<close>

fun path_joins :: "string list \<Rightarrow> string" where
  "path_joins [] = []"
| "path_joins (x # xs) = foldl path_join x xs"

definition norm_step :: "bool \<Rightarrow> string list \<Rightarrow> string \<Rightarrow> string list" where
  "norm_step initial new_comps cmp =
     (if cmp = [] \<or> cmp = ''.'' then new_comps
      else if cmp \<noteq> ''..'' \<or> (\<not> initial \<and> new_comps = []) \<or>
              (new_comps \<noteq> [] \<and> last new_comps = ''..'') then new_comps @ [cmp]
      else if new_comps \<noteq> [] then butlast new_comps
      else new_comps)"

definition initial_slashes :: "string \<Rightarrow> nat" where
  "initial_slashes p =
     (if startswith p ''//'' \<and> \<not> startswith p ''///'' then 2
      else if startswith p ''/'' then 1 else 0)"

definition norm_comps :: "string \<Rightarrow> string list" where
  "norm_comps p = foldl (norm_step (0 < initial_slashes p)) [] (split_on slash p)"

definition normpath :: "string \<Rightarrow> string" where
  "normpath p =
     (if p = [] then ''.''
      else let q = replicate (initial_slashes p) slash @ join_with ''/'' (norm_comps p)
           in if q = [] then ''.'' else q)"

definition abspath :: "string \<Rightarrow> string \<Rightarrow> string" where
  "abspath cwd p = normpath (if isabs p then p else path_join cwd p)"

text \<open>\<open>os.path.commonprefix\<close> of two lists.\<close>

fun commonprefix :: "'a list \<Rightarrow> 'a list \<Rightarrow> 'a list" where
  "commonprefix (x # xs) (y # ys) = (if x = y then x # commonprefix xs ys else [])"
| "commonprefix _ _ = []"

text \<open>\<open>os.path.splitext\<close>: leading dots of the last component start no extension.\<close>

definition splitext :: "string \<Rightarrow> string \<times> string" where
  "splitext p =
     (case rsplit1 (CHR ''.'') p of
        None \<Rightarrow> (p, [])
      | Some (a, b) \<Rightarrow>
          if slash \<in> set b then (p, [])
          else if \<exists>c \<in> set (last (split_on slash a)). c \<noteq> CHR ''.''
               then (a, CHR ''.'' # b) else (p, []))"

subsection \<open>What a path denotes\<close>

definition walk_step :: "string list \<Rightarrow> string \<Rightarrow> string list" where
  "walk_step st c =
     (if c = [] \<or> c = ''.'' then st
      else if c = ''..'' then butlast st else st @ [c])"

definition walk :: "string list \<Rightarrow> string list \<Rightarrow> string list" where
  "walk = foldl walk_step"

definition resolve :: "string list \<Rightarrow> string \<Rightarrow> string list" where
  "resolve st p = walk (if isabs p then [] else st) (split_on slash p)"

definition name_comp :: "string \<Rightarrow> bool" where
  "name_comp c \<longleftrightarrow> c \<noteq> [] \<and> c \<noteq> ''.'' \<and> c \<noteq> ''..''"

lemma walk_simps [simp]:
  "walk st [] = st"
  "walk st (c # cs) = walk (walk_step st c) cs"
  "walk st (xs @ ys) = walk (walk st xs) ys"
  by (simp_all add: walk_def)

lemma walk_step_simps [simp]:
  "walk_step st [] = st"
  "walk_step st ''.'' = st"
  "walk_step st ''..'' = butlast st"
  by (simp_all add: walk_step_def)

lemma walk_step_name [simp]: "name_comp c \<Longrightarrow> walk_step st c = st @ [c]"
  by (simp add: walk_step_def name_comp_def)

lemma walk_names: "\<forall>c \<in> set cs. name_comp c \<Longrightarrow> walk st cs = st @ cs"
  by (induction cs arbitrary: st) auto

lemma walk_names_preserved:
  "\<forall>c \<in> set st. name_comp c \<Longrightarrow> \<forall>c \<in> set (walk st cs). name_comp c"
proof (induction cs arbitrary: st)
  case (Cons c cs)
  have "\<forall>d \<in> set (walk_step st c). name_comp d"
    using Cons.prems by (auto simp: walk_step_def name_comp_def dest: in_set_butlastD)
  from Cons.IH [OF this] show ?case by simp
qed simp

lemma walk_noslash_preserved:
  "\<forall>c \<in> set st. slash \<notin> set c \<Longrightarrow> \<forall>c \<in> set cs. slash \<notin> set c \<Longrightarrow>
    \<forall>c \<in> set (walk st cs). slash \<notin> set c"
proof (induction cs arbitrary: st)
  case (Cons c cs)
  have "\<forall>d \<in> set (walk_step st c). slash \<notin> set d"
    using Cons.prems by (auto simp: walk_step_def dest: in_set_butlastD)
  from Cons.IH [OF this] Cons.prems(2) show ?case by simp
qed simp

lemma walk_pops: "walk st (replicate n ''..'') = take (length st - n) st"
proof (induction n arbitrary: st)
  case (Suc n)
  have "walk st (replicate (Suc n) ''..'') = walk (butlast st) (replicate n ''..'')" by simp
  also have "\<dots> = take (length (butlast st) - n) (butlast st)" by (rule Suc.IH)
  also have "\<dots> = take (length st - Suc n) st" by (simp add: butlast_conv_take)
  finally show ?case .
qed simp

lemma resolve_Nil [simp]: "resolve st [] = st"
  by (simp add: resolve_def isabs_def)

lemma resolve_dot [simp]: "resolve st ''.'' = st"
  by (simp add: resolve_def isabs_def)

lemma resolve_comp: "slash \<notin> set c \<Longrightarrow> resolve st c = walk_step st c"
  by (cases c) (auto simp: resolve_def isabs_def)

lemma isabs_append: "a \<noteq> [] \<Longrightarrow> isabs (a @ b) = isabs a"
  by (cases a) (simp_all add: isabs_def)

lemma isabs_rel: "\<not> isabs b \<Longrightarrow> resolve st b = walk st (split_on slash b)"
  by (simp add: resolve_def)

text \<open>Joining paths is walking one after the other.\<close>

lemma resolve_path_join: "resolve st (path_join a b) = resolve (resolve st a) b"
proof -
  consider (abs) "isabs b" | (empty) "\<not> isabs b" "a = []"
    | (sep) a' where "\<not> isabs b" "a = a' @ [slash]"
    | (rel) "\<not> isabs b" "a \<noteq> []" "\<not> endswith a ''/''"
    by (metis endswith_iff)
  then show ?thesis
  proof cases
    case abs
    then show ?thesis by (simp add: path_join_def resolve_def isabs_def)
  next
    case empty
    then show ?thesis by (simp add: path_join_def isabs_def)
  next
    case sep
    have "isabs (a' @ slash # b) = isabs (a' @ [slash])"
      by (cases a') (simp_all add: isabs_def)
    with sep show ?thesis
      by (simp add: path_join_def resolve_def split_on_append isabs_def)
  next
    case rel
    then have "isabs (a @ slash # b) = isabs a" by (simp add: isabs_append)
    with rel show ?thesis
      by (simp add: path_join_def resolve_def split_on_append isabs_def)
  qed
qed

lemma resolve_path_joins:
  assumes "\<forall>c \<in> set cs. slash \<notin> set c"
  shows "resolve st (path_joins cs) = walk st cs"
proof (cases cs)
  case (Cons x xs)
  have "resolve st (foldl path_join x xs) = walk (resolve st x) xs"
    using assms Cons
  proof (induction xs arbitrary: x cs rule: rev_induct)
    case (snoc y ys)
    then show ?case by (auto simp: resolve_path_join resolve_comp)
  qed simp
  with assms Cons show ?thesis by (simp add: resolve_comp)
qed simp

subsection \<open>Normalisation keeps what a path denotes\<close>

definition clean_comp :: "string \<Rightarrow> bool" where
  "clean_comp c \<longleftrightarrow> c \<noteq> [] \<and> c \<noteq> ''.''"

lemma norm_step_clean:
  "\<forall>c \<in> set nc. clean_comp c \<Longrightarrow> \<forall>c \<in> set (norm_step i nc x). clean_comp c"
  by (auto simp: norm_step_def clean_comp_def dest: in_set_butlastD)

lemma walk_norm_step_rel:
  assumes "\<forall>c \<in> set nc. clean_comp c"
  shows "walk st (norm_step False nc x) = walk_step (walk st nc) x"
proof (cases "x = ''..'' \<and> nc \<noteq> [] \<and> last nc \<noteq> ''..''")
  case True
  then obtain ms m where nc: "nc = ms @ [m]" by (metis append_butlast_last_id)
  with True assms have "name_comp m" by (simp add: name_comp_def clean_comp_def)
  with True nc show ?thesis by (simp add: norm_step_def)
next
  case False
  then show ?thesis by (auto simp: norm_step_def)
qed

lemma walk_norm_rel:
  "\<forall>c \<in> set nc. clean_comp c \<Longrightarrow>
    walk st (foldl (norm_step False) nc cs) = walk (walk st nc) cs"
proof (induction cs arbitrary: nc)
  case (Cons c cs)
  from Cons.IH [OF norm_step_clean [OF Cons.prems]] Cons.prems
  show ?case by (simp add: walk_norm_step_rel)
qed simp

lemma norm_step_abs:
  "\<forall>c \<in> set nc. name_comp c \<Longrightarrow> norm_step True nc x = walk_step nc x"
  by (cases nc rule: rev_cases) (auto simp: norm_step_def walk_step_def name_comp_def)

lemma norm_abs:
  "\<forall>c \<in> set nc. name_comp c \<Longrightarrow> foldl (norm_step True) nc cs = walk nc cs"
proof (induction cs arbitrary: nc)
  case (Cons c cs)
  have "\<forall>d \<in> set (walk_step nc c). name_comp d"
    using Cons.prems walk_names_preserved [of nc "[c]"] by simp
  with Cons show ?case by (simp add: norm_step_abs)
qed simp

lemma norm_step_noslash:
  "\<forall>c \<in> set nc. slash \<notin> set c \<Longrightarrow> slash \<notin> set x \<Longrightarrow> \<forall>c \<in> set (norm_step i nc x). slash \<notin> set c"
  by (auto simp: norm_step_def dest: in_set_butlastD)

lemma foldl_norm_noslash:
  "\<forall>c \<in> set nc. slash \<notin> set c \<Longrightarrow> \<forall>c \<in> set cs. slash \<notin> set c \<Longrightarrow>
    \<forall>c \<in> set (foldl (norm_step i) nc cs). slash \<notin> set c"
proof (induction cs arbitrary: nc)
  case (Cons c cs)
  have "\<forall>d \<in> set (norm_step i nc c). slash \<notin> set d"
    by (rule norm_step_noslash [OF Cons.prems(1)]) (use Cons.prems(2) in simp)
  from Cons.IH [OF this] Cons.prems(2) show ?case by simp
qed simp

lemma norm_comps_noslash: "\<forall>c \<in> set (norm_comps p). slash \<notin> set c"
  unfolding norm_comps_def by (rule foldl_norm_noslash) (auto dest: split_on_parts)

lemma foldl_norm_clean:
  "\<forall>c \<in> set nc. clean_comp c \<Longrightarrow> \<forall>c \<in> set (foldl (norm_step i) nc cs). clean_comp c"
proof (induction cs arbitrary: nc)
  case (Cons c cs)
  from Cons.IH [OF norm_step_clean [OF Cons.prems]] show ?case by simp
qed simp

lemma initial_slashes_pos: "0 < initial_slashes p \<longleftrightarrow> isabs p"
  by (cases p) (auto simp: initial_slashes_def isabs_def)

lemma norm_comps_abs: "isabs p \<Longrightarrow> norm_comps p = resolve st p"
  by (simp add: norm_comps_def initial_slashes_pos norm_abs resolve_def)

lemma split_on_slashes:
  "split_on slash (replicate n slash @ s) = replicate n [] @ split_on slash s"
  by (induction n) auto

lemma walk_empties [simp]: "walk st (replicate n []) = st"
  by (induction n) simp_all

lemma join_head_noslash:
  assumes "\<forall>c \<in> set cs. clean_comp c" and "\<forall>c \<in> set cs. slash \<notin> set c"
  shows "\<not> isabs (join_with ''/'' cs)"
proof (cases cs)
  case (Cons c ds)
  with assms(1) obtain x y where c: "c = x # y"
    by (cases c) (auto simp: clean_comp_def)
  with assms(2) Cons have "x \<noteq> slash" by auto
  with c Cons show ?thesis by (cases ds) (simp_all add: isabs_def)
qed (simp add: isabs_def)

lemma walk_split_join:
  "\<forall>c \<in> set cs. slash \<notin> set c \<Longrightarrow> walk st (split_on slash (join_with ''/'' cs)) = walk st cs"
  by (cases cs) (simp_all add: split_on_join_with)

lemma resolve_normpath: "resolve st (normpath p) = resolve st p"
proof (cases "p = []")
  case True
  then show ?thesis by (simp add: normpath_def)
next
  case False
  let ?i = "initial_slashes p" and ?cs = "norm_comps p"
  let ?q = "replicate ?i slash @ join_with ''/'' ?cs"
  have clean: "\<forall>c \<in> set ?cs. clean_comp c"
    unfolding norm_comps_def by (rule foldl_norm_clean) simp
  have ns: "\<forall>c \<in> set ?cs. slash \<notin> set c" by (rule norm_comps_noslash)
  have q: "resolve st ?q = resolve st p"
  proof (cases "isabs p")
    case True
    then have "0 < ?i" by (simp add: initial_slashes_pos)
    then have "isabs ?q" by (cases ?i) (simp_all add: isabs_def)
    then have "resolve st ?q = walk [] ?cs"
      by (simp add: resolve_def split_on_slashes walk_split_join [OF ns])
    moreover have "\<forall>c \<in> set ?cs. name_comp c"
      using True walk_names_preserved [of "[]" "split_on slash p"]
      by (simp add: norm_comps_abs [of _ st] resolve_def)
    ultimately show ?thesis
      using True by (simp add: walk_names norm_comps_abs [of _ st])
  next
    case rel: False
    then have i: "?i = 0" using initial_slashes_pos [of p] by simp
    have "resolve st ?q = walk st ?cs"
      using join_head_noslash [OF clean ns] i
      by (simp add: isabs_rel walk_split_join [OF ns])
    also have "\<dots> = resolve st p"
      using rel walk_norm_rel [of "[]" st "split_on slash p"] i
      by (simp add: norm_comps_def isabs_rel)
    finally show ?thesis .
  qed
  show ?thesis
  proof (cases "?q = []")
    case True
    with False q show ?thesis by (simp add: normpath_def)
  next
    case nonempty: False
    with False q show ?thesis by (auto simp: normpath_def Let_def)
  qed
qed

end
