(* ===== verification/Gyp_Value.thy ===== *)
theory Gyp_Value
  imports Py_Path "HOL-Library.AList"
begin

text \<open>
  The data GYP computes on.  A build file evaluates to nested dictionaries and
  lists of strings and integers; \<open>gval\<close> has one constructor per class the code
  tests with \<open>isinstance\<close>, and \<open>GOther\<close> for a value of any other class (\<open>None\<close>, a
  tuple), which it carries by class name and truth value only; such a value
  equals no string, integer, list or dictionary.  A dictionary is an association
  list: its order is the iteration order of the Python dictionary, which the
  language leaves unspecified, so a statement about every dictionary is a
  statement about every iteration order.  A key is a string or an integer.

  The interface \<open>dict_ops\<close> states the laws of lookup, store and delete; the
  operations on \<open>gdict\<close> are an interpretation of it, and so is every other
  dictionary of the sources.
\<close>

subsection \<open>Keys and values\<close>

datatype gkey = KStr string | KInt int

datatype gval =
    GStr string
  | GInt int
  | GList "gval list"
  | GDict "(gkey \<times> gval) list"
  | GOther string bool

type_synonym gdict = "(gkey \<times> gval) list"

text \<open>Python 2 orders integers before strings, and each class by its own order.\<close>

instantiation gkey :: linorder
begin

fun less_eq_gkey :: "gkey \<Rightarrow> gkey \<Rightarrow> bool" where
  "less_eq_gkey (KInt i) (KInt j) \<longleftrightarrow> i \<le> j"
| "less_eq_gkey (KInt i) (KStr t) \<longleftrightarrow> True"
| "less_eq_gkey (KStr s) (KInt j) \<longleftrightarrow> False"
| "less_eq_gkey (KStr s) (KStr t) \<longleftrightarrow> s \<le> t"

definition less_gkey :: "gkey \<Rightarrow> gkey \<Rightarrow> bool" where
  "less_gkey a b \<longleftrightarrow> a \<le> b \<and> \<not> b \<le> a"

instance
proof
  fix a b c :: gkey
  show "a < b \<longleftrightarrow> a \<le> b \<and> \<not> b \<le> a" by (rule less_gkey_def)
  show "a \<le> a" by (cases a) simp_all
  show "a \<le> b \<Longrightarrow> b \<le> c \<Longrightarrow> a \<le> c" by (cases a; cases b; cases c) simp_all
  show "a \<le> b \<Longrightarrow> b \<le> a \<Longrightarrow> a = b" by (cases a; cases b) simp_all
  show "a \<le> b \<or> b \<le> a" by (cases a; cases b) auto
qed

end

lemma size_snd_less [termination_simp]:
  "p \<in> set d \<Longrightarrow> size (snd p) < Suc (size_list (size_prod (\<lambda>x. 0) size) d)"
  by (induction d) auto

lemma size_pair_less [termination_simp]:
  "(k, v) \<in> set d \<Longrightarrow> size v < Suc (size_list (size_prod (\<lambda>x. 0) size) d)"
  using size_snd_less [of "(k, v)" d] by simp

fun class_name :: "gval \<Rightarrow> string" where
  "class_name (GStr s) = ''str''"
| "class_name (GInt i) = ''int''"
| "class_name (GList xs) = ''list''"
| "class_name (GDict d) = ''dict''"
| "class_name (GOther c t) = c"

fun truthy :: "gval \<Rightarrow> bool" where
  "truthy (GStr s) \<longleftrightarrow> s \<noteq> []"
| "truthy (GInt i) \<longleftrightarrow> i \<noteq> 0"
| "truthy (GList xs) \<longleftrightarrow> xs \<noteq> []"
| "truthy (GDict d) \<longleftrightarrow> d \<noteq> []"
| "truthy (GOther c t) \<longleftrightarrow> t"

fun is_str :: "gval \<Rightarrow> bool" where
  "is_str (GStr s) = True"
| "is_str _ = False"

fun is_scalar :: "gval \<Rightarrow> bool" where
  "is_scalar (GStr s) = True"
| "is_scalar (GInt i) = True"
| "is_scalar _ = False"

fun is_list :: "gval \<Rightarrow> bool" where
  "is_list (GList xs) = True"
| "is_list _ = False"

fun is_dict :: "gval \<Rightarrow> bool" where
  "is_dict (GDict d) = True"
| "is_dict _ = False"

text \<open>Values of one class, as \<open>a.__class__ == b.__class__\<close> compares them.\<close>

fun same_class :: "gval \<Rightarrow> gval \<Rightarrow> bool" where
  "same_class (GStr s) (GStr t) = True"
| "same_class (GInt s) (GInt t) = True"
| "same_class (GList s) (GList t) = True"
| "same_class (GDict s) (GDict t) = True"
| "same_class (GOther s x) (GOther t y) = (s = t)"
| "same_class _ _ = False"

text \<open>Python's \<open>==\<close>: dictionaries compare by lookup, whatever their order.\<close>

fun py_eq :: "gval \<Rightarrow> gval \<Rightarrow> bool"
  and py_eq_list :: "gval list \<Rightarrow> gval list \<Rightarrow> bool"
  and py_eq_dict :: "gdict \<Rightarrow> gdict \<Rightarrow> bool" where
  "py_eq (GList xs) (GList ys) = py_eq_list xs ys"
| "py_eq (GDict d) (GDict e) = (length d = length e \<and> py_eq_dict d e)"
| "py_eq a b = (a = b)"
| "py_eq_list (x # xs) (y # ys) = (py_eq x y \<and> py_eq_list xs ys)"
| "py_eq_list xs ys = (xs = [] \<and> ys = [])"
| "py_eq_dict [] e = True"
| "py_eq_dict ((k, v) # d) e =
     ((case map_of e k of None \<Rightarrow> False | Some w \<Rightarrow> py_eq v w) \<and> py_eq_dict d e)"

lemma py_eq_scalar [simp]: "is_scalar a \<Longrightarrow> py_eq a b \<longleftrightarrow> a = b"
  by (cases a; cases b) auto

lemma py_eq_str [simp]: "py_eq (GStr s) b \<longleftrightarrow> b = GStr s"
  by (cases b) auto

subsection \<open>The dictionary interface\<close>

locale dict_ops =
  fixes lookup :: "'d \<Rightarrow> 'k \<Rightarrow> 'v option"
    and store :: "'d \<Rightarrow> 'k \<Rightarrow> 'v \<Rightarrow> 'd"
    and del :: "'d \<Rightarrow> 'k \<Rightarrow> 'd"
    and keys :: "'d \<Rightarrow> 'k list"
    and wf :: "'d \<Rightarrow> bool"
  assumes lookup_store: "lookup (store d k v) j = (if j = k then Some v else lookup d j)"
    and lookup_del: "wf d \<Longrightarrow> lookup (del d k) j = (if j = k then None else lookup d j)"
    and set_keys: "set (keys d) = {k. lookup d k \<noteq> None}"
    and distinct_keys: "wf d \<Longrightarrow> distinct (keys d)"
    and wf_store: "wf d \<Longrightarrow> wf (store d k v)"
    and wf_del: "wf d \<Longrightarrow> wf (del d k)"
begin

lemma lookup_store_same [simp]: "lookup (store d k v) k = Some v"
  by (simp add: lookup_store)

lemma lookup_store_other [simp]: "j \<noteq> k \<Longrightarrow> lookup (store d k v) j = lookup d j"
  by (simp add: lookup_store)

lemma keys_store: "set (keys (store d k v)) = insert k (set (keys d))"
  by (auto simp: set_keys lookup_store)

lemma keys_del: "wf d \<Longrightarrow> set (keys (del d k)) = set (keys d) - {k}"
  by (auto simp: set_keys lookup_del)

text \<open>A loop of stores: the last store to a key wins, the other keys keep their values.\<close>

lemma lookup_fold_store:
  "lookup (foldl (\<lambda>d (k, v). store d k v) d kvs) j =
     (case map_of (rev kvs) j of Some v \<Rightarrow> Some v | None \<Rightarrow> lookup d j)"
proof (induction kvs rule: rev_induct)
  case (snoc kv kvs)
  then show ?case by (cases kv) (simp add: lookup_store)
qed simp

text \<open>A loop of deletes.\<close>

lemma wf_fold_del: "wf d \<Longrightarrow> wf (foldl del d ks)"
  by (induction ks arbitrary: d) (simp_all add: wf_del)

lemma lookup_fold_del:
  "wf d \<Longrightarrow> lookup (foldl del d ks) j = (if j \<in> set ks then None else lookup d j)"
  by (induction ks arbitrary: d) (auto simp: wf_del lookup_del)

end

subsection \<open>Association-list dictionaries\<close>

definition dict_get :: "('k \<times> 'v) list \<Rightarrow> 'k \<Rightarrow> 'v option" where
  "dict_get d k = map_of d k"

definition dict_set :: "('k \<times> 'v) list \<Rightarrow> 'k \<Rightarrow> 'v \<Rightarrow> ('k \<times> 'v) list" where
  "dict_set d k v = AList.update k v d"

definition dict_del :: "('k \<times> 'v) list \<Rightarrow> 'k \<Rightarrow> ('k \<times> 'v) list" where
  "dict_del d k = AList.delete k d"

definition dict_keys :: "('k \<times> 'v) list \<Rightarrow> 'k list" where
  "dict_keys d = map fst d"

definition dict_wf :: "('k \<times> 'v) list \<Rightarrow> bool" where
  "dict_wf d \<longleftrightarrow> distinct (map fst d)"

abbreviation has_key :: "('k \<times> 'v) list \<Rightarrow> 'k \<Rightarrow> bool" where
  "has_key d k \<equiv> dict_get d k \<noteq> None"

interpretation al: dict_ops dict_get dict_set dict_del dict_keys dict_wf
proof unfold_locales
  fix d :: "('k \<times> 'v) list" and k j v
  show "dict_get (dict_set d k v) j = (if j = k then Some v else dict_get d j)"
    by (simp add: dict_get_def dict_set_def update_conv)
  show "dict_get (dict_del d k) j = (if j = k then None else dict_get d j)"
    by (simp add: dict_get_def dict_del_def delete_conv)
  show "set (dict_keys d) = {k. dict_get d k \<noteq> None}"
    by (auto simp: dict_keys_def dict_get_def map_of_eq_None_iff)
  show "dict_wf d \<Longrightarrow> distinct (dict_keys d)"
    by (simp add: dict_wf_def dict_keys_def)
  show "dict_wf d \<Longrightarrow> dict_wf (dict_set d k v)"
    by (simp add: dict_wf_def dict_set_def distinct_update)
  show "dict_wf d \<Longrightarrow> dict_wf (dict_del d k)"
    by (simp add: dict_wf_def dict_del_def distinct_delete)
qed

lemma dict_get_del [simp]: "dict_get (dict_del d k) j = (if j = k then None else dict_get d j)"
  by (simp add: dict_get_def dict_del_def delete_conv)

lemma dict_get_simps [simp]:
  "dict_get [] k = None"
  "dict_get ((j, v) # d) k = (if j = k then Some v else dict_get d k)"
  by (auto simp: dict_get_def)

lemma dict_set_simps [simp]:
  "dict_set [] k v = [(k, v)]"
  "dict_set ((j, w) # d) k v = (if j = k then (j, v) # d else (j, w) # dict_set d k v)"
  by (auto simp: dict_set_def)

lemma dict_del_simps [simp]:
  "dict_del [] k = []"
  "dict_del ((j, w) # d) k = (if j = k then dict_del d k else (j, w) # dict_del d k)"
  by (auto simp: dict_del_def AList.delete_eq)

lemma dict_get_Some_in: "dict_get d k = Some v \<Longrightarrow> (k, v) \<in> set d"
  by (simp add: dict_get_def map_of_SomeD)

lemma dict_get_in: "dict_wf d \<Longrightarrow> (k, v) \<in> set d \<Longrightarrow> dict_get d k = Some v"
  by (simp add: dict_get_def dict_wf_def)

lemma dict_set_sub: "(j, w) \<in> set (dict_set d k v) \<Longrightarrow> (j, w) \<in> set d \<or> (j, w) = (k, v)"
  by (induction d) (auto split: if_splits)

lemma dict_del_sub: "(j, w) \<in> set (dict_del d k) \<Longrightarrow> (j, w) \<in> set d \<and> j \<noteq> k"
  by (induction d) (auto split: if_splits)

lemma dict_keys_set_same: "has_key d k \<Longrightarrow> dict_keys (dict_set d k v) = dict_keys d"
  by (induction d) (auto simp: dict_keys_def split: if_splits)

lemma dict_keys_set_new: "\<not> has_key d k \<Longrightarrow> dict_keys (dict_set d k v) = dict_keys d @ [k]"
  by (induction d) (auto simp: dict_keys_def split: if_splits)

subsection \<open>Access by a literal key\<close>

abbreviation get :: "gdict \<Rightarrow> string \<Rightarrow> gval option" where
  "get d k \<equiv> dict_get d (KStr k)"

abbreviation put :: "gdict \<Rightarrow> string \<Rightarrow> gval \<Rightarrow> gdict" where
  "put d k v \<equiv> dict_set d (KStr k) v"

abbreviation unhook :: "gdict \<Rightarrow> string \<Rightarrow> gdict" where
  "unhook d k \<equiv> dict_del d (KStr k)"

text \<open>\<open>d[k]\<close>.\<close>

definition getE :: "gdict \<Rightarrow> string \<Rightarrow> gval res" where
  "getE d k = (case get d k of None \<Rightarrow> Inl (KeyError k) | Some v \<Rightarrow> Inr v)"

lemma getE_simps [simp]:
  "get d k = Some v \<Longrightarrow> getE d k = Inr v"
  "get d k = None \<Longrightarrow> getE d k = Inl (KeyError k)"
  by (simp_all add: getE_def)

lemma getE_Inr_iff: "getE d k = Inr v \<longleftrightarrow> get d k = Some v"
  by (auto simp: getE_def split: option.splits)

text \<open>
  A value used where the code needs a string, a list of values or a dictionary;
  another class fails as the interpreter does on the operation applied next.
\<close>

fun as_str :: "gval \<Rightarrow> string res" where
  "as_str (GStr s) = Inr s"
| "as_str v = Inl (TypeError (''str expected, found '' @ class_name v))"

fun as_list :: "gval \<Rightarrow> gval list res" where
  "as_list (GList xs) = Inr xs"
| "as_list v = Inl (TypeError (''list expected, found '' @ class_name v))"

fun as_dict :: "gval \<Rightarrow> gdict res" where
  "as_dict (GDict d) = Inr d"
| "as_dict v = Inl (TypeError (''dict expected, found '' @ class_name v))"

fun key_str :: "gkey \<Rightarrow> string res" where
  "key_str (KStr s) = Inr s"
| "key_str (KInt i) = Inl (TypeError ''str expected, found int'')"

lemma as_str_Inr [simp]: "as_str v = Inr s \<longleftrightarrow> v = GStr s"
  by (cases v) auto

lemma as_list_Inr [simp]: "as_list v = Inr xs \<longleftrightarrow> v = GList xs"
  by (cases v) auto

lemma as_dict_Inr [simp]: "as_dict v = Inr d \<longleftrightarrow> v = GDict d"
  by (cases v) auto

lemma key_str_Inr [simp]: "key_str k = Inr s \<longleftrightarrow> k = KStr s"
  by (cases k) auto

text \<open>\<open>d.get(k, [])\<close> used as a list.\<close>

definition get_list :: "gdict \<Rightarrow> string \<Rightarrow> gval list res" where
  "get_list d k = (case get d k of None \<Rightarrow> Inr [] | Some v \<Rightarrow> as_list v)"

subsection \<open>Well-formed values\<close>

text \<open>Every dictionary of the value, at every depth, has distinct keys.\<close>

fun wf_val :: "gval \<Rightarrow> bool" where
  "wf_val (GStr s) = True"
| "wf_val (GInt i) = True"
| "wf_val (GList xs) = (\<forall>x \<in> set xs. wf_val x)"
| "wf_val (GDict d) = (dict_wf d \<and> (\<forall>p \<in> set d. wf_val (snd p)))"
| "wf_val (GOther c t) = True"

abbreviation wf_dict :: "gdict \<Rightarrow> bool" where
  "wf_dict d \<equiv> wf_val (GDict d)"

lemma wf_dict_get: "wf_dict d \<Longrightarrow> dict_get d k = Some v \<Longrightarrow> wf_val v"
  by (force dest: dict_get_Some_in)

lemma wf_dict_set: "wf_dict d \<Longrightarrow> wf_val v \<Longrightarrow> wf_dict (dict_set d k v)"
  by (auto simp: al.wf_store dest!: dict_set_sub)

lemma wf_dict_del: "wf_dict d \<Longrightarrow> wf_dict (dict_del d k)"
  by (auto simp: al.wf_del dest!: dict_del_sub)

lemma wf_scalar: "is_scalar v \<Longrightarrow> wf_val v"
  by (cases v) auto

lemmas wf_intros = wf_dict_set wf_dict_del wf_scalar

end
