(* ===== verification/Gyp_Common.thy ===== *)
theory Gyp_Common
  imports Gyp_Value
begin

text \<open>
  \<open>tools/gyp/pylib/gyp/common.py\<close>, the functions on names, paths and command
  lines: qualified target names, relative paths, the quoting of arguments for a
  POSIX shell, the memoising decorator, \<open>uniquer\<close>, the host flavour and the
  file that is replaced only when its contents differ.  The graph algorithms of
  the same file are in \<open>Gyp_Topo\<close>.
\<close>

subsection \<open>Messages of exceptions\<close>

text \<open>The message of an exception, where the model keeps one, extended.\<close>

fun ExceptionAppend :: "exn \<Rightarrow> string \<Rightarrow> exn" where
  "ExceptionAppend (GypError s) msg = GypError (s @ '' '' @ msg)"
| "ExceptionAppend (CircularException s) msg = CircularException (s @ '' '' @ msg)"
| "ExceptionAppend (TypeError s) msg = TypeError (s @ '' '' @ msg)"
| "ExceptionAppend (ValueError s) msg = ValueError (s @ '' '' @ msg)"
| "ExceptionAppend (KeyError s) msg = KeyError (s @ '' '' @ msg)"
| "ExceptionAppend (AttributeError s) msg = AttributeError (s @ '' '' @ msg)"
| "ExceptionAppend (NameError s) msg = NameError (s @ '' '' @ msg)"
| "ExceptionAppend (SyntaxError s) msg = SyntaxError (s @ '' '' @ msg)"
| "ExceptionAppend (RuntimeError s) msg = RuntimeError (s @ '' '' @ msg)"
| "ExceptionAppend (UnknownASTNode s) msg = UnknownASTNode (s @ '' '' @ msg)"
| "ExceptionAppend e msg = e"

subsection \<open>Qualified target names\<close>

text \<open>\<open>None\<close> stands for a Python \<open>None\<close> among the three parts.\<close>

definition ParseQualifiedTarget :: "string \<Rightarrow> string option \<times> string \<times> string option" where
  "ParseQualifiedTarget target =
     (let (build_file, target) =
            (case rsplit1 (CHR '':'') target of
               Some (b, t) \<Rightarrow> (Some b, t) | None \<Rightarrow> (None, target));
          (target, toolset) =
            (case rsplit1 (CHR ''#'') target of
               Some (t, ts) \<Rightarrow> (t, Some ts) | None \<Rightarrow> (target, None))
      in (build_file, target, toolset))"

definition BuildFile :: "string \<Rightarrow> string option" where
  "BuildFile fully_qualified_target = fst (ParseQualifiedTarget fully_qualified_target)"

text \<open>A string option as a condition: \<open>None\<close> and the empty string are false.\<close>

definition str_true :: "string option \<Rightarrow> bool" where
  "str_true s \<longleftrightarrow> s \<noteq> None \<and> s \<noteq> Some []"

definition QualifiedTarget :: "string option \<Rightarrow> string \<Rightarrow> string option \<Rightarrow> string res" where
  "QualifiedTarget build_file target toolset =
     (case build_file of
        None \<Rightarrow> Inl (TypeError ''unsupported operand type(s) for +: NoneType and str'')
      | Some b \<Rightarrow>
          (let fully_qualified = b @ '':'' @ target
           in Inr (if str_true toolset then fully_qualified @ ''#'' @ the toolset
                   else fully_qualified)))"

subsection \<open>Relative paths\<close>

definition RelativePath :: "string \<Rightarrow> string \<Rightarrow> string \<Rightarrow> string" where
  "RelativePath cwd path relative_to =
     (let path_parts = split_on slash (abspath cwd path);
          relative_to_split = split_on slash (abspath cwd relative_to);
          prefix_len = length (commonprefix path_parts relative_to_split);
          relative_split = replicate (length relative_to_split - prefix_len) ''..'' @
                           drop prefix_len path_parts
      in if relative_split = [] then [] else path_joins relative_split)"

definition FixIfRelativePath :: "string \<Rightarrow> string \<Rightarrow> string \<Rightarrow> string" where
  "FixIfRelativePath cwd path relative_to =
     (if isabs path then path else RelativePath cwd path relative_to)"

definition UnrelativePath :: "string \<Rightarrow> string \<Rightarrow> string" where
  "UnrelativePath path relative_to = normpath (path_join (dirname relative_to) path)"

definition ResolveTarget ::
  "string \<Rightarrow> string option \<Rightarrow> string \<Rightarrow> string option \<Rightarrow> string option \<times> string \<times> string option" where
  "ResolveTarget cwd build_file target toolset =
     (let (parsed_build_file, target, parsed_toolset) = ParseQualifiedTarget target;
          build_file =
            (if str_true parsed_build_file
             then if str_true build_file
                  then let bf = normpath (path_join (dirname (the build_file))
                                                    (the parsed_build_file))
                       in Some (if \<not> isabs bf then RelativePath cwd bf ''.'' else bf)
                  else parsed_build_file
             else build_file);
          toolset = (if str_true parsed_toolset then parsed_toolset else toolset)
      in (build_file, target, toolset))"

subsection \<open>Shell quoting\<close>

text \<open>The character class of \<open>_quote\<close>; the pattern also matches the empty string.\<close>

definition quote_chars :: "char list" where
  "quote_chars = [ch_tab, ch_newline] @ '' #$%&'' @ [ch_squote] @ ''()*;<=>?[{|}~''"

definition escape_chars :: "char list" where
  "escape_chars = [ch_dquote, ch_backslash, ch_backquote]"

definition needs_quote :: "string \<Rightarrow> bool" where
  "needs_quote s \<longleftrightarrow> s = [] \<or> (\<exists>c \<in> set s. c \<in> set quote_chars)"

definition escape_sub :: "string \<Rightarrow> string" where
  "escape_sub s = concat (map (\<lambda>c. if c \<in> set escape_chars then [ch_backslash, c] else [c]) s)"

text \<open>An argument is a string or an integer; \<open>str(argument)\<close> is its text.\<close>

type_synonym shell_arg = "string + int"

fun arg_text :: "shell_arg \<Rightarrow> string" where
  "arg_text (Inl s) = s"
| "arg_text (Inr i) = show_int i"

definition EncodePOSIXShellArgument :: "shell_arg \<Rightarrow> string" where
  "EncodePOSIXShellArgument argument =
     (let argument = arg_text argument;
          quote = (if needs_quote argument then [ch_dquote] else [])
      in quote @ escape_sub argument @ quote)"

definition EncodePOSIXShellList :: "shell_arg list \<Rightarrow> string" where
  "EncodePOSIXShellList args = join_with '' '' (map EncodePOSIXShellArgument args)"

subsection \<open>Environment, flavour, duplicates\<close>

fun GetEnvironFallback :: "(string \<rightharpoonup> string) \<Rightarrow> string list \<Rightarrow> string \<Rightarrow> string" where
  "GetEnvironFallback environ [] default_val = default_val"
| "GetEnvironFallback environ (var # var_list) default_val =
     (case environ var of
        Some v \<Rightarrow> v
      | None \<Rightarrow> GetEnvironFallback environ var_list default_val)"

definition GetFlavor :: "string \<Rightarrow> (string \<rightharpoonup> string) \<Rightarrow> string" where
  "GetFlavor platform params =
     (case params ''flavor'' of
        Some f \<Rightarrow> f
      | None \<Rightarrow>
          (case map_of [(''cygwin'', ''win''), (''win32'', ''win''), (''darwin'', ''mac'')] platform of
             Some f \<Rightarrow> f
           | None \<Rightarrow>
               if startswith platform ''sunos'' then ''solaris''
               else if startswith platform ''freebsd'' then ''freebsd''
               else if startswith platform ''dragonfly'' then ''dragonflybsd''
               else ''linux''))"

text \<open>\<open>seen\<close> holds the markers met so far, \<open>result\<close> the items kept.\<close>

fun uniquer_loop :: "('a \<Rightarrow> 'm) \<Rightarrow> 'm list \<Rightarrow> 'a list \<Rightarrow> 'a list \<Rightarrow> 'a list" where
  "uniquer_loop idfun seen result [] = result"
| "uniquer_loop idfun seen result (item # items) =
     (let marker = idfun item
      in if marker \<in> set seen then uniquer_loop idfun seen result items
         else uniquer_loop idfun (marker # seen) (result @ [item]) items)"

definition uniquer :: "('a \<Rightarrow> 'm) \<Rightarrow> 'a list \<Rightarrow> 'a list" where
  "uniquer idfun items = uniquer_loop idfun [] [] items"

subsection \<open>Memoisation\<close>

text \<open>\<open>memoize.__call__\<close>: the cache is the decorator's state.\<close>

definition memo_call :: "('a \<Rightarrow> 'b) \<Rightarrow> ('a \<times> 'b) list \<Rightarrow> 'a \<Rightarrow> 'b \<times> ('a \<times> 'b) list" where
  "memo_call func cache args =
     (case dict_get cache args of
        Some r \<Rightarrow> (r, cache)
      | None \<Rightarrow> (let result = func args in (result, dict_set cache args result)))"

fun memo_calls :: "('a \<Rightarrow> 'b) \<Rightarrow> ('a \<times> 'b) list \<Rightarrow> 'a list \<Rightarrow> 'b list \<times> ('a \<times> 'b) list" where
  "memo_calls func cache [] = ([], cache)"
| "memo_calls func cache (a # as) =
     (let (r, cache') = memo_call func cache a; (rs, cache'') = memo_calls func cache' as
      in (r # rs, cache''))"

subsection \<open>Writing a file only when it changes\<close>

text \<open>
  The file system maps a path to its contents.  \<open>WriteOnDiff\<close> writes to the
  temporary file \<open>tmp\<close> (\<open>tempfile.mkstemp\<close> picks a name that does not exist) and
  \<open>close\<close> either drops it or renames it over the target; the second result says
  whether the target was touched.
\<close>

definition writer_open :: "(string \<rightharpoonup> string) \<Rightarrow> string \<Rightarrow> (string \<rightharpoonup> string)" where
  "writer_open fs tmp = fs(tmp \<mapsto> [])"

definition writer_write :: "(string \<rightharpoonup> string) \<Rightarrow> string \<Rightarrow> string \<Rightarrow> (string \<rightharpoonup> string)" where
  "writer_write fs tmp text = (case fs tmp of None \<Rightarrow> fs | Some old \<Rightarrow> fs(tmp \<mapsto> old @ text))"

definition writer_close ::
  "(string \<rightharpoonup> string) \<Rightarrow> string \<Rightarrow> string \<Rightarrow> (string \<rightharpoonup> string) \<times> bool" where
  "writer_close fs tmp filename =
     (let same = (fs filename \<noteq> None \<and> fs tmp = fs filename)
      in if same then (fs(tmp := None), False)
         else (fs(filename := fs tmp, tmp := None), True))"

definition WriteOnDiff ::
  "(string \<rightharpoonup> string) \<Rightarrow> string \<Rightarrow> string \<Rightarrow> string list \<Rightarrow> (string \<rightharpoonup> string) \<times> bool" where
  "WriteOnDiff fs tmp filename chunks =
     writer_close (foldl (\<lambda>fs c. writer_write fs tmp c) (writer_open fs tmp) chunks) tmp filename"

subsection \<open>Lemmas: names\<close>

lemma ParseQualifiedTarget_qualified:
  assumes "QualifiedTarget (Some b) t ts = Inr q"
    and "CHR '':'' \<notin> set t" and "CHR ''#'' \<notin> set t"
    and "\<And>x. ts = Some x \<Longrightarrow> CHR '':'' \<notin> set x \<and> CHR ''#'' \<notin> set x"
  shows "ParseQualifiedTarget q = (Some b, t, if str_true ts then ts else None)"
proof (cases "str_true ts")
  case True
  then obtain x where x: "ts = Some x" by (auto simp: str_true_def)
  with assms(4) have "CHR '':'' \<notin> set (t @ ''#'' @ x)" and h: "CHR ''#'' \<notin> set x"
    using assms(2) by auto
  then have "rsplit1 (CHR '':'') (b @ CHR '':'' # (t @ ''#'' @ x)) = Some (b, t @ ''#'' @ x)"
    by (intro rsplit1_append)
  moreover have "rsplit1 (CHR ''#'') (t @ CHR ''#'' # x) = Some (t, x)"
    using h by (rule rsplit1_append)
  ultimately show ?thesis
    using assms(1) True x by (auto simp: ParseQualifiedTarget_def QualifiedTarget_def)
next
  case False
  have "rsplit1 (CHR '':'') (b @ CHR '':'' # t) = Some (b, t)"
    using assms(2) by (rule rsplit1_append)
  moreover have "rsplit1 (CHR ''#'') t = None"
    using assms(3) by (simp add: rsplit1_None_iff)
  ultimately show ?thesis
    using assms(1) False by (auto simp: ParseQualifiedTarget_def QualifiedTarget_def)
qed

lemma BuildFile_eq: "BuildFile q = map_option fst (rsplit1 (CHR '':'') q)"
  by (auto simp: BuildFile_def ParseQualifiedTarget_def Let_def split: option.splits prod.splits)

subsection \<open>Lemmas: relative paths\<close>

lemma commonprefix_takes:
  "commonprefix xs ys = take (length (commonprefix xs ys)) xs"
  "commonprefix xs ys = take (length (commonprefix xs ys)) ys"
  by (induction xs ys rule: commonprefix.induct) auto

lemma commonprefix_split:
  obtains xs' ys' where "xs = commonprefix xs ys @ xs'" and "ys = commonprefix xs ys @ ys'"
    and "xs' = drop (length (commonprefix xs ys)) xs"
    and "length ys' = length ys - length (commonprefix xs ys)"
proof
  show "xs = commonprefix xs ys @ drop (length (commonprefix xs ys)) xs"
    by (metis append_take_drop_id commonprefix_takes(1))
  show "ys = commonprefix xs ys @ drop (length (commonprefix xs ys)) ys"
    by (metis append_take_drop_id commonprefix_takes(2))
qed auto

text \<open>The components of an absolute, normalised path: slashes, then names.\<close>

lemma abspath_parts:
  assumes "isabs cwd"
  obtains i where "0 < i"
    and "split_on slash (abspath cwd p) =
           replicate i [] @ (let ns = resolve (resolve [] cwd) p in if ns = [] then [[]] else ns)"
    and "\<forall>c \<in> set (resolve (resolve [] cwd) p). name_comp c \<and> slash \<notin> set c"
proof -
  let ?q = "if isabs p then p else path_join cwd p"
  let ?ns = "resolve (resolve [] cwd) p"
  have absq: "isabs ?q"
  proof (cases "isabs p")
    case False
    with assms show ?thesis by (cases cwd) (auto simp: path_join_def isabs_def)
  qed simp
  have ns: "?ns = norm_comps ?q"
  proof (cases "isabs p")
    case True
    then show ?thesis by (simp add: norm_comps_abs [of p "resolve [] cwd"])
  next
    case False
    with absq show ?thesis
      using resolve_path_join [of "[]" cwd p] by (simp add: norm_comps_abs [of _ "[]"])
  qed
  have noslash: "\<forall>c \<in> set ?ns. slash \<notin> set c"
    unfolding ns by (rule norm_comps_noslash)
  have names: "\<forall>c \<in> set ?ns. name_comp c"
    unfolding ns norm_comps_abs [OF absq, of "[]"] resolve_def
    using walk_names_preserved [OF walk_names_preserved [of "[]"]] walk_names_preserved [of "[]"]
    by simp
  have "abspath cwd p = replicate (initial_slashes ?q) slash @ join_with ''/'' ?ns"
    using absq initial_slashes_pos [of ?q]
    by (cases "initial_slashes ?q") (auto simp: abspath_def normpath_def ns isabs_def Let_def)
  then have "split_on slash (abspath cwd p) =
      replicate (initial_slashes ?q) [] @ (if ?ns = [] then [[]] else ?ns)"
    using noslash by (auto simp: split_on_slashes split_on_join_with)
  then show thesis
    using that [of "initial_slashes ?q"] absq names noslash
    by (simp add: initial_slashes_pos Let_def)
qed

lemma walk_nonempty_parts:
  "\<forall>c \<in> set cs. c = [] \<or> name_comp c \<Longrightarrow> walk st cs = st @ filter (\<lambda>c. c \<noteq> []) cs"
  by (induction cs arbitrary: st) (auto simp: walk_step_def name_comp_def)

text \<open>
  Backing out of \<open>rs\<close> to the common prefix and descending along the rest of \<open>ps\<close>
  reaches \<open>ps\<close>.
\<close>

lemma walk_relative_split:
  fixes ps rs :: "string list"
  defines "n \<equiv> length (commonprefix ps rs)"
  assumes rs: "rs = replicate i [] @ (if ns = [] then [[]] else ns)"
    and names: "\<forall>c \<in> set ns. name_comp c" and ps: "\<forall>c \<in> set ps. c = [] \<or> name_comp c"
  shows "walk ns (replicate (length rs - n) ''..'' @ drop n ps) = filter (\<lambda>c. c \<noteq> []) ps"
proof -
  obtain ps' rs' where p: "ps = take n rs @ ps'" and ps': "ps' = drop n ps"
    and len: "length (take n rs) = n"
    using commonprefix_split [of ps rs] commonprefix_takes(2) [of ps rs] unfolding n_def
    by (metis length_take min.absorb4 nle_le take_all_iff length_append le_add1 append_take_drop_id)
  have walk_ps: "walk st (drop n ps) = st @ filter (\<lambda>c. c \<noteq> []) (drop n ps)" for st
    using ps by (intro walk_nonempty_parts) (auto dest: in_set_dropD)
  have prefix: "take (length ns - (length rs - n)) ns = filter (\<lambda>c. c \<noteq> []) (take n rs)"
  proof (cases "n \<le> i")
    case True
    then have "length ns \<le> length rs - n" using rs by auto
    moreover have "filter (\<lambda>c. c \<noteq> []) (take n rs) = []" using rs True by simp
    ultimately show ?thesis by simp
  next
    case False
    then have n: "n = i + (n - i)" by simp
    show ?thesis
    proof (cases "ns = []")
      case True
      then have "\<forall>c \<in> set (take n rs). c = []" using rs by (auto dest: in_set_takeD)
      then show ?thesis using True by (simp add: filter_empty_conv)
    next
      case nonempty: False
      then have "take n rs = replicate i [] @ take (n - i) ns" using rs False by simp
      moreover have "\<forall>c \<in> set (take (n - i) ns). c \<noteq> []"
        using names by (auto simp: name_comp_def dest: in_set_takeD)
      moreover have "n \<le> length rs" using len by simp
      then have "length ns - (length rs - n) = n - i" using rs nonempty False by simp
      ultimately show ?thesis by simp
    qed
  qed
  have "walk ns (replicate (length rs - n) ''..'' @ drop n ps) =
      filter (\<lambda>c. c \<noteq> []) (take n rs) @ filter (\<lambda>c. c \<noteq> []) (drop n ps)"
    by (simp add: walk_pops prefix walk_ps)
  also have "\<dots> = filter (\<lambda>c. c \<noteq> []) ps"
    using p ps' by (metis filter_append)
  finally show ?thesis .
qed

lemma resolve_RelativePath:
  assumes "isabs cwd"
  shows "resolve (resolve (resolve [] cwd) relative_to) (RelativePath cwd path relative_to) =
         resolve (resolve [] cwd) path"
proof -
  let ?ps = "split_on slash (abspath cwd path)"
  let ?rs = "split_on slash (abspath cwd relative_to)"
  let ?n = "length (commonprefix ?ps ?rs)"
  let ?rel = "replicate (length ?rs - ?n) ''..'' @ drop ?n ?ps"
  let ?P = "resolve (resolve [] cwd) path" and ?R = "resolve (resolve [] cwd) relative_to"
  obtain i where p: "?ps = replicate i [] @ (if ?P = [] then [[]] else ?P)"
    and P: "\<forall>c \<in> set ?P. name_comp c \<and> slash \<notin> set c"
    using abspath_parts [OF assms] unfolding Let_def by metis
  obtain j where r: "?rs = replicate j [] @ (if ?R = [] then [[]] else ?R)"
    and R: "\<forall>c \<in> set ?R. name_comp c \<and> slash \<notin> set c"
    using abspath_parts [OF assms] unfolding Let_def by metis
  have fP: "filter (\<lambda>c. c \<noteq> []) ?ps = ?P"
    using P by (subst p) (auto simp: name_comp_def filter_id_conv)
  have psok: "\<forall>c \<in> set ?ps. c = [] \<or> name_comp c"
    using P by (subst p) auto
  have "walk ?R ?rel = ?P"
    using walk_relative_split [OF r _ psok] R fP by simp
  moreover have "resolve ?R (path_joins ?rel) = walk ?R ?rel"
    by (rule resolve_path_joins) (auto dest: in_set_dropD split_on_parts)
  ultimately show ?thesis
    by (auto simp: RelativePath_def Let_def)
qed

lemma resolve_FixIfRelativePath:
  "isabs cwd \<Longrightarrow>
    resolve (resolve (resolve [] cwd) relative_to) (FixIfRelativePath cwd path relative_to) =
    resolve (resolve [] cwd) path"
  by (simp add: FixIfRelativePath_def resolve_RelativePath) (simp add: resolve_def)

lemma resolve_UnrelativePath:
  "resolve st (UnrelativePath path relative_to) = resolve (resolve st (dirname relative_to)) path"
  by (simp add: UnrelativePath_def resolve_normpath resolve_path_join)

subsection \<open>What a shell makes of an encoded command line\<close>

text \<open>
  Field splitting and quote removal of a POSIX shell, without expansion: outside
  quotes blanks separate fields, a backslash quotes the next character (a
  backslash and a newline vanish), and any other character of \<open>_quote\<close>, or a
  backquote, is not literal text, so the reading fails.  Inside double quotes a
  backslash quotes \<open>"\<close>, \<open>\\<close>, \<open>`\<close>, \<open>$\<close> and is itself literal otherwise.
  \<open>cur\<close> is the field being read, if one has started.
\<close>

definition push_char :: "string option \<Rightarrow> char \<Rightarrow> string option" where
  "push_char cur c = Some ((case cur of None \<Rightarrow> [] | Some w \<Rightarrow> w) @ [c])"

definition emit :: "string option \<Rightarrow> string list \<Rightarrow> string list" where
  "emit cur ws = (case cur of None \<Rightarrow> ws | Some w \<Rightarrow> w # ws)"

fun sh_fields :: "bool \<Rightarrow> string option \<Rightarrow> string \<Rightarrow> string list option" where
  "sh_fields True cur [] = None"
| "sh_fields False cur [] = Some (emit cur [])"
| "sh_fields True cur (c # cs) =
     (if c = ch_dquote then sh_fields False cur cs
      else if c = ch_backquote then None
      else if c = ch_backslash then
        (case cs of
           [] \<Rightarrow> None
         | d # ds \<Rightarrow>
             if d = ch_newline then sh_fields True cur ds
             else if d \<in> {ch_dquote, ch_backslash, ch_backquote, CHR ''$''}
             then sh_fields True (push_char cur d) ds
             else sh_fields True (push_char cur c) cs)
      else sh_fields True (push_char cur c) cs)"
| "sh_fields False cur (c # cs) =
     (if c = ch_dquote then sh_fields True (Some (case cur of None \<Rightarrow> [] | Some w \<Rightarrow> w)) cs
      else if c = ch_backslash then
        (case cs of
           [] \<Rightarrow> None
         | d # ds \<Rightarrow> if d = ch_newline then sh_fields False cur ds
                     else sh_fields False (push_char cur d) ds)
      else if c \<in> {CHR '' '', ch_tab, ch_newline} then map_option (emit cur) (sh_fields False None cs)
      else if c = ch_backquote \<or> c \<in> set quote_chars then None
      else sh_fields False (push_char cur c) cs)"

lemma escape_sub_simps [simp]:
  "escape_sub [] = []"
  "escape_sub (c # s) = (if c \<in> set escape_chars then [ch_backslash, c] else [c]) @ escape_sub s"
  by (simp_all add: escape_sub_def)

lemma escape_not_quote: "c \<in> set escape_chars \<Longrightarrow> c \<notin> set quote_chars"
  by (auto simp: escape_chars_def quote_chars_def)

lemma sh_fields_quoted:
  "sh_fields True (Some w) (escape_sub s @ ch_dquote # t) = sh_fields False (Some (w @ s)) t"
proof (induction s arbitrary: w)
  case (Cons c s)
  from Cons.IH [of "w @ [c]"] show ?case
    by (auto simp: escape_chars_def push_char_def)
qed simp

lemma sh_fields_plain:
  "\<forall>c \<in> set s. c \<notin> set quote_chars \<Longrightarrow>
    sh_fields False (Some w) (escape_sub s @ t) = sh_fields False (Some (w @ s)) t"
proof (induction s arbitrary: w)
  case (Cons c s)
  then have c: "c \<notin> set quote_chars" by simp
  from Cons.IH [of "w @ [c]"] Cons.prems c show ?case
    by (auto simp: escape_chars_def push_char_def quote_chars_def)
qed simp

lemma sh_fields_argument:
  "sh_fields False None (EncodePOSIXShellArgument a @ t) = sh_fields False (Some (arg_text a)) t"
proof (cases "needs_quote (arg_text a)")
  case True
  then show ?thesis
    by (simp add: EncodePOSIXShellArgument_def sh_fields_quoted)
next
  case False
  then obtain c s where a: "arg_text a = c # s"
    by (cases "arg_text a") (auto simp: needs_quote_def)
  with False have plain: "c \<notin> set quote_chars" "\<forall>c \<in> set s. c \<notin> set quote_chars"
    by (auto simp: needs_quote_def)
  then show ?thesis
    using False a sh_fields_plain [OF plain(2), of "[c]" t]
    by (auto simp: EncodePOSIXShellArgument_def escape_chars_def quote_chars_def push_char_def)
qed

lemma sh_fields_list:
  "sh_fields False None (EncodePOSIXShellList args) = Some (map arg_text args)"
proof (induction args)
  case Nil
  show ?case by (simp add: EncodePOSIXShellList_def emit_def)
next
  case (Cons a args)
  show ?case
  proof (cases args)
    case Nil
    then show ?thesis
      using sh_fields_argument [of a "[]"] by (simp add: EncodePOSIXShellList_def emit_def)
  next
    case (Cons b bs)
    then have "EncodePOSIXShellList (a # args) =
        EncodePOSIXShellArgument a @ CHR '' '' # EncodePOSIXShellList args"
      by (simp add: EncodePOSIXShellList_def)
    with Cons.IH show ?thesis
      by (simp add: sh_fields_argument emit_def)
  qed
qed

subsection \<open>Lemmas: duplicates, memoisation, files\<close>

lemma uniquer_loop_result:
  "set seen = idfun ` set result \<Longrightarrow> distinct (map idfun result) \<Longrightarrow>
    (let r = uniquer_loop idfun seen result items
     in distinct (map idfun r) \<and> idfun ` set r = idfun ` set result \<union> idfun ` set items \<and>
        set r \<subseteq> set result \<union> set items)"
proof (induction items arbitrary: seen result)
  case (Cons item items)
  show ?case
  proof (cases "idfun item \<in> set seen")
    case True
    with Cons.IH [OF Cons.prems] Cons.prems(1) show ?thesis
      by (auto simp: Let_def)
  next
    case False
    with Cons.prems have "set (idfun item # seen) = idfun ` set (result @ [item])"
      and "distinct (map idfun (result @ [item]))" by auto
    from Cons.IH [OF this] False show ?thesis
      by (auto simp: Let_def)
  qed
qed simp

definition cache_ok :: "('a \<Rightarrow> 'b) \<Rightarrow> ('a \<times> 'b) list \<Rightarrow> bool" where
  "cache_ok func cache \<longleftrightarrow> (\<forall>a r. dict_get cache a = Some r \<longrightarrow> r = func a)"

lemma memo_call_ok:
  "cache_ok func cache \<Longrightarrow> memo_call func cache a = (r, cache') \<Longrightarrow> r = func a \<and> cache_ok func cache'"
  by (auto simp: memo_call_def cache_ok_def Let_def al.lookup_store split: option.splits if_splits)

lemma memo_calls_ok:
  "cache_ok func cache \<Longrightarrow> fst (memo_calls func cache as) = map func as"
proof (induction as arbitrary: cache)
  case (Cons a as)
  obtain r cache' where c: "memo_call func cache a = (r, cache')" by fastforce
  with memo_call_ok [OF Cons.prems c] Cons.IH [of cache'] show ?case
    by (simp add: Let_def split_beta)
qed simp

lemma writer_writes:
  "fs tmp = Some old \<Longrightarrow>
    foldl (\<lambda>fs c. writer_write fs tmp c) fs chunks = fs(tmp \<mapsto> old @ concat chunks)"
proof (induction chunks arbitrary: fs old)
  case Nil
  then show ?case by (auto simp: fun_eq_iff)
next
  case (Cons c cs)
  then show ?case by (auto simp: writer_write_def fun_eq_iff)
qed

subsection \<open>Properties\<close>

text \<open>
  A qualified name parses back to the build file, target and toolset it was
  made from, when neither the target nor the toolset contains a separator; a
  missing or empty toolset parses as \<open>None\<close>.  The build file may contain colons
  (a Windows drive).
\<close>

theorem QualifiedTarget_parses_back:
  assumes "CHR '':'' \<notin> set t" and "CHR ''#'' \<notin> set t"
    and "\<And>x. ts = Some x \<Longrightarrow> CHR '':'' \<notin> set x \<and> CHR ''#'' \<notin> set x"
  shows "\<exists>q. QualifiedTarget (Some b) t ts = Inr q \<and>
             ParseQualifiedTarget q = (Some b, t, if str_true ts then ts else None) \<and>
             BuildFile q = Some b"
proof -
  obtain q where q: "QualifiedTarget (Some b) t ts = Inr q"
    by (auto simp: QualifiedTarget_def Let_def)
  from ParseQualifiedTarget_qualified [OF q assms] q show ?thesis
    by (simp add: BuildFile_def)
qed

theorem QualifiedTarget_parses_back_witness:
  "\<exists>q. QualifiedTarget (Some ''c:/a/b.gyp'') ''lib'' (Some ''host'') = Inr q \<and>
       ParseQualifiedTarget q = (Some ''c:/a/b.gyp'', ''lib'', Some ''host'') \<and>
       BuildFile q = Some ''c:/a/b.gyp''"
  using QualifiedTarget_parses_back [of "''lib''" "Some ''host''" "''c:/a/b.gyp''"]
  by (simp add: str_true_def)

text \<open>
  (C31) Walking \<open>RelativePath(path, relative_to)\<close> from the directory \<open>relative_to\<close>
  denotes reaches exactly what \<open>path\<close> denotes from the current directory, for
  every absolute current directory and all paths, absolute or not, normalised or
  not.
\<close>

theorem RelativePath_reaches_path:
  assumes "isabs cwd"
  shows "resolve (resolve (resolve [] cwd) relative_to) (RelativePath cwd path relative_to) =
         resolve (resolve [] cwd) path"
  using assms by (rule resolve_RelativePath)

theorem RelativePath_reaches_path_witness:
  "RelativePath ''/home/me'' ''src/../lib/a.c'' ''/home/out/'' = ''../me/lib/a.c'' \<and>
   resolve (resolve (resolve [] ''/home/me'') ''/home/out/'')
     (RelativePath ''/home/me'' ''src/../lib/a.c'' ''/home/out/'') =
   resolve (resolve [] ''/home/me'') ''src/../lib/a.c''"
proof
  show "RelativePath ''/home/me'' ''src/../lib/a.c'' ''/home/out/'' = ''../me/lib/a.c''"
    by code_simp
  show "resolve (resolve (resolve [] ''/home/me'') ''/home/out/'')
     (RelativePath ''/home/me'' ''src/../lib/a.c'' ''/home/out/'') =
   resolve (resolve [] ''/home/me'') ''src/../lib/a.c''"
    by (rule RelativePath_reaches_path) code_simp
qed

text \<open>
  (C32) A POSIX shell that splits and unquotes the string \<open>EncodePOSIXShellList\<close>
  returns recovers exactly the arguments, whatever characters they contain
  (\<open>$\<close> stays subject to expansion, as intended): no argument is split, merged,
  dropped or altered.
\<close>

theorem EncodePOSIXShellList_read_back:
  "sh_fields False None (EncodePOSIXShellList args) = Some (map arg_text args)"
  by (rule sh_fields_list)

text \<open>
  After \<open>WriteOnDiff\<close> the target file holds exactly the text written, the
  temporary file is gone, every other file is untouched, and the target was
  replaced only if its contents differ from before.
\<close>

theorem WriteOnDiff_effect:
  assumes "fs tmp = None" and "tmp \<noteq> filename"
    and "WriteOnDiff fs tmp filename chunks = (fs', touched)"
  shows "fs' = fs(filename \<mapsto> concat chunks) \<and>
         (touched \<longleftrightarrow> fs filename \<noteq> Some (concat chunks))"
proof -
  have w: "WriteOnDiff fs tmp filename chunks =
      writer_close (fs(tmp \<mapsto> concat chunks)) tmp filename"
    by (simp add: WriteOnDiff_def writer_open_def writer_writes)
  show ?thesis
  proof (cases "fs filename = Some (concat chunks)")
    case True
    have "fs(tmp := None, filename \<mapsto> concat chunks) = fs"
      using True assms(1) by (intro ext) simp
    with w assms True show ?thesis by (auto simp: writer_close_def)
  next
    case False
    have "fs(tmp := None, filename \<mapsto> concat chunks) = fs(filename \<mapsto> concat chunks)"
      using assms(1,2) by (intro ext) simp
    with w assms False show ?thesis
      by (simp add: writer_close_def fun_upd_twist)
  qed
qed

theorem WriteOnDiff_effect_witness:
  "WriteOnDiff [''a'' \<mapsto> ''old''] ''a.tmp'' ''a'' [''ne'', ''w''] = ([''a'' \<mapsto> ''new''], True)"
proof -
  obtain fs' touched where w:
    "WriteOnDiff [''a'' \<mapsto> ''old''] ''a.tmp'' ''a'' [''ne'', ''w''] = (fs', touched)"
    by fastforce
  from WriteOnDiff_effect [OF _ _ w] w show ?thesis by simp
qed

text \<open>
  The memoising decorator is transparent: from an empty cache, any sequence
  of calls returns what the undecorated function returns.
\<close>

theorem memoize_transparent: "fst (memo_calls func [] as) = map func as"
  by (rule memo_calls_ok) (simp add: cache_ok_def)

text \<open>
  \<open>uniquer\<close> keeps one item per marker: the markers of the result are distinct,
  they are all the markers of the input, and every item kept is an item of the
  input.
\<close>

theorem uniquer_keeps_one:
  "distinct (map idfun (uniquer idfun items)) \<and>
   idfun ` set (uniquer idfun items) = idfun ` set items \<and>
   set (uniquer idfun items) \<subseteq> set items"
  using uniquer_loop_result [of "[]" idfun "[]" items] by (simp add: uniquer_def Let_def)

end
