(* ===== verification/Input_Base.thy ===== *)
theory Input_Base
  imports Gyp_Common
begin

text \<open>
  The module-level data of \<open>tools/gyp/pylib/gyp/input.py\<close> (the key lists and the
  flags that \<open>Load\<close> sets from the generator's input info, as one record) and its
  helpers on keys and paths: \<open>IsPathSection\<close> and \<open>MakePathRelative\<close>.
\<close>

subsection \<open>Module-level lists and flags\<close>

definition linkable_types :: "string list" where
  "linkable_types = [''executable'', ''shared_library'', ''loadable_module'']"

definition dependency_sections :: "string list" where
  "dependency_sections = [''dependencies'', ''export_dependent_settings'']"

definition base_path_sections :: "string list" where
  "base_path_sections =
     [''destination'', ''files'', ''include_dirs'', ''inputs'', ''libraries'', ''outputs'', ''sources'']"

definition base_non_configuration_keys :: "string list" where
  "base_non_configuration_keys =
     [''actions'', ''configurations'', ''copies'', ''default_configuration'', ''dependencies'',
      ''dependencies_original'', ''link_languages'', ''libraries'', ''postbuilds'', ''product_dir'',
      ''product_extension'', ''product_name'', ''product_prefix'', ''rules'', ''run_as'', ''sources'',
      ''standalone_static_library'', ''suppress_wildcard'', ''target_name'', ''toolset'', ''toolsets'',
      ''type'', ''variants'', ''variables'']"

definition invalid_configuration_keys :: "string list" where
  "invalid_configuration_keys =
     [''actions'', ''all_dependent_settings'', ''configurations'', ''dependencies'',
      ''direct_dependent_settings'', ''libraries'', ''link_settings'', ''sources'',
      ''standalone_static_library'', ''target_name'', ''type'']"

record gyp_env =
  cwd :: string
  path_sections :: "string list"
  non_configuration_keys :: "string list"
  absolute_build_file_paths :: bool
  multiple_toolsets :: bool

text \<open>The globals before \<open>Load\<close> sets them, and after it with an empty generator contribution.\<close>

definition base_env :: "string \<Rightarrow> gyp_env" where
  "base_env d = \<lparr>cwd = d, path_sections = base_path_sections,
     non_configuration_keys = base_non_configuration_keys,
     absolute_build_file_paths = False, multiple_toolsets = False\<rparr>"

subsection \<open>Path sections\<close>

fun strip_ops :: "string \<Rightarrow> string" where
  "strip_ops section =
     (if section \<noteq> [] \<and> last section \<in> set ''=+?!'' then strip_ops (butlast section) else section)"

declare strip_ops.simps [simp del]

definition IsPathSection :: "gyp_env \<Rightarrow> string \<Rightarrow> bool" where
  "IsPathSection E section =
     (let section = strip_ops section
      in section \<in> set (path_sections E) \<or>
         endswith section ''_dir'' \<or> endswith section ''_dirs'' \<or>
         endswith section ''_file'' \<or> endswith section ''_files'' \<or>
         endswith section ''_path'' \<or> endswith section ''_paths'')"

lemma strip_ops_snoc: "c \<in> set ''=+?!'' \<Longrightarrow> strip_ops (s @ [c]) = strip_ops s"
  by (simp add: strip_ops.simps [of "s @ [c]"])

subsection \<open>Paths from one build file to another\<close>

text \<open>\<open>exception_re\<close>: an optional quote, then one of \<open>- / $ < > ^\<close>.\<close>

definition exception_chars :: string where
  "exception_chars = ''-/$<>^''"

fun exception_match :: "string \<Rightarrow> bool" where
  "exception_match [] = False"
| "exception_match (c # cs) =
     (c \<in> set exception_chars \<or>
      (c \<in> {ch_dquote, ch_squote} \<and> (case cs of [] \<Rightarrow> False | d # ds \<Rightarrow> d \<in> set exception_chars)))"

definition make_relative :: "gyp_env \<Rightarrow> string \<Rightarrow> string \<Rightarrow> string \<Rightarrow> string" where
  "make_relative E to_file fro_file item =
     (let ret = replace_char ch_backslash ''/''
                  (normpath (path_join (RelativePath (cwd E) (dirname fro_file) (dirname to_file)) item))
      in if last item = slash then ret @ ''/'' else ret)"

definition MakePathRelative :: "gyp_env \<Rightarrow> string \<Rightarrow> string \<Rightarrow> gval \<Rightarrow> gval res" where
  "MakePathRelative E to_file fro_file item =
     (if to_file = fro_file then Inr item
      else case item of
        GStr s \<Rightarrow>
          if exception_match s then Inr item
          else if s = [] then Inl IndexError
          else Inr (GStr (make_relative E to_file fro_file s))
      | _ \<Rightarrow> Inl (TypeError ''expected string or buffer''))"

lemma resolve_trailing_slash: "s \<noteq> [] \<Longrightarrow> resolve st (s @ ''/'') = resolve st s"
  using split_on_append [of slash s "[]"] by (simp add: resolve_def isabs_append)

text \<open>A made-relative item denotes, from the receiving file's directory, what it denoted before.\<close>

lemma normpath_not_Nil [simp]: "normpath p \<noteq> []"
  by (auto simp: normpath_def Let_def)

lemma resolve_make_relative:
  assumes "isabs (cwd E)" and "item \<noteq> []"
    and "ch_backslash \<notin> set (normpath (path_join (RelativePath (cwd E) (dirname fro_file) (dirname to_file)) item))"
  shows "resolve (resolve (resolve [] (cwd E)) (dirname to_file)) (make_relative E to_file fro_file item) =
         resolve (resolve (resolve [] (cwd E)) (dirname fro_file)) item"
proof -
  let ?p = "path_join (RelativePath (cwd E) (dirname fro_file) (dirname to_file)) item"
  let ?st = "resolve (resolve [] (cwd E)) (dirname to_file)"
  have "resolve ?st (make_relative E to_file fro_file item) = resolve ?st (normpath ?p)"
    using assms(3) resolve_trailing_slash [of "normpath ?p" ?st]
    by (simp add: make_relative_def Let_def)
  also have "\<dots> = resolve (resolve ?st (RelativePath (cwd E) (dirname fro_file) (dirname to_file))) item"
    by (simp add: resolve_normpath resolve_path_join)
  finally show ?thesis
    using resolve_RelativePath [OF assms(1)] by simp
qed

subsection \<open>Property\<close>

text \<open>
  Merging an item from one build file into another keeps the file it names:
  whenever \<open>MakePathRelative\<close> rewrites a string, the result denotes, relative to
  the directory of the receiving build file, what the item denoted relative to
  the directory it came from (for items and directories free of backslashes,
  which the code turns into slashes).
\<close>

theorem MakePathRelative_denotes:
  assumes "isabs (cwd E)" and "to_file \<noteq> fro_file" and "\<not> exception_match item"
    and "ch_backslash \<notin> set (normpath (path_join (RelativePath (cwd E) (dirname fro_file) (dirname to_file)) item))"
    and "MakePathRelative E to_file fro_file (GStr item) = Inr r"
  shows "\<exists>s. r = GStr s \<and>
    resolve (resolve (resolve [] (cwd E)) (dirname to_file)) s =
    resolve (resolve (resolve [] (cwd E)) (dirname fro_file)) item"
  using assms resolve_make_relative [OF assms(1) _ assms(4)]
  by (auto simp: MakePathRelative_def split: if_splits)

theorem MakePathRelative_denotes_witness:
  "MakePathRelative (base_env ''/r'') ''a/x.gyp'' ''b/c/y.gypi'' (GStr ''../src/'') = Inr (GStr ''../b/src/'') \<and>
   resolve (resolve (resolve [] ''/r'') (dirname ''a/x.gyp'')) ''../b/src/'' =
   resolve (resolve (resolve [] ''/r'') (dirname ''b/c/y.gypi'')) ''../src/''"
proof -
  have r: "MakePathRelative (base_env ''/r'') ''a/x.gyp'' ''b/c/y.gypi'' (GStr ''../src/'') =
      Inr (GStr ''../b/src/'')"
    by code_simp
  have "\<exists>s. GStr ''../b/src/'' = GStr s \<and>
    resolve (resolve (resolve [] (cwd (base_env ''/r''))) (dirname ''a/x.gyp'')) s =
    resolve (resolve (resolve [] (cwd (base_env ''/r''))) (dirname ''b/c/y.gypi'')) ''../src/''"
  proof (rule MakePathRelative_denotes [OF _ _ _ _ r])
    show "isabs (cwd (base_env ''/r''))" by code_simp
    show "''a/x.gyp'' \<noteq> ''b/c/y.gypi''" by simp
    show "\<not> exception_match ''../src/''" by code_simp
    show "ch_backslash \<notin> set (normpath (path_join (RelativePath (cwd (base_env ''/r''))
        (dirname ''b/c/y.gypi'') (dirname ''a/x.gyp'')) ''../src/''))" by code_simp
  qed
  with r show ?thesis by (simp add: base_env_def)
qed

end
