(* ===== verification/Input_Vars.thy ===== *)
theory Input_Vars
  imports Input_Base
begin

text \<open>
  The parts of variable expansion in \<open>tools/gyp/pylib/gyp/input.py\<close> that do not run
  commands: finding the bracket group of an expansion (\<open>FindEnclosingBracketGroup\<close>),
  recognising integers (\<open>IsStrCanonicalInt\<close>), and filling the table of variables from a
  dictionary (\<open>LoadAutomaticVariablesFromDict\<close>, \<open>LoadVariablesFromVariablesDict\<close>).
\<close>

subsection \<open>Bracket groups\<close>

fun opening_of :: "char \<Rightarrow> char option" where
  "opening_of c = (if c = CHR ''}'' then Some (CHR ''{'') else if c = CHR '']'' then Some (CHR ''['')
     else if c = CHR '')'' then Some (CHR ''('') else None)"

declare opening_of.simps [simp del]

definition is_opening :: "char \<Rightarrow> bool" where
  "is_opening c \<longleftrightarrow> c \<in> set ''{[(''"

fun bracket_loop :: "string \<Rightarrow> char list \<Rightarrow> int \<Rightarrow> int \<Rightarrow> int \<times> int" where
  "bracket_loop [] stack count start = (-1, -1)"
| "bracket_loop (c # cs) stack count start =
     (if is_opening c then bracket_loop cs (c # stack) (count + 1) (if start = -1 then count else start)
      else
        case opening_of c of
          None \<Rightarrow> bracket_loop cs stack (count + 1) start
        | Some b \<Rightarrow>
            (case stack of
               [] \<Rightarrow> (-1, -1)
             | last_bracket # st \<Rightarrow>
                 if last_bracket \<noteq> b then (-1, -1)
                 else if st = [] then (start, count + 1)
                 else bracket_loop cs st (count + 1) start))"

definition FindEnclosingBracketGroup :: "string \<Rightarrow> int \<times> int" where
  "FindEnclosingBracketGroup input = bracket_loop input [] 0 (-1)"

text \<open>Balanced text, and text that closes a stack of open brackets.\<close>

definition plain_char :: "char \<Rightarrow> bool" where
  "plain_char c \<longleftrightarrow> \<not> is_opening c \<and> opening_of c = None"

inductive balanced :: "string \<Rightarrow> bool" where
  empty: "balanced []"
| plain: "plain_char c \<Longrightarrow> balanced s \<Longrightarrow> balanced (c # s)"
| group: "opening_of c = Some b \<Longrightarrow> balanced s \<Longrightarrow> balanced t \<Longrightarrow> balanced (b # s @ c # t)"

inductive closes :: "char list \<Rightarrow> string \<Rightarrow> bool" where
  last: "opening_of c = Some b \<Longrightarrow> balanced s \<Longrightarrow> closes [b] (s @ [c])"
| more: "opening_of c = Some b \<Longrightarrow> balanced s \<Longrightarrow> closes (d # st) t \<Longrightarrow> closes (b # d # st) (s @ c # t)"

inductive_cases closes_one: "closes [b] s"
inductive_cases closes_more: "closes (b # d # st) s"
inductive_cases closes_none: "closes [] s"

lemma opening_facts: "opening_of c = Some b \<Longrightarrow> is_opening b \<and> \<not> is_opening c"
  by (auto simp: is_opening_def opening_of.simps split: if_splits)

lemma closes_plain: "plain_char c \<Longrightarrow> closes st s \<Longrightarrow> closes st (c # s)"
proof (erule closes.cases, goal_cases)
  case (1 d b t)
  with closes.last [of d b "c # t"] balanced.plain show ?case by simp
next
  case (2 d b t e st' u)
  with closes.more [of d b "c # t" e st' u] balanced.plain show ?case by simp
qed

lemma closes_push:
  assumes "closes (b # d # st) s"
  shows "closes (d # st) (b # s)"
proof -
  from assms obtain c s' t where s: "s = s' @ c # t" and c: "opening_of c = Some b" "balanced s'"
    and t: "closes (d # st) t" by cases auto
  show ?thesis
  proof (cases st)
    case Nil
    with t obtain c' u where "t = u @ [c']" "opening_of c' = Some d" "balanced u" by cases auto
    with closes.last [of c' d "b # s' @ c # u"] balanced.group [OF c, of u] s Nil show ?thesis
      by simp
  next
    case (Cons d' st')
    with t obtain c' u t' where "t = u @ c' # t'" "opening_of c' = Some d" "balanced u" "closes (d' # st') t'"
      by cases auto
    with closes.more [of c' d "b # s' @ c # u" d' st' t'] balanced.group [OF c, of u] s Cons show ?thesis
      by simp
  qed
qed

lemma bracket_loop_balanced:
  "balanced u \<Longrightarrow> start \<noteq> -1 \<Longrightarrow> st \<noteq> [] \<Longrightarrow>
    bracket_loop (u @ r) st n start = bracket_loop r st (n + int (length u)) start"
proof (induction arbitrary: st n r rule: balanced.induct)
  case (plain c s)
  then show ?case by (simp add: plain_char_def algebra_simps)
next
  case (group c b s t)
  from opening_facts [OF group.hyps(1)] have o: "is_opening b" "\<not> is_opening c" by simp_all
  have "bracket_loop ((b # s @ c # t) @ r) st n start = bracket_loop (s @ c # t @ r) (b # st) (n + 1) start"
    using o group.prems by simp
  also have "\<dots> = bracket_loop (c # t @ r) (b # st) (n + 1 + int (length s)) start"
    by (rule group.IH(1)) (use group.prems in simp_all)
  also have "\<dots> = bracket_loop (t @ r) st (n + 1 + int (length s) + 1) start"
    using o group.hyps(1) group.prems by simp
  also have "\<dots> = bracket_loop r st (n + 1 + int (length s) + 1 + int (length t)) start"
    by (rule group.IH(2)) (use group.prems in simp_all)
  finally show ?case by (simp add: algebra_simps)
qed simp

lemma bracket_loop_sound:
  "bracket_loop cs st n start = (s, e) \<Longrightarrow> (s, e) \<noteq> (-1, -1) \<Longrightarrow> st \<noteq> [] \<Longrightarrow> start \<noteq> -1 \<Longrightarrow>
    s = start \<and> (\<exists>v post. cs = v @ post \<and> closes st v \<and> e = n + int (length v))"
proof (induction cs arbitrary: st n)
  case (Cons c cs)
  obtain d st' where st: "st = d # st'" using Cons.prems(3) by (cases st) auto
  show ?case
  proof (cases "is_opening c")
    case True
    with Cons.prems have "bracket_loop cs (c # st) (n + 1) start = (s, e)" by simp
    from Cons.IH [OF this Cons.prems(2)] Cons.prems(4) obtain v post where
      v: "s = start" "cs = v @ post" "closes (c # st) v" "e = n + 1 + int (length v)" by auto
    from v(3) closes_push [of c d st' v] st have "closes st (c # v)" by simp
    with v show ?thesis by (intro conjI exI [of _ "c # v"] exI [of _ post]) simp_all
  next
    case no: False
    show ?thesis
    proof (cases "opening_of c")
      case None
      with no Cons.prems have "bracket_loop cs st (n + 1) start = (s, e)" by simp
      from Cons.IH [OF this Cons.prems(2-4)] obtain v post where
        v: "s = start" "cs = v @ post" "closes st v" "e = n + 1 + int (length v)" by auto
      from None no have "plain_char c" by (simp add: plain_char_def)
      with v closes_plain show ?thesis by (intro conjI exI [of _ "c # v"] exI [of _ post]) simp_all
    next
      case (Some b)
      with no Cons.prems st have b: "d = b" by (auto split: if_splits)
      show ?thesis
      proof (cases st')
        case Nil
        with closes.last [OF Some balanced.empty] Some no Cons.prems st b show ?thesis
          by (intro conjI exI [of _ "[c]"] exI [of _ cs]) auto
      next
        case (Cons d' st'')
        with Some no \<open>bracket_loop (c # cs) st n start = (s, e)\<close> st b
        have "bracket_loop cs st' (n + 1) start = (s, e)" by simp
        from Cons.IH [OF this \<open>(s, e) \<noteq> (-1, -1)\<close> _ \<open>start \<noteq> -1\<close>] Cons obtain v post where
          v: "s = start" "cs = v @ post" "closes st' v" "e = n + 1 + int (length v)" by auto
        with closes.more [OF Some balanced.empty, of d' st'' v] Cons st b show ?thesis
          by (intro conjI exI [of _ "c # v"] exI [of _ post]) simp_all
      qed
    qed
  qed
qed simp

lemma bracket_loop_prefix:
  "\<forall>c \<in> set pre. plain_char c \<Longrightarrow>
    bracket_loop (pre @ r) [] n (-1) = bracket_loop r [] (n + int (length pre)) (-1)"
proof (induction pre arbitrary: n)
  case (Cons c pre)
  then show ?case by (simp add: plain_char_def algebra_simps)
qed simp

lemma plain_prefix_split:
  "\<exists>pre r. input = pre @ r \<and> (\<forall>c \<in> set pre. plain_char c) \<and> (r = [] \<or> \<not> plain_char (hd r))"
proof (intro exI conjI)
  show "input = takeWhile plain_char input @ dropWhile plain_char input" by simp
  show "\<forall>c \<in> set (takeWhile plain_char input). plain_char c" using set_takeWhileD by fast
  show "dropWhile plain_char input = [] \<or> \<not> plain_char (hd (dropWhile plain_char input))"
    using hd_dropWhile [of plain_char input] by blast
qed

text \<open>
  (C33) The group found is the first bracket of the text up to the bracket that matches it,
  with balanced text in between; there is no group exactly when the first bracket
  closes, or is never matched.
\<close>

theorem FindEnclosingBracketGroup_exact:
  assumes "0 \<le> s"
  shows "FindEnclosingBracketGroup input = (s, e) \<longleftrightarrow>
    (\<exists>pre b u c post. input = pre @ b # u @ c # post \<and> (\<forall>x \<in> set pre. plain_char x) \<and>
      opening_of c = Some b \<and> balanced u \<and> s = int (length pre) \<and> e = s + int (length u) + 2)"
    (is "?L \<longleftrightarrow> ?R")
proof
  assume ?R
  then obtain pre b u c post where i: "input = pre @ b # u @ c # post" and p: "\<forall>x \<in> set pre. plain_char x"
    and c: "opening_of c = Some b" and u: "balanced u" and se: "s = int (length pre)" "e = s + int (length u) + 2"
    by blast
  note o = opening_facts [OF c]
  have "FindEnclosingBracketGroup input = bracket_loop (b # u @ c # post) [] (int (length pre)) (-1)"
    unfolding FindEnclosingBracketGroup_def i using bracket_loop_prefix [OF p, of _ 0] by simp
  also have "\<dots> = bracket_loop (u @ c # post) [b] (s + 1) s" using o se by simp
  also have "\<dots> = bracket_loop (c # post) [b] (s + 1 + int (length u)) s"
    by (rule bracket_loop_balanced [OF u]) (use assms in simp_all)
  also have "\<dots> = (s, e)" using o c se by simp
  finally show ?L .
next
  assume L: ?L
  obtain pre r where i: "input = pre @ r" and p: "\<forall>c \<in> set pre. plain_char c"
    and r: "r = [] \<or> \<not> plain_char (hd r)" using plain_prefix_split by blast
  have run: "bracket_loop r [] (int (length pre)) (-1) = (s, e)"
    using L unfolding FindEnclosingBracketGroup_def i using bracket_loop_prefix [OF p, of r 0] by simp
  with assms obtain b cs where rb: "r = b # cs" by (cases r) auto
  have ob: "is_opening b"
    using r run rb assms by (auto simp: plain_char_def split: option.splits if_splits)
  have "bracket_loop cs [b] (int (length pre) + 1) (int (length pre)) = (s, e)" using run rb ob by simp
  from bracket_loop_sound [OF this] assms obtain v post where
    v: "s = int (length pre)" "cs = v @ post" "closes [b] v" "e = int (length pre) + 1 + int (length v)" by auto
  from v(3) obtain c u where "v = u @ [c]" "opening_of c = Some b" "balanced u" by cases auto
  with v i rb p show ?R by (intro exI [of _ pre] exI [of _ b] exI [of _ u] exI [of _ c] exI [of _ post]) simp
qed

theorem FindEnclosingBracketGroup_exact_witness:
  "FindEnclosingBracketGroup ''<(foo <(bar)) blah'' = (1, 13) \<and>
   (\<exists>pre b u c post. ''<(foo <(bar)) blah'' = pre @ b # u @ c # post \<and> balanced u \<and> int (length pre) = 1)"
proof
  show run: "FindEnclosingBracketGroup ''<(foo <(bar)) blah'' = (1, 13)" by code_simp
  have "0 \<le> (1 :: int)" by simp
  from iffD1 [OF FindEnclosingBracketGroup_exact [OF this] run]
  show "\<exists>pre b u c post. ''<(foo <(bar)) blah'' = pre @ b # u @ c # post \<and> balanced u \<and> int (length pre) = 1"
    by (elim exE conjE) (intro exI conjI, assumption+, rule sym)
qed

subsection \<open>Canonical integers\<close>

text \<open>\<open>canonical_int_re\<close>: \<open>$\<close> also matches before a final line end.\<close>

definition canonical_digits :: "string \<Rightarrow> bool" where
  "canonical_digits s \<longleftrightarrow>
     s = ''0'' \<or>
     (let d = (case s of c # t \<Rightarrow> if c = CHR ''-'' then t else s | [] \<Rightarrow> []) in
      d \<noteq> [] \<and> is_digit (hd d) \<and> hd d \<noteq> CHR ''0'' \<and> (\<forall>c \<in> set d. is_digit c))"

definition IsStrCanonicalInt :: "gval \<Rightarrow> bool" where
  "IsStrCanonicalInt v =
     (case v of
        GStr s \<Rightarrow> canonical_digits s \<or> (\<exists>t. s = t @ [ch_newline] \<and> canonical_digits t)
      | _ \<Rightarrow> False)"

lemma IsStrCanonicalInt_code [code]:
  "IsStrCanonicalInt v =
     (case v of
        GStr s \<Rightarrow> canonical_digits s \<or> (s \<noteq> [] \<and> last s = ch_newline \<and> canonical_digits (butlast s))
      | _ \<Rightarrow> False)"
proof -
  have "(\<exists>t. s = t @ [ch_newline] \<and> canonical_digits t) \<longleftrightarrow>
      (s \<noteq> [] \<and> last s = ch_newline \<and> canonical_digits (butlast s))" for s :: string
    by (cases s rule: rev_cases) auto
  then show ?thesis by (simp add: IsStrCanonicalInt_def split: gval.splits)
qed

lemma digit_char_0 [simp]: "digit_char 0 = CHR ''0''"
  by code_simp

lemma show_int_0 [simp]: "show_int 0 = ''0''"
  by (simp add: show_int_def show_nat.simps)

lemma char_digit_zero: "is_digit c \<Longrightarrow> char_digit c = 0 \<longleftrightarrow> c = CHR ''0''"
proof
  assume c: "is_digit c" and z: "char_digit c = 0"
  from digit_char_char_digit [OF c] z show "c = CHR ''0''" by simp
qed (simp add: char_digit_def)

lemma read_nat_pos: "d \<noteq> [] \<Longrightarrow> is_digit (hd d) \<Longrightarrow> hd d \<noteq> CHR ''0'' \<Longrightarrow> 0 < read_nat 0 d"
proof (induction d rule: rev_induct)
  case (snoc c d)
  show ?case
  proof (cases "d = []")
    case True
    with snoc.prems char_digit_zero [of c] show ?thesis by simp
  next
    case False
    with snoc show ?thesis by (simp add: read_nat_append)
  qed
qed simp

lemma show_read_nat:
  "d \<noteq> [] \<Longrightarrow> \<forall>c \<in> set d. is_digit c \<Longrightarrow> hd d \<noteq> CHR ''0'' \<Longrightarrow> show_nat (read_nat 0 d) = d"
proof (induction d rule: rev_induct)
  case (snoc c d)
  have c: "is_digit c" "char_digit c < 10" using snoc.prems char_digit_less by simp_all
  show ?case
  proof (cases "d = []")
    case True
    with c show ?thesis by (simp add: show_nat.simps)
  next
    case False
    with snoc.prems have "0 < read_nat 0 d" by (intro read_nat_pos) auto
    moreover have "show_nat (read_nat 0 d) = d" using snoc False by simp
    ultimately show ?thesis
      using c by (subst show_nat.simps) (simp add: read_nat_append)
  qed
qed simp

lemma show_nat_head: "0 < n \<Longrightarrow> hd (show_nat n) \<noteq> CHR ''0''"
proof (induction n rule: show_nat.induct)
  case (1 n)
  show ?case
  proof (cases "n < 10")
    case True
    with "1.prems" have "char_digit (digit_char n) \<noteq> 0" by simp
    then have "digit_char n \<noteq> CHR ''0''" by (auto simp: char_digit_def)
    with True show ?thesis by (simp add: show_nat.simps)
  next
    case False
    then have "hd (show_nat (n div 10)) \<noteq> CHR ''0''" using "1.IH" by simp
    with False show ?thesis by (subst show_nat.simps) simp
  qed
qed

lemma show_read_int: "canonical_digits s \<Longrightarrow> show_int (read_int s) = s"
proof (cases "s = ''0''")
  case True
  then show ?thesis by (simp add: read_int_def char_digit_def)
next
  case False
  assume canon: "canonical_digits s"
  with False obtain c t where s: "s = c # t" by (cases s) (auto simp: canonical_digits_def)
  show ?thesis
  proof (cases "c = CHR ''-''")
    case True
    with canon s False have t: "t \<noteq> []" "\<forall>x \<in> set t. is_digit x" "hd t \<noteq> CHR ''0''"
      by (auto simp: canonical_digits_def Let_def)
    then have "0 < read_nat 0 t" using read_nat_pos by (metis list.set_sel(1))
    with show_read_nat [OF t] s True show ?thesis by (simp add: read_int_def show_int_def)
  next
    case no: False
    with canon s False have t: "s \<noteq> []" "\<forall>x \<in> set s. is_digit x" "hd s \<noteq> CHR ''0''"
      by (auto simp: canonical_digits_def Let_def)
    with show_read_nat [OF t] s no show ?thesis by (simp add: read_int_def show_int_def)
  qed
qed

lemma show_int_canonical: "canonical_digits (show_int i)"
proof -
  have pos: "show_nat n \<noteq> [] \<and> is_digit (hd (show_nat n)) \<and> hd (show_nat n) \<noteq> CHR ''0'' \<and>
      (\<forall>c \<in> set (show_nat n). is_digit c)" if "0 < n" for n
    using show_nat_digits [of n] show_nat_head [OF that] by simp
  have ne: "hd (show_nat n) \<noteq> CHR ''-''" for n
    using show_nat_digits [of n] by (metis list.set_sel(1) minus_not_digit show_nat_not_Nil)
  consider "i < 0" | "i = 0" | "0 < i" by linarith
  then show ?thesis
  proof cases
    case 1
    with pos [of "nat (- i)"] show ?thesis by (simp add: canonical_digits_def show_int_def Let_def)
  next
    case 2
    then show ?thesis by (simp add: canonical_digits_def)
  next
    case 3
    obtain x xs where x: "show_nat (nat i) = x # xs" by (cases "show_nat (nat i)") auto
    with pos [of "nat i"] ne [of "nat i"] 3 show ?thesis by (simp add: canonical_digits_def show_int_def Let_def)
  qed
qed

text \<open>
  A string that does not end in a line end is taken for an integer exactly when it is
  what \<open>str(int(s))\<close> prints, so that turning it into an integer loses nothing.
\<close>

theorem IsStrCanonicalInt_iff:
  assumes "s = [] \<or> last s \<noteq> ch_newline"
  shows "IsStrCanonicalInt (GStr s) \<longleftrightarrow> show_int (read_int s) = s"
proof
  assume "IsStrCanonicalInt (GStr s)"
  with assms have "canonical_digits s" by (auto simp: IsStrCanonicalInt_def)
  then show "show_int (read_int s) = s" by (rule show_read_int)
next
  assume "show_int (read_int s) = s"
  with show_int_canonical [of "read_int s"] show "IsStrCanonicalInt (GStr s)" by (simp add: IsStrCanonicalInt_def)
qed

theorem IsStrCanonicalInt_iff_witness:
  "IsStrCanonicalInt (GStr ''-42'') \<and> show_int (read_int ''-42'') = ''-42'' \<and> \<not> IsStrCanonicalInt (GStr ''042'')"
proof -
  have "IsStrCanonicalInt (GStr ''-42'')" "\<not> IsStrCanonicalInt (GStr ''042'')" by code_simp+
  with IsStrCanonicalInt_iff [of "''-42''"] show ?thesis by simp
qed

text \<open>A number followed by a line end is taken for an integer too, although it is not what \<open>str\<close> prints.\<close>

theorem IsStrCanonicalInt_line_end:
  "IsStrCanonicalInt (GStr (''5'' @ [ch_newline])) \<and> show_int (read_int ''5'') \<noteq> ''5'' @ [ch_newline]"
  by code_simp

subsection \<open>The table of variables\<close>

text \<open>A table of variables is a dictionary from names; \<open>the_dict_key is 'variables'\<close> compares interned literals.\<close>

type_synonym var_table = "(string \<times> gval) list"

definition loadable :: "gval \<Rightarrow> bool" where
  "loadable v \<longleftrightarrow> is_scalar v \<or> is_list v"

definition FixupPlatformCommand :: "bool \<Rightarrow> string \<Rightarrow> string" where
  "FixupPlatformCommand win32 cmd =
     (if win32 \<and> startswith cmd ''cat '' then ''type '' @ drop 4 cmd else cmd)"

definition FixupPlatformCommand_list :: "bool \<Rightarrow> string list \<Rightarrow> string list res" where
  "FixupPlatformCommand_list win32 cmd =
     (if win32
      then (case cmd of [] \<Rightarrow> Inl IndexError | c # cs \<Rightarrow> Inr (FixupPlatformCommand win32 c # cs))
      else Inr cmd)"

definition LoadAutomaticVariablesFromDict :: "var_table \<Rightarrow> gdict \<Rightarrow> var_table res" where
  "LoadAutomaticVariablesFromDict variables the_dict =
     foldE (\<lambda>vs (key, value).
         if loadable value then bindE (key_str key) (\<lambda>k. Inr (dict_set vs (''_'' @ k) value)) else Inr vs)
       variables the_dict"

definition load_variable ::
  "gdict \<Rightarrow> string option \<Rightarrow> var_table \<Rightarrow> gkey \<times> gval \<Rightarrow> var_table res" where
  "load_variable the_dict the_dict_key vs kv =
     (let (key, value) = kv in
      if \<not> loadable value then Inr vs
      else bindE (key_str key) (\<lambda>k.
        if endswith k ''%''
        then let variable_name = butlast k in
             if has_key vs variable_name then Inr vs
             else if the_dict_key = Some ''variables'' \<and> has_key the_dict (KStr variable_name)
             then Inr (dict_set vs variable_name (the (get the_dict variable_name)))
             else Inr (dict_set vs variable_name value)
        else Inr (dict_set vs k value)))"

definition LoadVariablesFromVariablesDict ::
  "var_table \<Rightarrow> gdict \<Rightarrow> string option \<Rightarrow> var_table res" where
  "LoadVariablesFromVariablesDict variables the_dict the_dict_key =
     bindE (case get the_dict ''variables'' of None \<Rightarrow> Inr [] | Some v \<Rightarrow> as_dict v) (\<lambda>d.
       foldE (load_variable the_dict the_dict_key) variables d)"

text \<open>The value a variable should have: what the section sets, else what it had, else the section's default.\<close>

definition section_value :: "gdict \<Rightarrow> string \<Rightarrow> gval option" where
  "section_value d n = (case get d n of Some v \<Rightarrow> if loadable v then Some v else None | None \<Rightarrow> None)"

definition loaded_value :: "gdict \<Rightarrow> string option \<Rightarrow> var_table \<Rightarrow> gdict \<Rightarrow> string \<Rightarrow> gval option" where
  "loaded_value the_dict the_dict_key vs d n =
     (case (if endswith n ''%'' then None else section_value d n) of
        Some v \<Rightarrow> Some v
      | None \<Rightarrow>
          (case dict_get vs n of
             Some w \<Rightarrow> Some w
           | None \<Rightarrow>
               (case section_value d (n @ ''%'') of
                  None \<Rightarrow> None
                | Some v \<Rightarrow>
                    if the_dict_key = Some ''variables'' \<and> has_key the_dict (KStr n)
                    then get the_dict n else Some v)))"

lemma endswith_percent: "endswith k ''%'' \<longleftrightarrow> (\<exists>m. k = m @ ''%'')"
  by (rule endswith_iff)

lemma section_value_snoc:
  "dict_wf (d @ [(KStr k, v)]) \<Longrightarrow>
    section_value (d @ [(KStr k, v)]) n = (if n = k then if loadable v then Some v else None else section_value d n)"
proof -
  assume "dict_wf (d @ [(KStr k, v)])"
  then have "map_of d (KStr k) = None" by (simp add: dict_wf_def map_of_eq_None_iff)
  then show ?thesis by (auto simp: section_value_def dict_get_def map_add_def split: option.splits)
qed

lemma section_value_absent: "dict_wf (d @ [(KStr k, v)]) \<Longrightarrow> section_value d k = None"
proof -
  assume "dict_wf (d @ [(KStr k, v)])"
  then have "map_of d (KStr k) = None" by (simp add: dict_wf_def map_of_eq_None_iff)
  then show ?thesis by (simp add: section_value_def dict_get_def)
qed

lemma section_value_other: "section_value (d @ [(KInt i, v)]) n = section_value d n"
  by (simp add: section_value_def dict_get_def map_add_def split: option.splits)

lemma loaded_value_cong:
  assumes "section_value d' (n @ ''%'') = section_value d (n @ ''%'')"
    and "\<not> endswith n ''%'' \<Longrightarrow> section_value d' n = section_value d n"
  shows "loaded_value td key vs d' n = loaded_value td key vs d n"
proof -
  have "(if endswith n ''%'' then None else section_value d' n) = (if endswith n ''%'' then None else section_value d n)"
    using assms(2) by simp
  then show ?thesis unfolding loaded_value_def assms(1) by (simp only:)
qed

lemma loaded_value_keep:
  assumes "loaded_value td key vs d n = Some w" and "section_value d (n @ ''%'') = None"
    and "\<not> endswith n ''%'' \<Longrightarrow> section_value d' n = section_value d n"
  shows "loaded_value td key vs d' n = Some w"
  using assms by (cases "endswith n ''%''"; cases "section_value d n"; cases "dict_get vs n")
    (simp_all add: loaded_value_def)

lemma loaded_value_default:
  assumes "loaded_value td key vs d n = None" and "section_value d' (n @ ''%'') = Some v"
    and "\<not> endswith n ''%'' \<Longrightarrow> section_value d' n = section_value d n"
  shows "loaded_value td key vs d' n =
    (if key = Some ''variables'' \<and> has_key td (KStr n) then get td n else Some v)"
  using assms by (cases "endswith n ''%''"; cases "section_value d n"; cases "dict_get vs n")
    (simp_all add: loaded_value_def)

lemma load_variable_step:
  assumes vs: "\<And>n. dict_get vs' n = loaded_value the_dict key vs d n"
    and step: "load_variable the_dict key vs' kv = Inr vs''" and wf: "dict_wf (d @ [kv])"
  shows "dict_get vs'' n = loaded_value the_dict key vs (d @ [kv]) n"
proof -
  obtain k v where kv: "kv = (k, v)" by (cases kv)
  show ?thesis
  proof (cases "loadable v")
    case False
    with step kv have same: "vs'' = vs'" by (simp add: load_variable_def)
    have eq: "section_value (d @ [kv]) m = section_value d m" for m
    proof (cases k)
      case (KStr s)
      with False wf kv section_value_snoc [of d s v m] section_value_absent [of d s v] show ?thesis by auto
    qed (simp add: kv section_value_other)
    show ?thesis unfolding same vs loaded_value_def eq ..
  next
    case True
    with step kv obtain s where k: "k = KStr s" by (cases k) (auto simp: load_variable_def)
    note sv = section_value_snoc [OF wf [unfolded kv k]]
    have none: "section_value d s = None"
      using wf section_value_absent [of d s v] by (simp add: kv k)
    show ?thesis
    proof (cases "endswith s ''%''")
      case False
      with step kv k True have vs'': "vs'' = dict_set vs' s v" by (simp add: load_variable_def)
      have pn: "n @ ''%'' \<noteq> s" using False by (auto simp: endswith_percent)
      show ?thesis
      proof (cases "n = s")
        case True
        with False sv kv k \<open>loadable v\<close> vs'' show ?thesis by (simp add: loaded_value_def)
      next
        case other: False
        have "loaded_value the_dict key vs (d @ [kv]) n = loaded_value the_dict key vs d n"
          by (rule loaded_value_cong) (use pn other sv kv k in simp_all)
        with vs'' other vs show ?thesis by simp
      qed
    next
      case pct: True
      then obtain m where s: "s = m @ ''%''" by (auto simp: endswith_percent)
      have direct: "section_value (d @ [kv]) n = section_value d n" if "\<not> endswith n ''%''"
        using that pct sv kv k by auto
      show ?thesis
      proof (cases "n = m")
        case False
        have same: "loaded_value the_dict key vs (d @ [kv]) n = loaded_value the_dict key vs d n"
          by (rule loaded_value_cong) (use False s sv kv k direct in simp_all)
        have "dict_get vs'' n = dict_get vs' n"
          using step kv k True pct s False by (auto simp: load_variable_def split: if_splits)
        with same vs show ?thesis by simp
      next
        case nm: True
        show ?thesis
        proof (cases "dict_get vs' m")
          case (Some w)
          with step kv k True pct s have "vs'' = vs'" by (simp add: load_variable_def)
          moreover have "loaded_value the_dict key vs (d @ [kv]) n = Some w"
            by (rule loaded_value_keep [of the_dict key vs d]) (use vs Some nm none s direct in simp_all)
          ultimately show ?thesis using Some nm by simp
        next
          case None
          have "loaded_value the_dict key vs (d @ [kv]) n =
              (if key = Some ''variables'' \<and> has_key the_dict (KStr n) then get the_dict n else Some v)"
            by (rule loaded_value_default [of the_dict key vs d]) (use vs None nm s sv kv k True direct in simp_all)
          with None step kv k True pct s nm show ?thesis
            by (auto simp: load_variable_def split: if_splits)
        qed
      qed
    qed
  qed
qed

lemma load_variables_value:
  "foldE (load_variable the_dict key) vs d = Inr vs' \<Longrightarrow> dict_wf d \<Longrightarrow>
    dict_get vs' n = loaded_value the_dict key vs d n"
proof (induction d arbitrary: vs' n rule: rev_induct)
  case Nil
  then show ?case by (simp add: loaded_value_def section_value_def split: option.splits)
next
  case (snoc kv d)
  from snoc.prems(1) obtain vs1 where vs1: "foldE (load_variable the_dict key) vs d = Inr vs1"
    and step: "load_variable the_dict key vs1 kv = Inr vs'" by (auto simp: foldE_append bindE_Inr_iff)
  have wf: "dict_wf d" using snoc.prems(2) by (simp add: dict_wf_def)
  show ?case by (rule load_variable_step [OF snoc.IH [OF vs1 wf] step snoc.prems(2)])
qed

text \<open>
  Loading a \<open>variables\<close> section gives each variable its value whatever the order in which
  the section is read: a plain entry sets it, a default (a name with \<open>%\<close>) is used
  only where neither the section nor the enclosing scope sets it, and in a nested
  \<open>variables\<close> section the enclosing section's own entry replaces the default.
\<close>

theorem LoadVariables_order_free:
  assumes "LoadVariablesFromVariablesDict vs the_dict key = Inr vs'"
    and "get the_dict ''variables'' = Some (GDict d)" and "dict_wf d"
  shows "dict_get vs' n = loaded_value the_dict key vs d n"
  using assms load_variables_value [of the_dict key vs d vs'] by (simp add: LoadVariablesFromVariablesDict_def)

theorem LoadVariables_order_free_witness:
  "\<exists>vs'. LoadVariablesFromVariablesDict [(''os'', GStr ''mac'')]
      [(KStr ''variables'', GDict [(KStr ''os%'', GStr ''linux''), (KStr ''x%'', GInt 1), (KStr ''x'', GInt 2)])] None = Inr vs' \<and>
     dict_get vs' ''os'' = Some (GStr ''mac'') \<and> dict_get vs' ''x'' = Some (GInt 2)"
proof -
  let ?d = "[(KStr ''os%'', GStr ''linux''), (KStr ''x%'', GInt 1), (KStr ''x'', GInt 2)]"
  let ?t = "[(KStr ''variables'', GDict ?d)]"
  have "\<not> isl (LoadVariablesFromVariablesDict [(''os'', GStr ''mac'')] ?t None)" by code_simp
  then obtain vs' where r: "LoadVariablesFromVariablesDict [(''os'', GStr ''mac'')] ?t None = Inr vs'"
    by (cases "LoadVariablesFromVariablesDict [(''os'', GStr ''mac'')] ?t None") auto
  have d: "get ?t ''variables'' = Some (GDict ?d)" "dict_wf ?d" by (simp_all add: dict_wf_def)
  have "loaded_value ?t None [(''os'', GStr ''mac'')] ?d ''os'' = Some (GStr ''mac'')"
    "loaded_value ?t None [(''os'', GStr ''mac'')] ?d ''x'' = Some (GInt 2)" by code_simp+
  with LoadVariables_order_free [OF r d] r show ?thesis by auto
qed

end
