(* ===== verification/Input_Merge.thy ===== *)
theory Input_Merge
  imports Input_Base
begin

text \<open>
  \<open>MergeLists\<close> and \<open>MergeDicts\<close> of \<open>tools/gyp/pylib/gyp/input.py\<close>: the merge of one
  build-file dictionary into another, with the list policies a key selects by its
  last character (\<open>=\<close> replace, \<open>+\<close> prepend, \<open>?\<close> set if absent, otherwise append)
  and the exceptions of incompatible types and policies.  The code mutates \<open>to\<close>;
  the model returns it.  The two functions call each other, over the structure of
  \<open>fro\<close>.
\<close>

subsection \<open>Merging lists: one item\<close>

text \<open>The loop's state: the list merged into, \<open>hashable_to_set\<close> and \<open>prepend_index\<close>.\<close>

record mstate =
  ms_to :: "gval list"
  hashable_to_set :: "gval list"
  prepend_index :: nat

definition is_hashable :: "gval \<Rightarrow> bool" where
  "is_hashable x = (\<not> is_list x \<and> \<not> is_dict x)"

definition is_in_set_or_list :: "gval \<Rightarrow> gval list \<Rightarrow> gval list \<Rightarrow> bool" where
  "is_in_set_or_list x s l = (if is_hashable x then x \<in> set s else \<exists>y \<in> set l. py_eq x y)"

text \<open>A string that begins with a dash may occur many times; any other scalar only once.\<close>

fun is_singleton :: "gval \<Rightarrow> bool" where
  "is_singleton (GStr s) = (\<not> startswith s ''-'')"
| "is_singleton (GInt i) = True"
| "is_singleton _ = False"

definition merge_scalar_item :: "gyp_env \<Rightarrow> string \<Rightarrow> string \<Rightarrow> bool \<Rightarrow> gval \<Rightarrow> gval res" where
  "merge_scalar_item E to_file fro_file is_paths item =
     (if is_paths then MakePathRelative E to_file fro_file item else Inr item)"

definition set_insert :: "'a \<Rightarrow> 'a list \<Rightarrow> 'a list" where
  "set_insert x s = (if x \<in> set s then s else x # s)"

definition merge_place :: "bool \<Rightarrow> bool \<Rightarrow> gval \<Rightarrow> mstate \<Rightarrow> mstate" where
  "merge_place app singleton to_item st =
     (let hset' = (if is_hashable to_item then set_insert to_item (hashable_to_set st)
                   else hashable_to_set st)
      in if app
         then if \<not> singleton \<or> \<not> is_in_set_or_list to_item (hashable_to_set st) (ms_to st)
              then st\<lparr>ms_to := ms_to st @ [to_item], hashable_to_set := hset'\<rparr>
              else st
         else let to' = (if singleton then removeAll to_item (ms_to st) else ms_to st)
              in st\<lparr>ms_to := take (prepend_index st) to' @ to_item # drop (prepend_index st) to',
                    hashable_to_set := hset',
                    prepend_index := prepend_index st + 1\<rparr>)"

definition merge_init :: "gval list \<Rightarrow> mstate" where
  "merge_init to = \<lparr>ms_to = to, hashable_to_set = filter is_hashable to, prepend_index = 0\<rparr>"

subsection \<open>Merging dictionaries: one key\<close>

definition bad_merge :: "gdict \<Rightarrow> gkey \<Rightarrow> gval \<Rightarrow> bool" where
  "bad_merge to k v =
     (case dict_get to k of
        None \<Rightarrow> False
      | Some w \<Rightarrow> if is_scalar v then \<not> is_scalar w else \<not> same_class v w)"

definition bad_merge_error :: "gdict \<Rightarrow> gkey \<Rightarrow> gval \<Rightarrow> exn" where
  "bad_merge_error to k v =
     TypeError (''Attempt to merge dict value of type '' @ class_name v @
       '' into incompatible type '' @ class_name (the (dict_get to k)) @ '' for key '' @
       (case k of KStr s \<Rightarrow> s | KInt i \<Rightarrow> []))"

definition merge_scalar :: "gyp_env \<Rightarrow> string \<Rightarrow> string \<Rightarrow> gkey \<Rightarrow> gval \<Rightarrow> gval res" where
  "merge_scalar E to_file fro_file k v =
     bindE (key_str k) (\<lambda>s.
       if IsPathSection E s then MakePathRelative E to_file fro_file v else Inr v)"

text \<open>What the last character of the key selects: the base key, the keys that may not
  stand beside it in \<open>fro\<close>, and whether items are appended.\<close>

record list_policy =
  lp_ext :: char
  list_base :: string
  lists_incompatible :: "string list"
  lp_append :: bool

definition list_policy_of :: "string \<Rightarrow> list_policy res" where
  "list_policy_of k =
     (if k = [] then Inl IndexError
      else let ext = last k; base = butlast k in
        if ext = CHR ''='' then
          Inr \<lparr>lp_ext = ext, list_base = base, lists_incompatible = [base, base @ ''?''], lp_append = True\<rparr>
        else if ext = CHR ''+'' then
          Inr \<lparr>lp_ext = ext, list_base = base, lists_incompatible = [base @ ''='', base @ ''?''], lp_append = False\<rparr>
        else if ext = CHR ''?'' then
          Inr \<lparr>lp_ext = ext, list_base = base,
               lists_incompatible = [base, base @ ''='', base @ ''+''], lp_append = True\<rparr>
        else
          Inr \<lparr>lp_ext = ext, list_base = k, lists_incompatible = [k @ ''='', k @ ''?''], lp_append = True\<rparr>)"

text \<open>
  Everything \<open>MergeDicts\<close> does with a list value before it calls \<open>MergeLists\<close>:
  the result is \<open>None\<close> where the code continues with the next key, and otherwise
  \<open>to\<close>, the base key, the list found there and the append flag.
\<close>

definition merge_list_prepare ::
  "gdict \<Rightarrow> gdict \<Rightarrow> gkey \<Rightarrow> (gdict \<times> string \<times> gval list \<times> bool) option res" where
  "merge_list_prepare to fro key =
     bindE (key_str key) (\<lambda>k. bindE (list_policy_of k) (\<lambda>p.
       let base = list_base p;
           to1 = (if lp_ext p = CHR ''='' then put to base (GList []) else to)
       in case find (\<lambda>i. has_key fro (KStr i)) (lists_incompatible p) of
            Some i \<Rightarrow> Inl (GypError (''Incompatible list policies '' @ k @ '' and '' @ i))
          | None \<Rightarrow>
              (case get to1 base of
                 None \<Rightarrow> Inr (Some (put to1 base (GList []), base, [], lp_append p))
               | Some w \<Rightarrow>
                   if lp_ext p = CHR ''?'' then Inr None
                   else (case w of
                           GList l \<Rightarrow> Inr (Some (to1, base, l, lp_append p))
                         | _ \<Rightarrow> Inl (TypeError (''Attempt to merge dict value of type list'' @
                                   '' into incompatible type '' @ class_name w @
                                   '' for key '' @ base @ ''('' @ k @ '')''))))))"

subsection \<open>The two loops\<close>

function (sequential)
  MergeListsLoop :: "gyp_env \<Rightarrow> string \<Rightarrow> string \<Rightarrow> bool \<Rightarrow> bool \<Rightarrow> mstate \<Rightarrow> gval list \<Rightarrow> mstate res"
  and MergeDictsLoop :: "gyp_env \<Rightarrow> string \<Rightarrow> string \<Rightarrow> gdict \<Rightarrow> gdict \<Rightarrow> gdict \<Rightarrow> gdict res" where
  "MergeListsLoop E to_file fro_file is_paths app st [] = Inr st"
| "MergeListsLoop E to_file fro_file is_paths app st (item # items) =
     bindE
       (case item of
          GDict d \<Rightarrow> bindE (MergeDictsLoop E to_file fro_file d [] d) (\<lambda>t. Inr (GDict t))
        | GList l \<Rightarrow> bindE (MergeListsLoop E to_file fro_file False True (merge_init []) l)
                            (\<lambda>r. Inr (GList (ms_to r)))
        | GOther c t \<Rightarrow> Inl (TypeError (''Attempt to merge list item of unsupported type '' @ c))
        | _ \<Rightarrow> merge_scalar_item E to_file fro_file is_paths item)
       (\<lambda>to_item. MergeListsLoop E to_file fro_file is_paths app
                    (merge_place app (is_singleton item) to_item st) items)"
| "MergeDictsLoop E to_file fro_file fro to [] = Inr to"
| "MergeDictsLoop E to_file fro_file fro to ((k, v) # items) =
     (if bad_merge to k v then Inl (bad_merge_error to k v)
      else case v of
        GDict d \<Rightarrow>
          (let t = (case dict_get to k of Some (GDict t) \<Rightarrow> t | _ \<Rightarrow> [])
           in bindE (MergeDictsLoop E to_file fro_file d t d) (\<lambda>t'.
                MergeDictsLoop E to_file fro_file fro (dict_set to k (GDict t')) items))
      | GList l \<Rightarrow>
          bindE (merge_list_prepare to fro k) (\<lambda>prep.
            case prep of
              None \<Rightarrow> MergeDictsLoop E to_file fro_file fro to items
            | Some (to', base, tol, app) \<Rightarrow>
                bindE (MergeListsLoop E to_file fro_file (IsPathSection E base) app (merge_init tol) l)
                  (\<lambda>r. MergeDictsLoop E to_file fro_file fro (put to' base (GList (ms_to r))) items))
      | GOther c t \<Rightarrow>
          Inl (TypeError (''Attempt to merge dict value of unsupported type '' @ c @ '' for key '' @
            (case k of KStr s \<Rightarrow> s | KInt i \<Rightarrow> [])))
      | _ \<Rightarrow>
          bindE (merge_scalar E to_file fro_file k v) (\<lambda>v'.
            MergeDictsLoop E to_file fro_file fro (dict_set to k v') items))"
  by pat_completeness auto

termination
proof (relation "measure (\<lambda>x. case x of
      Inl (E, tf, ff, ip, ap, st, items) \<Rightarrow> size_list size items
    | Inr (E, tf, ff, fro, to, items) \<Rightarrow> size_list (size_prod (\<lambda>x. 0) size) items)")
qed auto

definition MergeLists ::
  "gyp_env \<Rightarrow> gval list \<Rightarrow> gval list \<Rightarrow> string \<Rightarrow> string \<Rightarrow> bool \<Rightarrow> bool \<Rightarrow> gval list res" where
  "MergeLists E to fro to_file fro_file is_paths app =
     bindE (MergeListsLoop E to_file fro_file is_paths app (merge_init to) fro)
       (\<lambda>st. Inr (ms_to st))"

definition MergeDicts :: "gyp_env \<Rightarrow> gdict \<Rightarrow> gdict \<Rightarrow> string \<Rightarrow> string \<Rightarrow> gdict res" where
  "MergeDicts E to fro to_file fro_file = MergeDictsLoop E to_file fro_file fro to fro"

subsection \<open>Well-formedness is kept\<close>

lemma MakePathRelative_scalar:
  "MakePathRelative E tf ff v = Inr w \<Longrightarrow> is_scalar v \<Longrightarrow> is_scalar w"
  by (auto simp: MakePathRelative_def split: if_splits gval.splits)

lemma merge_scalar_item_scalar:
  "merge_scalar_item E tf ff ip v = Inr w \<Longrightarrow> is_scalar v \<Longrightarrow> is_scalar w"
  by (auto simp: merge_scalar_item_def intro: MakePathRelative_scalar split: if_splits)

lemma merge_scalar_scalar:
  "merge_scalar E tf ff k v = Inr w \<Longrightarrow> is_scalar v \<Longrightarrow> is_scalar w"
  by (auto simp: merge_scalar_def bindE_Inr_iff intro: MakePathRelative_scalar split: if_splits)

lemma set_merge_place:
  "set (ms_to (merge_place app sg x st)) \<subseteq> insert x (set (ms_to st))"
  by (auto simp: merge_place_def Let_def dest: in_set_takeD in_set_dropD)

definition wf_all :: "gval list \<Rightarrow> bool" where
  "wf_all xs \<longleftrightarrow> (\<forall>x \<in> set xs. wf_val x)"

lemma wf_all_simps [simp]:
  "wf_all []" "wf_all (x # xs) \<longleftrightarrow> wf_val x \<and> wf_all xs" "wf_val (GList xs) \<longleftrightarrow> wf_all xs"
  by (simp_all add: wf_all_def)

declare wf_val.simps(3) [simp del]

lemma wf_all_merge_place: "wf_val x \<Longrightarrow> wf_all (ms_to st) \<Longrightarrow> wf_all (ms_to (merge_place app sg x st))"
  using set_merge_place [of app sg x st] by (auto simp: wf_all_def)

lemma merge_list_prepare_wf:
  assumes "merge_list_prepare to fro k = Inr (Some (to', base, tol, app))" and "wf_dict to"
  shows "wf_dict to' \<and> wf_all tol"
proof -
  have "wf_dict (put to b (GList []))" for b using assms(2) by (intro wf_dict_set) simp_all
  moreover have "wf_dict (put (put to b (GList [])) b (GList []))" for b
    using assms(2) by (intro wf_dict_set) simp_all
  moreover have "get d b = Some (GList l) \<Longrightarrow> wf_dict d \<Longrightarrow> wf_all l" for d b l
    using wf_dict_get [of d "KStr b" "GList l"] by simp
  ultimately show ?thesis
    using assms
    by (auto simp: merge_list_prepare_def bindE_Inr_iff Let_def
        split: option.splits if_splits gval.splits simp del: wf_val.simps)
qed

lemma merge_loops_wf:
  "MergeListsLoop E tf ff ip app st items = Inr st' \<Longrightarrow> wf_all (ms_to st) \<Longrightarrow> wf_all items \<Longrightarrow>
     wf_all (ms_to st')"
  "MergeDictsLoop E tf ff fro to its = Inr r \<Longrightarrow> wf_dict to \<Longrightarrow> \<forall>p \<in> set its. wf_val (snd p) \<Longrightarrow>
     wf_dict r"
proof (induction E tf ff ip app st items and E tf ff fro to its
    arbitrary: st' and r rule: MergeListsLoop_MergeDictsLoop.induct)
  case (2 E tf ff ip app st item items)
  from "2.prems"(1) obtain to_item where
    item: "(case item of
          GDict d \<Rightarrow> bindE (MergeDictsLoop E tf ff d [] d) (\<lambda>t. Inr (GDict t))
        | GList l \<Rightarrow> bindE (MergeListsLoop E tf ff False True (merge_init []) l)
                            (\<lambda>r. Inr (GList (ms_to r)))
        | GOther c t \<Rightarrow> Inl (TypeError (''Attempt to merge list item of unsupported type '' @ c))
        | _ \<Rightarrow> merge_scalar_item E tf ff ip item) = Inr to_item"
    and rest: "MergeListsLoop E tf ff ip app (merge_place app (is_singleton item) to_item st) items = Inr st'"
    by (auto simp: bindE_Inr_iff)
  have "wf_val to_item"
  proof (cases item)
    case (GDict d)
    with item "2.IH"(2) "2.prems"(3) show ?thesis
      by (auto simp: bindE_Inr_iff dict_wf_def)
  next
    case (GList l)
    with item "2.IH"(1) "2.prems"(3) show ?thesis
      by (auto simp: bindE_Inr_iff merge_init_def)
  qed (use item in \<open>auto dest: merge_scalar_item_scalar intro: wf_scalar\<close>)
  with "2.IH"(3) [OF item rest] "2.prems" show ?case
    by (simp add: wf_all_merge_place)
next
  case (4 E tf ff fro to k v items)
  from "4.prems"(1) have nb: "\<not> bad_merge to k v" by (auto split: if_splits)
  show ?case
  proof (cases v)
    case (GDict d)
    let ?t = "case dict_get to k of Some (GDict t) \<Rightarrow> t | _ \<Rightarrow> []"
    from "4.prems"(1) nb GDict obtain t' where
      t': "MergeDictsLoop E tf ff d ?t d = Inr t'"
      and rest: "MergeDictsLoop E tf ff fro (dict_set to k (GDict t')) items = Inr r"
      by (auto simp: bindE_Inr_iff Let_def)
    have "wf_dict ?t"
      using "4.prems"(2) by (auto simp del: wf_val.simps split: option.splits gval.splits
          dest: wf_dict_get) (simp_all add: dict_wf_def)
    with "4.IH"(6) [OF nb GDict refl] t' "4.prems"(3) GDict have "wf_dict t'" by simp
    then have "wf_dict (dict_set to k (GDict t'))"
      using "4.prems"(2) by (intro wf_dict_set)
    with "4.IH"(7) [OF nb GDict refl t'] rest "4.prems"(3) show ?thesis by simp
  next
    case (GList l)
    from "4.prems"(1) nb GList obtain prep where prep: "merge_list_prepare to fro k = Inr prep"
      and body: "(case prep of
              None \<Rightarrow> MergeDictsLoop E tf ff fro to items
            | Some (to', base, tol, app) \<Rightarrow>
                bindE (MergeListsLoop E tf ff (IsPathSection E base) app (merge_init tol) l)
                  (\<lambda>r. MergeDictsLoop E tf ff fro (put to' base (GList (ms_to r))) items)) = Inr r"
      by (auto simp: bindE_Inr_iff)
    show ?thesis
    proof (cases prep)
      case None
      with "4.IH"(3) [OF nb GList prep None] body "4.prems" show ?thesis by simp
    next
      case (Some q)
      obtain to' base tol app where q: "q = (to', base, tol, app)" by (cases q) auto
      from body Some q obtain m where
        m: "MergeListsLoop E tf ff (IsPathSection E base) app (merge_init tol) l = Inr m"
        and rest: "MergeDictsLoop E tf ff fro (put to' base (GList (ms_to m))) items = Inr r"
        by (auto simp: bindE_Inr_iff)
      have w: "wf_dict to' \<and> wf_all tol"
        using merge_list_prepare_wf [of to fro k to' base tol app] prep Some q "4.prems"(2) by simp
      then have "wf_all (ms_to m)"
        using "4.IH"(4) [OF nb GList prep Some q [symmetric] refl refl m] "4.prems"(3) GList
        by (simp add: merge_init_def)
      with w have "wf_dict (put to' base (GList (ms_to m)))"
        by (intro wf_dict_set) simp_all
      with "4.IH"(5) [OF nb GList prep Some q [symmetric] refl refl m rest] "4.prems"(3)
      show ?thesis by simp
    qed
  next
    case (GOther c t)
    with "4.prems"(1) nb show ?thesis by simp
  next
    case (GStr x)
    with "4.prems"(1) nb obtain v' where v': "merge_scalar E tf ff k v = Inr v'"
      and rest: "MergeDictsLoop E tf ff fro (dict_set to k v') items = Inr r"
      by (auto simp: bindE_Inr_iff)
    have "wf_val v'" using merge_scalar_scalar [OF v'] GStr by (auto intro: wf_scalar)
    then have "wf_dict (dict_set to k v')" using "4.prems"(2) by (intro wf_dict_set)
    with "4.IH"(1) [OF nb GStr] v' rest "4.prems"(3) GStr show ?thesis by simp
  next
    case (GInt x)
    with "4.prems"(1) nb obtain v' where v': "merge_scalar E tf ff k v = Inr v'"
      and rest: "MergeDictsLoop E tf ff fro (dict_set to k v') items = Inr r"
      by (auto simp: bindE_Inr_iff)
    have "wf_val v'" using merge_scalar_scalar [OF v'] GInt by (auto intro: wf_scalar)
    then have "wf_dict (dict_set to k v')" using "4.prems"(2) by (intro wf_dict_set)
    with "4.IH"(2) [OF nb GInt] v' rest "4.prems"(3) GInt show ?thesis by simp
  qed
qed simp_all

subsection \<open>Merging lists of strings and integers\<close>

text \<open>\<open>hashable_to_set\<close> is membership in \<open>to\<close>: the optimisation changes nothing.\<close>

definition hset_ok :: "mstate \<Rightarrow> bool" where
  "hset_ok st \<longleftrightarrow> (\<forall>x. is_hashable x \<longrightarrow> (x \<in> set (hashable_to_set st) \<longleftrightarrow> x \<in> set (ms_to st)))"

lemma scalar_hashable [simp]: "is_scalar x \<Longrightarrow> is_hashable x"
  by (cases x) (simp_all add: is_hashable_def)

lemma ms_to_init [simp]: "ms_to (merge_init to) = to"
  by (simp add: merge_init_def)

lemma hset_ok_init [simp]: "hset_ok (merge_init to)"
  by (simp add: hset_ok_def merge_init_def)

lemma set_insert_at: "set (take n xs @ x # drop n xs) = insert x (set xs)"
  by (metis Un_insert_right append_take_drop_id list.simps(15) set_append)

lemma hset_ok_place: "hset_ok st \<Longrightarrow> hset_ok (merge_place app sg x st)"
proof (cases app)
  case True
  then show "hset_ok st \<Longrightarrow> ?thesis"
    by (auto simp: hset_ok_def merge_place_def set_insert_def Let_def)
next
  case False
  then have "set (ms_to (merge_place app sg x st)) = insert x (set (ms_to st))"
    by (simp add: merge_place_def Let_def set_insert_at del: set_append)
  then show "hset_ok st \<Longrightarrow> ?thesis"
    using False by (auto simp: hset_ok_def) (auto simp: merge_place_def set_insert_def Let_def
        split: if_splits)
qed

lemma merge_place_append:
  "hset_ok st \<Longrightarrow> is_scalar x \<Longrightarrow>
    ms_to (merge_place True sg x st) =
      (if sg \<and> x \<in> set (ms_to st) then ms_to st else ms_to st @ [x])"
  by (simp add: merge_place_def is_in_set_or_list_def hset_ok_def Let_def)

lemma MergeListsLoop_scalar:
  "is_scalar item \<Longrightarrow> MergeListsLoop E tf ff ip app st (item # items) =
     bindE (merge_scalar_item E tf ff ip item)
       (\<lambda>x. MergeListsLoop E tf ff ip app (merge_place app (is_singleton item) x st) items)"
  by (cases item) simp_all

definition place_all :: "bool \<Rightarrow> mstate \<Rightarrow> (gval \<times> gval) list \<Rightarrow> mstate" where
  "place_all app = foldl (\<lambda>st (i, x). merge_place app (is_singleton i) x st)"

lemma place_all_simps [simp]:
  "place_all app st [] = st"
  "place_all app st ((i, x) # ps) = place_all app (merge_place app (is_singleton i) x st) ps"
  by (simp_all add: place_all_def)

lemma MergeListsLoop_scalars:
  "\<forall>x \<in> set fro. is_scalar x \<Longrightarrow>
    MergeListsLoop E tf ff ip app st fro =
      bindE (mapE (merge_scalar_item E tf ff ip) fro) (\<lambda>fro'. Inr (place_all app st (zip fro fro')))"
proof (induction fro arbitrary: st)
  case (Cons item items)
  show ?case
  proof (cases "merge_scalar_item E tf ff ip item")
    case (Inl e)
    with Cons.prems show ?thesis
      by (simp add: MergeListsLoop_scalar del: MergeListsLoop.simps(2))
  next
    case (Inr x)
    with Cons show ?thesis
      by (cases "mapE (merge_scalar_item E tf ff ip) items")
        (simp_all add: MergeListsLoop_scalar del: MergeListsLoop.simps(2))
  qed
qed simp

lemma mapE_scalars:
  "mapE (merge_scalar_item E tf ff ip) fro = Inr fro' \<Longrightarrow> \<forall>x \<in> set fro. is_scalar x \<Longrightarrow>
    length fro' = length fro \<and> (\<forall>x \<in> set fro'. is_scalar x)"
  by (auto simp: mapE_Inr_iff set_conv_nth intro: merge_scalar_item_scalar)

text \<open>How often an item that may repeat becomes \<open>x\<close>.\<close>

definition repeats :: "(gval \<times> gval) list \<Rightarrow> gval \<Rightarrow> nat" where
  "repeats ps x = length (filter (\<lambda>(i, y). \<not> is_singleton i \<and> y = x) ps)"

lemma place_all_append:
  "hset_ok st \<Longrightarrow> \<forall>(i, x) \<in> set ps. is_scalar x \<Longrightarrow>
   \<exists>news. ms_to (place_all True st ps) = ms_to st @ news \<and>
     set news \<subseteq> snd ` set ps \<and> snd ` set ps \<subseteq> set (ms_to st @ news) \<and>
     (\<forall>x. repeats ps x \<le> count_list news x \<and>
          count_list news x \<le> repeats ps x + (if x \<in> set (ms_to st) then 0 else 1))"
proof (induction ps arbitrary: st)
  case Nil
  then show ?case by (simp add: repeats_def)
next
  case (Cons p ps)
  obtain i y where p: "p = (i, y)" by (cases p)
  let ?st = "merge_place True (is_singleton i) y st"
  have to: "ms_to ?st = (if is_singleton i \<and> y \<in> set (ms_to st) then ms_to st else ms_to st @ [y])"
    using Cons.prems p by (simp add: merge_place_append)
  have "hset_ok ?st" using Cons.prems(1) by (rule hset_ok_place)
  then obtain news where n: "ms_to (place_all True ?st ps) = ms_to ?st @ news"
    "set news \<subseteq> snd ` set ps" "snd ` set ps \<subseteq> set (ms_to ?st @ news)"
    "\<forall>x. repeats ps x \<le> count_list news x \<and>
          count_list news x \<le> repeats ps x + (if x \<in> set (ms_to ?st) then 0 else 1)"
    using Cons.IH [of ?st] Cons.prems(2) by auto
  have r: "repeats (p # ps) x = (if \<not> is_singleton i \<and> y = x then 1 else 0) + repeats ps x" for x
    by (simp add: repeats_def p)
  show ?case
  proof (cases "is_singleton i \<and> y \<in> set (ms_to st)")
    case True
    with n to p r show ?thesis by (intro exI [of _ news]) auto
  next
    case False
    have "repeats (p # ps) x \<le> count_list (y # news) x \<and>
          count_list (y # news) x \<le> repeats (p # ps) x + (if x \<in> set (ms_to st) then 0 else 1)" for x
      using n(4) [rule_format, of x] False to r [of x] by (auto split: if_splits)
    with n(1-3) False to p show ?thesis by (intro exI [of _ "y # news"]) auto
  qed
qed

lemma place_all_prepend:
  "ms_to st = done @ rest \<Longrightarrow> prepend_index st = length done \<Longrightarrow>
   distinct (map snd ps) \<Longrightarrow> set done \<inter> snd ` set ps = {} \<Longrightarrow>
   ms_to (place_all False st ps) =
     done @ map snd ps @ filter (\<lambda>y. \<forall>i. is_singleton i \<longrightarrow> (i, y) \<notin> set ps) rest"
proof (induction ps arbitrary: st "done" rest)
  case (Cons p ps)
  obtain i y where p: "p = (i, y)" by (cases p)
  let ?st = "merge_place False (is_singleton i) y st"
  let ?rest = "if is_singleton i then removeAll y rest else rest"
  have y: "y \<notin> set done" using Cons.prems(4) p by auto
  have "ms_to ?st = (done @ [y]) @ ?rest" and "prepend_index ?st = length (done @ [y])"
    using Cons.prems(1,2) y by (auto simp: merge_place_def Let_def)
  moreover have "distinct (map snd ps)" "set (done @ [y]) \<inter> snd ` set ps = {}"
    using Cons.prems(3,4) p by auto
  ultimately have "ms_to (place_all False ?st ps) =
      (done @ [y]) @ map snd ps @ filter (\<lambda>y. \<forall>i. is_singleton i \<longrightarrow> (i, y) \<notin> set ps) ?rest"
    by (rule Cons.IH)
  moreover have "filter (\<lambda>z. \<forall>i. is_singleton i \<longrightarrow> (i, z) \<notin> set ps) ?rest =
      filter (\<lambda>z. \<forall>i. is_singleton i \<longrightarrow> (i, z) \<notin> set (p # ps)) rest"
    by (auto simp: removeAll_filter_not_eq p intro!: filter_cong)
  ultimately show ?case by (simp add: p)
qed simp

subsection \<open>Merging dictionaries key by key\<close>

lemma MergeDictsLoop_append:
  "MergeDictsLoop E tf ff fro to (xs @ ys) =
     bindE (MergeDictsLoop E tf ff fro to xs) (\<lambda>t. MergeDictsLoop E tf ff fro t ys)"
proof (induction xs arbitrary: to)
  case (Cons p xs)
  obtain k v where p: "p = (k, v)" by (cases p)
  show ?case
  proof (cases v)
    case (GStr s)
    with Cons p show ?thesis by (cases "merge_scalar E tf ff k v") auto
  next
    case (GInt s)
    with Cons p show ?thesis by (cases "merge_scalar E tf ff k v") auto
  next
    case (GDict d)
    with Cons p show ?thesis
      by (cases "MergeDictsLoop E tf ff d (case dict_get to k of Some (GDict t) \<Rightarrow> t | _ \<Rightarrow> []) d")
        (auto simp: Let_def)
  next
    case (GList l)
    show ?thesis
    proof (cases "merge_list_prepare to fro k")
      case (Inr prep)
      with Cons p GList show ?thesis
        by (auto simp: bindE_def split: option.splits sum.splits)
    qed (use p GList in auto)
  qed (use p in auto)
qed simp

lemma MergeDictsLoop_ConsE:
  assumes "MergeDictsLoop E tf ff fro to (p # items) = Inr r"
  obtains to' where "MergeDictsLoop E tf ff fro to [p] = Inr to'"
    and "MergeDictsLoop E tf ff fro to' items = Inr r"
proof -
  have "bindE (MergeDictsLoop E tf ff fro to [p]) (\<lambda>t. MergeDictsLoop E tf ff fro t items) = Inr r"
    using assms MergeDictsLoop_append [of E tf ff fro to "[p]" items]
    by (simp only: append_Cons append_Nil)
  then show thesis by (rule bindE_InrE) (rule that)
qed

lemma merge_item_cases [consumes 1, case_names scalar dict skip list]:
  assumes "MergeDictsLoop E tf ff fro to [(k, v)] = Inr to'"
  obtains v' where "is_scalar v" "\<not> bad_merge to k v" "merge_scalar E tf ff k v = Inr v'"
      "to' = dict_set to k v'"
  | d t' where "v = GDict d" "\<not> bad_merge to k v"
      "MergeDictsLoop E tf ff d (case dict_get to k of Some (GDict t) \<Rightarrow> t | _ \<Rightarrow> []) d = Inr t'"
      "to' = dict_set to k (GDict t')"
  | l where "v = GList l" "\<not> bad_merge to k v" "merge_list_prepare to fro k = Inr None" "to' = to"
  | l to1 base tol app m where "v = GList l" "\<not> bad_merge to k v"
      "merge_list_prepare to fro k = Inr (Some (to1, base, tol, app))"
      "MergeListsLoop E tf ff (IsPathSection E base) app (merge_init tol) l = Inr m"
      "to' = put to1 base (GList (ms_to m))"
proof -
  from assms have nb: "\<not> bad_merge to k v" by (auto split: if_splits)
  show thesis
  proof (cases v)
    case (GList l)
    with assms nb obtain prep where prep: "merge_list_prepare to fro k = Inr prep"
      by (auto simp: bindE_Inr_iff)
    show thesis
    proof (cases prep)
      case (Some q)
      obtain to1 base tol app where q: "q = (to1, base, tol, app)" by (cases q) auto
      with assms nb GList prep Some show thesis by (auto simp: bindE_Inr_iff intro: that(4))
    qed (use assms nb GList prep in \<open>auto intro: that(3)\<close>)
  qed (use assms nb in \<open>auto simp: bindE_Inr_iff Let_def intro: that(1,2)\<close>)
qed

text \<open>The key of \<open>to\<close> that an item of \<open>fro\<close> is merged into.\<close>

definition target_of :: "gkey \<times> gval \<Rightarrow> gkey" where
  "target_of p =
     (case p of
        (KStr s, GList l) \<Rightarrow>
          if s \<noteq> [] \<and> last s \<in> set ''=+?'' then KStr (butlast s) else KStr s
      | (k, v) \<Rightarrow> k)"

lemma target_of_nonlist: "\<not> is_list v \<Longrightarrow> target_of (k, v) = k"
  by (cases v; cases k) (simp_all add: target_of_def)

lemma list_policy_base:
  "list_policy_of s = Inr p \<Longrightarrow> KStr (list_base p) = target_of (KStr s, GList l)"
  by (auto simp: list_policy_of_def target_of_def Let_def split: if_splits)

lemma merge_list_prepare_Some:
  assumes "merge_list_prepare to fro k = Inr (Some (to1, base, tol, app))"
  obtains s p where "k = KStr s" "list_policy_of s = Inr p" "base = list_base p" "app = lp_append p"
    and "\<forall>i \<in> set (lists_incompatible p). \<not> has_key fro (KStr i)"
    and "\<And>j. j \<noteq> KStr base \<Longrightarrow> dict_get to1 j = dict_get to j"
    and "lp_ext p = CHR ''='' \<Longrightarrow> tol = []"
    and "lp_ext p \<noteq> CHR ''='' \<Longrightarrow> get to base = None \<Longrightarrow> tol = []"
    and "lp_ext p \<noteq> CHR ''='' \<Longrightarrow> get to base \<noteq> None \<Longrightarrow>
           get to base = Some (GList tol) \<and> lp_ext p \<noteq> CHR ''?''"
proof -
  from assms obtain s p where sp: "k = KStr s" "list_policy_of s = Inr p"
    by (auto simp: merge_list_prepare_def bindE_Inr_iff)
  from assms sp have "find (\<lambda>i. has_key fro (KStr i)) (lists_incompatible p) = None"
    by (auto simp: merge_list_prepare_def Let_def split: option.splits)
  then have inc: "\<forall>i \<in> set (lists_incompatible p). \<not> has_key fro (KStr i)"
    by (auto simp: find_None_iff)
  from assms sp show thesis
    by (intro that [OF sp _ _ inc])
      (auto simp: merge_list_prepare_def Let_def al.lookup_store
        split: option.splits if_splits gval.splits)
qed

lemma merge_list_prepare_None:
  assumes "merge_list_prepare to fro k = Inr None"
  obtains s p where "k = KStr s" "list_policy_of s = Inr p" "lp_ext p = CHR ''?''"
    and "get to (list_base p) \<noteq> None"
    and "\<forall>i \<in> set (lists_incompatible p). \<not> has_key fro (KStr i)"
proof -
  from assms obtain s p where sp: "k = KStr s" "list_policy_of s = Inr p"
    by (auto simp: merge_list_prepare_def bindE_Inr_iff)
  from assms sp have "find (\<lambda>i. has_key fro (KStr i)) (lists_incompatible p) = None"
    by (auto simp: merge_list_prepare_def Let_def split: option.splits)
  then have inc: "\<forall>i \<in> set (lists_incompatible p). \<not> has_key fro (KStr i)"
    by (auto simp: find_None_iff)
  from assms sp show thesis
    by (intro that [OF sp _ _ inc])
      (auto simp: merge_list_prepare_def Let_def split: option.splits if_splits gval.splits)
qed

lemma merge_item_frame:
  assumes "MergeDictsLoop E tf ff fro to [(k, v)] = Inr to'"
  shows "j \<noteq> target_of (k, v) \<Longrightarrow> dict_get to' j = dict_get to j"
    and "has_key to' (target_of (k, v))"
proof -
  have "(j \<noteq> target_of (k, v) \<longrightarrow> dict_get to' j = dict_get to j) \<and> has_key to' (target_of (k, v))"
    using assms
  proof (cases rule: merge_item_cases)
    case (scalar v')
    then have "target_of (k, v) = k" by (intro target_of_nonlist) (cases v; simp)
    with scalar show ?thesis by (simp add: al.lookup_store)
  next
    case (dict d t')
    then show ?thesis by (simp add: target_of_nonlist al.lookup_store)
  next
    case (skip l)
    from skip(3) obtain s p where "k = KStr s" "list_policy_of s = Inr p" "get to (list_base p) \<noteq> None"
      by (rule merge_list_prepare_None)
    with skip show ?thesis using list_policy_base by fastforce
  next
    case (list l to1 base tol app m)
    from list(3) obtain s p where sp: "k = KStr s" "list_policy_of s = Inr p" "base = list_base p"
      and fr: "\<And>j. j \<noteq> KStr base \<Longrightarrow> dict_get to1 j = dict_get to j"
      by (rule merge_list_prepare_Some) blast
    from sp list_policy_base [OF sp(2), of l] list(1) have "KStr base = target_of (k, v)" by simp
    with list(5) fr show ?thesis by (auto simp: al.lookup_store)
  qed
  then show "j \<noteq> target_of (k, v) \<Longrightarrow> dict_get to' j = dict_get to j"
    and "has_key to' (target_of (k, v))" by blast+
qed

lemma MergeDictsLoop_frame:
  "MergeDictsLoop E tf ff fro to items = Inr r \<Longrightarrow> j \<notin> target_of ` set items \<Longrightarrow>
    dict_get r j = dict_get to j"
proof (induction items arbitrary: to)
  case (Cons p items)
  obtain k v where p: "p = (k, v)" by (cases p)
  from Cons.prems(1) obtain to' where to': "MergeDictsLoop E tf ff fro to [p] = Inr to'"
    and rest: "MergeDictsLoop E tf ff fro to' items = Inr r"
    by (rule MergeDictsLoop_ConsE)
  have "dict_get r j = dict_get to' j" using Cons.IH [OF rest] Cons.prems(2) by simp
  also have "\<dots> = dict_get to j"
    using merge_item_frame(1) [of E tf ff fro to k v to' j] to' p Cons.prems(2) by auto
  finally show ?case .
qed simp

lemma MergeDictsLoop_has_key:
  "MergeDictsLoop E tf ff fro to items = Inr r \<Longrightarrow>
    has_key r j \<longleftrightarrow> has_key to j \<or> j \<in> target_of ` set items"
proof (induction items arbitrary: to)
  case (Cons p items)
  obtain k v where p: "p = (k, v)" by (cases p)
  from Cons.prems(1) obtain to' where to': "MergeDictsLoop E tf ff fro to [p] = Inr to'"
    and rest: "MergeDictsLoop E tf ff fro to' items = Inr r"
    by (rule MergeDictsLoop_ConsE)
  have "has_key to' j \<longleftrightarrow> has_key to j \<or> j = target_of p"
    using merge_item_frame [of E tf ff fro to k v to'] to' p by (cases "j = target_of p") auto
  with Cons.IH [OF rest] show ?case by auto
qed simp

text \<open>An item whose target no other item has: what it does is what the whole merge does there.\<close>

lemma MergeDictsLoop_item:
  assumes "MergeDictsLoop E tf ff fro to (xs @ p # ys) = Inr r"
    and "target_of p \<notin> target_of ` set xs" and "target_of p \<notin> target_of ` set ys"
  obtains t t' where "MergeDictsLoop E tf ff fro t [p] = Inr t'"
    and "dict_get t (target_of p) = dict_get to (target_of p)"
    and "dict_get r (target_of p) = dict_get t' (target_of p)"
proof -
  from assms(1) obtain t where t: "MergeDictsLoop E tf ff fro to xs = Inr t"
    and "MergeDictsLoop E tf ff fro t (p # ys) = Inr r"
    unfolding MergeDictsLoop_append by (rule bindE_InrE)
  from this(2) obtain t' where t': "MergeDictsLoop E tf ff fro t [p] = Inr t'"
    and r: "MergeDictsLoop E tf ff fro t' ys = Inr r"
    by (rule MergeDictsLoop_ConsE)
  from that [OF t'] MergeDictsLoop_frame [OF t assms(2)] MergeDictsLoop_frame [OF r assms(3)]
  show thesis by simp
qed

text \<open>The list that a list item of \<open>fro\<close> is merged into.\<close>

definition base_list :: "gdict \<Rightarrow> list_policy \<Rightarrow> gval list" where
  "base_list to p =
     (if lp_ext p = CHR ''='' then []
      else case get to (list_base p) of Some (GList l) \<Rightarrow> l | _ \<Rightarrow> [])"

lemma merge_list_item:
  assumes "MergeDictsLoop E tf ff fro t [(KStr k, GList l)] = Inr t'" and "list_policy_of k = Inr p"
  shows "if lp_ext p = CHR ''?'' \<and> get t (list_base p) \<noteq> None then t' = t
         else \<exists>m. MergeLists E (base_list t p) l tf ff (IsPathSection E (list_base p)) (lp_append p) = Inr m \<and>
                  get t' (list_base p) = Some (GList m)"
  using assms(1)
proof (cases rule: merge_item_cases)
  case (skip l')
  from skip(3) assms(2) have "lp_ext p = CHR ''?''" "get t (list_base p) \<noteq> None"
    by (auto elim!: merge_list_prepare_None)
  with skip show ?thesis by simp
next
  case (list l' to1 base tol app m)
  from list(3) assms(2) have b: "base = list_base p" "app = lp_append p"
    and tol: "lp_ext p = CHR ''='' \<Longrightarrow> tol = []"
      "lp_ext p \<noteq> CHR ''='' \<Longrightarrow> get t base = None \<Longrightarrow> tol = []"
      "lp_ext p \<noteq> CHR ''='' \<Longrightarrow> get t base \<noteq> None \<Longrightarrow>
         get t base = Some (GList tol) \<and> lp_ext p \<noteq> CHR ''?''"
    by (auto elim!: merge_list_prepare_Some)
  have "tol = base_list t p"
    using tol b(1) by (cases "get t base") (auto simp: base_list_def)
  moreover have "\<not> (lp_ext p = CHR ''?'' \<and> get t (list_base p) \<noteq> None)"
    using tol(3) b(1) by (cases "get t base") auto
  ultimately show ?thesis
    using list b by (auto simp: MergeLists_def)
qed simp_all

lemma MergeDicts_scalar_item:
  assumes "MergeDicts E to (xs @ (k, v) # ys) to_file fro_file = Inr r" and "is_scalar v"
    and "k \<notin> target_of ` set xs" and "k \<notin> target_of ` set ys"
  shows "\<exists>v'. merge_scalar E to_file fro_file k v = Inr v' \<and> dict_get r k = Some v'"
proof -
  have tk: "target_of (k, v) = k"
    using assms(2) by (intro target_of_nonlist) (cases v; simp)
  from assms tk obtain t t' where t': "MergeDictsLoop E to_file fro_file (xs @ (k, v) # ys) t [(k, v)] = Inr t'"
    and r: "dict_get r k = dict_get t' k"
    unfolding MergeDicts_def by (metis MergeDictsLoop_item)
  from t' assms(2) r show ?thesis
    by (cases rule: merge_item_cases) (auto simp: al.lookup_store)
qed

subsection \<open>Properties\<close>

text \<open>
  Merging keeps values well-formed: if both dictionaries have distinct keys
  at every depth, so has the merged one.
\<close>

theorem MergeDicts_wf:
  assumes "MergeDicts E to fro to_file fro_file = Inr r" and "wf_dict to" and "wf_dict fro"
  shows "wf_dict r"
  using assms merge_loops_wf(2) [of E to_file fro_file fro to fro r]
  by (simp add: MergeDicts_def)

theorem MergeDicts_wf_witness:
  "\<exists>r. MergeDicts (base_env ''/'') [(KStr ''a'', GStr ''1'')]
         [(KStr ''defines'', GList [GStr ''X''])] ''f'' ''f'' = Inr r \<and> wf_dict r"
proof -
  have r: "MergeDicts (base_env ''/'') [(KStr ''a'', GStr ''1'')]
         [(KStr ''defines'', GList [GStr ''X''])] ''f'' ''f'' =
      Inr [(KStr ''a'', GStr ''1''), (KStr ''defines'', GList [GStr ''X''])]"
    by code_simp
  from MergeDicts_wf [OF r] r show ?thesis by (simp add: dict_wf_def)
qed

text \<open>
  A merge touches only the keys the source dictionary names: the keys of the
  result are those of \<open>to\<close> and the targets of the items of \<open>fro\<close> (the key without
  its policy character, for a list), and every other key keeps its value.
\<close>

theorem MergeDicts_keys_and_frame:
  assumes "MergeDicts E to fro to_file fro_file = Inr r"
  shows "(\<forall>j. has_key r j \<longleftrightarrow> has_key to j \<or> j \<in> target_of ` set fro) \<and>
         (\<forall>j. j \<notin> target_of ` set fro \<longrightarrow> dict_get r j = dict_get to j)"
proof -
  from assms have m: "MergeDictsLoop E to_file fro_file fro to fro = Inr r"
    by (simp add: MergeDicts_def)
  from MergeDictsLoop_has_key [OF m] MergeDictsLoop_frame [OF m] show ?thesis by simp
qed

theorem MergeDicts_keys_and_frame_witness:
  "\<exists>r. MergeDicts (base_env ''/'') [(KStr ''a'', GStr ''1'')]
         [(KStr ''b+'', GList [GStr ''X''])] ''f'' ''f'' = Inr r \<and>
       has_key r (KStr ''b'') \<and> dict_get r (KStr ''a'') = Some (GStr ''1'')"
proof -
  have r: "MergeDicts (base_env ''/'') [(KStr ''a'', GStr ''1'')]
         [(KStr ''b+'', GList [GStr ''X''])] ''f'' ''f'' =
      Inr [(KStr ''a'', GStr ''1''), (KStr ''b'', GList [GStr ''X''])]"
    by code_simp
  from MergeDicts_keys_and_frame [OF r] r show ?thesis by (simp add: target_of_def)
qed

text \<open>
  A string or integer in \<open>fro\<close> overwrites the value of its key (after
  relativisation where the key names a path section), whatever else is merged,
  provided no other item of \<open>fro\<close> is merged into the same key.
\<close>

theorem MergeDicts_scalar_overwrites:
  assumes "MergeDicts E to (xs @ (k, v) # ys) to_file fro_file = Inr r" and "is_scalar v"
    and "k \<notin> target_of ` set xs" and "k \<notin> target_of ` set ys"
  shows "\<exists>v'. merge_scalar E to_file fro_file k v = Inr v' \<and> dict_get r k = Some v'"
  using assms by (rule MergeDicts_scalar_item)

theorem MergeDicts_scalar_overwrites_witness:
  "\<exists>v'. merge_scalar (base_env ''/'') ''f'' ''f'' (KStr ''type'') (GStr ''none'') = Inr v' \<and>
        dict_get [(KStr ''type'', GStr ''none'')] (KStr ''type'') = Some v'"
proof (rule MergeDicts_scalar_overwrites [of _ "[(KStr ''type'', GStr ''executable'')]" "[]" _ _ "[]"])
  show "MergeDicts (base_env ''/'') [(KStr ''type'', GStr ''executable'')]
      ([] @ (KStr ''type'', GStr ''none'') # []) ''f'' ''f'' = Inr [(KStr ''type'', GStr ''none'')]"
    by code_simp
qed simp_all

lemma MergeDicts_list_item:
  assumes "MergeDicts E to (xs @ (KStr k, GList l) # ys) to_file fro_file = Inr r"
    and "list_policy_of k = Inr p"
    and "KStr (list_base p) \<notin> target_of ` set xs" and "KStr (list_base p) \<notin> target_of ` set ys"
  shows "if lp_ext p = CHR ''?'' \<and> get to (list_base p) \<noteq> None
         then get r (list_base p) = get to (list_base p)
         else \<exists>m. MergeLists E (base_list to p) l to_file fro_file
                    (IsPathSection E (list_base p)) (lp_append p) = Inr m \<and>
                  get r (list_base p) = Some (GList m)"
proof -
  let ?p = "(KStr k, GList l)"
  have tk: "target_of ?p = KStr (list_base p)"
    using list_policy_base [OF assms(2), of l] by simp
  from assms tk obtain t t' where
    t': "MergeDictsLoop E to_file fro_file (xs @ ?p # ys) t [?p] = Inr t'"
    and t: "get t (list_base p) = get to (list_base p)"
    and r: "get r (list_base p) = get t' (list_base p)"
    unfolding MergeDicts_def by (metis MergeDictsLoop_item)
  from t have "base_list t p = base_list to p" by (simp add: base_list_def)
  with merge_list_item [OF t' assms(2)] t r show ?thesis
    by (auto split: if_splits)
qed

text \<open>The policy characters, for a base key that ends in none of them.\<close>

lemma list_policy_at:
  assumes "base \<noteq> []" and "last base \<notin> set ''=+?''" and "pol \<in> {'''', ''='', ''+'', ''?''}"
  shows "\<exists>p. list_policy_of (base @ pol) = Inr p \<and> list_base p = base \<and> lp_append p = (pol \<noteq> ''+'') \<and>
    (lp_ext p = CHR ''='' \<longleftrightarrow> pol = ''='') \<and> (lp_ext p = CHR ''?'' \<longleftrightarrow> pol = ''?'')"
  using assms(3)
  by (elim insertE) (use assms(1,2) in \<open>simp_all add: list_policy_of_def Let_def\<close>)

text \<open>
  (C5) The four list policies: a list in \<open>fro\<close> that no other item of \<open>fro\<close> is merged
  with leaves an existing list alone under \<open>?\<close>, and is otherwise merged into the
  empty list (\<open>=\<close>, or no list yet) or the existing one, prepended under \<open>+\<close> and
  appended otherwise.
\<close>

theorem MergeDicts_list_policies:
  assumes "MergeDicts E to (xs @ (KStr (base @ pol), GList l) # ys) to_file fro_file = Inr r"
    and "base \<noteq> []" and "last base \<notin> set ''=+?''" and "pol \<in> {'''', ''='', ''+'', ''?''}"
    and "KStr base \<notin> target_of ` set xs" and "KStr base \<notin> target_of ` set ys"
  shows "if pol = ''?'' \<and> get to base \<noteq> None then get r base = get to base
         else \<exists>m. MergeLists E
                    (if pol = ''='' then [] else case get to base of Some (GList old) \<Rightarrow> old | _ \<Rightarrow> [])
                    l to_file fro_file (IsPathSection E base) (pol \<noteq> ''+'') = Inr m \<and>
                  get r base = Some (GList m)"
proof -
  from list_policy_at [OF assms(2-4)] obtain p where p: "list_policy_of (base @ pol) = Inr p" "list_base p = base"
    "lp_append p = (pol \<noteq> ''+'')" "lp_ext p = CHR ''='' \<longleftrightarrow> pol = ''=''" "lp_ext p = CHR ''?'' \<longleftrightarrow> pol = ''?''"
    by blast
  have "KStr (list_base p) \<notin> target_of ` set xs" "KStr (list_base p) \<notin> target_of ` set ys"
    using assms(5,6) p(2) by simp_all
  from MergeDicts_list_item [OF assms(1) p(1) this] show ?thesis unfolding base_list_def p(2-5) .
qed

theorem MergeDicts_list_policies_witness:
  "\<exists>m. MergeLists (base_env ''/'') [GStr ''A''] [GStr ''B''] ''f'' ''f'' False False = Inr m \<and>
       get [(KStr ''defines'', GList [GStr ''B'', GStr ''A''])] ''defines'' = Some (GList m)"
proof -
  have merged: "MergeDicts (base_env ''/'') [(KStr ''defines'', GList [GStr ''A''])]
      ([] @ (KStr (''defines'' @ ''+''), GList [GStr ''B'']) # []) ''f'' ''f'' =
      Inr [(KStr ''defines'', GList [GStr ''B'', GStr ''A''])]"
    by code_simp
  have ps: "\<not> IsPathSection (base_env ''/'') ''defines''" by code_simp
  show ?thesis using MergeDicts_list_policies [OF merged] ps by simp
qed

text \<open>
  Incompatible list policies are always an error: if \<open>fro\<close> holds a list under a
  key and also one of the keys that may not accompany it, the merge raises,
  whatever \<open>to\<close> holds and in whatever order \<open>fro\<close> is iterated.
\<close>

theorem MergeDicts_incompatible_policies:
  assumes "(KStr k, GList l) \<in> set fro" and "list_policy_of k = Inr p"
    and "i \<in> set (lists_incompatible p)" and "has_key fro (KStr i)"
  shows "\<exists>e. MergeDicts E to fro to_file fro_file = Inl e"
proof (rule ccontr)
  assume "\<nexists>e. MergeDicts E to fro to_file fro_file = Inl e"
  then obtain r where r: "MergeDicts E to fro to_file fro_file = Inr r"
    by (cases "MergeDicts E to fro to_file fro_file") simp_all
  obtain xs ys where fro: "fro = xs @ (KStr k, GList l) # ys"
    using split_list [OF assms(1)] by blast
  have "MergeDictsLoop E to_file fro_file fro to (xs @ (KStr k, GList l) # ys) = Inr r"
    using r fro by (simp add: MergeDicts_def)
  then obtain t where "MergeDictsLoop E to_file fro_file fro t ((KStr k, GList l) # ys) = Inr r"
    unfolding MergeDictsLoop_append by (rule bindE_InrE)
  then obtain t' where "MergeDictsLoop E to_file fro_file fro t [(KStr k, GList l)] = Inr t'"
    by (rule MergeDictsLoop_ConsE)
  then show False
    using assms(2-4)
    by (cases rule: merge_item_cases)
      (auto elim!: merge_list_prepare_None merge_list_prepare_Some)
qed

theorem MergeDicts_incompatible_policies_witness:
  "\<exists>e. MergeDicts (base_env ''/'') [] [(KStr ''defines='', GList []), (KStr ''defines'', GList [])]
         ''f'' ''f'' = Inl e"
  by (rule MergeDicts_incompatible_policies [of "''defines=''" "[]" _
        "\<lparr>lp_ext = CHR ''='', list_base = ''defines'',
          lists_incompatible = [''defines'', ''defines?''], lp_append = True\<rparr>" "''defines''"])
    (simp_all add: list_policy_of_def Let_def)

text \<open>
  (C7) Appending a list of strings and integers keeps the existing list as a
  prefix, adds every new item, never a second copy of an item that may occur only
  once, and every copy of an item that starts with a dash; the
  \<open>hashable_to_set\<close> shortcut does not change the result.  \<open>fro'\<close> is \<open>fro\<close> after path
  relativisation.
\<close>

theorem MergeLists_append_spec:
  assumes "\<forall>x \<in> set fro. is_scalar x"
    and "mapE (merge_scalar_item E to_file fro_file is_paths) fro = Inr fro'"
  shows "\<exists>news. MergeLists E to fro to_file fro_file is_paths True = Inr (to @ news) \<and>
           set news \<subseteq> set fro' \<and> set fro' \<subseteq> set (to @ news) \<and>
           (\<forall>x. repeats (zip fro fro') x \<le> count_list news x \<and>
                count_list news x \<le> repeats (zip fro fro') x + (if x \<in> set to then 0 else 1))"
proof -
  have len: "length fro' = length fro" and sc: "\<forall>x \<in> set fro'. is_scalar x"
    using mapE_scalars [OF assms(2,1)] by auto
  have snd_zip: "snd ` set (zip fro fro') = set fro'"
    using len by (metis list.set_map map_snd_zip)
  have "\<forall>(i, x) \<in> set (zip fro fro'). is_scalar x"
    using sc by (auto dest: set_zip_rightD)
  from place_all_append [OF hset_ok_init [of to] this] snd_zip obtain news where
    n: "ms_to (place_all True (merge_init to) (zip fro fro')) = to @ news"
    "set news \<subseteq> set fro'" "set fro' \<subseteq> set (to @ news)"
    "\<forall>x. repeats (zip fro fro') x \<le> count_list news x \<and>
         count_list news x \<le> repeats (zip fro fro') x + (if x \<in> set to then 0 else 1)"
    by (simp only: ms_to_init) blast
  show ?thesis
    by (rule exI [of _ news], simp only: n(2-4) simp_thms)
      (simp add: MergeLists_def MergeListsLoop_scalars [OF assms(1)] assms(2) n(1))
qed

theorem MergeLists_append_spec_witness:
  "\<exists>news. MergeLists (base_env ''/'') [GStr ''a''] [GStr ''b'', GStr ''a'', GStr ''-l''] ''f'' ''f'' False True =
          Inr ([GStr ''a''] @ news) \<and> GStr ''-l'' \<in> set news"
proof -
  have m: "mapE (merge_scalar_item (base_env ''/'') ''f'' ''f'' False)
      [GStr ''b'', GStr ''a'', GStr ''-l''] = Inr [GStr ''b'', GStr ''a'', GStr ''-l'']"
    by code_simp
  from MergeLists_append_spec [OF _ m, of "[GStr ''a'']"] show ?thesis by auto
qed

text \<open>
  Prepending a list without duplicates puts its items, in their order, in
  front of the existing items, from which the items that may occur only once are
  removed.
\<close>

theorem MergeLists_prepend_spec:
  assumes "\<forall>x \<in> set fro. is_scalar x"
    and "mapE (merge_scalar_item E to_file fro_file is_paths) fro = Inr fro'" and "distinct fro'"
  shows "MergeLists E to fro to_file fro_file is_paths False =
         Inr (fro' @ filter (\<lambda>y. \<forall>i. is_singleton i \<longrightarrow> (i, y) \<notin> set (zip fro fro')) to)"
proof -
  have len: "length fro' = length fro"
    using mapE_scalars [OF assms(2,1)] by auto
  have "ms_to (place_all False (merge_init to) (zip fro fro')) =
      [] @ map snd (zip fro fro') @
        filter (\<lambda>y. \<forall>i. is_singleton i \<longrightarrow> (i, y) \<notin> set (zip fro fro')) to"
    by (rule place_all_prepend) (use assms(3) len in \<open>simp_all add: merge_init_def\<close>)
  then show ?thesis
    using len by (simp add: MergeLists_def MergeListsLoop_scalars [OF assms(1)] assms(2))
qed

theorem MergeLists_prepend_spec_witness:
  "MergeLists (base_env ''/'') [GStr ''x'', GStr ''b''] [GStr ''a'', GStr ''b''] ''f'' ''f'' False False =
   Inr ([GStr ''a'', GStr ''b''] @ filter (\<lambda>y. \<forall>i. is_singleton i \<longrightarrow>
     (i, y) \<notin> set (zip [GStr ''a'', GStr ''b''] [GStr ''a'', GStr ''b''])) [GStr ''x'', GStr ''b''])"
proof (rule MergeLists_prepend_spec)
  show "mapE (merge_scalar_item (base_env ''/'') ''f'' ''f'' False) [GStr ''a'', GStr ''b''] =
      Inr [GStr ''a'', GStr ''b'']" by code_simp
qed simp_all

text \<open>
  A prepended list with a repeated item does not end up in front: removing
  the earlier copy shifts the list while \<open>prepend_index\<close> keeps counting, so the
  repeated item lands behind an item that was there before.
\<close>

theorem MergeLists_prepend_duplicate:
  "MergeLists (base_env ''/'') [GStr ''x''] [GStr ''a'', GStr ''b'', GStr ''a''] ''f'' ''f'' False False =
   Inr [GStr ''b'', GStr ''x'', GStr ''a'']"
  by code_simp

end
