(* ===== verification/Input_Filters.thy ===== *)
theory Input_Filters
  imports Input_Merge
begin

text \<open>
  \<open>ProcessListFiltersInDict\<close> and \<open>ProcessListFiltersInList\<close> of
  \<open>tools/gyp/pylib/gyp/input.py\<close>: exclusion lists (\<open>sources!\<close>) and regular
  expression filters (\<open>sources/\<close>).  The regular expression engine is the parameter
  \<open>re_compile\<close>: it gives a pattern's search predicate or the error of compiling it;
  no law of it is assumed.  The recursion into the values ends because filtering
  moves the elements of a list without nesting them deeper; \<open>depth\<close> is the measure.
\<close>

type_synonym re_engine = "string \<Rightarrow> (string \<Rightarrow> bool) res"

subsection \<open>Depth of a value\<close>

fun depth :: "gval \<Rightarrow> nat" where
  "depth (GList xs) = Suc (foldr (\<lambda>x n. max (depth x) n) xs 0)"
| "depth (GDict d) = Suc (foldr (\<lambda>p n. max (depth (snd p)) n) d 0)"
| "depth _ = 0"

lemma depth_le_foldr: "x \<in> set xs \<Longrightarrow> f x \<le> foldr (\<lambda>x n. max (f x) n) xs (0 :: nat)"
  by (induction xs) auto

lemma foldr_max_le: "foldr (\<lambda>x n. max (f x) n) xs (0 :: nat) \<le> m \<longleftrightarrow> (\<forall>x \<in> set xs. f x \<le> m)"
  by (induction xs) auto

lemma depth_list_less: "x \<in> set xs \<Longrightarrow> depth x < depth (GList xs)"
  using depth_le_foldr [of x xs depth] by simp

lemma depth_dict_less: "(k, v) \<in> set d \<Longrightarrow> depth v < depth (GDict d)"
  using depth_le_foldr [of "(k, v)" d "\<lambda>p. depth (snd p)"] by simp

lemma depth_sublist: "set xs \<subseteq> set ys \<Longrightarrow> depth (GList xs) \<le> depth (GList ys)"
proof -
  assume "set xs \<subseteq> set ys"
  then have "\<forall>x \<in> set xs. depth x \<le> foldr (\<lambda>x n. max (depth x) n) ys 0"
    by (auto intro: depth_le_foldr [where f = depth])
  then show ?thesis by (simp add: foldr_max_le)
qed

subsection \<open>Which lists to filter\<close>

definition filter_scan ::
  "string \<Rightarrow> gdict \<Rightarrow> string list \<times> string list \<Rightarrow> gkey \<times> gval \<Rightarrow> (string list \<times> string list) res" where
  "filter_scan name the_dict st item =
     (let (lists, del_lists) = st; (key, value) = item in
      bindE (key_str key) (\<lambda>key.
        if key = [] then Inl IndexError
        else
          let operation = last key; list_key = butlast key in
          if operation \<noteq> CHR ''!'' \<and> operation \<noteq> CHR ''/'' then Inr (lists, del_lists)
          else if \<not> is_list value
          then Inl (ValueError (name @ '' key '' @ key @ '' must be list, not '' @ class_name value))
          else
            (case get the_dict list_key of
               None \<Rightarrow> Inr (lists, del_lists @ [key])
             | Some v \<Rightarrow>
                 if \<not> is_list v
                 then Inl (ValueError (name @ '' key '' @ list_key @ '' must be list, not '' @ class_name value @
                        '' when applying '' @ (if operation = CHR ''!'' then ''exclusion'' else ''regex'')))
                 else Inr (if list_key \<in> set lists then lists else lists @ [list_key], del_lists))))"

subsection \<open>Filtering one list\<close>

text \<open>The actions parallel to the list: -1 none, 0 exclude, 1 include.\<close>

definition exclude_actions :: "gval list \<Rightarrow> gval list \<Rightarrow> int list \<Rightarrow> int list" where
  "exclude_actions excludes the_list list_actions =
     foldl (\<lambda>acts exclude_item. map2 (\<lambda>v a. if py_eq exclude_item v then 0 else a) the_list acts)
       list_actions excludes"

fun regex_action :: "re_engine \<Rightarrow> string \<Rightarrow> string \<Rightarrow> gval \<Rightarrow> (int \<times> (string \<Rightarrow> bool)) res" where
  "regex_action re_compile name regex_key (GList [action, pattern]) =
     bindE (as_str pattern) (\<lambda>p. bindE (re_compile p) (\<lambda>search.
       if action = GStr ''exclude'' then Inr (0, search)
       else if action = GStr ''include'' then Inr (1, search)
       else bindE (as_str action) (\<lambda>a.
              Inl (ValueError (''Unrecognized action '' @ a @ '' in '' @ name @ '' key '' @ regex_key)))))"
| "regex_action re_compile name regex_key (GList l) = Inl (ValueError ''wrong number of values to unpack'')"
| "regex_action re_compile name regex_key (GStr s) = Inl (ValueError ''wrong number of values to unpack'')"
| "regex_action re_compile name regex_key v = Inl (TypeError ''object is not iterable'')"

definition regex_item ::
  "int \<Rightarrow> (string \<Rightarrow> bool) \<Rightarrow> gval \<times> int \<Rightarrow> int res" where
  "regex_item action_value search p =
     (let (list_item, list_action) = p in
      if list_action = action_value then Inr list_action
      else bindE (as_str list_item) (\<lambda>s. Inr (if search s then action_value else list_action)))"

definition regex_actions ::
  "re_engine \<Rightarrow> string \<Rightarrow> string \<Rightarrow> gval list \<Rightarrow> int list \<Rightarrow> gval list \<Rightarrow> int list res" where
  "regex_actions re_compile name regex_key the_list list_actions regexes =
     foldE (\<lambda>acts item. bindE (regex_action re_compile name regex_key item) (\<lambda>(action_value, search).
              mapE (regex_item action_value search) (zip the_list acts)))
       list_actions regexes"

text \<open>The loop from the last index down: excluded items move to the excluded list.\<close>

fun take_out :: "nat \<Rightarrow> int list \<Rightarrow> gval list \<Rightarrow> gval list \<Rightarrow> gval list \<times> gval list" where
  "take_out 0 list_actions the_list excluded_list = (the_list, excluded_list)"
| "take_out (Suc index) list_actions the_list excluded_list =
     (if list_actions ! index = 0
      then take_out index list_actions (take index the_list @ drop (Suc index) the_list)
             ((the_list ! index) # excluded_list)
      else take_out index list_actions the_list excluded_list)"

definition filter_excludes :: "gdict \<Rightarrow> string \<Rightarrow> gval list \<Rightarrow> (int list \<times> gdict) res" where
  "filter_excludes the_dict list_key the_list =
     (let exclude_key = list_key @ ''!''; list_actions = replicate (length the_list) (- 1) in
      case get the_dict exclude_key of
        None \<Rightarrow> Inr (list_actions, the_dict)
      | Some e \<Rightarrow> bindE (as_list e) (\<lambda>excludes.
          Inr (exclude_actions excludes the_list list_actions, unhook the_dict exclude_key)))"

definition filter_regexes ::
  "re_engine \<Rightarrow> string \<Rightarrow> string \<Rightarrow> gval list \<Rightarrow> int list \<Rightarrow> gdict \<Rightarrow> (int list \<times> gdict) res" where
  "filter_regexes re_compile name list_key the_list list_actions the_dict =
     (let regex_key = list_key @ ''/'' in
      case get the_dict regex_key of
        None \<Rightarrow> Inr (list_actions, the_dict)
      | Some r \<Rightarrow> bindE (as_list r) (\<lambda>regexes.
          bindE (regex_actions re_compile name regex_key the_list list_actions regexes) (\<lambda>acts.
            Inr (acts, unhook the_dict regex_key))))"

definition filter_finish ::
  "string \<Rightarrow> string \<Rightarrow> gval list \<Rightarrow> int list \<Rightarrow> gdict \<Rightarrow> gdict res" where
  "filter_finish name list_key the_list list_actions the_dict =
     (let excluded_key = list_key @ ''_excluded'' in
      if has_key the_dict (KStr excluded_key)
      then Inl (GypError (name @ '' key '' @ excluded_key @
             '' must not be present prior  to applying exclusion/regex filters for '' @ list_key))
      else
        let r = take_out (length list_actions) list_actions the_list [];
            d = put the_dict list_key (GList (fst r))
        in Inr (if snd r \<noteq> [] then put d excluded_key (GList (snd r)) else d))"

definition filter_list :: "re_engine \<Rightarrow> string \<Rightarrow> gdict \<Rightarrow> string \<Rightarrow> gdict res" where
  "filter_list re_compile name the_dict list_key =
     bindE (getE the_dict list_key) (\<lambda>v.
     bindE (as_list v) (\<lambda>the_list.
     bindE (filter_excludes the_dict list_key the_list) (\<lambda>(acts, d).
     bindE (filter_regexes re_compile name list_key the_list acts d) (\<lambda>(acts, d).
       filter_finish name list_key the_list acts d))))"

definition filter_flat :: "re_engine \<Rightarrow> string \<Rightarrow> gdict \<Rightarrow> gdict res" where
  "filter_flat re_compile name the_dict =
     bindE (foldE (filter_scan name the_dict) ([], []) the_dict) (\<lambda>(lists, del_lists).
       foldE (filter_list re_compile name) (foldl unhook the_dict del_lists) lists)"

subsection \<open>What filtering does to one list\<close>

text \<open>The action an item ends with: exclusion first, then the regular expressions in order.\<close>

definition item_action :: "gval list \<Rightarrow> (int \<times> (string \<Rightarrow> bool)) list \<Rightarrow> gval \<Rightarrow> int" where
  "item_action excludes regexes x =
     foldl (\<lambda>a (action_value, search). if \<exists>s. x = GStr s \<and> search s then action_value else a)
       (if \<exists>e \<in> set excludes. py_eq e x then 0 else - 1) regexes"

lemma exclude_actions_map:
  "exclude_actions excludes l (map f l) = map (\<lambda>x. if \<exists>e \<in> set excludes. py_eq e x then 0 else f x) l"
proof (induction excludes arbitrary: f)
  case Nil
  then show ?case by (simp add: exclude_actions_def)
next
  case (Cons e excludes)
  have "map2 (\<lambda>v a. if py_eq e v then 0 else a) l (map f l) = map (\<lambda>x. if py_eq e x then 0 else f x) l"
    by (induction l) auto
  then have "exclude_actions (e # excludes) l (map f l) =
      exclude_actions excludes l (map (\<lambda>x. if py_eq e x then 0 else f x) l)"
    by (simp add: exclude_actions_def)
  also have "\<dots> = map (\<lambda>x. if \<exists>e \<in> set excludes. py_eq e x then 0 else if py_eq e x then 0 else f x) l"
    by (rule Cons.IH)
  finally show ?case by (auto intro: map_cong)
qed

lemma mapE_zip_map:
  "mapE g (zip l (map f l)) = Inr m \<Longrightarrow> (\<And>x a y. g (x, a) = Inr y \<Longrightarrow> y = h x a) \<Longrightarrow>
    m = map (\<lambda>x. h x (f x)) l"
  by (induction l arbitrary: m) (auto simp: bindE_Inr_iff)

lemma regex_item_value:
  "regex_item v search (x, a) = Inr y \<Longrightarrow> y = (if \<exists>s. x = GStr s \<and> search s then v else a)"
  by (auto simp: regex_item_def bindE_Inr_iff split: if_splits)

lemma regex_actions_map:
  "regex_actions re name rk l (map f l) rs = Inr acts \<Longrightarrow>
    \<exists>vs. mapE (regex_action re name rk) rs = Inr vs \<and>
      acts = map (\<lambda>x. foldl (\<lambda>a (v, search). if \<exists>s. x = GStr s \<and> search s then v else a) (f x) vs) l"
proof (induction rs arbitrary: f)
  case Nil
  then show ?case by (simp add: regex_actions_def)
next
  case (Cons r rs)
  from Cons.prems obtain v search m where r: "regex_action re name rk r = Inr (v, search)"
    and m: "mapE (regex_item v search) (zip l (map f l)) = Inr m"
    and rest: "regex_actions re name rk l m rs = Inr acts"
    by (auto simp: regex_actions_def bindE_Inr_iff)
  have "m = map (\<lambda>x. if \<exists>s. x = GStr s \<and> search s then v else f x) l"
    by (rule mapE_zip_map [OF m]) (rule regex_item_value)
  from Cons.IH [OF rest [unfolded this]] r show ?case by auto
qed

lemma take_out_split:
  "n \<le> length l \<Longrightarrow> take_out n (map f l) (take n l @ kept) ex =
    (filter (\<lambda>x. f x \<noteq> (0 :: int)) (take n l) @ kept, filter (\<lambda>x. f x = 0) (take n l) @ ex)"
proof (induction n arbitrary: kept ex)
  case (Suc n)
  then have n: "n < length l" by simp
  then have tk: "take (Suc n) l = take n l @ [l ! n]" by (simp add: take_Suc_conv_app_nth)
  show ?case
  proof (cases "f (l ! n) = 0")
    case True
    have "take_out (Suc n) (map f l) (take (Suc n) l @ kept) ex =
        take_out n (map f l) (take n l @ kept) (l ! n # ex)"
      using n True by (simp add: tk nth_append)
    then show ?thesis using Suc.IH [of kept "l ! n # ex"] n True by (simp add: tk)
  next
    case False
    have "take_out (Suc n) (map f l) (take (Suc n) l @ kept) ex =
        take_out n (map f l) (take n l @ (l ! n # kept)) ex"
      using n False by (simp add: tk)
    then show ?thesis using Suc.IH [of "l ! n # kept" ex] n False by (simp add: tk)
  qed
qed simp

lemma take_out_all:
  "take_out (length l) (map f l) l [] = (filter (\<lambda>x. f x \<noteq> (0 :: int)) l, filter (\<lambda>x. f x = 0) l)"
  using take_out_split [of "length l" l f "[]" "[]"] by simp

text \<open>The lists an item is judged by: the exclusion list and the compiled filters of a key.\<close>

definition excludes_of :: "gdict \<Rightarrow> string \<Rightarrow> gval list" where
  "excludes_of d k = (case get d (k @ ''!'') of Some (GList l) \<Rightarrow> l | _ \<Rightarrow> [])"

definition regexes_of :: "gdict \<Rightarrow> string \<Rightarrow> gval list" where
  "regexes_of d k = (case get d (k @ ''/'') of Some (GList l) \<Rightarrow> l | _ \<Rightarrow> [])"

definition filtered_dict :: "gdict \<Rightarrow> string \<Rightarrow> gval list \<Rightarrow> (gval \<Rightarrow> int) \<Rightarrow> gdict" where
  "filtered_dict d k l f =
     (let excluded_list = filter (\<lambda>x. f x = 0) l;
          d = put d k (GList (filter (\<lambda>x. f x \<noteq> 0) l))
      in if excluded_list \<noteq> [] then put d (k @ ''_excluded'') (GList excluded_list) else d)"

definition unhook_filters :: "gdict \<Rightarrow> string \<Rightarrow> gdict" where
  "unhook_filters d k =
     (let d = (if has_key d (KStr (k @ ''!'')) then unhook d (k @ ''!'') else d)
      in if has_key d (KStr (k @ ''/'')) then unhook d (k @ ''/'') else d)"

lemma filter_list_shape:
  assumes "filter_list re name d k = Inr d'"
  obtains l vs where "get d k = Some (GList l)"
    and "mapE (regex_action re name (k @ ''/'')) (regexes_of d k) = Inr vs"
    and "get d (k @ ''_excluded'') = None"
    and "d' = filtered_dict (unhook_filters d k) k l (item_action (excludes_of d k) vs)"
proof -
  from assms obtain l a1 d1 a2 d2 where l: "get d k = Some (GList l)"
    and s1: "filter_excludes d k l = Inr (a1, d1)" and s2: "filter_regexes re name k l a1 d1 = Inr (a2, d2)"
    and fin: "filter_finish name k l a2 d2 = Inr d'"
    by (auto simp: filter_list_def bindE_Inr_iff getE_Inr_iff)
  let ?f = "\<lambda>x. if \<exists>e \<in> set (excludes_of d k). py_eq e x then 0 else (- 1 :: int)"
  have a1: "a1 = map ?f l" "d1 = (if has_key d (KStr (k @ ''!'')) then unhook d (k @ ''!'') else d)"
    using s1 exclude_actions_map [of _ l "\<lambda>x. - 1"]
    by (cases "get d (k @ ''!'')";
        auto simp: filter_excludes_def excludes_of_def bindE_Inr_iff map_replicate_const Let_def)+
  have r: "get d1 (k @ ''/'') = get d (k @ ''/'')" by (simp add: a1(2))
  have "\<exists>vs. mapE (regex_action re name (k @ ''/'')) (regexes_of d k) = Inr vs \<and>
      a2 = map (item_action (excludes_of d k) vs) l \<and> d2 = unhook_filters d k"
  proof (cases "get d (k @ ''/'')")
    case None
    with s2 r show ?thesis
      unfolding a1 by (auto simp: filter_regexes_def regexes_of_def unhook_filters_def Let_def item_action_def)
  next
    case (Some v)
    with s2 r obtain rs where rs: "v = GList rs" "regex_actions re name (k @ ''/'') l a1 rs = Inr a2"
      "d2 = unhook d1 (k @ ''/'')" by (auto simp: filter_regexes_def bindE_Inr_iff Let_def)
    with Some r regex_actions_map [OF rs(2) [unfolded a1(1)]] show ?thesis
      by (auto simp: regexes_of_def unhook_filters_def Let_def item_action_def a1(2))
  qed
  then obtain vs where vs: "mapE (regex_action re name (k @ ''/'')) (regexes_of d k) = Inr vs"
    "a2 = map (item_action (excludes_of d k) vs) l" "d2 = unhook_filters d k" by blast
  have "get d2 (k @ ''_excluded'') = None" using fin by (auto simp: filter_finish_def Let_def split: if_splits)
  then have "get d (k @ ''_excluded'') = None"
    unfolding vs(3) by (simp add: unhook_filters_def Let_def split: if_splits)
  moreover have "d' = filtered_dict (unhook_filters d k) k l (item_action (excludes_of d k) vs)"
    using fin vs(2,3) take_out_all [of l] by (simp add: filter_finish_def filtered_dict_def Let_def split: if_splits)
  ultimately show thesis using that l vs(1) by blast
qed

lemma get_filtered_dict:
  "get (filtered_dict d k l f) j =
     (if j = k @ ''_excluded'' \<and> filter (\<lambda>x. f x = 0) l \<noteq> [] then Some (GList (filter (\<lambda>x. f x = 0) l))
      else if j = k then Some (GList (filter (\<lambda>x. f x \<noteq> 0) l)) else get d j)"
  by (simp add: filtered_dict_def Let_def al.lookup_store)

lemma get_unhook_filters:
  "get (unhook_filters d k) j = (if j = k @ ''!'' \<or> j = k @ ''/'' then None else get d j)"
  by (auto simp: unhook_filters_def Let_def)

lemma unhook_filters_sub: "p \<in> set (unhook_filters d k) \<Longrightarrow> p \<in> set d"
  by (cases p) (auto simp: unhook_filters_def Let_def dest!: dict_del_sub split: if_splits)

lemma filtered_dict_sub:
  "(j, w) \<in> set (filtered_dict d k l f) \<Longrightarrow> (j, w) \<in> set d \<or> (\<exists>P. w = GList (filter P l))"
  by (fastforce simp: filtered_dict_def Let_def dest: dict_set_sub split: if_splits)

lemma filter_list_depth:
  assumes "filter_list re name d k = Inr d'" and "\<forall>p \<in> set d. depth (snd p) \<le> m"
  shows "\<forall>p \<in> set d'. depth (snd p) \<le> m"
proof (rule filter_list_shape [OF assms(1)])
  fix l vs assume l: "get d k = Some (GList l)"
    and d': "d' = filtered_dict (unhook_filters d k) k l (item_action (excludes_of d k) vs)"
  have "depth (GList l) \<le> m" using dict_get_Some_in [OF l] assms(2) by force
  then have sub: "depth (GList (filter P l)) \<le> m" for P
    using depth_sublist [of "filter P l" l] by (auto intro: order.trans)
  show ?thesis
  proof
    fix p assume p: "p \<in> set d'"
    have "p \<in> set d \<or> (\<exists>P. snd p = GList (filter P l))"
    proof (cases p)
      case (Pair j w)
      with p d' filtered_dict_sub [of j w] have
        "(j, w) \<in> set (unhook_filters d k) \<or> (\<exists>P. w = GList (filter P l))" by blast
      with Pair unhook_filters_sub [of "(j, w)"] show ?thesis by auto
    qed
    with assms(2) sub show "depth (snd p) \<le> m" by fastforce
  qed
qed

lemma foldl_unhook_sub: "p \<in> set (foldl unhook d ks) \<Longrightarrow> p \<in> set d"
  by (induction ks arbitrary: d) (auto, metis dict_del_sub surj_pair)

lemma filter_flat_depth:
  assumes "filter_flat re name d = Inr d'" and "(k, v) \<in> set d'"
  shows "depth v < depth (GDict d)"
proof -
  let ?m = "foldr (\<lambda>p n. max (depth (snd p)) n) d 0"
  from assms(1) obtain lists dels where f: "foldE (filter_list re name) (foldl unhook d dels) lists = Inr d'"
    by (auto simp: filter_flat_def bindE_Inr_iff)
  have "\<forall>p \<in> set d'. depth (snd p) \<le> ?m"
  proof (rule foldE_invariant [OF f, where P = "\<lambda>d. \<forall>p \<in> set d. depth (snd p) \<le> ?m"])
    show "\<forall>p \<in> set (foldl unhook d dels). depth (snd p) \<le> ?m"
      using foldl_unhook_sub [of _ d dels] depth_le_foldr [of _ d "\<lambda>p. depth (snd p)"] by blast
  qed (rule filter_list_depth)
  with assms(2) show ?thesis by fastforce
qed

subsection \<open>The recursion\<close>

definition key_name :: "gkey \<Rightarrow> string" where
  "key_name k = (case k of KStr s \<Rightarrow> s | KInt i \<Rightarrow> show_int i)"

function ProcessListFiltersInDict :: "re_engine \<Rightarrow> string \<Rightarrow> gdict \<Rightarrow> gdict res"
  and ProcessListFiltersInList :: "re_engine \<Rightarrow> string \<Rightarrow> gval list \<Rightarrow> gval list res" where
  "ProcessListFiltersInDict re_compile name the_dict =
     bindE (filter_flat re_compile name the_dict) (\<lambda>d.
       mapE (\<lambda>p. case snd p of
                GDict value \<Rightarrow> bindE (ProcessListFiltersInDict re_compile (key_name (fst p)) value)
                                 (\<lambda>e. Inr (fst p, GDict e))
              | GList value \<Rightarrow> bindE (ProcessListFiltersInList re_compile (key_name (fst p)) value)
                                 (\<lambda>l. Inr (fst p, GList l))
              | _ \<Rightarrow> Inr p) d)"
| "ProcessListFiltersInList re_compile name the_list =
     mapE (\<lambda>item. case item of
              GDict value \<Rightarrow> bindE (ProcessListFiltersInDict re_compile name value) (\<lambda>e. Inr (GDict e))
            | GList value \<Rightarrow> bindE (ProcessListFiltersInList re_compile name value) (\<lambda>l. Inr (GList l))
            | _ \<Rightarrow> Inr item) the_list"
  by pat_completeness auto

termination
proof (relation "measure (case_sum (\<lambda>(r, n, d). depth (GDict d)) (\<lambda>(r, n, l). depth (GList l)))", goal_cases)
  case (3 re name d d' p v)
  then have "(fst p, GDict v) \<in> set d'" by (metis prod.collapse)
  from filter_flat_depth [OF 3(1) this] show ?case by simp
next
  case (2 re name d d' p v)
  then have "(fst p, GList v) \<in> set d'" by (metis prod.collapse)
  from filter_flat_depth [OF 2(1) this] show ?case by simp
next
  case (4 re name l item v)
  then show ?case using depth_list_less [of "GList v" l] by simp
next
  case (5 re name l item v)
  then show ?case using depth_list_less [of "GDict v" l] by simp
qed simp

declare ProcessListFiltersInDict.simps [simp del] ProcessListFiltersInList.simps [simp del]

subsection \<open>No filter key is left\<close>

definition op_key :: "gkey \<Rightarrow> bool" where
  "op_key k = (case k of KStr s \<Rightarrow> s \<noteq> [] \<and> last s \<in> {CHR ''!'', CHR ''/''} | KInt i \<Rightarrow> False)"

fun clean :: "gval \<Rightarrow> bool" where
  "clean (GList xs) = (\<forall>x \<in> set xs. clean x)"
| "clean (GDict d) = (\<forall>p \<in> set d. \<not> op_key (fst p) \<and> clean (snd p))"
| "clean _ = True"

lemma op_key_cases: "op_key k \<longleftrightarrow> (\<exists>s. k = KStr (s @ ''!'') \<or> k = KStr (s @ ''/''))"
proof -
  have "s \<noteq> [] \<and> last s = c \<longleftrightarrow> (\<exists>t. s = t @ [c])" for s :: string and c
    by (cases s rule: rev_cases) auto
  then show ?thesis by (cases k) (auto simp: op_key_def)
qed

lemma mapE_InrD: "mapE f xs = Inr ys \<Longrightarrow> y \<in> set ys \<Longrightarrow> \<exists>x \<in> set xs. f x = Inr y"
  by (induction xs arbitrary: ys) (auto simp: bindE_Inr_iff)

lemma filter_scan_step:
  assumes "filter_scan name d (ls, dels) (key, v) = Inr (ls', dels')"
  shows "set ls \<subseteq> set ls' \<and> set dels \<subseteq> set dels' \<and>
         (op_key key \<longrightarrow> (\<exists>s. key = KStr s \<and> (butlast s \<in> set ls' \<or> s \<in> set dels')))"
  using assms by (auto simp: filter_scan_def op_key_def bindE_Inr_iff Let_def split: if_splits option.splits)

lemma filter_scan_spec:
  assumes "foldE (filter_scan name d) st ps = Inr st'"
  shows "set (fst st) \<subseteq> set (fst st') \<and> set (snd st) \<subseteq> set (snd st') \<and>
         (\<forall>p \<in> set ps. op_key (fst p) \<longrightarrow>
            (\<exists>s. fst p = KStr s \<and> (butlast s \<in> set (fst st') \<or> s \<in> set (snd st'))))"
  using assms
proof (induction ps arbitrary: st)
  case (Cons p ps)
  then obtain st1 where s1: "filter_scan name d st p = Inr st1"
    and rest: "foldE (filter_scan name d) st1 ps = Inr st'" by (auto simp: bindE_Inr_iff)
  have "set (fst st) \<subseteq> set (fst st1) \<and> set (snd st) \<subseteq> set (snd st1) \<and>
      (op_key (fst p) \<longrightarrow> (\<exists>s. fst p = KStr s \<and> (butlast s \<in> set (fst st1) \<or> s \<in> set (snd st1))))"
    using filter_scan_step [of name d "fst st" "snd st" "fst p" "snd p" "fst st1" "snd st1"] s1 by simp
  with Cons.IH [OF rest] show ?case by auto
qed simp

lemma filter_list_keys:
  assumes "filter_list re name d k = Inr d'" and "op_key j" and "has_key d' j"
  shows "has_key d j \<and> j \<noteq> KStr (k @ ''!'') \<and> j \<noteq> KStr (k @ ''/'')"
proof (rule filter_list_shape [OF assms(1)])
  fix l vs assume l: "get d k = Some (GList l)"
    and d': "d' = filtered_dict (unhook_filters d k) k l (item_action (excludes_of d k) vs)"
  from assms(2) obtain s where j: "j = KStr s" and "last s \<in> {CHR ''!'', CHR ''/''}"
    by (auto simp: op_key_def split: gkey.splits)
  then have "s \<noteq> k @ ''_excluded''" by auto
  then show ?thesis
    using assms(3) l unfolding d' j get_filtered_dict get_unhook_filters by (auto split: if_splits)
qed

lemma filter_lists_keys:
  assumes "foldE (filter_list re name) d ls = Inr d'"
    and "\<And>s. op_key (KStr s) \<Longrightarrow> has_key d (KStr s) \<Longrightarrow> butlast s \<in> set ls"
  shows "op_key k \<Longrightarrow> \<not> has_key d' k"
  using assms
proof (induction ls arbitrary: d)
  case Nil
  from Nil.prems(1) obtain s where "k = KStr s" by (auto simp: op_key_cases)
  with Nil.prems(1,2) Nil.prems(3) [of s] show ?case by (cases "get d' s") auto
next
  case (Cons lk ls)
  from Cons.prems(2) obtain d1 where d1: "filter_list re name d lk = Inr d1"
    and rest: "foldE (filter_list re name) d1 ls = Inr d'" by (auto simp: bindE_Inr_iff)
  show ?case
  proof (rule Cons.IH [OF Cons.prems(1) rest])
    fix s assume s: "op_key (KStr s)" "has_key d1 (KStr s)"
    from filter_list_keys [OF d1 s] Cons.prems(3) [OF s(1)] s(1) show "butlast s \<in> set ls"
      by (auto simp: op_key_cases)
  qed
qed

lemma get_foldl_unhook: "dict_get (foldl unhook d ks) k = (if k \<in> KStr ` set ks then None else dict_get d k)"
  by (induction ks arbitrary: d) auto

lemma filter_flat_clean_keys:
  assumes "filter_flat re name d = Inr d'" and "p \<in> set d'"
  shows "\<not> op_key (fst p)"
proof
  assume op: "op_key (fst p)"
  from assms(1) obtain lists dels where scan: "foldE (filter_scan name d) ([], []) d = Inr (lists, dels)"
    and f: "foldE (filter_list re name) (foldl unhook d dels) lists = Inr d'"
    by (auto simp: filter_flat_def bindE_Inr_iff)
  have "butlast s \<in> set lists" if "op_key (KStr s)" "has_key (foldl unhook d dels) (KStr s)" for s
  proof -
    from that(2) obtain v where "(KStr s, v) \<in> set d" "s \<notin> set dels"
      by (auto simp: get_foldl_unhook dest: dict_get_Some_in split: if_splits)
    with filter_scan_spec [OF scan] that(1) show ?thesis by fastforce
  qed
  from filter_lists_keys [OF f this op] have "\<not> has_key d' (fst p)" by simp
  moreover have "has_key d' (fst p)"
    using assms(2) by (simp add: dict_get_def weak_map_of_SomeI [of "fst p" "snd p"])
  ultimately show False by simp
qed

lemma filters_clean:
  "ProcessListFiltersInDict re name d = Inr d' \<Longrightarrow> clean (GDict d')"
  "ProcessListFiltersInList re name l = Inr l' \<Longrightarrow> clean (GList l')"
proof (induction re name d and re name l arbitrary: d' and l' rule:
    ProcessListFiltersInDict_ProcessListFiltersInList.induct)
  case (1 re name d)
  from "1.prems" obtain e where e: "filter_flat re name d = Inr e"
    and m: "mapE (\<lambda>p. case snd p of
                GDict value \<Rightarrow> bindE (ProcessListFiltersInDict re (key_name (fst p)) value)
                                 (\<lambda>e. Inr (fst p, GDict e))
              | GList value \<Rightarrow> bindE (ProcessListFiltersInList re (key_name (fst p)) value)
                                 (\<lambda>l. Inr (fst p, GList l))
              | _ \<Rightarrow> Inr p) e = Inr d'"
    by (subst (asm) ProcessListFiltersInDict.simps) (auto simp: bindE_Inr_iff)
  have "\<not> op_key (fst q) \<and> clean (snd q)" if "q \<in> set d'" for q
  proof -
    from mapE_InrD [OF m that] obtain p where p: "p \<in> set e"
      and q: "(case snd p of
                GDict value \<Rightarrow> bindE (ProcessListFiltersInDict re (key_name (fst p)) value)
                                 (\<lambda>e. Inr (fst p, GDict e))
              | GList value \<Rightarrow> bindE (ProcessListFiltersInList re (key_name (fst p)) value)
                                 (\<lambda>l. Inr (fst p, GList l))
              | _ \<Rightarrow> Inr p) = Inr q" by blast
    have "\<not> op_key (fst p)" by (rule filter_flat_clean_keys [OF e p])
    with q "1.IH" [OF e p] show ?thesis
      by (cases "snd p") (auto simp: bindE_Inr_iff simp del: clean.simps(1,2))
  qed
  then show ?case by simp
next
  case (2 re name l)
  have "clean y" if "y \<in> set l'" for y
  proof -
    from mapE_InrD [OF "2.prems" [THEN trans [OF ProcessListFiltersInList.simps [symmetric]]] that] obtain x where x: "x \<in> set l"
      and y: "(case x of
              GDict value \<Rightarrow> bindE (ProcessListFiltersInDict re name value) (\<lambda>e. Inr (GDict e))
            | GList value \<Rightarrow> bindE (ProcessListFiltersInList re name value) (\<lambda>l. Inr (GList l))
            | _ \<Rightarrow> Inr x) = Inr y" by blast
    with "2.IH" [OF x] show ?thesis by (cases x) (auto simp: bindE_Inr_iff simp del: clean.simps(1,2))
  qed
  then show ?case by simp
qed

subsection \<open>Properties\<close>

text \<open>
  (C8) Filtering one list splits it: what an exclusion or the last applicable regular
  expression excludes goes, in order, to the \<open>_excluded\<close> list (which only exists if
  something was excluded), everything else stays, in order, and the two filter
  keys are gone.
\<close>

theorem filter_list_partition:
  assumes "filter_list re_compile name d k = Inr d'"
  shows "\<exists>l vs. get d k = Some (GList l) \<and>
           mapE (regex_action re_compile name (k @ ''/'')) (regexes_of d k) = Inr vs \<and>
           get d' k = Some (GList (filter (\<lambda>x. item_action (excludes_of d k) vs x \<noteq> 0) l)) \<and>
           get d' (k @ ''_excluded'') =
             (let out = filter (\<lambda>x. item_action (excludes_of d k) vs x = 0) l
              in if out = [] then None else Some (GList out)) \<and>
           get d' (k @ ''!'') = None \<and> get d' (k @ ''/'') = None"
  by (rule filter_list_shape [OF assms]) (auto simp: get_filtered_dict get_unhook_filters Let_def)

theorem filter_list_partition_witness:
  "\<exists>vs. mapE (regex_action (\<lambda>p. Inr (\<lambda>s. endswith s p)) ''t'' ''sources/'')
          [GList [GStr ''include'', GStr ''a.c'']] = Inr vs \<and>
     [GStr ''a.c''] = filter (\<lambda>x. item_action [GStr ''a.c'', GStr ''b.c''] vs x \<noteq> 0) [GStr ''a.c'', GStr ''b.c'']"
proof -
  let ?d = "[(KStr ''sources'', GList [GStr ''a.c'', GStr ''b.c'']),
             (KStr ''sources!'', GList [GStr ''a.c'', GStr ''b.c'']),
             (KStr ''sources/'', GList [GList [GStr ''include'', GStr ''a.c'']])]"
  have r: "filter_list (\<lambda>p. Inr (\<lambda>s. endswith s p)) ''t'' ?d ''sources'' =
      Inr [(KStr ''sources'', GList [GStr ''a.c'']), (KStr ''sources_excluded'', GList [GStr ''b.c''])]"
    by code_simp
  have l: "get ?d ''sources'' = Some (GList [GStr ''a.c'', GStr ''b.c''])" by simp
  have ex: "excludes_of ?d ''sources'' = [GStr ''a.c'', GStr ''b.c'']"
    and re: "regexes_of ?d ''sources'' = [GList [GStr ''include'', GStr ''a.c'']]" by code_simp+
  from filter_list_partition [OF r, unfolded l ex re] obtain vs where
    "mapE (regex_action (\<lambda>p. Inr (\<lambda>s. endswith s p)) ''t'' (''sources'' @ ''/''))
       [GList [GStr ''include'', GStr ''a.c'']] = Inr vs"
    "get [(KStr ''sources'', GList [GStr ''a.c'']), (KStr ''sources_excluded'', GList [GStr ''b.c''])] ''sources'' =
       Some (GList (filter (\<lambda>x. item_action [GStr ''a.c'', GStr ''b.c''] vs x \<noteq> 0) [GStr ''a.c'', GStr ''b.c'']))"
    by blast
  then show ?thesis by (intro exI [of _ vs]) (simp del: filter.simps mapE.simps)
qed

text \<open>
  When \<open>ProcessListFiltersInDict\<close> returns, no dictionary at any depth has a key
  that ends in \<open>!\<close> or \<open>/\<close>: every filter was applied or dropped.
\<close>

theorem ProcessListFiltersInDict_clean:
  assumes "ProcessListFiltersInDict re_compile name d = Inr d'"
  shows "clean (GDict d')"
  using assms by (rule filters_clean(1))

theorem ProcessListFiltersInDict_clean_witness:
  "clean (GDict [(KStr ''a'', GDict [(KStr ''b'', GList [GStr ''y'']), (KStr ''b_excluded'', GList [GStr ''x''])])])"
proof (rule ProcessListFiltersInDict_clean)
  show "ProcessListFiltersInDict (\<lambda>p. Inr (\<lambda>s. endswith s p)) ''t''
      [(KStr ''a'', GDict [(KStr ''b'', GList [GStr ''x'', GStr ''y'']), (KStr ''b!'', GList [GStr ''x''])]),
       (KStr ''c/'', GList [])] =
    Inr [(KStr ''a'', GDict [(KStr ''b'', GList [GStr ''y'']), (KStr ''b_excluded'', GList [GStr ''x''])])]"
    by code_simp
qed

text \<open>
  A filter on a key whose value is not a list is refused, but the message names
  the class of the filter list, which is always \<open>list\<close>, and not that of the value.
\<close>

theorem filter_scan_wrong_class:
  "filter_scan ''t'' [(KStr ''sources'', GStr ''a.c''), (KStr ''sources!'', GList [])] ([], [])
     (KStr ''sources!'', GList []) =
   Inl (ValueError ''t key sources must be list, not list when applying exclusion'')"
  by code_simp

end
