(* ===== verification/Py_Repr.thy ===== *)
theory Py_Repr
  imports Gyp_Value
begin

text \<open>
  The conversions of the language between values and texts that several components use:
  \<open>int\<close> on strings in a base, \<open>repr\<close> and \<open>str\<close>.
\<close>

subsection \<open>Integers and their text\<close>

definition digit_value :: "char \<Rightarrow> nat option" where
  "digit_value c =
     (if is_digit c then Some (char_digit c)
      else if CHR ''a'' \<le> c \<and> c \<le> CHR ''z'' then Some (of_char c - 87)
      else if CHR ''A'' \<le> c \<and> c \<le> CHR ''Z'' then Some (of_char c - 55)
      else None)"

fun read_digits :: "nat \<Rightarrow> nat \<Rightarrow> string \<Rightarrow> nat option" where
  "read_digits base acc [] = Some acc"
| "read_digits base acc (c # cs) =
     (case digit_value c of
        None \<Rightarrow> None
      | Some d \<Rightarrow> if d < base then read_digits base (base * acc + d) cs else None)"

definition read_unsigned :: "nat \<Rightarrow> string \<Rightarrow> int option" where
  "read_unsigned base s =
     (let s = (if base = 16 \<and> (startswith s ''0x'' \<or> startswith s ''0X'') then drop 2 s else s) in
      if s = [] then None else map_option int (read_digits base 0 s))"

text \<open>\<open>int(value, base)\<close>.\<close>

definition parse_int :: "nat \<Rightarrow> string \<Rightarrow> int option" where
  "parse_int base s =
     (case strip s of
        [] \<Rightarrow> None
      | c # cs \<Rightarrow>
          if c = CHR ''-'' then map_option uminus (read_unsigned base cs)
          else if c = CHR ''+'' then read_unsigned base cs
          else read_unsigned base (c # cs))"

subsection \<open>Texts of values\<close>

definition hex_digit :: "nat \<Rightarrow> char" where
  "hex_digit d = (if d < 10 then digit_char d else char_of (87 + d))"

definition repr_char :: "char \<Rightarrow> char \<Rightarrow> string" where
  "repr_char quote c =
     (if c = quote \<or> c = ch_backslash then [ch_backslash, c]
      else if c = ch_newline then [ch_backslash, CHR ''n'']
      else if c = ch_tab then [ch_backslash, CHR ''t'']
      else if c = ch_return then [ch_backslash, CHR ''r'']
      else let n = of_char c in
           if n < 32 \<or> 127 \<le> n then [ch_backslash, CHR ''x'', hex_digit (n div 16), hex_digit (n mod 16)] else [c])"

definition repr_str :: "string \<Rightarrow> string" where
  "repr_str s =
     (let quote = (if ch_squote \<in> set s \<and> ch_dquote \<notin> set s then ch_dquote else ch_squote) in
      quote # concat (map (repr_char quote) s) @ [quote])"

fun py_repr :: "gval \<Rightarrow> string" where
  "py_repr (GStr s) = repr_str s"
| "py_repr (GInt i) = show_int i"
| "py_repr (GList l) = ''['' @ join_with '', '' (map py_repr l) @ '']''"
| "py_repr (GDict d) = ''{'' @ join_with '', '' (map (\<lambda>(k, v).
     (case k of KStr s \<Rightarrow> repr_str s | KInt i \<Rightarrow> show_int i) @ '': '' @ py_repr v) d) @ ''}''"
| "py_repr (GOther c t) = ''<'' @ c @ ''>''"

fun py_str :: "gval \<Rightarrow> string" where
  "py_str (GStr s) = s"
| "py_str v = py_repr v"

text \<open>\<open>int(value)\<close>.\<close>

fun py_int :: "gval \<Rightarrow> int res" where
  "py_int (GStr s) =
     (case parse_int 10 s of
        Some i \<Rightarrow> Inr i
      | None \<Rightarrow> Inl (ValueError (''invalid literal for int() with base 10: '' @ repr_str s)))"
| "py_int (GInt i) = Inr i"
| "py_int v = Inl (TypeError ''int() argument must be a string or a number'')"

subsection \<open>Integers are read back\<close>

lemma digit_not_space: "is_digit c \<Longrightarrow> \<not> is_space c"
  by (auto simp: is_digit_def is_space_def)

lemma digit_value_digit_char: "d < 10 \<Longrightarrow> digit_value (digit_char d) = Some d"
  by (simp add: digit_value_def)

lemma of_char_hex_digit: "d < 16 \<Longrightarrow> (of_char (hex_digit d) :: nat) = (if d < 10 then 48 + d else 87 + d)"
  by (simp add: hex_digit_def of_char_digit_char)

lemma no_space_above: "32 < (of_char c :: nat) \<Longrightarrow> \<not> is_space c"
  by (auto simp: is_space_def)

lemma hex_digit_facts: "d < 16 \<Longrightarrow> digit_value (hex_digit d) = Some d \<and> \<not> is_space (hex_digit d)"
proof
  assume d: "d < 16"
  show "\<not> is_space (hex_digit d)" by (rule no_space_above) (use d of_char_hex_digit [OF d] in simp)
  show "digit_value (hex_digit d) = Some d"
  proof (cases "d < 10")
    case True
    then show ?thesis by (simp add: hex_digit_def digit_value_digit_char)
  next
    case False
    with d of_char_hex_digit [OF d] show ?thesis by (simp add: digit_value_def is_digit_def less_eq_char_def)
  qed
qed

lemma read_digits_append:
  "read_digits b acc (s @ t) = (case read_digits b acc s of None \<Rightarrow> None | Some n \<Rightarrow> read_digits b n t)"
  by (induction b acc s rule: read_digits.induct) (auto split: option.splits)

lemma read_digits_show_nat: "read_digits 10 0 (show_nat n) = Some n"
proof (induction n rule: show_nat.induct)
  case (1 n)
  then show ?case
    by (subst show_nat.simps) (auto simp: read_digits_append digit_value_digit_char)
qed

lemma strip_no_space: "\<forall>c \<in> set s. \<not> is_space c \<Longrightarrow> strip s = s"
  by (rule strip_id) (cases s; auto)

lemma parse_show_int: "parse_int 10 (show_int i) = Some i"
proof -
  have no_space: "\<forall>c \<in> set (show_int i). \<not> is_space c"
    using show_nat_digits [of "nat i"] show_nat_digits [of "nat (- i)"] digit_not_space
    by (auto simp: show_int_def is_space_def)
  show ?thesis
  proof (cases "i < 0")
    case True
    then show ?thesis
      using no_space by (simp add: parse_int_def strip_no_space show_int_def read_unsigned_def read_digits_show_nat)
  next
    case False
    obtain c cs where c: "show_nat (nat i) = c # cs" by (cases "show_nat (nat i)") simp_all
    with show_nat_digits [of "nat i"] have d: "is_digit c" by simp
    have "c \<noteq> CHR ''-''" "c \<noteq> CHR ''+''" using d by (auto simp: is_digit_def)
    with False no_space c read_digits_show_nat [of "nat i"] show ?thesis
      by (simp add: parse_int_def strip_no_space show_int_def read_unsigned_def)
  qed
qed

end
