(* ===== verification/Py_Shlex.thy ===== *)
theory Py_Shlex
  imports Gyp_Common
begin

text \<open>
  \<open>shlex.split\<close> of Python's library, which the expansion of variables in
  \<open>tools/gyp/pylib/gyp/input.py\<close> uses to split a string into a list: the lexer in its
  POSIX mode, with splitting at white space only and without comments.
  The theorem relates it to \<open>EncodePOSIXShellList\<close>, which renders the lists the
  same code expands into a string.
\<close>

subsection \<open>The lexer\<close>

text \<open>The states of the lexer; an escape remembers the state it returns to.\<close>

datatype lex_state = Between | Word | Quote char | Escape lex_state

definition lex_space :: "char \<Rightarrow> bool" where
  "lex_space c \<longleftrightarrow> c \<in> set [CHR '' '', ch_tab, ch_return, ch_newline]"

definition lex_quote :: "char \<Rightarrow> bool" where
  "lex_quote c \<longleftrightarrow> c = ch_squote \<or> c = ch_dquote"

text \<open>A token is given out when it is not empty or was quoted.\<close>

definition lex_emit :: "string \<Rightarrow> bool \<Rightarrow> string list \<Rightarrow> string list" where
  "lex_emit token quoted rest = (if token \<noteq> [] \<or> quoted then token # rest else rest)"

definition escaped_text :: "lex_state \<Rightarrow> char \<Rightarrow> string" where
  "escaped_text s c =
     (case s of
        Quote q \<Rightarrow> if c \<noteq> ch_backslash \<and> c \<noteq> q then [ch_backslash, c] else [c]
      | _ \<Rightarrow> [c])"

fun shlex_words :: "lex_state \<Rightarrow> string \<Rightarrow> bool \<Rightarrow> string \<Rightarrow> string list res" where
  "shlex_words Between token quoted [] = Inr []"
| "shlex_words Between token quoted (c # cs) =
     (if lex_space c then shlex_words Between [] False cs
      else if c = ch_backslash then shlex_words (Escape Word) [] False cs
      else if lex_quote c then shlex_words (Quote c) [] True cs
      else shlex_words Word [c] False cs)"
| "shlex_words Word token quoted [] = Inr (lex_emit token quoted [])"
| "shlex_words Word token quoted (c # cs) =
     (if lex_space c then bindE (shlex_words Between [] False cs) (\<lambda>ws. Inr (lex_emit token quoted ws))
      else if lex_quote c then shlex_words (Quote c) token True cs
      else if c = ch_backslash then shlex_words (Escape Word) token quoted cs
      else shlex_words Word (token @ [c]) quoted cs)"
| "shlex_words (Quote q) token quoted [] = Inl (ValueError ''No closing quotation'')"
| "shlex_words (Quote q) token quoted (c # cs) =
     (if c = q then shlex_words Word token quoted cs
      else if c = ch_backslash \<and> q = ch_dquote then shlex_words (Escape (Quote q)) token quoted cs
      else shlex_words (Quote q) (token @ [c]) quoted cs)"
| "shlex_words (Escape s) token quoted [] = Inl (ValueError ''No escaped character'')"
| "shlex_words (Escape s) token quoted (c # cs) = shlex_words s (token @ escaped_text s c) quoted cs"

definition shlex_split :: "string \<Rightarrow> string list res" where
  "shlex_split s = shlex_words Between [] False s"

subsection \<open>What the encoder writes, the lexer reads\<close>

lemma lex_chars [simp]:
  "lex_space (CHR '' '')" "\<not> lex_space ch_dquote" "\<not> lex_space ch_backslash" "lex_quote ch_dquote"
  "\<not> lex_quote ch_backslash"
  by (simp_all add: lex_space_def lex_quote_def)

lemma shlex_quoted:
  "ch_backquote \<notin> set s \<Longrightarrow>
    shlex_words (Quote ch_dquote) token q (escape_sub s @ ch_dquote # t) = shlex_words Word (token @ s) q t"
proof (induction s arbitrary: token)
  case (Cons c s)
  from Cons.IH [of "token @ [c]"] Cons.prems show ?case
    by (auto simp: escape_chars_def escaped_text_def)
qed simp

text \<open>A character outside quotes that the lexer takes as it is, or after a backslash.\<close>

definition bare :: "char \<Rightarrow> bool" where
  "bare c \<longleftrightarrow> c \<notin> set quote_chars \<and> c \<noteq> ch_return"

lemma bare_facts: "bare c \<Longrightarrow> \<not> lex_space c" "bare c \<Longrightarrow> c \<notin> set escape_chars \<Longrightarrow> \<not> lex_quote c \<and> c \<noteq> ch_backslash"
  by (auto simp: bare_def quote_chars_def lex_space_def lex_quote_def escape_chars_def)

lemma shlex_plain:
  "\<forall>c \<in> set s. bare c \<Longrightarrow> shlex_words Word token q (escape_sub s @ t) = shlex_words Word (token @ s) q t"
proof (induction s arbitrary: token)
  case (Cons c s)
  then have c: "bare c" by simp
  from Cons.IH [of "token @ [c]"] Cons.prems bare_facts [OF c] show ?case
    by (auto simp: escaped_text_def)
qed simp

definition readable :: "string \<Rightarrow> bool" where
  "readable s \<longleftrightarrow> ch_backquote \<notin> set s \<and> ch_return \<notin> set s"

lemma shlex_argument:
  assumes "readable (arg_text a)"
  shows "\<exists>q. (q \<or> arg_text a \<noteq> []) \<and>
    shlex_words Between [] False (EncodePOSIXShellArgument a @ t) = shlex_words Word (arg_text a) q t"
proof (cases "needs_quote (arg_text a)")
  case True
  with assms show ?thesis
    by (intro exI [of _ True]) (simp add: EncodePOSIXShellArgument_def readable_def shlex_quoted)
next
  case False
  then obtain c s where a: "arg_text a = c # s" by (cases "arg_text a") (auto simp: needs_quote_def)
  with False assms have b: "bare c" "\<forall>c \<in> set s. bare c"
    by (auto simp: needs_quote_def bare_def readable_def)
  from False have e: "EncodePOSIXShellArgument a @ t = escape_sub (arg_text a) @ t"
    by (simp add: EncodePOSIXShellArgument_def)
  show ?thesis
    unfolding e a using bare_facts [OF b(1)] shlex_plain [OF b(2), of "[c]" False t]
    by (intro exI [of _ False]) (auto simp: escaped_text_def)
qed

text \<open>
  Splitting the string \<open>EncodePOSIXShellList\<close> returns gives the arguments back, unless one of
  them holds a back quote (which the encoder escapes and the lexer does not unescape
  within quotes) or a carriage return (which the encoder does not quote).
\<close>

theorem shlex_reads_back:
  assumes "\<forall>a \<in> set args. readable (arg_text a)"
  shows "shlex_split (EncodePOSIXShellList args) = Inr (map arg_text args)"
  using assms unfolding shlex_split_def
proof (induction args)
  case Nil
  show ?case by (simp add: EncodePOSIXShellList_def)
next
  case (Cons a args)
  then have a: "readable (arg_text a)" by simp
  show ?case
  proof (cases args)
    case Nil
    with shlex_argument [OF a, of "[]"] show ?thesis by (auto simp: EncodePOSIXShellList_def lex_emit_def)
  next
    case (Cons b bs)
    then have "EncodePOSIXShellList (a # args) = EncodePOSIXShellArgument a @ CHR '' '' # EncodePOSIXShellList args"
      by (simp add: EncodePOSIXShellList_def)
    moreover from shlex_argument [OF a, of "CHR '' '' # EncodePOSIXShellList args"] obtain q where
      "q \<or> arg_text a \<noteq> []" "shlex_words Between [] False (EncodePOSIXShellArgument a @ CHR '' '' # EncodePOSIXShellList args) =
        shlex_words Word (arg_text a) q (CHR '' '' # EncodePOSIXShellList args)" by blast
    ultimately show ?thesis using Cons.IH Cons.prems by (auto simp: lex_emit_def)
  qed
qed

theorem shlex_reads_back_witness:
  "shlex_split (EncodePOSIXShellList [Inl ''a b'', Inl '''', Inl [ch_dquote, ch_backslash], Inr 7]) =
     Inr [''a b'', '''', [ch_dquote, ch_backslash], ''7'']"
proof -
  have r: "\<forall>a \<in> set [Inl ''a b'', Inl '''', Inl [ch_dquote, ch_backslash], Inr 7]. readable (arg_text a)" by code_simp
  have t: "map arg_text [Inl ''a b'', Inl '''', Inl [ch_dquote, ch_backslash], Inr 7] =
    [''a b'', '''', [ch_dquote, ch_backslash], ''7'']" by code_simp
  from shlex_reads_back [OF r] show ?thesis unfolding t .
qed

text \<open>The two sides disagree on a back quote inside a quoted argument.\<close>

theorem shlex_keeps_back_quote_escaped:
  "shlex_split (EncodePOSIXShellList [Inl [CHR ''a'', CHR '' '', ch_backquote]]) =
     Inr [[CHR ''a'', CHR '' '', ch_backslash, ch_backquote]]"
  by code_simp

end
