(* ===== verification/Input_Store.thy ===== *)
theory Input_Store
  imports Input_Vars Input_Merge Input_Filters Py_Repr Py_Shlex
begin

text \<open>
  The store of \<open>tools/gyp/pylib/gyp/input.py\<close> while it expands variables and processes
  conditions.  That code changes lists and dictionaries in place, and a variable is the very
  list that a dictionary of the build file holds, so values are references into a store of
  objects here, where the other components pass values.  The state also holds the results of
  the commands run so far, the commands themselves and the files.  An action takes a
  state to a result and a state; it has no answer (\<open>None\<close>) when it runs out of fuel.
\<close>

subsection \<open>Objects and references\<close>

datatype hval =
    HStr string
  | HInt int
  | HRef nat
  | HOther string bool

type_synonym hdict = "(gkey \<times> hval) list"

datatype hobj = HList "hval list" | HDict hdict

type_synonym store = "hobj list"

text \<open>A command that was run: what was passed to the shell or to a module, and where.\<close>

datatype command =
    Popen gval bool "string option"
  | DoMain string "string list" string

record xstate =
  objs :: store
  cached_command_results :: "(string \<times> string) list"
  commands :: "(string \<times> command) list"
  files :: "string \<rightharpoonup> string"

definition obj_at :: "store \<Rightarrow> nat \<Rightarrow> hobj option" where
  "obj_at h a = (if a < length h then Some (h ! a) else None)"

definition list_at :: "store \<Rightarrow> nat \<Rightarrow> hval list option" where
  "list_at h a = (case obj_at h a of Some (HList l) \<Rightarrow> Some l | _ \<Rightarrow> None)"

definition dict_at :: "store \<Rightarrow> nat \<Rightarrow> hdict option" where
  "dict_at h a = (case obj_at h a of Some (HDict d) \<Rightarrow> Some d | _ \<Rightarrow> None)"

fun href_list :: "store \<Rightarrow> hval \<Rightarrow> hval list option" where
  "href_list h (HRef a) = list_at h a"
| "href_list h v = None"

fun href_dict :: "store \<Rightarrow> hval \<Rightarrow> hdict option" where
  "href_dict h (HRef a) = dict_at h a"
| "href_dict h v = None"

fun hclass :: "store \<Rightarrow> hval \<Rightarrow> string" where
  "hclass h (HStr s) = ''str''"
| "hclass h (HInt i) = ''int''"
| "hclass h (HRef a) = (if list_at h a \<noteq> None then ''list'' else ''dict'')"
| "hclass h (HOther c t) = c"

fun hscalar :: "hval \<Rightarrow> bool" where
  "hscalar (HStr s) = True"
| "hscalar (HInt i) = True"
| "hscalar _ = False"

text \<open>The value a reference stands for, to the depth \<open>n\<close>.\<close>

primrec freeze :: "nat \<Rightarrow> store \<Rightarrow> hval \<Rightarrow> gval option" where
  "freeze 0 h v = None"
| "freeze (Suc n) h v =
     (case v of
        HStr s \<Rightarrow> Some (GStr s)
      | HInt i \<Rightarrow> Some (GInt i)
      | HOther c t \<Rightarrow> Some (GOther c t)
      | HRef a \<Rightarrow>
          (case obj_at h a of
             None \<Rightarrow> None
           | Some (HList l) \<Rightarrow> map_option GList (those (map (freeze n h) l))
           | Some (HDict d) \<Rightarrow> map_option GDict (those (map (\<lambda>(k, v). map_option (Pair k) (freeze n h v)) d))))"

text \<open>A value made of new objects, the parts before the whole.\<close>

fun thaw :: "gval \<Rightarrow> store \<Rightarrow> hval \<times> store"
  and thaw_list :: "gval list \<Rightarrow> store \<Rightarrow> hval list \<times> store"
  and thaw_dict :: "gdict \<Rightarrow> store \<Rightarrow> hdict \<times> store" where
  "thaw (GStr s) h = (HStr s, h)"
| "thaw (GInt i) h = (HInt i, h)"
| "thaw (GOther c t) h = (HOther c t, h)"
| "thaw (GList l) h = (let (vs, h) = thaw_list l h in (HRef (length h), h @ [HList vs]))"
| "thaw (GDict d) h = (let (e, h) = thaw_dict d h in (HRef (length h), h @ [HDict e]))"
| "thaw_list [] h = ([], h)"
| "thaw_list (v # l) h = (let (x, h) = thaw v h; (xs, h) = thaw_list l h in (x # xs, h))"
| "thaw_dict [] h = ([], h)"
| "thaw_dict ((k, v) # d) h = (let (x, h) = thaw v h; (xs, h) = thaw_dict d h in ((k, x) # xs, h))"

subsection \<open>Actions\<close>

type_synonym 'a act = "xstate \<Rightarrow> ('a \<times> xstate) eval"

definition give :: "'a \<Rightarrow> 'a act" where
  "give x st = Some (Inr (x, st))"

definition throw :: "exn \<Rightarrow> 'a act" where
  "throw e st = Some (Inl e)"

definition bindS :: "'a act \<Rightarrow> ('a \<Rightarrow> 'b act) \<Rightarrow> 'b act" where
  "bindS m f st = bindV (m st) (\<lambda>(x, st). f x st)"

definition lift_res :: "'a res \<Rightarrow> 'a act" where
  "lift_res r st = (case r of Inl e \<Rightarrow> Some (Inl e) | Inr x \<Rightarrow> Some (Inr (x, st)))"

definition lift_option :: "'a option \<Rightarrow> 'a act" where
  "lift_option r st = (case r of None \<Rightarrow> None | Some x \<Rightarrow> Some (Inr (x, st)))"

definition get_store :: "store act" where
  "get_store st = Some (Inr (objs st, st))"

definition put_store :: "store \<Rightarrow> unit act" where
  "put_store h st = Some (Inr ((), st\<lparr>objs := h\<rparr>))"

primrec each :: "('a \<Rightarrow> unit act) \<Rightarrow> 'a list \<Rightarrow> unit act" where
  "each f [] = give ()"
| "each f (x # xs) = bindS (f x) (\<lambda>_. each f xs)"

primrec mapS :: "('a \<Rightarrow> 'b act) \<Rightarrow> 'a list \<Rightarrow> 'b list act" where
  "mapS f [] = give []"
| "mapS f (x # xs) = bindS (f x) (\<lambda>y. bindS (mapS f xs) (\<lambda>ys. give (y # ys)))"

text \<open>New objects, and objects overwritten in place.\<close>

definition new_obj :: "hobj \<Rightarrow> nat act" where
  "new_obj x = bindS get_store (\<lambda>h. bindS (put_store (h @ [x])) (\<lambda>_. give (length h)))"

definition set_obj :: "nat \<Rightarrow> hobj \<Rightarrow> unit act" where
  "set_obj a x = bindS get_store (\<lambda>h. put_store (h[a := x]))"

definition new_value :: "gval \<Rightarrow> hval act" where
  "new_value v = bindS get_store (\<lambda>h. let (x, h) = thaw v h in bindS (put_store h) (\<lambda>_. give x))"

text \<open>\<open>copy.deepcopy\<close> and everything else that reads a whole value.\<close>

definition frozen :: "hval \<Rightarrow> gval act" where
  "frozen v = bindS get_store (\<lambda>h. lift_option (freeze (Suc (length h)) h v))"

definition the_list_at :: "nat \<Rightarrow> hval list act" where
  "the_list_at a = bindS get_store (\<lambda>h.
     case list_at h a of None \<Rightarrow> throw (TypeError ''list expected'') | Some l \<Rightarrow> give l)"

definition the_dict_at :: "nat \<Rightarrow> hdict act" where
  "the_dict_at a = bindS get_store (\<lambda>h.
     case dict_at h a of None \<Rightarrow> throw (AttributeError ''object has no attribute iteritems'') | Some d \<Rightarrow> give d)"

text \<open>\<open>for key, value in the_dict.iteritems()\<close>: a dictionary that changes its size ends the loop.\<close>

definition check_size :: "nat \<Rightarrow> nat \<Rightarrow> hdict act" where
  "check_size a n = bindS (the_dict_at a) (\<lambda>d.
     if length d = n then give d else throw (RuntimeError ''dictionary changed size during iteration''))"

definition each_entry :: "nat \<Rightarrow> (gkey \<Rightarrow> hval \<Rightarrow> unit act) \<Rightarrow> unit act" where
  "each_entry a f = bindS (the_dict_at a) (\<lambda>d.
     bindS (each (\<lambda>i. bindS (check_size a (length d)) (\<lambda>d. f (fst (d ! i)) (snd (d ! i)))) [0..<length d]) (\<lambda>_.
       bindS (check_size a (length d)) (\<lambda>_. give ())))"

subsection \<open>Equations of actions\<close>

lemma bindS_simps [simp]:
  "bindS (give x) f = f x" "bindS (throw e) f = throw e" "bindS get_store g st = g (objs st) st"
  "lift_res (Inr y) = give y" "lift_res (Inl e) = throw e"
  by (auto simp: bindS_def give_def throw_def get_store_def lift_res_def)

lemma bindS_step: "m st = Some (Inr (x, st')) \<Longrightarrow> bindS m f st = f x st'"
  by (simp add: bindS_def)

lemma bindS_assoc: "bindS (bindS m f) g = bindS m (\<lambda>x. bindS (f x) g)"
  by (rule ext) (auto simp: bindS_def bindV_def split: option.splits sum.splits)

lemma frozen_step: "freeze (Suc (length (objs st))) (objs st) v = Some x \<Longrightarrow> frozen v st = Some (Inr (x, st))"
  by (simp add: frozen_def lift_option_def)

subsection \<open>What actions keep\<close>

text \<open>An action keeps a relation when every state it ends in is related to the one it started from.\<close>

definition keeps :: "(xstate \<Rightarrow> xstate \<Rightarrow> bool) \<Rightarrow> 'a act \<Rightarrow> bool" where
  "keeps R m \<longleftrightarrow> (\<forall>st x st'. m st = Some (Inr (x, st')) \<longrightarrow> R st st')"

lemma keepsD: "keeps R m \<Longrightarrow> m st = Some (Inr (x, st')) \<Longrightarrow> R st st'"
  unfolding keeps_def by blast

locale state_relation =
  fixes R :: "xstate \<Rightarrow> xstate \<Rightarrow> bool"
  assumes R_refl: "R st st"
    and R_trans: "R st st' \<Longrightarrow> R st' st'' \<Longrightarrow> R st st''"
begin

lemma keeps_same:
  "keeps R (give x)" "keeps R (throw e)" "keeps R (lift_res r)" "keeps R (lift_option q)" "keeps R get_store"
  by (auto simp: keeps_def give_def throw_def lift_res_def lift_option_def get_store_def R_refl
      split: sum.splits option.splits)

lemma keeps_bindS: "keeps R m \<Longrightarrow> (\<And>x. keeps R (f x)) \<Longrightarrow> keeps R (bindS m f)"
  unfolding keeps_def bindS_def by (fastforce simp: bindV_Inr_iff intro: R_trans)

lemma keeps_each: "(\<And>x. keeps R (f x)) \<Longrightarrow> keeps R (each f xs)"
  by (induction xs) (auto intro: keeps_same keeps_bindS)

lemma keeps_mapS: "(\<And>x. keeps R (f x)) \<Longrightarrow> keeps R (mapS f xs)"
  by (induction xs) (auto intro: keeps_same keeps_bindS)

lemmas keeps_rules = keeps_same keeps_bindS keeps_each keeps_mapS

end

subsection \<open>Variables\<close>

type_synonym vars = hdict

definition hloadable :: "store \<Rightarrow> hval \<Rightarrow> bool" where
  "hloadable h v \<longleftrightarrow> hscalar v \<or> href_list h v \<noteq> None"

definition automatic_variables :: "store \<Rightarrow> vars \<Rightarrow> hdict \<Rightarrow> vars res" where
  "automatic_variables h variables the_dict =
     foldE (\<lambda>vs (key, value).
         if hloadable h value then bindE (key_str key) (\<lambda>k. Inr (dict_set vs (KStr (''_'' @ k)) value)) else Inr vs)
       variables the_dict"

definition load_section_variable ::
  "store \<Rightarrow> hdict \<Rightarrow> string option \<Rightarrow> vars \<Rightarrow> gkey \<times> hval \<Rightarrow> vars res" where
  "load_section_variable h the_dict the_dict_key vs kv =
     (let (key, value) = kv in
      if \<not> hloadable h value then Inr vs
      else bindE (key_str key) (\<lambda>k.
        if endswith k ''%''
        then let variable_name = KStr (butlast k) in
             if has_key vs variable_name then Inr vs
             else if the_dict_key = Some ''variables'' \<and> has_key the_dict variable_name
             then Inr (dict_set vs variable_name (the (dict_get the_dict variable_name)))
             else Inr (dict_set vs variable_name value)
        else Inr (dict_set vs (KStr k) value)))"

definition section_variables :: "store \<Rightarrow> vars \<Rightarrow> hdict \<Rightarrow> string option \<Rightarrow> vars res" where
  "section_variables h variables the_dict the_dict_key =
     (case dict_get the_dict (KStr ''variables'') of
        None \<Rightarrow> Inr variables
      | Some v \<Rightarrow>
          (case href_dict h v of
             None \<Rightarrow> Inl (AttributeError (hclass h v @ '' object has no attribute iteritems''))
           | Some d \<Rightarrow> foldE (load_section_variable h the_dict the_dict_key) variables d))"

subsection \<open>Merging in place\<close>

text \<open>
  \<open>MergeLists\<close> and \<open>MergeDicts\<close> on a list or dictionary of the store.  What is merged
  in is only read, and copied: it is passed as a value.
\<close>

definition copied_item :: "gyp_env \<Rightarrow> string \<Rightarrow> string \<Rightarrow> bool \<Rightarrow> gval \<Rightarrow> gval res" where
  "copied_item E to_file fro_file is_paths item =
     (case item of
        GDict d \<Rightarrow> bindE (MergeDicts E [] d to_file fro_file) (\<lambda>t. Inr (GDict t))
      | GList l \<Rightarrow> bindE (MergeLists E [] l to_file fro_file False True) (\<lambda>t. Inr (GList t))
      | GOther c t \<Rightarrow> Inl (TypeError (''Attempt to merge list item of unsupported type '' @ c))
      | _ \<Rightarrow> merge_scalar_item E to_file fro_file is_paths item)"

definition hhashable :: "hval \<Rightarrow> bool" where
  "hhashable v \<longleftrightarrow> (case v of HRef a \<Rightarrow> False | _ \<Rightarrow> True)"

record hmerge =
  hm_to :: "hval list"
  hm_set :: "hval list"
  hm_index :: nat

definition place_item :: "bool \<Rightarrow> bool \<Rightarrow> hval \<Rightarrow> hmerge \<Rightarrow> hmerge" where
  "place_item app singleton to_item m =
     (let hset = (if hhashable to_item then set_insert to_item (hm_set m) else hm_set m)
      in if app
         then if \<not> singleton \<or> to_item \<notin> set (hm_set m)
              then m\<lparr>hm_to := hm_to m @ [to_item], hm_set := hset\<rparr>
              else m
         else let to = (if singleton then removeAll to_item (hm_to m) else hm_to m)
              in m\<lparr>hm_to := take (hm_index m) to @ to_item # drop (hm_index m) to, hm_set := hset,
                    hm_index := hm_index m + 1\<rparr>)"

fun merge_items :: "gyp_env \<Rightarrow> string \<Rightarrow> string \<Rightarrow> bool \<Rightarrow> bool \<Rightarrow> hmerge \<Rightarrow> gval list \<Rightarrow> hmerge act" where
  "merge_items E to_file fro_file is_paths app m [] = give m"
| "merge_items E to_file fro_file is_paths app m (item # items) =
     bindS (lift_res (copied_item E to_file fro_file is_paths item)) (\<lambda>copy.
     bindS (new_value copy) (\<lambda>to_item.
       merge_items E to_file fro_file is_paths app (place_item app (is_singleton item) to_item m) items))"

definition merge_list_into ::
  "gyp_env \<Rightarrow> nat \<Rightarrow> gval list \<Rightarrow> string \<Rightarrow> string \<Rightarrow> bool \<Rightarrow> bool \<Rightarrow> unit act" where
  "merge_list_into E a fro to_file fro_file is_paths app =
     bindS (the_list_at a) (\<lambda>to.
     bindS (merge_items E to_file fro_file is_paths app
              \<lparr>hm_to = to, hm_set = filter hhashable to, hm_index = 0\<rparr> fro) (\<lambda>m.
       set_obj a (HList (hm_to m))))"

definition same_hclass :: "store \<Rightarrow> gval \<Rightarrow> hval \<Rightarrow> bool" where
  "same_hclass h v w = (class_name v = hclass h w)"

definition bad_merge_into :: "store \<Rightarrow> hdict \<Rightarrow> gkey \<Rightarrow> gval \<Rightarrow> bool" where
  "bad_merge_into h to k v =
     (case dict_get to k of
        None \<Rightarrow> False
      | Some w \<Rightarrow> if is_scalar v then \<not> hscalar w else \<not> same_hclass h v w)"

definition merge_type_error :: "store \<Rightarrow> hdict \<Rightarrow> gkey \<Rightarrow> string \<Rightarrow> gval \<Rightarrow> exn" where
  "merge_type_error h to k name v =
     TypeError (''Attempt to merge dict value of type '' @ class_name v @ '' into incompatible type '' @
       hclass h (the (dict_get to k)) @ '' for key '' @ name)"

definition name_of_key :: "gkey \<Rightarrow> string" where
  "name_of_key k = (case k of KStr s \<Rightarrow> s | KInt i \<Rightarrow> [])"

text \<open>\<open>to[list_base] = []\<close>.\<close>

definition fresh_list :: "nat \<Rightarrow> gkey \<Rightarrow> nat act" where
  "fresh_list a base =
     bindS (new_obj (HList [])) (\<lambda>b. bindS (the_dict_at a) (\<lambda>to.
       bindS (set_obj a (HDict (dict_set to base (HRef b)))) (\<lambda>_. give b)))"

text \<open>\<open>to[list_base]\<close> before the items are merged; \<open>None\<close> when the policy skips the key.\<close>

definition policy_target :: "gdict \<Rightarrow> gkey \<Rightarrow> gval \<Rightarrow> nat \<Rightarrow> (nat \<times> string \<times> bool) option act" where
  "policy_target fro key v a =
     bindS (lift_res (key_str key)) (\<lambda>k.
     bindS (lift_res (list_policy_of k)) (\<lambda>p.
     let base = KStr (list_base p) in
     bindS (if lp_ext p = CHR ''='' then bindS (fresh_list a base) (\<lambda>_. give ()) else give ()) (\<lambda>_.
     bindS (case find (\<lambda>i. has_key fro (KStr i)) (lists_incompatible p) of
              Some i \<Rightarrow> throw (GypError (''Incompatible list policies '' @ k @ '' and '' @ i))
            | None \<Rightarrow> give ()) (\<lambda>_.
     bindS (the_dict_at a) (\<lambda>to. bindS get_store (\<lambda>h.
     case dict_get to base of
       None \<Rightarrow> bindS (fresh_list a base) (\<lambda>b. give (Some (b, list_base p, lp_append p)))
     | Some w \<Rightarrow>
         if lp_ext p = CHR ''?'' then give None
         else (case (w, href_list h w) of
                 (HRef b, Some l) \<Rightarrow> give (Some (b, list_base p, lp_append p))
               | _ \<Rightarrow> throw (merge_type_error h to base (list_base p @ ''('' @ k @ '')'') v))))))))"

definition dict_target :: "nat \<Rightarrow> gkey \<Rightarrow> nat act" where
  "dict_target a k =
     bindS (the_dict_at a) (\<lambda>to.
       case dict_get to k of
         Some (HRef b) \<Rightarrow> give b
       | _ \<Rightarrow> bindS (new_obj (HDict [])) (\<lambda>b. bindS (set_obj a (HDict (dict_set to k (HRef b)))) (\<lambda>_. give b)))"

definition set_item :: "nat \<Rightarrow> gkey \<Rightarrow> hval \<Rightarrow> unit act" where
  "set_item a k v = bindS (the_dict_at a) (\<lambda>d. set_obj a (HDict (dict_set d k v)))"

fun merge_entries :: "gyp_env \<Rightarrow> string \<Rightarrow> string \<Rightarrow> gdict \<Rightarrow> nat \<Rightarrow> gdict \<Rightarrow> unit act" where
  "merge_entries E to_file fro_file fro a [] = give ()"
| "merge_entries E to_file fro_file fro a ((k, v) # items) =
     bindS
       (bindS (the_dict_at a) (\<lambda>to. bindS get_store (\<lambda>h.
        if bad_merge_into h to k v then throw (merge_type_error h to k (name_of_key k) v)
        else case v of
          GDict d \<Rightarrow> bindS (dict_target a k) (\<lambda>b. merge_entries E to_file fro_file d b d)
        | GList l \<Rightarrow>
            bindS (policy_target fro k v a) (\<lambda>target.
              case target of
                None \<Rightarrow> give ()
              | Some (b, base, app) \<Rightarrow> merge_list_into E b l to_file fro_file (IsPathSection E base) app)
        | GOther c t \<Rightarrow>
            throw (TypeError (''Attempt to merge dict value of unsupported type '' @ c @ '' for key '' @ name_of_key k))
        | _ \<Rightarrow> bindS (lift_res (merge_scalar E to_file fro_file k v)) (\<lambda>w.
               bindS (new_value w) (\<lambda>w. set_item a k w)))))
       (\<lambda>_. merge_entries E to_file fro_file fro a items)"

definition merge_dict_into :: "gyp_env \<Rightarrow> nat \<Rightarrow> gdict \<Rightarrow> string \<Rightarrow> string \<Rightarrow> unit act" where
  "merge_dict_into E a fro to_file fro_file = merge_entries E to_file fro_file fro a fro"

end
