(* ===== verification/Input_Expand.thy ===== *)
theory Input_Expand
  imports Input_Store
begin

text \<open>
  The expansion of variables and the processing of conditions in
  \<open>tools/gyp/pylib/gyp/input.py\<close>: \<open>ExpandVariables\<close>, \<open>ProcessConditionsInDict\<close>,
  \<open>ProcessVariablesAndConditionsInDict\<close> and \<open>ProcessVariablesAndConditionsInList\<close>.  Each
  is a definition over the functions it calls back, the record \<open>calls\<close>; \<open>calls_to\<close> ties the
  knot to the depth \<open>n\<close>, and has no answer below.  The commands and modules that are run,
  Python's \<open>eval\<close> and the regular expressions of list filters are parameters, the record
  \<open>xenv\<close>; a command is given the number of commands run before it, so that it may answer
  differently every time.
\<close>

subsection \<open>The environment\<close>

record process =
  p_stdout :: string
  p_stderr :: string
  returncode :: int

text \<open>What the evaluation of a condition comes to.\<close>

datatype cond_outcome =
    Truth bool
  | Syntax_Error string string int
  | Name_Error string
  | Other_Error exn

record xenv =
  xgyp :: gyp_env
  run_process :: "nat \<Rightarrow> command \<Rightarrow> process"
  run_module :: "nat \<Rightarrow> command \<Rightarrow> string res"
  eval_text :: "string \<Rightarrow> gval res"
  eval_condition :: "string \<Rightarrow> vars \<Rightarrow> store \<Rightarrow> cond_outcome"
  filters :: re_engine
  mkstemp :: "(string \<rightharpoonup> string) \<Rightarrow> string \<Rightarrow> string"

datatype xval = XStr string | XInt int | XList "hval list"

record calls =
  call_expand :: "nat \<Rightarrow> vars \<Rightarrow> string \<Rightarrow> hval \<Rightarrow> xval act"
  call_list_from :: "nat \<Rightarrow> vars \<Rightarrow> string \<Rightarrow> nat \<Rightarrow> nat \<Rightarrow> unit act"
  call_dict :: "nat \<Rightarrow> vars \<Rightarrow> string \<Rightarrow> nat \<Rightarrow> string option \<Rightarrow> unit act"

abbreviation (input) "PHASE_EARLY \<equiv> 0 :: nat"
abbreviation (input) "PHASE_LATE \<equiv> 1 :: nat"
abbreviation (input) "PHASE_LATELATE \<equiv> 2 :: nat"

subsection \<open>The patterns\<close>

definition expansion_symbol :: "nat \<Rightarrow> char res" where
  "expansion_symbol phase =
     (if phase = PHASE_EARLY then Inr (CHR ''<'')
      else if phase = PHASE_LATE then Inr (CHR ''>'')
      else if phase = PHASE_LATELATE then Inr (CHR ''^'')
      else Inl AssertionError)"

record vmatch =
  m_start :: nat
  m_type :: string
  m_command :: string
  m_is_array :: bool
  m_length :: nat

definition command_char :: "char \<Rightarrow> bool" where
  "command_char c \<longleftrightarrow> is_alpha c \<or> is_digit c \<or> c \<in> set ''-_.''"

text \<open>The characters between the expansion symbol and the command or the parenthesis.\<close>

definition type_part :: "string \<Rightarrow> string" where
  "type_part s =
     (if startswith s ''!@'' then ''!@''
      else if s \<noteq> [] \<and> hd s \<in> set ''!@|'' then [hd s] else [])"

text \<open>
  A match of \<open>variable_re\<close> at the head of \<open>s\<close>.  The content ends at the first closing
  parenthesis, which has to come before the end of the line.
\<close>

definition match_here :: "char \<Rightarrow> nat \<Rightarrow> string \<Rightarrow> vmatch option" where
  "match_here symbol start s =
     (if s = [] \<or> hd s \<noteq> symbol then None
      else let typ = type_part (tl s);
               s1 = drop (length typ) (tl s);
               command = takeWhile command_char s1;
               s2 = dropWhile command_char s1 in
        if s2 = [] \<or> hd s2 \<noteq> CHR ''('' then None
        else let space = takeWhile is_space (tl s2);
                 s3 = dropWhile is_space (tl s2);
                 bracket = (s3 \<noteq> [] \<and> hd s3 = CHR ''['');
                 s4 = (if bracket then tl s3 else s3);
                 s5 = dropWhile (\<lambda>c. c \<noteq> CHR '')'' \<and> c \<noteq> ch_newline) s4 in
          if s5 = [] \<or> hd s5 \<noteq> CHR '')'' then None
          else Some \<lparr>m_start = start, m_type = symbol # typ, m_command = command,
                 m_is_array = (space \<noteq> [] \<or> bracket), m_length = length s - length (tl s5)\<rparr>)"

text \<open>\<open>finditer\<close>: the matches from the left, none within another.\<close>

function find_matches :: "char \<Rightarrow> nat \<Rightarrow> string \<Rightarrow> vmatch list" where
  "find_matches symbol start s =
     (if s = [] then []
      else case match_here symbol start s of
             None \<Rightarrow> find_matches symbol (start + 1) (tl s)
           | Some m \<Rightarrow> m # find_matches symbol (start + max 1 (m_length m)) (drop (max 1 (m_length m)) s))"
  by pat_completeness auto

termination by (relation "measure (\<lambda>(symbol, start, s). length s)") auto

declare find_matches.simps [simp del]

text \<open>\<open>s[i:j]\<close>: negative indices count from the end.\<close>

definition slice_index :: "string \<Rightarrow> int \<Rightarrow> nat" where
  "slice_index s i = (if i < 0 then nat (i + int (length s)) else min (nat i) (length s))"

definition py_slice :: "string \<Rightarrow> int \<Rightarrow> int \<Rightarrow> string" where
  "py_slice s i j = drop (slice_index s i) (take (slice_index s j) s)"

definition quoted :: "string \<Rightarrow> string" where
  "quoted s = [ch_squote] @ s @ [ch_squote]"

definition rstrip :: "string \<Rightarrow> string" where
  "rstrip s = rev (dropWhile is_space (rev s))"

subsection \<open>Files and commands\<close>

text \<open>The directory of the build file, \<open>None\<close> for the current directory.\<close>

definition build_file_dir :: "string \<Rightarrow> string option" where
  "build_file_dir build_file = (if dirname build_file = [] then None else Some (dirname build_file))"

text \<open>The variables for \<open><|()\<close>: a deep copy, filtered.\<close>

definition filtered_variables :: "xenv \<Rightarrow> string \<Rightarrow> vars \<Rightarrow> vars act" where
  "filtered_variables X contents variables =
     bindS (mapS (\<lambda>(k, v). bindS (frozen v) (\<lambda>x. give (k, x))) variables) (\<lambda>d.
     bindS (lift_res (ProcessListFiltersInDict (filters X) contents d)) (\<lambda>d.
       mapS (\<lambda>(k, x). bindS (new_value x) (\<lambda>v. give (k, v))) d))"

definition write_file_list :: "xenv \<Rightarrow> string \<Rightarrow> string \<Rightarrow> string act" where
  "write_file_list X build_file contents =
     (let contents_list = split_on (CHR '' '') contents; replacement = hd contents_list in
      bindS (if isabs replacement then give replacement
             else case build_file_dir build_file of
                    None \<Rightarrow> throw (AttributeError ''NoneType object has no attribute endswith'')
                  | Some d \<Rightarrow> give (path_join d replacement)) (\<lambda>path st.
        give replacement
          (st\<lparr>files := fst (WriteOnDiff (files st) (mkstemp X (files st) path) path
                             (map (\<lambda>i. i @ [ch_newline]) (tl contents_list)))\<rparr>)))"

definition log_command :: "string \<Rightarrow> command \<Rightarrow> nat act" where
  "log_command cache_key c st = Some (Inr (length (commands st), st\<lparr>commands := commands st @ [(cache_key, c)]\<rparr>))"

definition run_uncached :: "xenv \<Rightarrow> string \<Rightarrow> string \<Rightarrow> string \<Rightarrow> gval \<Rightarrow> bool \<Rightarrow> string act" where
  "run_uncached X build_file command_string cache_key contents use_shell =
     (if command_string = ''pymod_do_main'' then
        (case build_file_dir build_file of
           None \<Rightarrow> throw (TypeError ''coercing to Unicode: need string or buffer, NoneType found'')
         | Some d \<Rightarrow>
             bindS (lift_res (bindE (case contents of GStr s \<Rightarrow> Inr s
                                     | v \<Rightarrow> Inl (AttributeError (class_name v @ '' object has no attribute read'')))
                       shlex_split)) (\<lambda>parsed_contents.
             if parsed_contents = [] then throw IndexError
             else let c = DoMain (hd parsed_contents) (tl parsed_contents) d in
               bindS (log_command cache_key c) (\<lambda>n.
               bindS (lift_res (run_module X n c)) (\<lambda>out. give (rstrip out)))))
      else if command_string \<noteq> [] then
        throw (GypError (''Unknown command string '' @ quoted command_string @ '' in '' @ quoted (py_str contents) @ ''.''))
      else
        let contents = (case contents of GStr s \<Rightarrow> GStr (FixupPlatformCommand False s) | v \<Rightarrow> v);
            c = Popen contents use_shell (build_file_dir build_file) in
        bindS (log_command cache_key c) (\<lambda>n.
          let p = run_process X n c in
          if returncode p \<noteq> 0 \<or> p_stderr p \<noteq> [] then
            throw (GypError (''Call to '' @ quoted (py_str contents) @ '' returned exit status '' @ show_int (returncode p) @ ''.''))
          else give (rstrip (p_stdout p))))"

definition run_command :: "xenv \<Rightarrow> string \<Rightarrow> vmatch \<Rightarrow> string \<Rightarrow> string act" where
  "run_command X build_file m contents =
     bindS (if m_is_array m then lift_res (eval_text X contents) else give (GStr contents)) (\<lambda>value.
     let cache_key = py_str value in
     bindS (\<lambda>st. give (dict_get (cached_command_results st) cache_key) st) (\<lambda>cached_value.
     case cached_value of
       Some replacement \<Rightarrow> give replacement
     | None \<Rightarrow>
         bindS (run_uncached X build_file (m_command m) cache_key value (\<not> m_is_array m)) (\<lambda>replacement st.
           give replacement
             (st\<lparr>cached_command_results := dict_set (cached_command_results st) cache_key replacement\<rparr>))))"

subsection \<open>One match\<close>

definition last_char :: "string \<Rightarrow> char res" where
  "last_char s = (if s = [] then Inl IndexError else Inr (last s))"

text \<open>The value of the variable \<open>contents\<close>; a filter list that does not exist is empty.\<close>

definition variable_value :: "vars \<Rightarrow> string \<Rightarrow> string \<Rightarrow> hval act" where
  "variable_value variables build_file contents =
     (case dict_get variables (KStr contents) of
        Some v \<Rightarrow> give v
      | None \<Rightarrow>
          bindS (lift_res (last_char contents)) (\<lambda>c.
          if c \<in> set ''!/'' then bindS (new_obj (HList [])) (\<lambda>b. give (HRef b))
          else throw (GypError (''Undefined variable '' @ contents @ '' in '' @ build_file))))"

definition check_item :: "string \<Rightarrow> hval \<Rightarrow> unit act" where
  "check_item contents item =
     bindS (lift_res (last_char contents)) (\<lambda>c.
     if c \<noteq> CHR ''/'' \<and> \<not> hscalar item then
       bindS get_store (\<lambda>h. throw (GypError (''Variable '' @ contents @
         '' must expand to a string or list of strings; list contains a '' @ hclass h item)))
     else give ())"

text \<open>Its items are expanded in place, so the list that the variable holds changes.\<close>

definition expand_replacement :: "calls \<Rightarrow> nat \<Rightarrow> vars \<Rightarrow> string \<Rightarrow> string \<Rightarrow> hval \<Rightarrow> unit act" where
  "expand_replacement C phase variables build_file contents replacement =
     bindS get_store (\<lambda>h.
     case (replacement, href_list h replacement) of
       (HRef a, Some l) \<Rightarrow>
         bindS (each (check_item contents) l) (\<lambda>_. call_list_from C phase variables build_file a 0)
     | _ \<Rightarrow>
         if hscalar replacement then give ()
         else throw (GypError (''Variable '' @ contents @
                '' must expand to a string or list of strings; found a '' @ hclass h replacement)))"

definition str_of_value :: "hval \<Rightarrow> string act" where
  "str_of_value v = bindS (frozen v) (\<lambda>x. give (py_str x))"

definition shell_arg_of :: "hval \<Rightarrow> shell_arg act" where
  "shell_arg_of v = (case v of HInt i \<Rightarrow> give (Inr i) | _ \<Rightarrow> bindS (str_of_value v) (\<lambda>s. give (Inl s)))"

definition list_context :: "hval \<Rightarrow> xval act" where
  "list_context replacement =
     bindS get_store (\<lambda>h.
     case href_list h replacement of
       Some l \<Rightarrow> give (XList l)
     | None \<Rightarrow> bindS (str_of_value replacement) (\<lambda>s. bindS (lift_res (shlex_split s)) (\<lambda>ws.
                 give (XList (map HStr ws)))))"

definition string_context :: "hval \<Rightarrow> string act" where
  "string_context replacement =
     bindS get_store (\<lambda>h.
     case href_list h replacement of
       Some l \<Rightarrow> bindS (mapS shell_arg_of l) (\<lambda>args. give (EncodePOSIXShellList args))
     | None \<Rightarrow> str_of_value replacement)"

definition expand_match ::
  "xenv \<Rightarrow> calls \<Rightarrow> nat \<Rightarrow> vars \<Rightarrow> string \<Rightarrow> string \<Rightarrow> vmatch \<Rightarrow> xval act" where
  "expand_match X C phase variables build_file input_str m =
     (let replace_start = int (m_start m);
          (c_start, c_end) = FindEnclosingBracketGroup (drop (m_start m) input_str);
          replace_end = replace_start + c_end;
          replacement = py_slice input_str replace_start replace_end;
          contents = py_slice input_str (replace_start + c_start + 1) (replace_end - 1);
          file_list = (CHR ''|'' \<in> set (m_type m)) in
      bindS (if file_list then filtered_variables X contents variables else give variables) (\<lambda>processed_variables.
      bindS (call_expand C phase processed_variables build_file (HStr contents)) (\<lambda>expanded.
      case expanded of
        XInt i \<Rightarrow> throw (AttributeError ''int object has no attribute strip'')
      | XList l \<Rightarrow> throw (AttributeError ''list object has no attribute strip'')
      | XStr s \<Rightarrow>
          let contents = strip s;
              expand_to_list = (CHR ''@'' \<in> set (m_type m) \<and> input_str = replacement) in
          bindS (if file_list then bindS (write_file_list X build_file contents) (\<lambda>r. give (HStr r))
                 else if CHR ''!'' \<in> set (m_type m) then bindS (run_command X build_file m contents) (\<lambda>r. give (HStr r))
                 else variable_value variables build_file contents) (\<lambda>replacement.
          bindS (expand_replacement C phase variables build_file contents replacement) (\<lambda>_.
          if expand_to_list then list_context replacement
          else bindS (string_context replacement) (\<lambda>encoded_replacement.
                 give (XStr (take (slice_index input_str replace_start) input_str @ encoded_replacement @
                             drop (slice_index input_str replace_end) input_str))))))))"

subsection \<open>\<open>ExpandVariables\<close>\<close>

text \<open>The matches from right to left; what one leaves is the input of the next.\<close>

fun expand_matches ::
  "xenv \<Rightarrow> calls \<Rightarrow> nat \<Rightarrow> vars \<Rightarrow> string \<Rightarrow> vmatch list \<Rightarrow> xval \<Rightarrow> xval act" where
  "expand_matches X C phase variables build_file [] output = give output"
| "expand_matches X C phase variables build_file (m # ms) output =
     (case output of
        XStr s \<Rightarrow> bindS (expand_match X C phase variables build_file s m)
                   (expand_matches X C phase variables build_file ms)
      | _ \<Rightarrow> throw (TypeError ''string expected''))"

definition as_item :: "xval \<Rightarrow> hval act" where
  "as_item x = (case x of XStr s \<Rightarrow> give (HStr s) | XInt i \<Rightarrow> give (HInt i)
                        | XList l \<Rightarrow> bindS (new_obj (HList l)) (\<lambda>a. give (HRef a)))"

definition int_text :: "string \<Rightarrow> int res" where
  "int_text s = py_int (GStr s)"

text \<open>The loop at the end: texts of integers become integers.\<close>

definition canonical_item :: "hval \<Rightarrow> hval res" where
  "canonical_item v =
     (case v of
        HStr s \<Rightarrow> if IsStrCanonicalInt (GStr s) then bindE (int_text s) (\<lambda>i. Inr (HInt i)) else Inr v
      | _ \<Rightarrow> Inr v)"

definition canonical_output :: "xval \<Rightarrow> xval res" where
  "canonical_output x =
     (case x of
        XStr s \<Rightarrow> if IsStrCanonicalInt (GStr s) then bindE (int_text s) (\<lambda>i. Inr (XInt i)) else Inr x
      | XInt i \<Rightarrow> Inr x
      | XList l \<Rightarrow> bindE (mapE canonical_item l) (\<lambda>l. Inr (XList l)))"

definition expand_output :: "calls \<Rightarrow> nat \<Rightarrow> vars \<Rightarrow> string \<Rightarrow> xval \<Rightarrow> xval act" where
  "expand_output C phase variables build_file output =
     (case output of
        XList l \<Rightarrow>
          bindS get_store (\<lambda>h.
          if l \<noteq> [] \<and> href_list h (hd l) \<noteq> None then give output
          else bindS (mapS (\<lambda>item. bindS (call_expand C phase variables build_file item) as_item) l)
                 (\<lambda>l. give (XList l)))
      | XStr s \<Rightarrow> call_expand C phase variables build_file (HStr s)
      | XInt i \<Rightarrow> call_expand C phase variables build_file (HInt i))"

definition ExpandVariables :: "xenv \<Rightarrow> calls \<Rightarrow> nat \<Rightarrow> vars \<Rightarrow> string \<Rightarrow> hval \<Rightarrow> xval act" where
  "ExpandVariables X C phase variables build_file input =
     bindS (lift_res (expansion_symbol phase)) (\<lambda>symbol.
     bindS (str_of_value input) (\<lambda>input_str.
     if IsStrCanonicalInt (GStr input_str) then bindS (lift_res (int_text input_str)) (\<lambda>i. give (XInt i))
     else if symbol \<notin> set input_str then give (XStr input_str)
     else let matches = find_matches symbol 0 input_str in
       if matches = [] then give (XStr input_str)
       else bindS (expand_matches X C phase variables build_file (rev matches) (XStr input_str)) (\<lambda>output.
            bindS (expand_output C phase variables build_file output) (\<lambda>output.
              lift_res (canonical_output output)))))"

subsection \<open>Lists and dictionaries\<close>

text \<open>\<open>ProcessVariablesAndConditionsInList\<close> from an index on.\<close>

definition ProcessVariablesAndConditionsInList ::
  "calls \<Rightarrow> nat \<Rightarrow> vars \<Rightarrow> string \<Rightarrow> nat \<Rightarrow> nat \<Rightarrow> unit act" where
  "ProcessVariablesAndConditionsInList C phase variables build_file a index =
     bindS (the_list_at a) (\<lambda>the_list.
     if length the_list \<le> index then give ()
     else
       bindS get_store (\<lambda>h.
       bindS (case the_list ! index of
                HRef b \<Rightarrow>
                  bindS (if href_dict h (HRef b) \<noteq> None then call_dict C phase variables build_file b None
                         else call_list_from C phase variables build_file b 0) (\<lambda>_. give 1)
              | HStr s \<Rightarrow>
                  bindS (call_expand C phase variables build_file (HStr s)) (\<lambda>expanded.
                  bindS (the_list_at a) (\<lambda>l.
                  case expanded of
                    XStr t \<Rightarrow> bindS (set_obj a (HList (l[index := HStr t]))) (\<lambda>_. give 1)
                  | XInt i \<Rightarrow> bindS (set_obj a (HList (l[index := HInt i]))) (\<lambda>_. give 1)
                  | XList vs \<Rightarrow>
                      bindS (set_obj a (HList (take index l @ vs @ drop (index + 1) l))) (\<lambda>_. give (length vs))))
              | HInt i \<Rightarrow> give 1
              | HOther c t \<Rightarrow> throw (TypeError ''cannot concatenate str and int objects''))
         (\<lambda>step. call_list_from C phase variables build_file a (index + step))))"

definition not_scalar_error :: "string \<Rightarrow> exn" where
  "not_scalar_error key =
     ValueError (''Variable expansion in this context permits str and int only, found list for '' @ key)"

text \<open>The strings of a dictionary, expanded in place.\<close>

definition expand_entry :: "calls \<Rightarrow> nat \<Rightarrow> vars \<Rightarrow> string \<Rightarrow> nat \<Rightarrow> gkey \<Rightarrow> hval \<Rightarrow> unit act" where
  "expand_entry C phase variables build_file a key value =
     (case value of
        HStr s \<Rightarrow>
          if key = KStr ''variables'' then give ()
          else bindS (call_expand C phase variables build_file value) (\<lambda>expanded.
               case expanded of
                 XStr t \<Rightarrow> set_item a key (HStr t)
               | XInt i \<Rightarrow> set_item a key (HInt i)
               | XList l \<Rightarrow> bindS (lift_res (key_str key)) (\<lambda>k. throw (not_scalar_error k)))
      | _ \<Rightarrow> give ())"

definition process_child :: "calls \<Rightarrow> nat \<Rightarrow> vars \<Rightarrow> string \<Rightarrow> gkey \<Rightarrow> hval \<Rightarrow> unit act" where
  "process_child C phase variables build_file key value =
     (if key = KStr ''variables'' then give ()
      else case value of
        HStr s \<Rightarrow> give ()
      | HInt i \<Rightarrow> give ()
      | HRef b \<Rightarrow>
          bindS get_store (\<lambda>h.
          if href_dict h value \<noteq> None
          then call_dict C phase variables build_file b (case key of KStr k \<Rightarrow> Some k | KInt i \<Rightarrow> None)
          else call_list_from C phase variables build_file b 0)
      | HOther c t \<Rightarrow> bindS (lift_res (key_str key)) (\<lambda>k. throw (TypeError (''Unknown type '' @ c @ '' for '' @ k))))"

text \<open>\<open>variables_in.copy()\<close> with the automatic variables of the dictionary, and those of its section.\<close>

definition dict_variables :: "vars \<Rightarrow> nat \<Rightarrow> string option \<Rightarrow> vars act" where
  "dict_variables variables_in a the_dict_key =
     bindS (the_dict_at a) (\<lambda>the_dict. bindS get_store (\<lambda>h.
     bindS (lift_res (automatic_variables h variables_in the_dict)) (\<lambda>variables.
       lift_res (section_variables h variables the_dict the_dict_key))))"

text \<open>The section of variables itself, whose variables may refer to each other.\<close>

definition process_section :: "calls \<Rightarrow> nat \<Rightarrow> vars \<Rightarrow> string \<Rightarrow> nat \<Rightarrow> vars act" where
  "process_section C phase variables build_file a =
     bindS (the_dict_at a) (\<lambda>the_dict.
     case dict_get the_dict (KStr ''variables'') of
       None \<Rightarrow> give variables
     | Some v \<Rightarrow>
         bindS get_store (\<lambda>h.
         case (v, href_dict h v) of
           (HRef b, Some section) \<Rightarrow>
             let variables = foldl (\<lambda>vs (k, v). dict_set vs k v) variables section in
             bindS (call_dict C phase variables build_file b (Some ''variables'')) (\<lambda>_. give variables)
         | _ \<Rightarrow> throw (AttributeError (hclass h v @ '' object has no attribute iteritems''))))"

subsection \<open>Conditions\<close>

definition conditions_key :: "nat \<Rightarrow> string option res" where
  "conditions_key phase =
     (if phase = PHASE_EARLY then Inr (Some ''conditions'')
      else if phase = PHASE_LATE then Inr (Some ''target_conditions'')
      else if phase = PHASE_LATELATE then Inr None
      else Inl AssertionError)"

text \<open>The branch that the condition selects.\<close>

definition choose_branch :: "xenv \<Rightarrow> vars \<Rightarrow> string \<Rightarrow> xval \<Rightarrow> hval \<Rightarrow> hval option \<Rightarrow> hval option act" where
  "choose_branch X variables build_file cond_expr_expanded true_dict false_dict =
     (case cond_expr_expanded of
        XList l \<Rightarrow> throw (NameError ''global name expanded is not defined'')
      | XInt i \<Rightarrow> throw (TypeError ''compile() arg 1 must be a string or an AST object'')
      | XStr s \<Rightarrow>
          bindS get_store (\<lambda>h.
          case eval_condition X s variables h of
            Truth b \<Rightarrow> give (if b then Some true_dict else false_dict)
          | Syntax_Error msg text offset \<Rightarrow>
              throw (SyntaxError (msg @ '' while evaluating condition '' @ quoted text @ '' in '' @ build_file @
                '' at character '' @ show_int offset @ ''.''))
          | Name_Error msg \<Rightarrow>
              throw (ExceptionAppend (NameError msg) (''while evaluating condition '' @ quoted s @ '' in '' @ build_file))
          | Other_Error e \<Rightarrow> throw e))"

definition process_condition ::
  "xenv \<Rightarrow> calls \<Rightarrow> nat \<Rightarrow> vars \<Rightarrow> string \<Rightarrow> string \<Rightarrow> nat \<Rightarrow> hval \<Rightarrow> unit act" where
  "process_condition X C phase variables build_file ckey a condition =
     bindS get_store (\<lambda>h.
     case href_list h condition of
       None \<Rightarrow> throw (GypError (ckey @ '' must be a list''))
     | Some l \<Rightarrow>
         if length l \<noteq> 2 \<and> length l \<noteq> 3 then
           (case l of
              [] \<Rightarrow> throw IndexError
            | HStr c # _ \<Rightarrow> throw (GypError (ckey @ '' '' @ c @ '' must be length 2 or 3, not '' @ show_nat (length l)))
            | _ \<Rightarrow> throw (TypeError ''cannot concatenate str''))
         else
           bindS (call_expand C phase variables build_file (l ! 0)) (\<lambda>cond_expr_expanded.
           bindS (choose_branch X variables build_file cond_expr_expanded (l ! 1)
                    (if length l = 3 then Some (l ! 2) else None)) (\<lambda>merge_dict.
           case merge_dict of
             None \<Rightarrow> give ()
           | Some (HRef b) \<Rightarrow>
               bindS (call_dict C phase variables build_file b None) (\<lambda>_.
               bindS (frozen (HRef b)) (\<lambda>fro.
               bindS (lift_res (as_dict fro)) (\<lambda>fro.
                 merge_dict_into (xgyp X) a fro build_file build_file)))
           | Some (HOther c t) \<Rightarrow>
               if c = ''NoneType'' then give () else throw (AttributeError (c @ '' object has no attribute iteritems''))
           | Some v \<Rightarrow> throw (AttributeError (hclass h v @ '' object has no attribute iteritems'')))))"

definition ProcessConditionsInDict ::
  "xenv \<Rightarrow> calls \<Rightarrow> nat \<Rightarrow> vars \<Rightarrow> string \<Rightarrow> nat \<Rightarrow> unit act" where
  "ProcessConditionsInDict X C phase variables build_file a =
     bindS (lift_res (conditions_key phase)) (\<lambda>ckey.
     case ckey of
       None \<Rightarrow> give ()
     | Some ckey \<Rightarrow>
         bindS (the_dict_at a) (\<lambda>the_dict.
         case dict_get the_dict (KStr ckey) of
           None \<Rightarrow> give ()
         | Some v \<Rightarrow>
             bindS (set_obj a (HDict (dict_del the_dict (KStr ckey)))) (\<lambda>_.
             bindS get_store (\<lambda>h.
             case href_list h v of
               Some conditions_list \<Rightarrow>
                 each (process_condition X C phase variables build_file ckey a) conditions_list
             | None \<Rightarrow>
                 (case v of
                    HInt i \<Rightarrow> throw (TypeError ''int object is not iterable'')
                  | HOther c t \<Rightarrow> throw (TypeError (c @ '' object is not iterable''))
                  | HStr s \<Rightarrow> if s = [] then give () else throw (GypError (ckey @ '' must be a list''))
                  | HRef b \<Rightarrow> if href_dict h v = Some [] then give ()
                               else throw (GypError (ckey @ '' must be a list'')))))))"

definition ProcessVariablesAndConditionsInDict ::
  "xenv \<Rightarrow> calls \<Rightarrow> nat \<Rightarrow> vars \<Rightarrow> string \<Rightarrow> nat \<Rightarrow> string option \<Rightarrow> unit act" where
  "ProcessVariablesAndConditionsInDict X C phase variables_in build_file a the_dict_key =
     bindS (the_dict_at a) (\<lambda>the_dict. bindS get_store (\<lambda>h.
     bindS (lift_res (automatic_variables h variables_in the_dict)) (\<lambda>variables.
     bindS (process_section C phase variables build_file a) (\<lambda>variables.
     bindS (the_dict_at a) (\<lambda>the_dict. bindS get_store (\<lambda>h.
     bindS (lift_res (section_variables h variables the_dict the_dict_key)) (\<lambda>variables.
     bindS (each_entry a (expand_entry C phase variables build_file a)) (\<lambda>_.
     bindS (dict_variables variables_in a the_dict_key) (\<lambda>variables.
     bindS (ProcessConditionsInDict X C phase variables build_file a) (\<lambda>_.
     bindS (dict_variables variables_in a the_dict_key) (\<lambda>variables.
       each_entry a (process_child C phase variables build_file))))))))))))"

subsection \<open>The knot\<close>

primrec calls_to :: "xenv \<Rightarrow> nat \<Rightarrow> calls" where
  "calls_to X 0 =
     \<lparr>call_expand = (\<lambda>phase variables build_file input st. None),
      call_list_from = (\<lambda>phase variables build_file a index st. None),
      call_dict = (\<lambda>phase variables build_file a key st. None)\<rparr>"
| "calls_to X (Suc n) =
     (let C = calls_to X n in
      \<lparr>call_expand = ExpandVariables X C,
       call_list_from = ProcessVariablesAndConditionsInList C,
       call_dict = ProcessVariablesAndConditionsInDict X C\<rparr>)"

end
