(* ===== verification/Input_Settled.thy ===== *)
theory Input_Settled
  imports Input_Expand
begin

text \<open>
  Values in which a phase of variable expansion in \<open>tools/gyp/pylib/gyp/input.py\<close> finds
  nothing to do: texts without the symbol of the phase that are not the text of an integer,
  in lists and dictionaries without conditions of the phase.  Such a value is left exactly
  as it is, and nothing else is changed; so a further run of a phase on what it has
  settled is the identity.
\<close>

subsection \<open>Settled values\<close>

definition settled_text :: "nat \<Rightarrow> string \<Rightarrow> bool" where
  "settled_text phase s \<longleftrightarrow> \<not> IsStrCanonicalInt (GStr s) \<and>
     (case expansion_symbol phase of Inr symbol \<Rightarrow> symbol \<notin> set s | Inl e \<Rightarrow> False)"

definition str_key :: "gkey \<Rightarrow> bool" where
  "str_key k = (case k of KStr s \<Rightarrow> True | KInt i \<Rightarrow> False)"

definition settled_keys :: "nat \<Rightarrow> gdict \<Rightarrow> bool" where
  "settled_keys phase d \<longleftrightarrow> dict_wf d \<and> list_all str_key (map fst d) \<and>
     (case conditions_key phase of
        Inr (Some k) \<Rightarrow> \<not> has_key d (KStr k) | Inr None \<Rightarrow> True | Inl e \<Rightarrow> False) \<and>
     (case get d ''variables'' of None \<Rightarrow> True | Some v \<Rightarrow> is_dict v)"

fun settled_val :: "nat \<Rightarrow> gval \<Rightarrow> bool" where
  "settled_val phase (GStr s) = settled_text phase s"
| "settled_val phase (GInt i) = True"
| "settled_val phase (GOther c t) = False"
| "settled_val phase (GList l) = (\<forall>v \<in> set l. settled_val phase v)"
| "settled_val phase (GDict d) = (settled_keys phase d \<and> (\<forall>p \<in> set d. settled_val phase (snd p)))"

text \<open>The depth of calls that is enough for a value.\<close>

fun need :: "gval \<Rightarrow> nat" and need_list :: "gval list \<Rightarrow> nat" and need_dict :: "gdict \<Rightarrow> nat" where
  "need (GStr s) = 1"
| "need (GInt i) = 1"
| "need (GOther c t) = 1"
| "need (GList l) = need_list l"
| "need (GDict d) = Suc (need_dict d)"
| "need_list [] = 1"
| "need_list (v # l) = Suc (need v + need_list l)"
| "need_dict [] = 0"
| "need_dict ((k, v) # d) = need v + need_dict d"

lemma need_dict_entry: "p \<in> set d \<Longrightarrow> need (snd p) \<le> need_dict d"
  by (induction d) fastforce+

lemma need_list_pos [simp]: "0 < need_list l"
  by (cases l) simp_all

subsection \<open>What a reference stands for\<close>

abbreviation stands :: "nat \<Rightarrow> store \<Rightarrow> hval \<Rightarrow> gval \<Rightarrow> bool" where
  "stands k h v g \<equiv> freeze k h v = Some g"

abbreviation stands_entry :: "nat \<Rightarrow> store \<Rightarrow> gkey \<times> hval \<Rightarrow> gkey \<times> gval \<Rightarrow> bool" where
  "stands_entry k h p q \<equiv> fst p = fst q \<and> stands k h (snd p) (snd q)"

lemma those_list_all2: "those (map f xs) = Some ys \<longleftrightarrow> list_all2 (\<lambda>x y. f x = Some y) xs ys"
proof (induction xs arbitrary: ys)
  case (Cons x xs)
  then show ?case by (cases ys) (auto split: option.splits)
qed auto

lemma freeze_cases:
  assumes "stands k h v g"
  obtains (Str) s where "v = HStr s" "g = GStr s"
  | (Int) i where "v = HInt i" "g = GInt i"
  | (Other) c t where "v = HOther c t" "g = GOther c t"
  | (List) a l gs j where "v = HRef a" "g = GList gs" "list_at h a = Some l" "list_all2 (stands j h) l gs"
  | (Dict) a d gd j where "v = HRef a" "g = GDict gd" "dict_at h a = Some d" "list_all2 (stands_entry j h) d gd"
proof -
  from assms obtain j where k: "k = Suc j" by (cases k) auto
  show ?thesis
  proof (cases v)
    case (HRef a)
    with assms k obtain x where x: "obj_at h a = Some x" by (auto split: option.splits)
    show ?thesis
    proof (cases x)
      case (HList l)
      with HRef x k assms that(4) [of a _ l j] show ?thesis
        by (auto simp: those_list_all2 list_at_def)
    next
      case (HDict d)
      with HRef x k assms obtain gd where gd: "g = GDict gd"
        "list_all2 (\<lambda>p q. (case p of (k, v) \<Rightarrow> map_option (Pair k) (freeze j h v)) = Some q) d gd"
        by (auto simp: those_list_all2)
      have "list_all2 (stands_entry j h) d gd"
        by (rule list_all2_mono [OF gd(2)]) auto
      with HDict HRef x gd(1) that(5) show ?thesis by (simp add: dict_at_def)
    qed
  qed (use assms k that in auto)
qed

lemma list_not_dict: "list_at h a = Some l \<Longrightarrow> dict_at h a = None"
  by (auto simp: list_at_def dict_at_def split: option.splits hobj.splits)

lemma entries_keys: "list_all2 (stands_entry k h) d gd \<Longrightarrow> map fst d = map fst gd"
  by (induction rule: list_all2_induct) auto

lemma entries_get:
  "list_all2 (stands_entry k h) d gd \<Longrightarrow> dict_get d key = Some v \<Longrightarrow> \<exists>g. dict_get gd key = Some g \<and> stands k h v g"
  by (induction rule: list_all2_induct) (auto split: if_splits)

lemma entries_in:
  "list_all2 (stands_entry k h) d gd \<Longrightarrow> p \<in> set d \<Longrightarrow> \<exists>g. (fst p, g) \<in> set gd \<and> stands k h (snd p) g"
  by (induction rule: list_all2_induct) auto

subsection \<open>Steps that change nothing\<close>

abbreviation same :: "xstate \<Rightarrow> unit act \<Rightarrow> bool" where
  "same st m \<equiv> m st = Some (Inr ((), st))"

lemma set_obj_same: "obj_at (objs st) a = Some x \<Longrightarrow> same st (set_obj a x)"
  by (auto simp: set_obj_def put_store_def obj_at_def split: if_splits)

lemma bind_list: "list_at (objs st) a = Some l \<Longrightarrow> bindS (the_list_at a) f st = f l st"
  by (simp add: the_list_at_def bindS_def give_def get_store_def)

lemma bind_dict: "dict_at (objs st) a = Some d \<Longrightarrow> bindS (the_dict_at a) f st = f d st"
  by (simp add: the_dict_at_def bindS_def give_def get_store_def)

lemma bind_same: "same st m \<Longrightarrow> bindS m f st = f () st"
  by (simp add: bindS_def)

lemma list_atD: "list_at h a = Some l \<Longrightarrow> obj_at h a = Some (HList l)"
  by (auto simp: list_at_def split: option.splits hobj.splits)

lemma dict_atD: "dict_at h a = Some d \<Longrightarrow> obj_at h a = Some (HDict d)"
  by (auto simp: dict_at_def split: option.splits hobj.splits)

lemma dict_set_present: "dict_get d k = Some v \<Longrightarrow> dict_set d k v = d"
  by (induction d) (auto split: if_splits)

lemma set_item_same:
  "dict_at (objs st) a = Some d \<Longrightarrow> dict_get d k = Some v \<Longrightarrow> same st (set_item a k v)"
  by (simp add: set_item_def bind_dict dict_set_present set_obj_same dict_atD)

lemma each_same: "(\<And>x. x \<in> set xs \<Longrightarrow> same st (f x)) \<Longrightarrow> same st (each f xs)"
  by (induction xs) (simp_all add: give_def bind_same)

lemma each_entry_same:
  assumes "dict_at (objs st) a = Some d" and "\<And>p. p \<in> set d \<Longrightarrow> same st (f (fst p) (snd p))"
  shows "same st (each_entry a f)"
proof -
  have check: "bindS (check_size a (length d)) f st = f d st" for f :: "hdict \<Rightarrow> unit act"
    unfolding check_size_def bindS_assoc bind_dict [OF assms(1)] by simp
  have "same st (each (\<lambda>i. bindS (check_size a (length d)) (\<lambda>d. f (fst (d ! i)) (snd (d ! i)))) [0..<length d])"
    by (rule each_same) (simp add: check assms(2))
  then show ?thesis
    by (simp add: each_entry_def bind_dict [OF assms(1)] bind_same check give_def)
qed

subsection \<open>The tables of variables\<close>

lemma foldE_answers:
  "(\<And>x s. x \<in> set xs \<Longrightarrow> \<exists>t. f s x = Inr t) \<Longrightarrow> \<exists>t. foldE f s xs = Inr t"
proof (induction xs arbitrary: s)
  case (Cons x xs)
  then obtain t where "f s x = Inr t" by fastforce
  with Cons show ?case by simp
qed simp

lemma str_keys: "list_all str_key (map fst d) \<Longrightarrow> (k, v) \<in> set d \<Longrightarrow> \<exists>s. k = KStr s"
  by (cases k) (fastforce simp: list_all_iff str_key_def)+

lemma automatic_variables_answers: "list_all str_key (map fst d) \<Longrightarrow> \<exists>vs. automatic_variables h vars d = Inr vs"
  unfolding automatic_variables_def
  by (rule foldE_answers) (auto split: prod.splits dest!: str_keys)

lemma load_section_answers: "list_all str_key (map fst d) \<Longrightarrow> \<exists>vs. foldE (load_section_variable h e key) vars d = Inr vs"
  by (rule foldE_answers) (auto simp: load_section_variable_def Let_def split: prod.splits dest!: str_keys)

lemma settled_section:
  assumes "list_all2 (stands_entry k h) d gd" and "settled_val phase (GDict gd)"
    and "dict_get d (KStr ''variables'') = Some v"
  shows "\<exists>b e ge j. v = HRef b \<and> dict_at h b = Some e \<and> list_all2 (stands_entry j h) e ge \<and>
    settled_val phase (GDict ge) \<and> (KStr ''variables'', GDict ge) \<in> set gd"
proof -
  from entries_get [OF assms(1,3)] obtain g where g: "dict_get gd (KStr ''variables'') = Some g" "stands k h v g" by blast
  from g(1) assms(2) obtain ge where ge: "g = GDict ge" by (cases g) (auto simp: settled_keys_def)
  from g(2) obtain b e j where v: "v = HRef b" "dict_at h b = Some e" "list_all2 (stands_entry j h) e ge"
    by (rule freeze_cases) (use ge in auto)
  have i: "(KStr ''variables'', GDict ge) \<in> set gd" using dict_get_Some_in [OF g(1)] ge by simp
  then have "settled_val phase (GDict ge)" using assms(2) by fastforce
  with v i show ?thesis by blast
qed

lemma section_variables_answers:
  assumes "list_all2 (stands_entry k h) d gd" and "settled_val phase (GDict gd)"
  shows "\<exists>vs. section_variables h vars d key = Inr vs"
proof (cases "dict_get d (KStr ''variables'')")
  case (Some v)
  from settled_section [OF assms Some] obtain b e ge j where v: "v = HRef b" "dict_at h b = Some e"
    "list_all2 (stands_entry j h) e ge" "settled_keys phase ge" by auto
  have "list_all str_key (map fst e)" using entries_keys [OF v(3)] v(4) by (simp add: settled_keys_def)
  with load_section_answers [of e h d key vars] Some v(1,2) show ?thesis by (simp add: section_variables_def)
qed (simp add: section_variables_def)

lemma bind_dict_variables:
  assumes "dict_at (objs st) a = Some d" and "list_all2 (stands_entry k (objs st)) d gd" and "settled_val phase (GDict gd)"
  shows "\<exists>vs. \<forall>f. bindS (dict_variables vars a key) f st = f vs st"
proof -
  have "list_all str_key (map fst d)" using entries_keys [OF assms(2)] assms(3) by (simp add: settled_keys_def)
  from automatic_variables_answers [OF this] obtain us where us: "automatic_variables (objs st) vars d = Inr us" by blast
  from section_variables_answers [OF assms(2,3)] obtain vs where "section_variables (objs st) us d key = Inr vs" by blast
  with us show ?thesis unfolding dict_variables_def bindS_assoc bind_dict [OF assms(1)] by auto
qed

subsection \<open>Nothing changes\<close>

lemma expand_settled:
  assumes "settled_text phase s"
  shows "ExpandVariables X C phase vars bf (HStr s) st = Some (Inr (XStr s, st))"
proof -
  have "str_of_value (HStr s) st = Some (Inr (s, st))"
    by (simp add: str_of_value_def bindS_step [where m = "frozen (HStr s)", OF frozen_step] give_def)
  with assms show ?thesis
    by (auto simp: settled_text_def ExpandVariables_def bindS_step [where m = "str_of_value (HStr s)"] give_def split: sum.splits)
qed

lemma list_same:
  assumes l: "list_at (objs st) a = Some l" and r: "list_all2 (stands k (objs st)) l gs"
    and s: "\<forall>g \<in> set (drop i gs). settled_val phase g" and n: "need_list (drop i gs) \<le> Suc n"
    and items: "\<And>b m gm j. list_at (objs st) b = Some m \<Longrightarrow> list_all2 (stands j (objs st)) m gm \<Longrightarrow>
      \<forall>g \<in> set gm. settled_val phase g \<Longrightarrow> need_list gm \<le> n \<Longrightarrow> same st (call_list_from C phase vars bf b 0)"
    and dicts: "\<And>b d gd j. dict_at (objs st) b = Some d \<Longrightarrow> list_all2 (stands_entry j (objs st)) d gd \<Longrightarrow>
      settled_val phase (GDict gd) \<Longrightarrow> need (GDict gd) \<le> n \<Longrightarrow> same st (call_dict C phase vars bf b None)"
    and rest: "\<forall>g \<in> set (drop (Suc i) gs). settled_val phase g \<Longrightarrow> need_list (drop (Suc i) gs) \<le> n \<Longrightarrow>
      same st (call_list_from C phase vars bf a (Suc i))"
    and strs: "\<And>s. 0 < n \<Longrightarrow> settled_text phase s \<Longrightarrow> call_expand C phase vars bf (HStr s) st = Some (Inr (XStr s, st))"
  shows "same st (ProcessVariablesAndConditionsInList C phase vars bf a i)"
proof (cases "length l \<le> i")
  case True
  then show ?thesis by (simp add: ProcessVariablesAndConditionsInList_def bind_list [OF l] give_def)
next
  case False
  then have i: "i < length l" "i < length gs" using list_all2_lengthD [OF r] by simp_all
  then have d: "drop i gs = gs ! i # drop (Suc i) gs" by (simp add: Cons_nth_drop_Suc)
  have g: "stands k (objs st) (l ! i) (gs ! i)" using list_all2_nthD [OF r i(1)] .
  obtain m where "need_list (drop (Suc i) gs) = Suc m" using need_list_pos gr0_implies_Suc by blast
  moreover have "need (gs ! i) + need_list (drop (Suc i) gs) \<le> n" using n unfolding d by simp
  ultimately have one: "settled_val phase (gs ! i)" "need (gs ! i) \<le> n" "need_list (drop (Suc i) gs) \<le> n" "0 < n"
    using s unfolding d by simp_all
  have go: "same st (call_list_from C phase vars bf a (Suc i))" using rest s one(3) unfolding d by simp
  have upd: "l[i := l ! i] = l" by simp
  from g show ?thesis
  proof (cases rule: freeze_cases)
    case (Str s)
    with one strs have t: "call_expand C phase vars bf (HStr s) st = Some (Inr (XStr s, st))" by simp
    have "same st (set_obj a (HList (l[i := HStr s])))" using Str(1) upd set_obj_same [OF list_atD [OF l]] by simp
    with False Str t go show ?thesis
      by (simp add: ProcessVariablesAndConditionsInList_def bind_list [OF l] bindS_assoc
          bindS_step [where m = "call_expand C phase vars bf (HStr s)"] bind_same)
  next
    case (List b m gm j)
    with one items have "same st (call_list_from C phase vars bf b 0)" by simp
    with False List go show ?thesis
      by (simp add: ProcessVariablesAndConditionsInList_def bind_list [OF l] bindS_assoc list_not_dict bind_same)
  next
    case (Dict b e ge j)
    with one dicts have "same st (call_dict C phase vars bf b None)" by simp
    with False Dict go show ?thesis
      by (simp add: ProcessVariablesAndConditionsInList_def bind_list [OF l] bindS_assoc bind_same)
  qed (use False one go in \<open>simp_all add: ProcessVariablesAndConditionsInList_def bind_list [OF l]\<close>)
qed

lemma dict_same:
  assumes d: "dict_at (objs st) a = Some d" and r: "list_all2 (stands_entry k (objs st)) d gd"
    and s: "settled_val phase (GDict gd)" and n: "need (GDict gd) \<le> Suc n"
    and items: "\<And>vars b m gm j. list_at (objs st) b = Some m \<Longrightarrow> list_all2 (stands j (objs st)) m gm \<Longrightarrow>
      \<forall>g \<in> set gm. settled_val phase g \<Longrightarrow> need_list gm \<le> n \<Longrightarrow> same st (call_list_from C phase vars bf b 0)"
    and dicts: "\<And>vars b d gd j key. dict_at (objs st) b = Some d \<Longrightarrow> list_all2 (stands_entry j (objs st)) d gd \<Longrightarrow>
      settled_val phase (GDict gd) \<Longrightarrow> need (GDict gd) \<le> n \<Longrightarrow> same st (call_dict C phase vars bf b key)"
    and strs: "\<And>vars s. 0 < n \<Longrightarrow> settled_text phase s \<Longrightarrow> call_expand C phase vars bf (HStr s) st = Some (Inr (XStr s, st))"
  shows "same st (ProcessVariablesAndConditionsInDict X C phase vars bf a key)"
proof -
  have keys: "settled_keys phase gd" "map fst d = map fst gd" "dict_wf d"
    using s entries_keys [OF r] by (auto simp: settled_keys_def dict_wf_def)
  have entry: "settled_val phase g \<and> need g \<le> n" if "(q, g) \<in> set gd" for q g
    using that s n need_dict_entry [OF that] by fastforce
  from keys(1,2) have "list_all str_key (map fst d)" by (simp add: settled_keys_def)
  from automatic_variables_answers [OF this] obtain us where us: "automatic_variables (objs st) vars d = Inr us" by blast
  have "\<exists>vs. \<forall>f :: vars \<Rightarrow> unit act. bindS (process_section C phase us bf a) f st = f vs st"
  proof (cases "dict_get d (KStr ''variables'')")
    case None
    then show ?thesis by (intro exI [of _ us]) (simp add: process_section_def bindS_assoc bind_dict [OF d])
  next
    case (Some v)
    from settled_section [OF r s Some] obtain b e ge j where v: "v = HRef b" "dict_at (objs st) b = Some e"
      "list_all2 (stands_entry j (objs st)) e ge" "settled_val phase (GDict ge)" "(KStr ''variables'', GDict ge) \<in> set gd" by blast
    from entry [OF v(5)] have "need (GDict ge) \<le> n" by simp
    from dicts [OF v(2-4) this] Some v(1,2) show ?thesis
      by (intro exI [of _ "foldl (\<lambda>vs (k, v). dict_set vs k v) us e"]) (simp add: process_section_def bindS_assoc bind_dict [OF d] bind_same Let_def)
  qed
  then obtain vs where vs: "\<And>f :: vars \<Rightarrow> unit act. bindS (process_section C phase us bf a) f st = f vs st" by blast
  from section_variables_answers [OF r s] obtain ws where ws: "section_variables (objs st) vs d key = Inr ws" by blast
  from bind_dict_variables [OF d r s] obtain xs where xs: "\<And>f :: vars \<Rightarrow> unit act. bindS (dict_variables vars a key) f st = f xs st" by blast
  have entries: "same st (each_entry a (expand_entry C phase ws bf a))"
  proof (rule each_entry_same [OF d])
    fix p assume p: "p \<in> set d"
    from entries_in [OF r p] obtain g where g: "(fst p, g) \<in> set gd" "stands k (objs st) (snd p) g" by blast
    from g(2) show "same st (expand_entry C phase ws bf a (fst p) (snd p))"
    proof (cases rule: freeze_cases)
      case (Str s)
      with entry [OF g(1)] strs have "call_expand C phase ws bf (HStr s) st = Some (Inr (XStr s, st))" by simp
      moreover have "dict_get d (fst p) = Some (HStr s)" using dict_get_in [OF keys(3), of "fst p" "snd p"] p Str by (cases p) simp
      ultimately show ?thesis using Str
        by (simp add: expand_entry_def bindS_step [where m = "call_expand C phase ws bf (HStr s)"] set_item_same [OF d] give_def)
    qed (simp_all add: expand_entry_def give_def)
  qed
  have conds: "same st (ProcessConditionsInDict X C phase xs bf a)"
  proof -
    have absent: "dict_get d q = None" if "dict_get gd q = None" for q
      using arg_cong [OF keys(2), of set] that by (auto simp: dict_get_def map_of_eq_None_iff)
    from keys(1) obtain ck where ck: "conditions_key phase = Inr ck" "\<forall>k. ck = Some k \<longrightarrow> get gd k = None"
      by (auto simp: settled_keys_def split: sum.splits option.splits)
    then show ?thesis using absent
      by (cases ck) (simp_all add: ProcessConditionsInDict_def bind_dict [OF d] give_def)
  qed
  have children: "same st (each_entry a (process_child C phase xs bf))"
  proof (rule each_entry_same [OF d])
    fix p assume p: "p \<in> set d"
    from entries_in [OF r p] obtain g where g: "(fst p, g) \<in> set gd" "stands k (objs st) (snd p) g" by blast
    from g(2) show "same st (process_child C phase xs bf (fst p) (snd p))"
    proof (cases rule: freeze_cases)
      case (List b m gm j)
      with entry [OF g(1)] items have "same st (call_list_from C phase xs bf b 0)" by simp
      with List show ?thesis by (simp add: process_child_def list_not_dict give_def)
    next
      case (Dict b e ge j)
      with entry [OF g(1)] dicts have "same st (call_dict C phase xs bf b kn)" for kn by simp
      with Dict show ?thesis by (simp add: process_child_def give_def)
    qed (use entry [OF g(1)] in \<open>simp_all add: process_child_def give_def\<close>)
  qed
  show ?thesis
    unfolding ProcessVariablesAndConditionsInDict_def
    by (simp add: bind_dict [OF d] us vs ws xs bind_same entries conds children)
qed

lemma calls_same:
  "(\<forall>st vars bf a i l gs k. list_at (objs st) a = Some l \<longrightarrow> list_all2 (stands k (objs st)) l gs \<longrightarrow>
      (\<forall>g \<in> set (drop i gs). settled_val phase g) \<longrightarrow> need_list (drop i gs) \<le> n \<longrightarrow>
      same st (call_list_from (calls_to X n) phase vars bf a i)) \<and>
   (\<forall>st vars bf a key d gd k. dict_at (objs st) a = Some d \<longrightarrow> list_all2 (stands_entry k (objs st)) d gd \<longrightarrow>
      settled_val phase (GDict gd) \<longrightarrow> need (GDict gd) \<le> n \<longrightarrow>
      same st (call_dict (calls_to X n) phase vars bf a key))"
proof (induction n)
  case 0
  show ?case by (simp add: not_le)
next
  case (Suc n)
  have strs: "call_expand (calls_to X n) phase vars bf (HStr s) st = Some (Inr (XStr s, st))"
    if "0 < n" "settled_text phase s" for vars bf s st
    using that expand_settled [of phase s] by (cases n) (simp_all add: Let_def)
  note lists = Suc.IH [THEN conjunct1, rule_format]
  note dicts = Suc.IH [THEN conjunct2, rule_format]
  have rest: "same st (call_list_from (calls_to X n) phase vars bf a i)"
    if "list_at (objs st) a = Some l" "list_all2 (stands k (objs st)) l gs"
      "\<forall>g \<in> set (drop i gs). settled_val phase g" "need_list (drop i gs) \<le> n" for st :: xstate and vars bf a i l gs k
    by (rule lists [OF that(1,2) _ that(4)]) (use that(3) in blast)
  have items: "same st (call_list_from (calls_to X n) phase vars bf b 0)"
    if "list_at (objs st) b = Some m" "list_all2 (stands j (objs st)) m gm"
      "\<forall>g \<in> set gm. settled_val phase g" "need_list gm \<le> n" for st :: xstate and vars bf b m gm j
    by (rule rest [OF that(1,2)]) (use that(3,4) in simp_all)
  show ?case
  proof (intro conjI allI impI)
    fix st :: xstate and vars bf a i l gs k
    assume l: "list_at (objs st) a = Some l" "list_all2 (stands k (objs st)) l gs"
      "\<forall>g \<in> set (drop i gs). settled_val phase g" "need_list (drop i gs) \<le> Suc n"
    have "same st (ProcessVariablesAndConditionsInList (calls_to X n) phase vars bf a i)"
      by (rule list_same [OF l], erule (3) items, erule (3) dicts, erule (1) rest [OF l(1,2)], erule (1) strs)
    then show "same st (call_list_from (calls_to X (Suc n)) phase vars bf a i)" by (simp add: Let_def)
  next
    fix st :: xstate and vars bf a key d gd k
    assume d: "dict_at (objs st) a = Some d" "list_all2 (stands_entry k (objs st)) d gd"
      "settled_val phase (GDict gd)" "need (GDict gd) \<le> Suc n"
    have "same st (ProcessVariablesAndConditionsInDict X (calls_to X n) phase vars bf a key)"
      by (rule dict_same [OF d], erule (3) items, erule (3) dicts, erule (1) strs)
    then show "same st (call_dict (calls_to X (Suc n)) phase vars bf a key)" by (simp add: Let_def)
  qed
qed

subsection \<open>New objects stand for the value they are made from\<close>

lemma freeze_mono: "stands k h v g \<Longrightarrow> stands (k + m) (h @ e) v g"
proof (induction k arbitrary: v g)
  case (Suc k)
  have "freeze k h x = Some y \<Longrightarrow> freeze (k + m) (h @ e) x = Some y" for x y using Suc.IH .
  note mono = this
  show ?case
  proof (cases v)
    case (HRef a)
    with Suc.prems obtain x where x: "obj_at h a = Some x" by (auto split: option.splits)
    then have y: "obj_at (h @ e) a = Some x" by (auto simp: obj_at_def nth_append split: if_splits)
    show ?thesis
    proof (cases x)
      case (HList l)
      with Suc.prems HRef x obtain gs where gs: "g = GList gs" "list_all2 (stands k h) l gs" by (auto simp: those_list_all2)
      from list_all2_mono [OF gs(2), of "stands (k + m) (h @ e)"] mono show ?thesis
        using HList HRef y gs(1) by (simp add: those_list_all2)
    next
      case (HDict d)
      let ?f = "\<lambda>k h p. case p of (q, v) \<Rightarrow> map_option (Pair q) (freeze k h v)"
      from Suc.prems HRef x HDict obtain gd where gd: "g = GDict gd" "list_all2 (\<lambda>p q. ?f k h p = Some q) d gd"
        by (auto simp: those_list_all2)
      have "list_all2 (\<lambda>p q. ?f (k + m) (h @ e) p = Some q) d gd"
        by (rule list_all2_mono [OF gd(2)]) (auto simp: mono)
      with HDict HRef y gd(1) show ?thesis by (simp add: those_list_all2)
    qed
  qed (use Suc.prems in simp_all)
qed simp

lemma thaw_stands:
  "\<exists>e. snd (thaw g h) = h @ e \<and> stands (Suc (length e)) (h @ e) (fst (thaw g h)) g"
  "\<exists>e. snd (thaw_list l h) = h @ e \<and> list_all2 (stands (Suc (length e)) (h @ e)) (fst (thaw_list l h)) l"
  "\<exists>e. snd (thaw_dict d h) = h @ e \<and> list_all2 (stands_entry (Suc (length e)) (h @ e)) (fst (thaw_dict d h)) d"
proof (induction g h and l h and d h rule: thaw_thaw_list_thaw_dict.induct)
  case (4 l h)
  then obtain e where e: "snd (thaw_list l h) = h @ e" "list_all2 (stands (Suc (length e)) (h @ e)) (fst (thaw_list l h)) l"
    by blast
  obtain vs where t: "thaw_list l h = (vs, h @ e)" using e(1) by (cases "thaw_list l h") simp
  let ?e = "e @ [HList vs]"
  have "list_all2 (stands (length ?e) (h @ ?e)) vs l"
    by (rule list_all2_mono [OF e(2) [unfolded t fst_conv]]) (use freeze_mono [of "Suc (length e)" "h @ e" _ _ 0 "[HList vs]"] in simp)
  then have "stands (Suc (length ?e)) (h @ ?e) (HRef (length (h @ e))) (GList l)"
    by (simp add: obj_at_def nth_append those_list_all2)
  then show ?case by (intro exI [of _ ?e]) (simp add: t)
next
  case (5 d h)
  then obtain e where e: "snd (thaw_dict d h) = h @ e" "list_all2 (stands_entry (Suc (length e)) (h @ e)) (fst (thaw_dict d h)) d"
    by blast
  obtain vs where t: "thaw_dict d h = (vs, h @ e)" using e(1) by (cases "thaw_dict d h") simp
  let ?e = "e @ [HDict vs]"
  have "list_all2 (\<lambda>p q. (case p of (k, v) \<Rightarrow> map_option (Pair k) (freeze (length ?e) (h @ ?e) v)) = Some q) vs d"
    by (rule list_all2_mono [OF e(2) [unfolded t fst_conv]])
      (use freeze_mono [of "Suc (length e)" "h @ e" _ _ 0 "[HDict vs]"] in \<open>auto split: prod.splits\<close>)
  then have "stands (Suc (length ?e)) (h @ ?e) (HRef (length (h @ e))) (GDict d)"
    by (simp add: obj_at_def nth_append those_list_all2)
  then show ?case by (intro exI [of _ ?e]) (simp add: t)
next
  case (7 v l h)
  obtain x h1 where x: "thaw v h = (x, h1)" by (cases "thaw v h")
  from 7(1) x obtain e where e: "h1 = h @ e" "stands (Suc (length e)) (h @ e) x v" by auto
  from 7(2) [OF x [symmetric] refl] e obtain e' where e': "snd (thaw_list l h1) = h1 @ e'"
    "list_all2 (stands (Suc (length e')) (h1 @ e')) (fst (thaw_list l h1)) l" by auto
  have "list_all2 (stands (Suc (length (e @ e'))) (h @ e @ e')) (fst (thaw_list l h1)) l"
    by (rule list_all2_mono [OF e'(2)]) (use freeze_mono [of "Suc (length e')" "h1 @ e'" _ _ "length e" "[]"] e in \<open>simp add: ac_simps\<close>)
  moreover have "stands (Suc (length (e @ e'))) (h @ e @ e') x v"
    using freeze_mono [OF e(2), of "length e'" e'] by simp
  ultimately show ?case using e'(1) e(1)
    by (intro exI [of _ "e @ e'"]) (auto simp: x split: prod.splits)
next
  case (9 k v d h)
  obtain x h1 where x: "thaw v h = (x, h1)" by (cases "thaw v h")
  from 9(1) x obtain e where e: "h1 = h @ e" "stands (Suc (length e)) (h @ e) x v" by auto
  from 9(2) [OF x [symmetric] refl] e obtain e' where e': "snd (thaw_dict d h1) = h1 @ e'"
    "list_all2 (stands_entry (Suc (length e')) (h1 @ e')) (fst (thaw_dict d h1)) d" by auto
  have "list_all2 (stands_entry (Suc (length (e @ e'))) (h @ e @ e')) (fst (thaw_dict d h1)) d"
    by (rule list_all2_mono [OF e'(2)]) (use freeze_mono [of "Suc (length e')" "h1 @ e'" _ _ "length e" "[]"] e in \<open>auto simp: ac_simps\<close>)
  moreover have "stands (Suc (length (e @ e'))) (h @ e @ e') x v"
    using freeze_mono [OF e(2), of "length e'" e'] by simp
  ultimately show ?case using e'(1) e(1)
    by (intro exI [of _ "e @ e'"]) (auto simp: x split: prod.splits)
qed simp_all

subsection \<open>Expansion of a settled value\<close>

lemma settled_step:
  assumes "stands k (objs st) (HRef a) (GDict gd)" and "settled_val phase (GDict gd)" and "need (GDict gd) \<le> Suc n"
  shows "same st (ProcessVariablesAndConditionsInDict X (calls_to X n) phase variables build_file a key)"
proof -
  from assms(1) obtain d j where "dict_at (objs st) a = Some d" "list_all2 (stands_entry j (objs st)) d gd"
    by (rule freeze_cases) auto
  from calls_same [where n = "Suc n", THEN conjunct2, rule_format, OF this assms(2,3)] show ?thesis by (simp add: Let_def)
qed

text \<open>
  (C39) A dictionary that is settled for a phase, whatever it holds, and with whatever variables it is
  processed: the phase returns and no object of the store has changed, no command was run and no file
  written.  A depth of calls of one less than \<open>need\<close> is enough, which counts 1 for the dictionary and each
  dictionary in it, 2 for an item of a list in place of 1, and 1 for the end of each list.
\<close>

theorem settled_unchanged:
  assumes "freeze k (objs st) (HRef a) = Some (GDict gd)" and "settled_val phase (GDict gd)"
    and "need (GDict gd) \<le> Suc n"
  shows "ProcessVariablesAndConditionsInDict X (calls_to X n) phase variables build_file a key st = Some (Inr ((), st))"
  using settled_step [OF assms] .

theorem settled_unchanged_witness:
  "\<forall>X fs. let st = \<lparr>objs = [HList [HStr ''a.c'', HStr ''<(os).c''], HDict [(KStr ''sources'', HRef 0), (KStr ''type'', HStr ''none'')]],
       cached_command_results = [], commands = [], files = fs\<rparr> in
   ProcessVariablesAndConditionsInDict X (calls_to X 6) PHASE_LATE [(KStr ''os'', HStr ''x'')] ''a.gyp'' 1 None st =
     Some (Inr ((), st))"
  unfolding Let_def
proof (intro allI, rule settled_unchanged)
  fix X fs
  let ?gd = "[(KStr ''sources'', GList [GStr ''a.c'', GStr ''<(os).c'']), (KStr ''type'', GStr ''none'')]"
  show "freeze 3 (objs \<lparr>objs = [HList [HStr ''a.c'', HStr ''<(os).c''],
      HDict [(KStr ''sources'', HRef 0), (KStr ''type'', HStr ''none'')]],
      cached_command_results = [], commands = [], files = fs\<rparr>) (HRef 1) = Some (GDict ?gd)"
    by (simp add: numeral_3_eq_3 obj_at_def)
  show "settled_val PHASE_LATE (GDict ?gd)" by code_simp
  show "need (GDict ?gd) \<le> Suc 6" by simp
qed

text \<open>A dictionary of values is expanded as objects of the store and read back.\<close>

definition expand_dict :: "xenv \<Rightarrow> nat \<Rightarrow> nat \<Rightarrow> vars \<Rightarrow> string \<Rightarrow> gdict \<Rightarrow> gdict act" where
  "expand_dict X m phase variables build_file d =
     bindS (new_value (GDict d)) (\<lambda>v.
       case v of
         HRef a \<Rightarrow>
           bindS (ProcessVariablesAndConditionsInDict X (calls_to X m) phase variables build_file a None) (\<lambda>_.
           bindS (frozen v) (\<lambda>r. lift_res (as_dict r)))
       | _ \<Rightarrow> throw (TypeError ''dict expected''))"

lemma expand_dict_settled:
  assumes "settled_val phase (GDict d)" and "need (GDict d) \<le> Suc m"
  shows "expand_dict X m phase variables build_file d st =
    Some (Inr (d, st\<lparr>objs := snd (thaw (GDict d) (objs st))\<rparr>))"
proof -
  let ?h = "snd (thaw (GDict d) (objs st))"
  let ?st = "st\<lparr>objs := ?h\<rparr>"
  from thaw_stands(1) [of "GDict d" "objs st"] obtain e where e: "?h = objs st @ e"
    and f: "stands (Suc (length e)) ?h (fst (thaw (GDict d) (objs st))) (GDict d)" by auto
  obtain a where a: "fst (thaw (GDict d) (objs st)) = HRef a" by (cases "thaw_dict d (objs st)") auto
  then have new: "bindS (new_value (GDict d)) g st = g (HRef a) ?st" for g :: "hval \<Rightarrow> gdict act"
    by (auto simp: new_value_def bindS_assoc Let_def put_store_def bindS_def give_def get_store_def split: prod.splits)
  have "stands (Suc (length ?h)) ?h (HRef a) (GDict d)"
    using freeze_mono [OF f, of "length (objs st)" "[]"] unfolding a e by (simp del: freeze.simps add: ac_simps)
  then have frz: "stands (Suc (length (objs ?st))) (objs ?st) (HRef a) (GDict d)" by simp
  have "same ?st (ProcessVariablesAndConditionsInDict X (calls_to X m) phase variables build_file a None)"
    by (rule settled_step [OF frz assms])
  then show ?thesis
    unfolding expand_dict_def new
    by (simp add: bind_same bindS_step [where m = "frozen (HRef a)", OF frozen_step [OF frz]] give_def del: thaw.simps freeze.simps)
qed

end
