(* ===== verification/Input_Load.thy ===== *)
theory Input_Load
  imports Input_Merge "HOL-Library.Sublist"
begin

text \<open>
  Loading one build file in \<open>tools/gyp/pylib/gyp/input.py\<close>: the checked evaluation of
  its syntax tree (\<open>CheckNode\<close>), the files it includes (\<open>GetIncludedBuildFiles\<close>), the
  toolsets of its targets (\<open>ProcessToolsetsInDict\<close>) and, from \<open>LoadTargetBuildFile\<close>, the
  merge of \<open>target_defaults\<close> into the targets, the list of included files and the
  build files its targets depend on.  Python's parser is outside the model: \<open>CheckNode\<close>
  starts from the tree it gives.  The recursion of \<open>GetIncludedBuildFiles\<close> carries
  fuel, and one more than the number of known files is proved enough.
\<close>

subsection \<open>Checked evaluation\<close>

text \<open>
  The nodes of a syntax tree that \<open>CheckNode\<close> tells apart.  The key of an entry is a
  constant or another node.  As everywhere in the data model, the keys of dictionaries
  are strings and integers (plain or long): a tree with a constant key of another class
  (\<open>unicode\<close>, \<open>float\<close>, \<open>complex\<close>) is not represented.
\<close>

datatype akey = KConst gkey | KNode

datatype ast =
    ADict "(akey \<times> ast) list"
  | AList "ast list"
  | AConst gval
  | AOther string

lemma ast_pair_size [termination_simp]:
  "(k, v) \<in> set c \<Longrightarrow> size v < Suc (size_list (size_prod f size) c)"
  by (induction c) auto

lemma ast_enumerate_size [termination_simp]:
  "(i, x) \<in> set (enumerate n c) \<Longrightarrow> size x < Suc (size_list size c)"
proof -
  assume "(i, x) \<in> set (enumerate n c)"
  then have "x \<in> set c" by (auto simp: in_set_enumerate_eq)
  then have "size x \<le> size_list size c" by (simp add: size_list_estimation')
  then show ?thesis by simp
qed

text \<open>\<open>assert isinstance(c[n], Const)\<close>, and the constant.\<close>

fun const_key :: "akey \<Rightarrow> gkey res" where
  "const_key (KConst k) = Inr k"
| "const_key KNode = Inl AssertionError"

definition repeated_key :: "gkey \<Rightarrow> gkey list \<Rightarrow> exn" where
  "repeated_key key keypath =
     (case (key, mapE key_str keypath) of
        (KStr k, Inr ks) \<Rightarrow>
          GypError (''Key '' @ [ch_squote] @ k @ [ch_squote] @ '' repeated at level '' @
            show_nat (length keypath + 1) @ '' with key path '' @ [ch_squote] @ join_with ''.'' ks @ [ch_squote])
      | _ \<Rightarrow> TypeError ''cannot concatenate'')"

fun CheckNode :: "ast \<Rightarrow> gkey list \<Rightarrow> gval res" where
  "CheckNode (ADict c) keypath =
     bindE (foldE (\<lambda>dict (kn, vn).
              bindE (const_key kn) (\<lambda>key.
                if has_key dict key then Inl (repeated_key key keypath)
                else bindE (CheckNode vn (keypath @ [key])) (\<lambda>v. Inr (dict_set dict key v)))) [] c)
       (\<lambda>d. Inr (GDict d))"
| "CheckNode (AList c) keypath =
     bindE (mapE (\<lambda>(index, child). CheckNode child (keypath @ [KStr (show_nat index)])) (enumerate 0 c))
       (\<lambda>children. Inr (GList children))"
| "CheckNode (AConst v) keypath = Inr v"
| "CheckNode (AOther r) keypath = Inl (UnknownASTNode r)"

text \<open>The value a tree denotes, and the trees that denote one: constant keys, none repeated in a dictionary.\<close>

fun key_of :: "akey \<Rightarrow> gkey" where
  "key_of (KConst k) = k"
| "key_of KNode = KStr []"

definition entry_key :: "akey \<times> ast \<Rightarrow> gkey" where
  "entry_key kv = key_of (fst kv)"

lemma entry_key_simp [simp]: "entry_key (k, v) = key_of k"
  by (simp add: entry_key_def)

fun node_val :: "ast \<Rightarrow> gval" where
  "node_val (ADict c) = GDict (map (\<lambda>(k, v). (key_of k, node_val v)) c)"
| "node_val (AList c) = GList (map node_val c)"
| "node_val (AConst v) = v"
| "node_val (AOther r) = GOther r False"

fun node_ok :: "ast \<Rightarrow> bool" where
  "node_ok (ADict c) \<longleftrightarrow> (\<forall>(k, v) \<in> set c. \<not> isl (const_key k) \<and> node_ok v) \<and> distinct (map entry_key c)"
| "node_ok (AList c) \<longleftrightarrow> (\<forall>x \<in> set c. node_ok x)"
| "node_ok (AConst v) \<longleftrightarrow> True"
| "node_ok (AOther r) \<longleftrightarrow> False"

lemma const_key_Inr: "const_key k = Inr key \<longleftrightarrow> \<not> isl (const_key k) \<and> key = key_of k"
  by (cases k) auto

lemma dict_set_new: "\<not> has_key d k \<Longrightarrow> dict_set d k v = d @ [(k, v)]"
  by (induction d) (auto split: if_splits)

lemma has_key_in: "has_key d k \<longleftrightarrow> k \<in> fst ` set d"
  by (simp add: dict_get_def map_of_eq_None_iff)

lemma CheckNode_dict:
  assumes "\<And>v key r. v \<in> snd ` set c \<Longrightarrow> CheckNode v (kp @ [key]) = Inr r \<longleftrightarrow> node_ok v \<and> r = node_val v"
  shows "foldE (\<lambda>dict (kn, vn).
              bindE (const_key kn) (\<lambda>key.
                if has_key dict key then Inl (repeated_key key kp)
                else bindE (CheckNode vn (kp @ [key])) (\<lambda>v. Inr (dict_set dict key v)))) d c = Inr r \<longleftrightarrow>
    (\<forall>(k, v) \<in> set c. \<not> isl (const_key k) \<and> node_ok v) \<and> distinct (map entry_key c) \<and>
    set (map entry_key c) \<inter> fst ` set d = {} \<and> r = d @ map (\<lambda>(k, v). (key_of k, node_val v)) c"
  using assms
proof (induction c arbitrary: d)
  case (Cons kv c)
  obtain k v where kv: "kv = (k, v)" by (cases kv)
  let ?step = "\<lambda>dict (kn, vn).
              bindE (const_key kn) (\<lambda>key.
                if has_key dict key then Inl (repeated_key key kp)
                else bindE (CheckNode vn (kp @ [key])) (\<lambda>v. Inr (dict_set dict key v)))"
  have cv: "CheckNode v (kp @ [key]) = Inr r \<longleftrightarrow> node_ok v \<and> r = node_val v" for key r
    by (rule Cons.prems) (simp add: kv)
  have IH: "foldE ?step d c = Inr r \<longleftrightarrow>
      (\<forall>(k, v) \<in> set c. \<not> isl (const_key k) \<and> node_ok v) \<and> distinct (map entry_key c) \<and>
      set (map entry_key c) \<inter> fst ` set d = {} \<and> r = d @ map (\<lambda>(k, v). (key_of k, node_val v)) c" for d
    by (rule Cons.IH) (rule Cons.prems, simp)
  show ?case
  proof (cases "\<not> isl (const_key k) \<and> node_ok v \<and> \<not> has_key d (key_of k)")
    case True
    then have "const_key k = Inr (key_of k)" by (simp add: const_key_Inr)
    moreover have "CheckNode v (kp @ [key_of k]) = Inr (node_val v)" using cv True by simp
    ultimately have "?step d (k, v) = Inr (d @ [(key_of k, node_val v)])" using True by (simp add: dict_set_new)
    then have "foldE ?step d (kv # c) = foldE ?step (d @ [(key_of k, node_val v)]) c" by (simp add: kv)
    then have "foldE ?step d (kv # c) = Inr r \<longleftrightarrow>
      (\<forall>(k, v) \<in> set c. \<not> isl (const_key k) \<and> node_ok v) \<and> distinct (map entry_key c) \<and>
      set (map entry_key c) \<inter> fst ` set (d @ [(key_of k, node_val v)]) = {} \<and>
      r = (d @ [(key_of k, node_val v)]) @ map (\<lambda>(k, v). (key_of k, node_val v)) c"
      by (simp only: IH)
    also have "\<dots> \<longleftrightarrow> (\<forall>(k, v) \<in> set (kv # c). \<not> isl (const_key k) \<and> node_ok v) \<and> distinct (map entry_key (kv # c)) \<and>
      set (map entry_key (kv # c)) \<inter> fst ` set d = {} \<and> r = d @ map (\<lambda>(k, v). (key_of k, node_val v)) (kv # c)"
      using True has_key_in [of d "key_of k"] by (auto simp: kv)
    finally show ?thesis .
  next
    case False
    have "?step d (k, v) \<noteq> Inr t" for t
      using False cv by (auto simp: bindE_Inr_iff const_key_Inr split: if_splits)
    then have "foldE ?step d (kv # c) \<noteq> Inr r" by (auto simp: kv bindE_Inr_iff)
    with False has_key_in [of d "key_of k"] show ?thesis by (auto simp: kv)
  qed
qed auto

lemma CheckNode_list:
  assumes "\<And>x i r. x \<in> set c \<Longrightarrow> CheckNode x (kp @ [KStr (show_nat i)]) = Inr r \<longleftrightarrow> node_ok x \<and> r = node_val x"
  shows "mapE (\<lambda>(index, child). CheckNode child (kp @ [KStr (show_nat index)])) (enumerate n c) = Inr rs \<longleftrightarrow>
    (\<forall>x \<in> set c. node_ok x) \<and> rs = map node_val c"
  using assms
proof (induction c arbitrary: n rs)
  case (Cons x c)
  have "CheckNode x (kp @ [KStr (show_nat n)]) = Inr r \<longleftrightarrow> node_ok x \<and> r = node_val x" for r
    by (rule Cons.prems) simp
  moreover have "mapE (\<lambda>(index, child). CheckNode child (kp @ [KStr (show_nat index)])) (enumerate (Suc n) c) = Inr rs \<longleftrightarrow>
    (\<forall>x \<in> set c. node_ok x) \<and> rs = map node_val c" for rs by (rule Cons.IH) (rule Cons.prems, simp)
  ultimately show ?case by (auto simp: bindE_Inr_iff)
qed auto

lemma CheckNode_iff: "CheckNode n kp = Inr v \<longleftrightarrow> node_ok n \<and> v = node_val n"
proof (induction n arbitrary: kp v)
  case (ADict c)
  have ch: "CheckNode vn (kp @ [key]) = Inr r \<longleftrightarrow> node_ok vn \<and> r = node_val vn" if "vn \<in> snd ` set c" for vn key r
  proof -
    from that obtain kn where "(kn, vn) \<in> set c" by auto
    then show ?thesis by (rule ADict.IH) simp
  qed
  from CheckNode_dict [where c = c and kp = kp and d = "[]", OF ch] show ?case by (auto simp: bindE_Inr_iff)
next
  case (AList c)
  from CheckNode_list [where c = c and kp = kp and n = 0, OF AList.IH] show ?case by (auto simp: bindE_Inr_iff)
qed auto

text \<open>
  (C20) The checked evaluation accepts a tree, at any key path, exactly when it is built of
  dictionaries, lists and constants, every key of its dictionaries is a constant and
  none is repeated in its dictionary, and its value is then the plain value of the tree:
  the entries and the items in their order.
\<close>

theorem CheckNode_exact:
  "(CheckNode n kp = Inr v \<longleftrightarrow> node_ok n \<and> v = node_val n)"
  by (rule CheckNode_iff)

subsection \<open>Included files\<close>

type_synonym aux_data = "(string \<times> string list) list"

text \<open>
  \<open>aux_data[f].get('included', [])\<close> is the list of \<open>f\<close>; \<open>None\<close> is out of fuel, spent when a
  file is entered.
\<close>

fun GetIncludedBuildFiles :: "nat \<Rightarrow> aux_data \<Rightarrow> string \<Rightarrow> string list \<Rightarrow> string list res option"
  and included_loop :: "nat \<Rightarrow> aux_data \<Rightarrow> string list \<Rightarrow> string list \<Rightarrow> string list res option" where
  "GetIncludedBuildFiles 0 aux build_file_path included = None"
| "GetIncludedBuildFiles (Suc n) aux build_file_path included =
     (if build_file_path \<in> set included then Some (Inr included)
      else
        case dict_get aux build_file_path of
          None \<Rightarrow> Some (Inl (KeyError build_file_path))
        | Some fs \<Rightarrow> included_loop n aux fs (included @ [build_file_path]))"
| "included_loop n aux [] included = Some (Inr included)"
| "included_loop n aux (f # fs) included =
     (case GetIncludedBuildFiles n aux f included of
        Some (Inr included) \<Rightarrow> included_loop n aux fs included
      | r \<Rightarrow> r)"

inductive_set includes_of :: "aux_data \<Rightarrow> string \<Rightarrow> string set" for aux f where
  self: "f \<in> includes_of aux f"
| further: "g \<in> includes_of aux f \<Longrightarrow> dict_get aux g = Some fs \<Longrightarrow> h \<in> set fs \<Longrightarrow> h \<in> includes_of aux f"

definition known_files :: "aux_data \<Rightarrow> string list \<Rightarrow> nat" where
  "known_files aux included = card (fst ` set aux - set included)"

definition aux_closed :: "aux_data \<Rightarrow> bool" where
  "aux_closed aux \<longleftrightarrow> (\<forall>f fs g. dict_get aux f = Some fs \<longrightarrow> g \<in> set fs \<longrightarrow> has_key aux g)"

text \<open>What a call adds: distinct files, all reached, and with each new file its includes.\<close>

definition settled :: "aux_data \<Rightarrow> string list \<Rightarrow> string \<Rightarrow> bool" where
  "settled aux inc g \<longleftrightarrow> (\<forall>fs. dict_get aux g = Some fs \<longrightarrow> set fs \<subseteq> set inc)"

definition grows :: "aux_data \<Rightarrow> string list \<Rightarrow> string list \<Rightarrow> bool" where
  "grows aux inc inc' \<longleftrightarrow> set inc \<subseteq> set inc' \<and> distinct inc' \<and> (\<forall>g \<in> set inc' - set inc. settled aux inc' g)"

lemma settled_mono: "settled aux a g \<Longrightarrow> set a \<subseteq> set b \<Longrightarrow> settled aux b g"
  by (auto simp: settled_def)

lemma grows_refl: "distinct inc \<Longrightarrow> grows aux inc inc"
  by (simp add: grows_def)

lemma grows_trans:
  assumes "grows aux a b" and "grows aux b c"
  shows "grows aux a c"
proof -
  have "settled aux c g" if "g \<in> set c - set a" for g
  proof (cases "g \<in> set b")
    case True
    with assms(1) that have "settled aux b g" by (simp add: grows_def)
    then show ?thesis by (rule settled_mono) (use assms(2) in \<open>simp add: grows_def\<close>)
  next
    case False
    with assms(2) that show ?thesis by (simp add: grows_def)
  qed
  with assms show ?thesis unfolding grows_def by blast
qed

lemma grows_enter:
  assumes "grows aux (inc @ [f]) inc'" and "dict_get aux f = Some fs" and "set fs \<subseteq> set inc'"
  shows "grows aux inc inc'"
proof -
  have "settled aux inc' f" using assms(2,3) by (simp add: settled_def)
  with assms(1) show ?thesis by (auto simp: grows_def)
qed

lemma known_files_less:
  "f \<in> fst ` set aux \<Longrightarrow> f \<notin> set inc \<Longrightarrow> known_files aux (inc @ [f]) < known_files aux inc"
  unfolding known_files_def by (rule psubset_card_mono) auto

lemma known_files_mono: "grows aux inc inc' \<Longrightarrow> known_files aux inc' \<le> known_files aux inc"
  unfolding known_files_def by (rule card_mono) (auto simp: grows_def)

lemma included_total:
  "aux_closed aux \<Longrightarrow> has_key aux f \<Longrightarrow> distinct inc \<Longrightarrow> known_files aux inc < n \<Longrightarrow>
    \<exists>inc'. GetIncludedBuildFiles n aux f inc = Some (Inr inc') \<and> grows aux inc inc' \<and> f \<in> set inc'
      \<and> (f \<notin> set inc \<longrightarrow> set inc' \<subseteq> set inc \<union> includes_of aux f)"
  "aux_closed aux \<Longrightarrow> (\<And>f. f \<in> set fs \<Longrightarrow> has_key aux f) \<Longrightarrow> distinct inc \<Longrightarrow> known_files aux inc < n \<Longrightarrow>
    \<exists>inc'. included_loop n aux fs inc = Some (Inr inc') \<and> grows aux inc inc' \<and> set fs \<subseteq> set inc'
      \<and> set inc' \<subseteq> set inc \<union> (\<Union>f \<in> set fs. includes_of aux f)"
proof (induction n aux f inc and n aux fs inc rule: GetIncludedBuildFiles_included_loop.induct)
  case (2 n aux f inc)
  show ?case
  proof (cases "f \<in> set inc")
    case True
    with 2 grows_refl show ?thesis by auto
  next
    case False
    from "2.prems"(2) obtain fs where fs: "dict_get aux f = Some fs" by auto
    have "f \<in> fst ` set aux" using "2.prems"(2) has_key_in [of aux f] by simp
    then have less: "known_files aux (inc @ [f]) < n" using known_files_less [of f aux inc] False "2.prems"(4) by simp
    have keys: "has_key aux g" if "g \<in> set fs" for g using "2.prems"(1) fs that unfolding aux_closed_def by blast
    from "2.IH" [OF False fs "2.prems"(1) keys _ less] "2.prems"(3) False obtain inc' where
      i: "included_loop n aux fs (inc @ [f]) = Some (Inr inc')" "grows aux (inc @ [f]) inc'" "set fs \<subseteq> set inc'"
      "set inc' \<subseteq> set (inc @ [f]) \<union> (\<Union>f \<in> set fs. includes_of aux f)" by auto
    have sub: "includes_of aux g \<subseteq> includes_of aux f" if "g \<in> set fs" for g
    proof
      fix h assume "h \<in> includes_of aux g"
      then show "h \<in> includes_of aux f"
        by induction (use fs that in \<open>auto intro: includes_of.intros\<close>)
    qed
    have "grows aux inc inc'" by (rule grows_enter [OF i(2) fs i(3)])
    moreover have "set inc' \<subseteq> set inc \<union> includes_of aux f" using i(4) sub includes_of.self by fastforce
    moreover have "f \<in> set inc'" using i(2) by (simp add: grows_def)
    ultimately show ?thesis using i(1) False fs by simp
  qed
next
  case (4 n aux f fs inc)
  from "4.prems" obtain inc1 where i1: "GetIncludedBuildFiles n aux f inc = Some (Inr inc1)" "grows aux inc inc1"
    "f \<in> set inc1" "f \<notin> set inc \<longrightarrow> set inc1 \<subseteq> set inc \<union> includes_of aux f"
    using "4.IH"(1) by auto
  have d1: "distinct inc1" using i1(2) by (simp add: grows_def)
  have "known_files aux inc1 < n" using known_files_mono [OF i1(2)] "4.prems"(4) by simp
  with "4.IH"(2) [OF i1(1) refl "4.prems"(1) _ d1] "4.prems"(2) obtain inc' where
    i2: "included_loop n aux fs inc1 = Some (Inr inc')" "grows aux inc1 inc'" "set fs \<subseteq> set inc'"
    "set inc' \<subseteq> set inc1 \<union> (\<Union>f \<in> set fs. includes_of aux f)" by auto
  have "set inc1 \<subseteq> set inc \<union> includes_of aux f"
  proof (cases "f \<in> set inc")
    case True
    have "n \<noteq> 0" using "4.prems"(4) by simp
    with True i1(1) have "inc1 = inc" by (cases n) auto
    then show ?thesis by simp
  qed (use i1(4) in simp)
  moreover have "f \<in> set inc'" using i1(3) i2(2) by (auto simp: grows_def)
  ultimately show ?case using i1(1) i2 grows_trans [OF i1(2) i2(2)] by auto
qed (simp_all add: grows_refl)

lemma included_exact:
  assumes "aux_closed aux" and "has_key aux f"
  shows "\<exists>fs. GetIncludedBuildFiles (Suc (card (fst ` set aux))) aux f [] = Some (Inr fs) \<and> distinct fs \<and>
    set fs = includes_of aux f"
proof -
  have "known_files aux [] < Suc (card (fst ` set aux))" by (simp add: known_files_def)
  from included_total(1) [OF assms _ this] obtain fs where
    r: "GetIncludedBuildFiles (Suc (card (fst ` set aux))) aux f [] = Some (Inr fs)"
    and g: "grows aux [] fs" and f: "f \<in> set fs" and sub: "set fs \<subseteq> includes_of aux f" by auto
  have "h \<in> set fs" if "h \<in> includes_of aux f" for h
    using that by induction (use f g in \<open>auto simp: grows_def settled_def\<close>)
  with r g sub show ?thesis by (auto simp: grows_def)
qed

text \<open>
  (C21) Every call returns, for tables in which every included file is known: the list holds the
  build file and every file it includes, directly or through others, each once, and
  circular inclusions do no harm.
\<close>

theorem GetIncludedBuildFiles_exact:
  assumes "aux_closed aux" and "has_key aux f"
  shows "\<exists>fs. GetIncludedBuildFiles (Suc (card (fst ` set aux))) aux f [] = Some (Inr fs) \<and> distinct fs \<and>
    set fs = includes_of aux f"
  by (rule included_exact [OF assms])

theorem GetIncludedBuildFiles_exact_witness:
  "\<exists>fs. GetIncludedBuildFiles 3 [(''a'', [''b'']), (''b'', [''a''])] ''a'' [] = Some (Inr fs) \<and> distinct fs \<and>
     set fs = includes_of [(''a'', [''b'']), (''b'', [''a''])] ''a'' \<and> fs = [''a'', ''b'']"
proof -
  let ?aux = "[(''a'', [''b'']), (''b'', [''a''])]"
  have "aux_closed ?aux" "has_key ?aux ''a''" by (auto simp: aux_closed_def split: if_splits)
  from GetIncludedBuildFiles_exact [OF this] obtain fs where
    r: "GetIncludedBuildFiles (Suc (card (fst ` set ?aux))) ?aux ''a'' [] = Some (Inr fs)"
    "distinct fs" "set fs = includes_of ?aux ''a''" by blast
  have three: "Suc (card (fst ` set ?aux)) = 3" by code_simp
  note r' = r(1) [unfolded three]
  have "GetIncludedBuildFiles 3 ?aux ''a'' [] = Some (Inr [''a'', ''b''])" by code_simp
  from trans [OF sym [OF r'] this] have fs: "fs = [''a'', ''b'']" by (simp only: option.inject sum.inject)
  show ?thesis using r(2,3) r' fs by (intro exI [of _ fs]) simp
qed

subsection \<open>Toolsets\<close>

definition toolset_copies :: "gdict \<Rightarrow> gval list \<Rightarrow> gdict list" where
  "toolset_copies target toolsets =
     (case toolsets of
        [] \<Rightarrow> []
      | t # ts \<Rightarrow> map (put target ''toolset'') ts @ [put target ''toolset'' t])"

definition expand_toolsets :: "gyp_env \<Rightarrow> gdict \<Rightarrow> gdict list res" where
  "expand_toolsets E target =
     (if has_key target (KStr ''toolset'') \<and> \<not> has_key target (KStr ''toolsets'') then Inr [target]
      else
        bindE (if multiple_toolsets E
               then (case get target ''toolsets'' of None \<Rightarrow> Inr [GStr ''target''] | Some v \<Rightarrow> as_list v)
               else Inr [GStr ''target'']) (\<lambda>toolsets.
          let target = unhook target ''toolsets'' in
          Inr (toolset_copies target toolsets)))"

definition expand_target_list :: "gyp_env \<Rightarrow> gval list \<Rightarrow> gval list res" where
  "expand_target_list E target_list =
     bindE (mapE (\<lambda>t. bindE (as_dict t) (expand_toolsets E)) target_list) (\<lambda>tss.
       Inr (map GDict (concat tss)))"

definition toolset_targets :: "gyp_env \<Rightarrow> gdict \<Rightarrow> gdict res" where
  "toolset_targets E data =
     (case get data ''targets'' of
        None \<Rightarrow> Inr data
      | Some v \<Rightarrow>
          bindE (as_list v) (\<lambda>target_list.
          bindE (expand_target_list E target_list) (\<lambda>ts.
            Inr (put data ''targets'' (GList ts)))))"

text \<open>
  What follows the expression of a condition need not be a dictionary: the tests
  \<open>'targets' in data\<close> and \<open>'conditions' in data\<close> look for a part of a string or an element of
  a list there, and a hit makes the subscript that follows raise.
\<close>

definition toolsets_in_other :: "gval \<Rightarrow> gval res" where
  "toolsets_in_other v =
     (case v of
        GStr s \<Rightarrow> if sublist ''targets'' s \<or> sublist ''conditions'' s
                  then Inl (TypeError ''string indices must be integers, not str'') else Inr v
      | GList l \<Rightarrow> if GStr ''targets'' \<in> set l \<or> GStr ''conditions'' \<in> set l
                   then Inl (TypeError ''list indices must be integers, not str'') else Inr v
      | GInt i \<Rightarrow> Inl (TypeError ''argument of type int is not iterable'')
      | GOther c r \<Rightarrow> Inl (TypeError (''argument of type '' @ c @ '' is not iterable''))
      | GDict e \<Rightarrow> Inr v)"

lemma toolsets_in_other_same: "toolsets_in_other v = Inr w \<Longrightarrow> w = v"
  by (auto simp: toolsets_in_other_def split: gval.splits if_splits)

text \<open>
  \<open>ProcessToolsetsInDict\<close> with the dictionaries of its conditions; the recursion goes to parts
  of the value of \<open>conditions\<close>, which the expansion of the targets leaves alone.
\<close>

lemma condition_size:
  assumes "get data ''conditions'' = Some (GList cs)" and "GList (c # ds) \<in> set cs" and "x \<in> set ds"
  shows "size x < size (GDict data)"
proof -
  have "size x < size (GList (c # ds))" using assms(3) by (induction ds) auto
  also have "\<dots> \<le> size_list size cs" using assms(2) by (simp add: size_list_estimation' del: gval.size)
  also have "\<dots> < size (GList cs)" by simp
  also have "\<dots> < size (GDict data)"
    using dict_get_Some_in [OF assms(1)] size_pair_less [of "KStr ''conditions''" "GList cs" data] by simp
  finally show ?thesis .
qed

function ProcessToolsetsInDict :: "gyp_env \<Rightarrow> gdict \<Rightarrow> gdict res" where
  "ProcessToolsetsInDict E data =
     bindE (toolset_targets E data) (\<lambda>data'.
       case get data ''conditions'' of
         None \<Rightarrow> Inr data'
       | Some (GList cs) \<Rightarrow>
           bindE (mapE (\<lambda>condition.
                    case condition of
                      GList (c # ds) \<Rightarrow>
                        bindE (mapE (\<lambda>d. case d of
                                   GDict e \<Rightarrow> bindE (ProcessToolsetsInDict E e) (\<lambda>e'. Inr (GDict e'))
                                 | v \<Rightarrow> toolsets_in_other v) ds)
                          (\<lambda>ds'. Inr (GList (c # ds')))
                    | other \<Rightarrow> Inr other) cs)
             (\<lambda>cs'. Inr (put data' ''conditions'' (GList cs')))
       | Some (GInt i) \<Rightarrow> Inl (TypeError ''int object is not iterable'')
       | Some (GOther c r) \<Rightarrow> Inl (TypeError (c @ '' object is not iterable''))
       | Some v \<Rightarrow> Inr data')"
  by pat_completeness auto

termination
proof (relation "measure (\<lambda>(m, d). size (GDict d))", goal_cases)
  case (2 m data data' v cs condition ds c ds' x e)
  then show ?case using condition_size [of data cs c ds' x] by auto
qed simp

declare ProcessToolsetsInDict.simps [simp del]

definition has_toolset :: "gdict \<Rightarrow> bool" where
  "has_toolset t \<longleftrightarrow> has_key t (KStr ''toolset'') \<and> \<not> has_key t (KStr ''toolsets'')"

lemma dict_set_same: "dict_get d k = Some v \<Longrightarrow> dict_set d k v = d"
  by (induction d) (auto split: if_splits)

lemma expand_toolsets_done: "has_toolset t \<Longrightarrow> expand_toolsets E t = Inr [t]"
  by (simp add: expand_toolsets_def has_toolset_def)

lemma toolset_copies_result: "r \<in> set (toolset_copies (unhook t ''toolsets'') ts) \<Longrightarrow> has_toolset r"
  by (cases ts) (auto simp: toolset_copies_def has_toolset_def)

lemma expand_toolsets_result: "expand_toolsets E t = Inr ts \<Longrightarrow> \<forall>r \<in> set ts. has_toolset r"
  using toolset_copies_result
  by (auto simp: expand_toolsets_def has_toolset_def bindE_Inr_iff Let_def split: if_splits)

lemma expand_target_list_done:
  "\<forall>t \<in> set ts. \<exists>e. t = GDict e \<and> has_toolset e \<Longrightarrow> expand_target_list E ts = Inr ts"
proof (induction ts)
  case (Cons t ts)
  then obtain e where t: "t = GDict e" "has_toolset e" by auto
  from Cons obtain tss where "mapE (\<lambda>t. bindE (as_dict t) (expand_toolsets E)) ts = Inr tss" "map GDict (concat tss) = ts"
    by (auto simp: expand_target_list_def bindE_Inr_iff)
  with t show ?case by (simp add: expand_target_list_def expand_toolsets_done)
qed (simp add: expand_target_list_def)

lemma expand_target_list_result:
  "expand_target_list E ts = Inr ts' \<Longrightarrow> \<forall>t \<in> set ts'. \<exists>e. t = GDict e \<and> has_toolset e"
proof (induction ts arbitrary: ts')
  case (Cons t ts)
  then obtain e es tss where "expand_toolsets E e = Inr es"
    and tss: "mapE (\<lambda>t. bindE (as_dict t) (expand_toolsets E)) ts = Inr tss"
    and ts': "ts' = map GDict (es @ concat tss)" by (auto simp: expand_target_list_def bindE_Inr_iff)
  moreover from tss have "expand_target_list E ts = Inr (map GDict (concat tss))" by (simp add: expand_target_list_def)
  ultimately show ?case using Cons.IH [of "map GDict (concat tss)"] expand_toolsets_result [of E e es] by auto
qed (simp add: expand_target_list_def)

definition targets_done :: "gdict \<Rightarrow> bool" where
  "targets_done d \<longleftrightarrow> (case get d ''targets'' of
     None \<Rightarrow> True
   | Some v \<Rightarrow> (\<exists>ts. v = GList ts \<and> (\<forall>t \<in> set ts. \<exists>e. t = GDict e \<and> has_toolset e)))"

lemma toolset_targets_result: "toolset_targets E d = Inr d' \<Longrightarrow> targets_done d'"
  using expand_target_list_result
  by (auto simp: toolset_targets_def targets_done_def bindE_Inr_iff split: option.splits)

lemma toolset_targets_done: "targets_done d \<Longrightarrow> toolset_targets E d = Inr d"
  by (auto simp: toolset_targets_def targets_done_def expand_target_list_done dict_set_same split: option.splits)

lemma toolset_targets_conditions: "toolset_targets E d = Inr d' \<Longrightarrow> get d' ''conditions'' = get d ''conditions''"
  by (auto simp: toolset_targets_def bindE_Inr_iff split: option.splits)

lemma targets_done_put: "targets_done (put d ''conditions'' v) \<longleftrightarrow> targets_done d"
  by (simp add: targets_done_def)

text \<open>One condition: the dictionaries after its expression are processed.\<close>

definition toolset_condition :: "gyp_env \<Rightarrow> gval \<Rightarrow> gval res" where
  "toolset_condition E condition =
     (case condition of
        GList (c # ds) \<Rightarrow>
          bindE (mapE (\<lambda>d. case d of
                     GDict e \<Rightarrow> bindE (ProcessToolsetsInDict E e) (\<lambda>e'. Inr (GDict e'))
                   | v \<Rightarrow> toolsets_in_other v) ds)
            (\<lambda>ds'. Inr (GList (c # ds')))
      | other \<Rightarrow> Inr other)"

lemma ProcessToolsets_unfold:
  "ProcessToolsetsInDict E data =
     bindE (toolset_targets E data) (\<lambda>data'.
       case get data ''conditions'' of
         None \<Rightarrow> Inr data'
       | Some (GList cs) \<Rightarrow> bindE (mapE (toolset_condition E) cs) (\<lambda>cs'. Inr (put data' ''conditions'' (GList cs')))
       | Some (GInt i) \<Rightarrow> Inl (TypeError ''int object is not iterable'')
       | Some (GOther c r) \<Rightarrow> Inl (TypeError (c @ '' object is not iterable''))
       | Some v \<Rightarrow> Inr data')"
  unfolding toolset_condition_def by (rule ProcessToolsetsInDict.simps)

lemma toolset_condition_fixed:
  assumes c: "toolset_condition E c = Inr c'"
    and IH: "\<forall>x ds e d. c = GList (x # ds) \<and> GDict e \<in> set ds \<and> ProcessToolsetsInDict E e = Inr d \<longrightarrow>
      ProcessToolsetsInDict E d = Inr d"
  shows "toolset_condition E c' = Inr c'"
proof (cases "\<exists>x ds. c = GList (x # ds)")
  case False
  with c have "c' = c" by (auto simp: toolset_condition_def split: gval.splits list.splits)
  with False show ?thesis by (auto simp: toolset_condition_def split: gval.splits list.splits)
next
  case True
  then obtain x ds where x: "c = GList (x # ds)" by blast
  let ?f = "\<lambda>d. case d of
               GDict e \<Rightarrow> bindE (ProcessToolsetsInDict E e) (\<lambda>e'. Inr (GDict e'))
             | v \<Rightarrow> toolsets_in_other v"
  from c x obtain ds' where ds': "mapE ?f ds = Inr ds'" "c' = GList (x # ds')"
    by (auto simp: toolset_condition_def bindE_Inr_iff)
  have "?f y = Inr y" if "y \<in> set ds'" for y
  proof -
    from mapE_results [OF ds'(1) that] obtain w where w: "w \<in> set ds" "?f w = Inr y" by blast
    show ?thesis
    proof (cases "\<exists>e. w = GDict e")
      case False
      with w(2) have "toolsets_in_other w = Inr y" by (cases w) simp_all
      with False w(2) toolsets_in_other_same [OF this] show ?thesis by (cases w) simp_all
    next
      case True
      with w(2) obtain e e' where "w = GDict e" "ProcessToolsetsInDict E e = Inr e'" "y = GDict e'"
        by (auto simp: bindE_Inr_iff)
      with IH x w(1) show ?thesis by simp
    qed
  qed
  with ds'(2) show ?thesis by (simp add: toolset_condition_def mapE_fixed)
qed

lemma ProcessToolsets_other_conditions:
  assumes "get data ''conditions'' = None \<or> (\<exists>v. get data ''conditions'' = Some v \<and> \<not> is_list v)"
    and r: "ProcessToolsetsInDict E data = Inr d"
  shows "targets_done d \<and> ProcessToolsetsInDict E d = Inr d"
proof -
  from r obtain d1 where d1: "toolset_targets E data = Inr d1" by (auto simp: ProcessToolsets_unfold bindE_Inr_iff)
  with r assms(1) have d: "d = d1"
    by (auto simp: ProcessToolsets_unfold split: option.splits gval.splits)
  note dn = toolset_targets_result [OF d1]
  have "ProcessToolsetsInDict E d1 = ProcessToolsetsInDict E data"
    using toolset_targets_done [OF dn, of E] toolset_targets_conditions [OF d1] d1
    by (simp add: ProcessToolsets_unfold)
  with d dn r show ?thesis by simp
qed

lemma ProcessToolsets_twice:
  "ProcessToolsetsInDict E data = Inr d \<Longrightarrow> targets_done d \<and> ProcessToolsetsInDict E d = Inr d"
proof (induction "size (GDict data)" arbitrary: data d rule: less_induct)
  case less
  show ?case
  proof (cases "\<exists>cs. get data ''conditions'' = Some (GList cs)")
    case False
    then have "get data ''conditions'' = None \<or> (\<exists>v. get data ''conditions'' = Some v \<and> \<not> is_list v)"
      by (cases "get data ''conditions''") (auto elim: is_list.elims)
    with less.prems show ?thesis by (rule ProcessToolsets_other_conditions [rotated])
  next
    case True
    then obtain cs where cs: "get data ''conditions'' = Some (GList cs)" by blast
    with less.prems obtain d1 cs' where d1: "toolset_targets E data = Inr d1"
      and cs': "mapE (toolset_condition E) cs = Inr cs'" and d: "d = put d1 ''conditions'' (GList cs')"
      by (auto simp: ProcessToolsets_unfold bindE_Inr_iff)
    have fixed: "toolset_condition E c' = Inr c'" if "c' \<in> set cs'" for c'
    proof -
      from mapE_results [OF cs' that] obtain c where c: "c \<in> set cs" "toolset_condition E c = Inr c'" by blast
      show ?thesis using c(1) condition_size [OF cs] less.hyps by (intro toolset_condition_fixed [OF c(2)]) blast
    qed
    have done_d: "targets_done d" using toolset_targets_result [OF d1] by (simp add: d targets_done_put)
    moreover have "get d ''conditions'' = Some (GList cs')" by (simp add: d)
    ultimately show ?thesis
      using toolset_targets_done [OF done_d, of E] mapE_fixed [of cs' "toolset_condition E"] fixed
      by (simp add: ProcessToolsets_unfold [of E d] dict_set_same)
  qed
qed

text \<open>
  (C22) After the toolsets are processed every target has a \<open>toolset\<close> and no \<open>toolsets\<close>, and
  the second round, which \<open>LoadTargetBuildFile\<close> makes after the conditions, changes
  nothing in what the first has done.
\<close>

theorem ProcessToolsetsInDict_idempotent:
  assumes "ProcessToolsetsInDict E data = Inr d"
  shows "targets_done d \<and> ProcessToolsetsInDict E d = Inr d"
  by (rule ProcessToolsets_twice [OF assms])

theorem ProcessToolsetsInDict_idempotent_witness:
  "\<exists>d. ProcessToolsetsInDict (base_env ''/'' \<lparr>multiple_toolsets := True\<rparr>)
        [(KStr ''targets'', GList [GDict [(KStr ''toolsets'', GList [GStr ''host'', GStr ''target''])]])] = Inr d \<and>
      get d ''targets'' = Some (GList [GDict [(KStr ''toolset'', GStr ''target'')], GDict [(KStr ''toolset'', GStr ''host'')]]) \<and>
      targets_done d \<and> ProcessToolsetsInDict (base_env ''/'' \<lparr>multiple_toolsets := True\<rparr>) d = Inr d"
proof -
  let ?E = "base_env ''/'' \<lparr>multiple_toolsets := True\<rparr>"
  let ?d = "[(KStr ''targets'', GList [GDict [(KStr ''toolset'', GStr ''target'')], GDict [(KStr ''toolset'', GStr ''host'')]])]"
  have r: "ProcessToolsetsInDict ?E
      [(KStr ''targets'', GList [GDict [(KStr ''toolsets'', GList [GStr ''host'', GStr ''target''])]])] = Inr ?d"
    by code_simp
  from r ProcessToolsetsInDict_idempotent [OF r] show ?thesis by (intro exI [of _ ?d]) simp
qed

subsection \<open>The steps of LoadTargetBuildFile\<close>

text \<open>
  What \<open>LoadTargetBuildFile\<close> does to the contents of a build file around the expansion
  of its variables: the list of the files that contributed to it, the merge of each
  target into a copy of \<open>target_defaults\<close>, and the build files of its dependencies.
\<close>

definition DEPTH_variable :: "gyp_env \<Rightarrow> string \<Rightarrow> string \<Rightarrow> string" where
  "DEPTH_variable E depth build_file_path =
     (let d = RelativePath (cwd E) depth (dirname build_file_path) in
      if d = [] then ''.'' else map (\<lambda>c. if c = CHR 92 then CHR ''/'' else c) d)"

definition add_included_files ::
  "nat \<Rightarrow> gyp_env \<Rightarrow> aux_data \<Rightarrow> string \<Rightarrow> string \<Rightarrow> gdict \<Rightarrow> gdict res option" where
  "add_included_files n E aux depth build_file_path build_file_data =
     (let build_file_data = put build_file_data ''_DEPTH'' (GStr depth) in
      if has_key build_file_data (KStr ''included_files'')
      then Some (Inl (GypError (build_file_path @ '' must not contain included_files key'')))
      else case GetIncludedBuildFiles n aux build_file_path [] of
             None \<Rightarrow> None
           | Some (Inl e) \<Rightarrow> Some (Inl e)
           | Some (Inr included) \<Rightarrow>
               Some (Inr (put build_file_data ''included_files''
                 (GList (map (\<lambda>f. GStr (RelativePath (cwd E) f (dirname build_file_path))) included)))))"

definition merge_target_defaults :: "gyp_env \<Rightarrow> string \<Rightarrow> gdict \<Rightarrow> gdict res" where
  "merge_target_defaults E build_file_path build_file_data =
     (case get build_file_data ''target_defaults'' of
        None \<Rightarrow> Inr build_file_data
      | Some target_defaults \<Rightarrow>
          (case get build_file_data ''targets'' of
             None \<Rightarrow> Inl (GypError (''Unable to find targets in build file '' @ build_file_path))
           | Some targets \<Rightarrow>
               bindE (as_list targets) (\<lambda>targets.
               bindE (mapE (\<lambda>old_target_dict.
                        bindE (as_dict target_defaults) (\<lambda>new_target_dict.
                        bindE (as_dict old_target_dict) (\<lambda>old_target_dict.
                        bindE (MergeDicts E new_target_dict old_target_dict build_file_path build_file_path)
                          (\<lambda>new_target_dict. Inr (GDict new_target_dict))))) targets) (\<lambda>targets.
                 Inr (unhook (put build_file_data ''targets'' (GList targets)) ''target_defaults'')))))"

definition target_dependencies :: "gyp_env \<Rightarrow> string \<Rightarrow> gval \<Rightarrow> string option list res" where
  "target_dependencies E build_file_path target_dict =
     bindE (as_dict target_dict) (\<lambda>target_dict.
       case get target_dict ''dependencies'' of
         None \<Rightarrow> Inr []
       | Some ds \<Rightarrow>
           bindE (as_list ds) (\<lambda>ds.
             mapE (\<lambda>dependency. bindE (as_str dependency) (\<lambda>dependency.
               Inr (fst (ResolveTarget (cwd E) (Some build_file_path) dependency None)))) ds))"

definition build_file_dependencies :: "gyp_env \<Rightarrow> string \<Rightarrow> gdict \<Rightarrow> string option list res" where
  "build_file_dependencies E build_file_path build_file_data =
     (case get build_file_data ''targets'' of
        None \<Rightarrow> Inr []
      | Some targets \<Rightarrow>
          bindE (as_list targets) (\<lambda>targets.
          bindE (mapE (target_dependencies E build_file_path) targets) (\<lambda>dss. Inr (concat dss))))"

text \<open>
  (C23) Each target becomes the merge of itself into a copy of the defaults, at its own place in
  the list, and the defaults are gone: the scalar settings of the target win, the settings
  only the defaults have are kept, and no target sees what another one merged.
\<close>

theorem merge_target_defaults_spec:
  assumes "merge_target_defaults E f d = Inr d'" and "get d ''target_defaults'' = Some (GDict defaults)"
    and "get d ''targets'' = Some (GList ts)"
  shows "\<exists>ts'. get d' ''targets'' = Some (GList ts') \<and> length ts' = length ts \<and>
    get d' ''target_defaults'' = None \<and>
    (\<forall>i < length ts. \<exists>old r. ts ! i = GDict old \<and> ts' ! i = GDict r \<and> MergeDicts E defaults old f f = Inr r \<and>
       (\<forall>j. j \<notin> target_of ` set old \<longrightarrow> dict_get r j = dict_get defaults j) \<and>
       (\<forall>xs k v ys. old = xs @ (k, v) # ys \<and> is_scalar v \<and> k \<notin> target_of ` (set xs \<union> set ys) \<longrightarrow>
          (\<exists>v'. merge_scalar E f f k v = Inr v' \<and> dict_get r k = Some v')))"
proof -
  from assms obtain ts' where
    m: "mapE (\<lambda>t. bindE (as_dict t) (\<lambda>old. bindE (MergeDicts E defaults old f f) (\<lambda>r. Inr (GDict r)))) ts = Inr ts'"
    and d': "d' = unhook (put d ''targets'' (GList ts')) ''target_defaults''"
    by (auto simp: merge_target_defaults_def bindE_Inr_iff)
  have "\<exists>old r. ts ! i = GDict old \<and> ts' ! i = GDict r \<and> MergeDicts E defaults old f f = Inr r \<and>
       (\<forall>j. j \<notin> target_of ` set old \<longrightarrow> dict_get r j = dict_get defaults j) \<and>
       (\<forall>xs k v ys. old = xs @ (k, v) # ys \<and> is_scalar v \<and> k \<notin> target_of ` (set xs \<union> set ys) \<longrightarrow>
          (\<exists>v'. merge_scalar E f f k v = Inr v' \<and> dict_get r k = Some v'))" if "i < length ts" for i
  proof -
    from m that have "bindE (as_dict (ts ! i)) (\<lambda>old. bindE (MergeDicts E defaults old f f) (\<lambda>r. Inr (GDict r))) =
      Inr (ts' ! i)" unfolding mapE_Inr_iff by blast
    then obtain old r where o: "ts ! i = GDict old" "GDict r = ts' ! i" "MergeDicts E defaults old f f = Inr r"
      by (cases "ts ! i") (auto simp: bindE_Inr_iff)
    then have "MergeDictsLoop E f f old defaults old = Inr r" by (simp add: MergeDicts_def)
    note frame = MergeDictsLoop_frame [OF this]
    have "\<exists>v'. merge_scalar E f f k v = Inr v' \<and> dict_get r k = Some v'"
      if "old = xs @ (k, v) # ys" "is_scalar v" "k \<notin> target_of ` (set xs \<union> set ys)" for xs k v ys
      by (rule MergeDicts_scalar_item [of E defaults xs k v ys f f r]) (use o(3) that in auto)
    with o(1) sym [OF o(2)] o(3) frame show ?thesis by blast
  qed
  moreover have "length ts' = length ts" using m by (simp add: mapE_Inr_iff)
  ultimately show ?thesis by (simp add: d')
qed

theorem merge_target_defaults_spec_witness:
  "\<exists>ts'. merge_target_defaults (base_env ''/'') ''a.gyp''
      [(KStr ''target_defaults'', GDict [(KStr ''type'', GStr ''none''), (KStr ''mac'', GInt 1)]),
       (KStr ''targets'', GList [GDict [(KStr ''type'', GStr ''executable'')]])] =
      Inr [(KStr ''targets'', GList ts')] \<and>
    (\<exists>r. ts' = [GDict r] \<and> get r ''mac'' = Some (GInt 1) \<and> get r ''type'' = Some (GStr ''executable''))"
proof -
  let ?old = "[(KStr ''type'', GStr ''executable'')]"
  let ?d = "[(KStr ''target_defaults'', GDict [(KStr ''type'', GStr ''none''), (KStr ''mac'', GInt 1)]),
       (KStr ''targets'', GList [GDict ?old])]"
  let ?ts = "[GDict [(KStr ''type'', GStr ''executable''), (KStr ''mac'', GInt 1)]]"
  have r: "merge_target_defaults (base_env ''/'') ''a.gyp'' ?d = Inr [(KStr ''targets'', GList ?ts)]" by code_simp
  have s: "merge_scalar (base_env ''/'') ''a.gyp'' ''a.gyp'' (KStr ''type'') (GStr ''executable'') =
    Inr (GStr ''executable'')" by code_simp
  from merge_target_defaults_spec [OF r, of _ "[GDict ?old]"] obtain w where
    w: "?ts ! 0 = GDict w" "\<forall>j. j \<notin> target_of ` set ?old \<longrightarrow>
        dict_get w j = dict_get [(KStr ''type'', GStr ''none''), (KStr ''mac'', GInt 1)] j"
      "\<forall>xs k v ys. ?old = xs @ (k, v) # ys \<and> is_scalar v \<and> k \<notin> target_of ` (set xs \<union> set ys) \<longrightarrow>
          (\<exists>v'. merge_scalar (base_env ''/'') ''a.gyp'' ''a.gyp'' k v = Inr v' \<and> dict_get w k = Some v')"
    by auto
  have "get w ''mac'' = Some (GInt 1)" using w(2) by (simp add: target_of_def)
  moreover have "get w ''type'' = Some (GStr ''executable'')"
    using w(3) [rule_format, of "[]" "KStr ''type''" "GStr ''executable''" "[]"] s by simp
  ultimately show ?thesis using r w(1) by (intro exI [of _ ?ts]) simp
qed

end
