(* ===== verification/Input_Include.thy ===== *)
theory Input_Include
  imports Input_Load
begin

text \<open>
  \<open>LoadOneBuildFile\<close>, \<open>LoadBuildFileIncludesIntoDict\<close> and \<open>LoadBuildFileIncludesIntoList\<close> of
  \<open>tools/gyp/pylib/gyp/input.py\<close>: reading a build file and merging the files it
  includes.  The file system, Python's parser and its \<open>eval\<close> are parameters.

  A dictionary is read into the table of files before its includes are merged, and the
  merging changes it in place, so a file that is included again while it is being read
  is found in the table as it is at that moment: \<open>publish\<close> brings the entry up to date
  before an include is loaded.  A sub-dictionary is the part of its file that a context
  \<open>ctx\<close> surrounds.  A file that includes itself is merged into itself (\<open>merge_own\<close>).

  A result of \<open>None\<close> says that there is no answer: the recursion is deeper than the fuel (it need
  not end: a file can bring in includes of itself under the key \<open>includes+\<close>), or a list is
  appended to itself for ever, or a sub-dictionary of a file includes that file, where
  the code copies a dictionary into a part of itself, which is left out.
\<close>

subsection \<open>The state and the checked evaluation of a file\<close>

record loaded =
  ld_data :: "(string \<times> gdict) list"
  ld_aux :: aux_data

datatype stmt = Discard ast | OtherStmt

text \<open>What the parser gives for a module: its documentation string and its statements.\<close>

type_synonym module = "string option \<times> stmt list"

definition CheckedEval :: "(string \<Rightarrow> module res) \<Rightarrow> string \<Rightarrow> gval res" where
  "CheckedEval parse file_contents =
     bindE (parse file_contents) (\<lambda>(doc, stmts).
       if doc \<noteq> None then Inl AssertionError
       else case stmts of
              [] \<Rightarrow> Inl IndexError
            | Discard c3 # _ \<Rightarrow> CheckNode c3 []
            | OtherStmt # _ \<Rightarrow> Inl AssertionError)"

record load_env =
  gyp_of :: gyp_env
  read_file :: "string \<Rightarrow> string option"
  py_parse :: "string \<Rightarrow> module res"
  py_eval :: "string \<Rightarrow> gval res"
  checked :: bool

definition appendE :: "string \<Rightarrow> 'a res \<Rightarrow> 'a res" where
  "appendE msg r = (case r of Inl e \<Rightarrow> Inl (ExceptionAppend e msg) | Inr x \<Rightarrow> Inr x)"

definition read_build_file :: "load_env \<Rightarrow> string \<Rightarrow> gval res" where
  "read_build_file L build_file_path =
     (case read_file L build_file_path of
        None \<Rightarrow> Inl (GypError (build_file_path @ '' not found (cwd: '' @ cwd (gyp_of L) @ '')''))
      | Some build_file_contents \<Rightarrow>
          (case if checked L then CheckedEval (py_parse L) build_file_contents
                else py_eval L build_file_contents of
             Inl (SyntaxError e) \<Rightarrow> Inl (SyntaxError e)
           | r \<Rightarrow> appendE (''while reading '' @ build_file_path) r))"

definition includes_list :: "gdict \<Rightarrow> string \<Rightarrow> string list option \<Rightarrow> string list res" where
  "includes_list subdict subdict_path includes =
     bindE (case get subdict ''includes'' of
              None \<Rightarrow> Inr []
            | Some v \<Rightarrow> bindE (as_list v) (\<lambda>l. bindE (mapE as_str l) (\<lambda>fs.
                Inr (map (\<lambda>f. normpath (path_join (dirname subdict_path) f)) fs))))
       (\<lambda>own. Inr ((case includes of None \<Rightarrow> [] | Some l \<Rightarrow> l) @ own))"

definition note_included :: "string \<Rightarrow> string \<Rightarrow> loaded \<Rightarrow> loaded" where
  "note_included subdict_path f st =
     st\<lparr>ld_aux := dict_set (ld_aux st) subdict_path
          ((case dict_get (ld_aux st) subdict_path of None \<Rightarrow> [] | Some fs \<Rightarrow> fs) @ [f])\<rparr>"

definition start_file :: "string \<Rightarrow> gdict \<Rightarrow> loaded \<Rightarrow> loaded" where
  "start_file path d st = \<lparr>ld_data = dict_set (ld_data st) path d, ld_aux = dict_set (ld_aux st) path []\<rparr>"

definition finish_file :: "string \<Rightarrow> gdict \<Rightarrow> loaded \<Rightarrow> loaded" where
  "finish_file path d st = st\<lparr>ld_data := dict_set (ld_data st) path d\<rparr>"

definition appendV :: "string \<Rightarrow> 'a eval \<Rightarrow> 'a eval" where
  "appendV msg r = map_option (appendE msg) r"

subsection \<open>A dictionary merged into itself\<close>

text \<open>
  \<open>MergeDicts(d, d)\<close>.  What it changes while it goes through \<open>d\<close> it finds there later.  The
  base list of a key that ends in \<open>=\<close> has just been stored, so that the policies clash;
  a new key changes the size of the dictionary in its own loop; and a list of which an
  item may occur twice is appended to without end.
\<close>

definition merge_own_list :: "gyp_env \<Rightarrow> string \<Rightarrow> gdict \<Rightarrow> gkey \<Rightarrow> gval list \<Rightarrow> gdict eval" where
  "merge_own_list E path d key l =
     bindV (Some (bindE (key_str key) list_policy_of)) (\<lambda>p.
     let fro = (if lp_ext p = CHR ''='' then put d (list_base p) (GList []) else d) in
     bindV (Some (merge_list_prepare d fro key)) (\<lambda>prep.
       case prep of
         None \<Rightarrow> Some (Inr d)
       | Some (to, base, tol, app) \<Rightarrow>
           bindV (Some (MergeLists E tol l path path (IsPathSection E base) app)) (\<lambda>m.
             if key = KStr base
             then (if list_all is_singleton l then Some (Inr d) else None)
             else if has_key d (KStr base) then Some (Inr (put to base (GList m)))
             else Some (Inl (RuntimeError ''dictionary changed size during iteration'')))))"

function merge_own :: "gyp_env \<Rightarrow> string \<Rightarrow> gdict \<Rightarrow> gdict \<Rightarrow> gdict eval" where
  "merge_own E path d [] = Some (Inr d)"
| "merge_own E path d ((k, v) # items) =
     bindV
       (case v of
          GDict e \<Rightarrow> bindV (merge_own E path e e) (\<lambda>e'. Some (Inr (dict_set d k (GDict e'))))
        | GList _ \<Rightarrow> merge_own_list E path d k (case dict_get d k of Some (GList l) \<Rightarrow> l | _ \<Rightarrow> [])
        | GOther c t \<Rightarrow>
            Some (Inl (TypeError (''Attempt to merge dict value of unsupported type '' @ c @ '' for key '' @
              (case k of KStr s \<Rightarrow> s | KInt i \<Rightarrow> []))))
        | _ \<Rightarrow> bindV (Some (merge_scalar E path path k v)) (\<lambda>w. Some (Inr (dict_set d k w))))
       (\<lambda>d. merge_own E path d items)"
  by pat_completeness auto

termination
  by (relation "measure (\<lambda>(E, p, d, items). size_list (size_prod (\<lambda>_. 0) size) items)") auto

subsection \<open>The recursion\<close>

definition whole :: "(gdict \<Rightarrow> gdict) option \<Rightarrow> gdict \<Rightarrow> gdict" where
  "whole ctx d = (case ctx of None \<Rightarrow> d | Some c \<Rightarrow> c d)"

definition publish :: "string \<Rightarrow> gdict \<Rightarrow> loaded \<Rightarrow> loaded" where
  "publish path d st = st\<lparr>ld_data := dict_set (ld_data st) path d\<rparr>"

function (sequential)
  LoadOneBuildFile ::
    "nat \<Rightarrow> load_env \<Rightarrow> string \<Rightarrow> string list option \<Rightarrow> bool \<Rightarrow> loaded \<Rightarrow> (gdict \<times> loaded) eval"
  and LoadBuildFileIncludesIntoDict ::
    "nat \<Rightarrow> load_env \<Rightarrow> (gdict \<Rightarrow> gdict) option \<Rightarrow> gdict \<Rightarrow> string \<Rightarrow> string list option \<Rightarrow> loaded \<Rightarrow>
       (gdict \<times> loaded) eval"
  and merge_includes ::
    "nat \<Rightarrow> load_env \<Rightarrow> (gdict \<Rightarrow> gdict) option \<Rightarrow> gdict \<Rightarrow> string \<Rightarrow> string list \<Rightarrow> loaded \<Rightarrow> (gdict \<times> loaded) eval"
  and includes_in_items ::
    "nat \<Rightarrow> load_env \<Rightarrow> (gdict \<Rightarrow> gdict) \<Rightarrow> gdict \<Rightarrow> string \<Rightarrow> loaded \<Rightarrow> (gdict \<times> loaded) eval"
  and LoadBuildFileIncludesIntoList ::
    "nat \<Rightarrow> load_env \<Rightarrow> (gval list \<Rightarrow> gdict) \<Rightarrow> gval list \<Rightarrow> string \<Rightarrow> loaded \<Rightarrow> (gval list \<times> loaded) eval"
  and includes_in_value ::
    "nat \<Rightarrow> load_env \<Rightarrow> (gval \<Rightarrow> gdict) \<Rightarrow> gval \<Rightarrow> string \<Rightarrow> loaded \<Rightarrow> (gval \<times> loaded) eval" where
  "LoadOneBuildFile 0 L path includes is_target st = None"
| "LoadOneBuildFile (Suc n) L path includes is_target st =
     (case dict_get (ld_data st) path of
        Some d \<Rightarrow> Some (Inr (d, st))
      | None \<Rightarrow>
          bindV (Some (read_build_file L path)) (\<lambda>v.
          appendV (''while reading includes of '' @ path)
            (bindV (Some (as_dict v)) (\<lambda>build_file_data.
             bindV (LoadBuildFileIncludesIntoDict n L None build_file_data path (if is_target then includes else None)
                      (start_file path build_file_data st)) (\<lambda>(build_file_data, st).
               Some (Inr (build_file_data, finish_file path build_file_data st)))))))"
| "LoadBuildFileIncludesIntoDict 0 L ctx subdict path includes st = None"
| "LoadBuildFileIncludesIntoDict (Suc n) L ctx subdict path includes st =
     bindV (Some (includes_list subdict path includes)) (\<lambda>fs.
     bindV (merge_includes n L ctx (unhook subdict ''includes'') path fs st) (\<lambda>(subdict, st).
       includes_in_items n L (whole ctx) subdict path st))"
| "merge_includes 0 L ctx subdict path fs st = None"
| "merge_includes (Suc n) L ctx subdict path fs st =
     (case fs of
        [] \<Rightarrow> Some (Inr (subdict, st))
      | f # fs \<Rightarrow>
          let st = publish path (whole ctx subdict) (note_included path f st) in
          bindV (if f = path
                 then (if ctx = None then bindV (merge_own (gyp_of L) path subdict subdict) (\<lambda>d. Some (Inr (d, st)))
                       else None)
                 else bindV (LoadOneBuildFile n L f None False st) (\<lambda>(fro, st).
                      bindV (Some (MergeDicts (gyp_of L) subdict fro path f)) (\<lambda>d. Some (Inr (d, st)))))
            (\<lambda>(subdict, st). merge_includes n L ctx subdict path fs st))"
| "includes_in_items 0 L ctx items path st = None"
| "includes_in_items (Suc n) L ctx items path st =
     (case items of
        [] \<Rightarrow> Some (Inr ([], st))
      | (k, v) # items \<Rightarrow>
          bindV (includes_in_value n L (\<lambda>v. ctx ((k, v) # items)) v path st) (\<lambda>(v, st).
          bindV (includes_in_items n L (\<lambda>items. ctx ((k, v) # items)) items path st) (\<lambda>(items, st).
            Some (Inr ((k, v) # items, st)))))"
| "LoadBuildFileIncludesIntoList 0 L ctx l path st = None"
| "LoadBuildFileIncludesIntoList (Suc n) L ctx l path st =
     (case l of
        [] \<Rightarrow> Some (Inr ([], st))
      | v # vs \<Rightarrow>
          bindV (includes_in_value n L (\<lambda>v. ctx (v # vs)) v path st) (\<lambda>(v, st).
          bindV (LoadBuildFileIncludesIntoList n L (\<lambda>vs. ctx (v # vs)) vs path st) (\<lambda>(vs, st).
            Some (Inr (v # vs, st)))))"
| "includes_in_value 0 L ctx v path st = None"
| "includes_in_value (Suc n) L ctx v path st =
     (case v of
        GDict d \<Rightarrow>
          bindV (LoadBuildFileIncludesIntoDict n L (Some (\<lambda>d. ctx (GDict d))) d path None st)
            (\<lambda>(d, st). Some (Inr (GDict d, st)))
      | GList l \<Rightarrow>
          bindV (LoadBuildFileIncludesIntoList n L (\<lambda>l. ctx (GList l)) l path st)
            (\<lambda>(l, st). Some (Inr (GList l, st)))
      | _ \<Rightarrow> Some (Inr (v, st)))"
  by pat_completeness auto

termination
  by (relation "measure (case_sum (case_sum fst (case_sum fst fst)) (case_sum fst (case_sum fst fst)))")
    simp_all

lemmas load_simps = LoadOneBuildFile.simps LoadBuildFileIncludesIntoDict.simps merge_includes.simps
  includes_in_items.simps LoadBuildFileIncludesIntoList.simps includes_in_value.simps

declare load_simps [simp del]

subsection \<open>More fuel gives the same answer\<close>

lemma bindV_mono:
  assumes "bindV m f = Some r" and "\<And>x. m = Some x \<Longrightarrow> m' = Some x"
    and "\<And>y. m = Some (Inr y) \<Longrightarrow> f y = Some r \<Longrightarrow> g y = Some r"
  shows "bindV m' g = Some r"
proof (cases m)
  case (Some x)
  with assms(1,3) assms(2) [OF Some] show ?thesis by (cases x) auto
qed (use assms(1) in simp)

lemma appendV_mono:
  assumes "appendV msg m = Some r" and "\<And>x. m = Some x \<Longrightarrow> m' = Some x"
  shows "appendV msg m' = Some r"
  using assms by (cases m) (auto simp: appendV_def)

lemma appendV_Inr_iff: "appendV msg m = Some (Inr x) \<longleftrightarrow> m = Some (Inr x)"
  by (cases m) (auto simp: appendV_def appendE_def split: sum.splits)

lemma load_Suc:
  "(\<forall>L path inc tgt st r. LoadOneBuildFile n L path inc tgt st = Some r \<longrightarrow>
      LoadOneBuildFile (Suc n) L path inc tgt st = Some r) \<and>
   (\<forall>L ctx d path inc st r. LoadBuildFileIncludesIntoDict n L ctx d path inc st = Some r \<longrightarrow>
      LoadBuildFileIncludesIntoDict (Suc n) L ctx d path inc st = Some r) \<and>
   (\<forall>L ctx d path fs st r. merge_includes n L ctx d path fs st = Some r \<longrightarrow>
      merge_includes (Suc n) L ctx d path fs st = Some r) \<and>
   (\<forall>L ctx d path st r. includes_in_items n L ctx d path st = Some r \<longrightarrow>
      includes_in_items (Suc n) L ctx d path st = Some r) \<and>
   (\<forall>L ctx l path st r. LoadBuildFileIncludesIntoList n L ctx l path st = Some r \<longrightarrow>
      LoadBuildFileIncludesIntoList (Suc n) L ctx l path st = Some r) \<and>
   (\<forall>L ctx v path st r. includes_in_value n L ctx v path st = Some r \<longrightarrow>
      includes_in_value (Suc n) L ctx v path st = Some r)"
proof (induction n)
  case (Suc n)
  note IH = Suc.IH [THEN conjunct1, rule_format]
    Suc.IH [THEN conjunct2, THEN conjunct1, rule_format]
    Suc.IH [THEN conjunct2, THEN conjunct2, THEN conjunct1, rule_format]
    Suc.IH [THEN conjunct2, THEN conjunct2, THEN conjunct2, THEN conjunct1, rule_format]
    Suc.IH [THEN conjunct2, THEN conjunct2, THEN conjunct2, THEN conjunct2, THEN conjunct1, rule_format]
    Suc.IH [THEN conjunct2, THEN conjunct2, THEN conjunct2, THEN conjunct2, THEN conjunct2, rule_format]
  show ?case
  proof (intro conjI allI impI)
    fix L path inc tgt st r
    assume a: "LoadOneBuildFile (Suc n) L path inc tgt st = Some r"
    show "LoadOneBuildFile (Suc (Suc n)) L path inc tgt st = Some r"
    proof (cases "dict_get (ld_data st) path \<noteq> None")
      case True
      with a show ?thesis by (auto simp: LoadOneBuildFile.simps)
    next
      case False
      with a show ?thesis
        unfolding LoadOneBuildFile.simps(2)
        by (auto elim!: bindV_mono appendV_mono intro: IH)
    qed
  next
    fix L ctx d path inc st r
    assume "LoadBuildFileIncludesIntoDict (Suc n) L ctx d path inc st = Some r"
    note this [unfolded LoadBuildFileIncludesIntoDict.simps(2) [of n]]
    then show "LoadBuildFileIncludesIntoDict (Suc (Suc n)) L ctx d path inc st = Some r"
      unfolding LoadBuildFileIncludesIntoDict.simps(2) [of "Suc n"]
      by (auto elim!: bindV_mono intro: IH)
  next
    fix L ctx d path fs st r
    assume "merge_includes (Suc n) L ctx d path fs st = Some r"
    note this [unfolded merge_includes.simps(2) [of n]]
    then show "merge_includes (Suc (Suc n)) L ctx d path fs st = Some r"
      unfolding merge_includes.simps(2) [of "Suc n"] Let_def
      by (cases fs) (auto elim!: bindV_mono intro: IH split: if_splits)
  next
    fix L ctx d path st r
    assume "includes_in_items (Suc n) L ctx d path st = Some r"
    note this [unfolded includes_in_items.simps(2) [of n]]
    then show "includes_in_items (Suc (Suc n)) L ctx d path st = Some r"
      unfolding includes_in_items.simps(2) [of "Suc n"]
      by (cases d) (auto elim!: bindV_mono intro: IH)
  next
    fix L ctx l path st r
    assume "LoadBuildFileIncludesIntoList (Suc n) L ctx l path st = Some r"
    note this [unfolded LoadBuildFileIncludesIntoList.simps(2) [of n]]
    then show "LoadBuildFileIncludesIntoList (Suc (Suc n)) L ctx l path st = Some r"
      unfolding LoadBuildFileIncludesIntoList.simps(2) [of "Suc n"]
      by (cases l) (auto elim!: bindV_mono intro: IH)
  next
    fix L ctx v path st r
    assume "includes_in_value (Suc n) L ctx v path st = Some r"
    note this [unfolded includes_in_value.simps(2) [of n]]
    then show "includes_in_value (Suc (Suc n)) L ctx v path st = Some r"
      unfolding includes_in_value.simps(2) [of "Suc n"]
      by (cases v) (auto elim!: bindV_mono intro: IH)
  qed
qed (simp add: load_simps)

lemma load_more:
  assumes "LoadOneBuildFile n L path inc tgt st = Some r" and "n \<le> m"
  shows "LoadOneBuildFile m L path inc tgt st = Some r"
  using assms(2,1)
proof (induction rule: dec_induct)
  case (step k)
  then show ?case using load_Suc [of k, THEN conjunct1] by blast
qed simp

subsection \<open>What loading keeps\<close>

text \<open>
  The two tables know the same files.  While a file's includes are merged, the one just
  noted is not read yet: \<open>closed P\<close> allows it in \<open>P\<close>.
\<close>

definition in_step :: "loaded \<Rightarrow> bool" where
  "in_step st \<longleftrightarrow> (\<forall>f. has_key (ld_data st) f \<longleftrightarrow> has_key (ld_aux st) f)"

definition closed :: "string set \<Rightarrow> loaded \<Rightarrow> bool" where
  "closed P st \<longleftrightarrow> (\<forall>f fs g. dict_get (ld_aux st) f = Some fs \<and> g \<in> set fs \<longrightarrow> has_key (ld_aux st) g \<or> g \<in> P)"

text \<open>Of the files in \<open>F\<close>, which are being read, the entries may change.\<close>

definition data_kept :: "string set \<Rightarrow> loaded \<Rightarrow> loaded \<Rightarrow> bool" where
  "data_kept F st st' \<longleftrightarrow> (\<forall>g d. dict_get (ld_data st) g = Some d \<longrightarrow>
     (\<exists>d'. dict_get (ld_data st') g = Some d' \<and> (g \<notin> F \<longrightarrow> d' = d)))"

definition aux_kept :: "string set \<Rightarrow> loaded \<Rightarrow> loaded \<Rightarrow> bool" where
  "aux_kept F st st' \<longleftrightarrow> (\<forall>g fs. dict_get (ld_aux st) g = Some fs \<longrightarrow>
     (\<exists>fs'. dict_get (ld_aux st') g = Some fs' \<and> (g \<notin> F \<longrightarrow> fs' = fs)))"

definition extends :: "string \<Rightarrow> loaded \<Rightarrow> loaded \<Rightarrow> bool" where
  "extends path st st' \<longleftrightarrow> in_step st' \<and> data_kept {path} st st' \<and> aux_kept {path} st st' \<and> (\<forall>P. closed P st \<longrightarrow> closed P st')"

definition file_loaded :: "string \<Rightarrow> loaded \<Rightarrow> gdict \<Rightarrow> loaded \<Rightarrow> bool" where
  "file_loaded path st d st' \<longleftrightarrow> in_step st' \<and> data_kept {} st st' \<and> aux_kept {} st st' \<and>
     dict_get (ld_data st') path = Some d \<and> (\<forall>P. closed P st \<longrightarrow> closed (P - {path}) st')"

lemma data_kept_trans: "data_kept F a b \<Longrightarrow> data_kept F b c \<Longrightarrow> data_kept F a c"
  by (simp add: data_kept_def) blast

lemma data_kept_mono: "data_kept F a b \<Longrightarrow> F \<subseteq> G \<Longrightarrow> data_kept G a b"
  unfolding data_kept_def by blast

lemma aux_kept_trans: "aux_kept F a b \<Longrightarrow> aux_kept F b c \<Longrightarrow> aux_kept F a c"
  by (simp add: aux_kept_def) blast

lemma aux_kept_mono: "aux_kept F a b \<Longrightarrow> F \<subseteq> G \<Longrightarrow> aux_kept G a b"
  unfolding aux_kept_def by blast

lemma closed_mono: "closed P st \<Longrightarrow> P \<subseteq> Q \<Longrightarrow> closed Q st"
  unfolding closed_def by blast

lemma extends_refl: "in_step st \<Longrightarrow> extends path st st"
  by (simp add: extends_def data_kept_def aux_kept_def)

lemma extends_trans: "extends path a b \<Longrightarrow> extends path b c \<Longrightarrow> extends path a c"
  unfolding extends_def using data_kept_trans aux_kept_trans by blast

lemma extends_has_aux: "extends path st st' \<Longrightarrow> has_key (ld_aux st) f \<Longrightarrow> has_key (ld_aux st') f"
  unfolding extends_def aux_kept_def by fastforce

lemma extends_in_step: "extends path st st' \<Longrightarrow> in_step st'"
  by (simp add: extends_def)

text \<open>Noting an include, and then reading it, or finding that it is the file itself.\<close>

lemma noted:
  assumes st: "in_step st" "has_key (ld_aux st) path"
    and n: "noted = publish path d (note_included path f st)"
  shows "in_step noted" and "data_kept {path} st noted" and "aux_kept {path} st noted"
    and "closed P st \<Longrightarrow> closed (insert f P) noted" and "has_key (ld_aux noted) path"
proof -
  obtain old where old: "dict_get (ld_aux st) path = Some old" using st(2) by auto
  have aux: "dict_get (ld_aux noted) g = (if g = path then Some (old @ [f]) else dict_get (ld_aux st) g)" for g
    using old by (simp add: n note_included_def publish_def al.lookup_store)
  have data: "dict_get (ld_data noted) g = (if g = path then Some d else dict_get (ld_data st) g)" for g
    by (simp add: n note_included_def publish_def al.lookup_store)
  show "in_step noted" using st by (auto simp: in_step_def aux data)
  show "data_kept {path} st noted" by (auto simp: data_kept_def data)
  show "aux_kept {path} st noted" by (auto simp: aux_kept_def aux)
  show "has_key (ld_aux noted) path" by (simp add: aux)
  assume P: "closed P st"
  show "closed (insert f P) noted"
    unfolding closed_def
  proof (intro allI impI)
    fix x fs g assume a: "dict_get (ld_aux noted) x = Some fs \<and> g \<in> set fs"
    show "has_key (ld_aux noted) g \<or> g \<in> insert f P"
    proof (cases "g = f")
      case False
      with a aux old have "\<exists>fs. dict_get (ld_aux st) x = Some fs \<and> g \<in> set fs" by (auto split: if_splits)
      with P have "has_key (ld_aux st) g \<or> g \<in> P" unfolding closed_def by blast
      with aux show ?thesis by auto
    qed simp
  qed
qed

lemma note_then_load:
  assumes st: "in_step st" "has_key (ld_aux st) path"
    and l: "file_loaded f (publish path d (note_included path f st)) e st'"
  shows "extends path st st'"
proof -
  note n = noted [OF st refl, where d = d and f = f]
  have "data_kept {path} st st'" "aux_kept {path} st st'"
    using n(2,3) l unfolding file_loaded_def
    by (meson data_kept_mono data_kept_trans aux_kept_mono aux_kept_trans empty_subsetI)+
  moreover have "closed P st'" if P: "closed P st" for P
  proof -
    have "closed (insert f P - {f}) st'" using n(4) [OF P] l unfolding file_loaded_def by blast
    then show ?thesis by (rule closed_mono) blast
  qed
  ultimately show ?thesis using l by (simp add: extends_def file_loaded_def)
qed

lemma note_itself:
  assumes "in_step st" and "has_key (ld_aux st) path"
  shows "extends path st (publish path d (note_included path path st))"
proof -
  note n = noted [OF assms refl, where d = d and f = path]
  have "closed P (publish path d (note_included path path st))" if "closed P st" for P
    using n(4) [OF that] n(5) unfolding closed_def by blast
  with n show ?thesis by (simp add: extends_def)
qed

text \<open>A file from the start of its reading to the end.\<close>

lemma start_then_finish:
  assumes st: "in_step st" "dict_get (ld_data st) path = None"
    and e: "extends path (start_file path raw st) st'"
  shows "file_loaded path st d (finish_file path d st')"
proof -
  let ?st = "start_file path raw st"
  have none: "dict_get (ld_aux st) path = None" using st(1) [unfolded in_step_def, THEN spec, of path] st(2) by simp
  have data: "dict_get (ld_data ?st) g = (if g = path then Some raw else dict_get (ld_data st) g)"
    and aux: "dict_get (ld_aux ?st) g = (if g = path then Some [] else dict_get (ld_aux st) g)" for g
    by (simp_all add: start_file_def al.lookup_store)
  have data': "dict_get (ld_data (finish_file path d st')) g = (if g = path then Some d else dict_get (ld_data st') g)"
    and aux': "ld_aux (finish_file path d st') = ld_aux st'" for g
    by (simp_all add: finish_file_def al.lookup_store)
  have has: "has_key (ld_aux st') path" using extends_has_aux [OF e, of path] aux by simp
  have i: "in_step (finish_file path d st')"
    using extends_in_step [OF e] has by (auto simp: in_step_def data' aux')
  have k: "data_kept {} st (finish_file path d st')"
    unfolding data_kept_def
  proof (intro allI impI)
    fix g x assume g: "dict_get (ld_data st) g = Some x"
    with st(2) have "g \<noteq> path" by auto
    with g data have "dict_get (ld_data ?st) g = Some x" by simp
    with e have "\<exists>x'. dict_get (ld_data st') g = Some x' \<and> (g \<notin> {path} \<longrightarrow> x' = x)"
      unfolding extends_def data_kept_def by blast
    with \<open>g \<noteq> path\<close> data' show "\<exists>x'. dict_get (ld_data (finish_file path d st')) g = Some x' \<and> (g \<notin> {} \<longrightarrow> x' = x)"
      by simp
  qed
  have a: "aux_kept {} st (finish_file path d st')"
    unfolding aux_kept_def
  proof (intro allI impI)
    fix g x assume g: "dict_get (ld_aux st) g = Some x"
    with none have "g \<noteq> path" by auto
    with g aux have "dict_get (ld_aux ?st) g = Some x" by simp
    with e have "\<exists>fs'. dict_get (ld_aux st') g = Some fs' \<and> (g \<notin> {path} \<longrightarrow> fs' = x)"
      unfolding extends_def aux_kept_def by blast
    with \<open>g \<noteq> path\<close> aux' show "\<exists>fs'. dict_get (ld_aux (finish_file path d st')) g = Some fs' \<and> (g \<notin> {} \<longrightarrow> fs' = x)"
      by simp
  qed
  have c: "closed (P - {path}) (finish_file path d st')" if P: "closed P st" for P
  proof -
    have "closed P ?st"
      unfolding closed_def
    proof (intro allI impI)
      fix x fs g assume x: "dict_get (ld_aux ?st) x = Some fs \<and> g \<in> set fs"
      then have "dict_get (ld_aux st) x = Some fs \<and> g \<in> set fs" using aux by (auto split: if_splits)
      with P have "has_key (ld_aux st) g \<or> g \<in> P" unfolding closed_def by blast
      with aux show "has_key (ld_aux ?st) g \<or> g \<in> P" by auto
    qed
    with e have "closed P st'" by (simp add: extends_def)
    with has show ?thesis unfolding closed_def aux' by blast
  qed
  show ?thesis using i k a c by (simp add: file_loaded_def data')
qed

lemma load_keeps:
  "(\<forall>L path inc tgt st d st'. LoadOneBuildFile n L path inc tgt st = Some (Inr (d, st')) \<longrightarrow> in_step st \<longrightarrow>
      file_loaded path st d st') \<and>
   (\<forall>L ctx d path inc st d' st'. LoadBuildFileIncludesIntoDict n L ctx d path inc st = Some (Inr (d', st')) \<longrightarrow>
      in_step st \<longrightarrow> has_key (ld_aux st) path \<longrightarrow> extends path st st') \<and>
   (\<forall>L ctx d path fs st d' st'. merge_includes n L ctx d path fs st = Some (Inr (d', st')) \<longrightarrow>
      in_step st \<longrightarrow> has_key (ld_aux st) path \<longrightarrow> extends path st st') \<and>
   (\<forall>L ctx d path st d' st'. includes_in_items n L ctx d path st = Some (Inr (d', st')) \<longrightarrow>
      in_step st \<longrightarrow> has_key (ld_aux st) path \<longrightarrow> extends path st st') \<and>
   (\<forall>L ctx l path st l' st'. LoadBuildFileIncludesIntoList n L ctx l path st = Some (Inr (l', st')) \<longrightarrow>
      in_step st \<longrightarrow> has_key (ld_aux st) path \<longrightarrow> extends path st st') \<and>
   (\<forall>L ctx v path st v' st'. includes_in_value n L ctx v path st = Some (Inr (v', st')) \<longrightarrow>
      in_step st \<longrightarrow> has_key (ld_aux st) path \<longrightarrow> extends path st st')"
proof (induction n)
  case (Suc n)
  note IH1 = Suc.IH [THEN conjunct1, rule_format]
  note IH2 = Suc.IH [THEN conjunct2, THEN conjunct1, rule_format]
  note IH3 = Suc.IH [THEN conjunct2, THEN conjunct2, THEN conjunct1, rule_format]
  note IH4 = Suc.IH [THEN conjunct2, THEN conjunct2, THEN conjunct2, THEN conjunct1, rule_format]
  note IH5 = Suc.IH [THEN conjunct2, THEN conjunct2, THEN conjunct2, THEN conjunct2, THEN conjunct1, rule_format]
  note IH6 = Suc.IH [THEN conjunct2, THEN conjunct2, THEN conjunct2, THEN conjunct2, THEN conjunct2, rule_format]
  show ?case
  proof (intro conjI allI impI)
    fix L path inc tgt st d st'
    assume a: "LoadOneBuildFile (Suc n) L path inc tgt st = Some (Inr (d, st'))" and i: "in_step st"
    show "file_loaded path st d st'"
    proof (cases "dict_get (ld_data st) path")
      case (Some d0)
      with a have "d0 = d" "st' = st" unfolding load_simps by (auto split: if_splits)
      moreover have "closed (P - {path}) st" if "closed P st" for P
        using that i Some unfolding closed_def in_step_def by blast
      ultimately show ?thesis using i Some by (simp add: file_loaded_def data_kept_def aux_kept_def)
    next
      case None
      with a obtain raw st1 where
        "LoadBuildFileIncludesIntoDict n L None raw path (if tgt then inc else None) (start_file path raw st) =
           Some (Inr (d, st1))" and st': "st' = finish_file path d st1"
        unfolding load_simps by (auto simp: bindV_Inr_iff appendV_Inr_iff split: if_splits)
      note IH2 [OF this(1)]
      moreover have "in_step (start_file path raw st)" "has_key (ld_aux (start_file path raw st)) path"
        using i by (simp_all add: in_step_def start_file_def al.lookup_store)
      ultimately have "extends path (start_file path raw st) st1" by blast
      with start_then_finish [OF i None] st' show ?thesis by simp
    qed
  next
    fix L ctx d path inc st d' st'
    assume a: "LoadBuildFileIncludesIntoDict (Suc n) L ctx d path inc st = Some (Inr (d', st'))"
      and i: "in_step st" "has_key (ld_aux st) path"
    from a obtain fs d1 st1 where m: "merge_includes n L ctx (unhook d ''includes'') path fs st = Some (Inr (d1, st1))"
      and t: "includes_in_items n L (whole ctx) d1 path st1 = Some (Inr (d', st'))"
      unfolding load_simps by (auto simp: bindV_Inr_iff)
    note e = IH3 [OF m i]
    from IH4 [OF t extends_in_step [OF e] extends_has_aux [OF e i(2)]] e show "extends path st st'"
      using extends_trans by blast
  next
    fix L ctx d path fs st d' st'
    assume a: "merge_includes (Suc n) L ctx d path fs st = Some (Inr (d', st'))"
      and i: "in_step st" "has_key (ld_aux st) path"
    show "extends path st st'"
    proof (cases fs)
      case Nil
      with a i(1) show ?thesis unfolding load_simps by (simp add: extends_refl)
    next
      case (Cons f gs)
      let ?st = "publish path (whole ctx d) (note_included path f st)"
      from Cons a obtain st1 d1 where m: "merge_includes n L ctx d1 path gs st1 = Some (Inr (d', st'))"
        and l: "if f = path then st1 = ?st else \<exists>fro. LoadOneBuildFile n L f None False ?st = Some (Inr (fro, st1))"
        unfolding load_simps by (auto simp: bindV_Inr_iff Let_def split: if_splits)
      have e: "extends path st st1"
      proof (cases "f = path")
        case True
        with l note_itself [OF i] show ?thesis by simp
      next
        case False
        with l obtain fro where "LoadOneBuildFile n L f None False ?st = Some (Inr (fro, st1))" by auto
        from note_then_load [OF i IH1 [OF this noted(1) [OF i refl]]] show ?thesis .
      qed
      from IH3 [OF m extends_in_step [OF e] extends_has_aux [OF e i(2)]] e show ?thesis using extends_trans by blast
    qed
  next
    fix L ctx d path st d' st'
    assume a: "includes_in_items (Suc n) L ctx d path st = Some (Inr (d', st'))"
      and i: "in_step st" "has_key (ld_aux st) path"
    show "extends path st st'"
    proof (cases d)
      case Nil
      with a i(1) show ?thesis unfolding load_simps by (simp add: extends_refl)
    next
      case (Cons kv items)
      with a obtain v' st1 items' c c' where l: "includes_in_value n L c (snd kv) path st = Some (Inr (v', st1))"
        and m: "includes_in_items n L c' items path st1 = Some (Inr (items', st'))"
        unfolding load_simps by (cases kv) (auto simp: bindV_Inr_iff)
      note e = IH6 [OF l i]
      from IH4 [OF m extends_in_step [OF e] extends_has_aux [OF e i(2)]] e show ?thesis using extends_trans by blast
    qed
  next
    fix L ctx l path st l' st'
    assume a: "LoadBuildFileIncludesIntoList (Suc n) L ctx l path st = Some (Inr (l', st'))"
      and i: "in_step st" "has_key (ld_aux st) path"
    show "extends path st st'"
    proof (cases l)
      case Nil
      with a i(1) show ?thesis unfolding load_simps by (simp add: extends_refl)
    next
      case (Cons v vs)
      with a obtain v' st1 vs' c c' where l: "includes_in_value n L c v path st = Some (Inr (v', st1))"
        and m: "LoadBuildFileIncludesIntoList n L c' vs path st1 = Some (Inr (vs', st'))"
        unfolding load_simps by (auto simp: bindV_Inr_iff)
      note e = IH6 [OF l i]
      from IH5 [OF m extends_in_step [OF e] extends_has_aux [OF e i(2)]] e show ?thesis using extends_trans by blast
    qed
  next
    fix L ctx v path st v' st'
    assume a: "includes_in_value (Suc n) L ctx v path st = Some (Inr (v', st'))"
      and i: "in_step st" "has_key (ld_aux st) path"
    from a i show "extends path st st'"
      unfolding load_simps by (cases v) (auto simp: bindV_Inr_iff extends_refl intro: IH2 IH5)
  qed
qed (simp add: load_simps)

subsection \<open>Files without nested includes\<close>

fun plain :: "gval \<Rightarrow> bool" where
  "plain (GDict d) \<longleftrightarrow> \<not> has_key d (KStr ''includes'') \<and> (\<forall>kv \<in> set d. plain (snd kv))"
| "plain (GList l) \<longleftrightarrow> (\<forall>v \<in> set l. plain v)"
| "plain v \<longleftrightarrow> True"

definition ample :: "(nat \<Rightarrow> bool) \<Rightarrow> bool" where
  "ample P \<longleftrightarrow> (\<exists>N. \<forall>n \<ge> N. P n)"

lemma ample_both: "ample P \<Longrightarrow> ample Q \<Longrightarrow> ample (\<lambda>n. P n \<and> Q n)"
  unfolding ample_def by (metis max.boundedE)

lemma ample_mono: "ample P \<Longrightarrow> (\<And>n. P n \<Longrightarrow> Q n) \<Longrightarrow> ample Q"
  unfolding ample_def by blast

lemma ample_Suc: "ample P \<Longrightarrow> (\<And>n. P n \<Longrightarrow> Q (Suc n)) \<Longrightarrow> ample Q"
  unfolding ample_def by (metis Suc_le_D Suc_le_mono)

lemma ample_always: "(\<And>n. Q (Suc n)) \<Longrightarrow> ample Q"
  unfolding ample_def by (metis Suc_le_D)

lemma ample_ex: "ample P \<Longrightarrow> \<exists>n. P n"
  unfolding ample_def by blast

lemma plain_items:
  assumes "\<And>kv c. kv \<in> set d \<Longrightarrow> ample (\<lambda>n. includes_in_value n L c (snd kv) path st = Some (Inr (snd kv, st)))"
  shows "ample (\<lambda>n. includes_in_items n L ctx d path st = Some (Inr (d, st)))"
  using assms
proof (induction d arbitrary: ctx)
  case Nil
  show ?case by (rule ample_always) (simp add: load_simps)
next
  case (Cons kv d)
  obtain k v where kv: "kv = (k, v)" by (cases kv)
  have v: "ample (\<lambda>n. includes_in_value n L c v path st = Some (Inr (v, st)))" for c
    using Cons.prems [of kv c] kv by simp
  have d: "ample (\<lambda>n. includes_in_items n L c d path st = Some (Inr (d, st)))" for c
    using Cons.IH Cons.prems by simp
  from ample_both [OF v [of "\<lambda>v. ctx ((k, v) # d)"] d [of "\<lambda>items. ctx ((k, v) # items)"]] show ?case
    by (rule ample_Suc) (simp add: load_simps kv)
qed

lemma plain_list:
  assumes "\<And>v c. v \<in> set l \<Longrightarrow> ample (\<lambda>n. includes_in_value n L c v path st = Some (Inr (v, st)))"
  shows "ample (\<lambda>n. LoadBuildFileIncludesIntoList n L ctx l path st = Some (Inr (l, st)))"
  using assms
proof (induction l arbitrary: ctx)
  case Nil
  show ?case by (rule ample_always) (simp add: load_simps)
next
  case (Cons v l)
  have "ample (\<lambda>n. includes_in_value n L (\<lambda>v. ctx (v # l)) v path st = Some (Inr (v, st)) \<and>
      LoadBuildFileIncludesIntoList n L (\<lambda>vs. ctx (v # vs)) l path st = Some (Inr (l, st)))"
    using Cons by (intro ample_both) auto
  then show ?case by (rule ample_Suc) (simp add: load_simps)
qed

lemma dict_del_absent: "\<not> has_key d k \<Longrightarrow> dict_del d k = d"
  by (induction d) (auto split: if_splits)

lemma plain_dict:
  assumes "\<not> has_key d (KStr ''includes'')"
    and "ample (\<lambda>n. includes_in_items n L (whole ctx) d path st = Some (Inr (d, st)))"
  shows "ample (\<lambda>n. LoadBuildFileIncludesIntoDict n L ctx d path None st = Some (Inr (d, st)))"
proof -
  have "ample (\<lambda>n. merge_includes n L ctx d path [] st = Some (Inr (d, st)))"
    by (rule ample_always) (simp add: load_simps)
  from ample_both [OF this assms(2)] show ?thesis
    by (rule ample_Suc) (use assms(1) in \<open>simp add: load_simps includes_list_def dict_del_absent\<close>)
qed

lemma plain_value: "plain v \<Longrightarrow> ample (\<lambda>n. includes_in_value n L ctx v path st = Some (Inr (v, st)))"
proof (induction v arbitrary: ctx rule: plain.induct)
  case (1 d)
  have "ample (\<lambda>n. includes_in_items n L c d path st = Some (Inr (d, st)))" for c
    using 1 by (intro plain_items) auto
  with 1 have "ample (\<lambda>n. LoadBuildFileIncludesIntoDict n L (Some (\<lambda>d. ctx (GDict d))) d path None st = Some (Inr (d, st)))"
    by (intro plain_dict) auto
  then show ?case by (rule ample_Suc) (simp add: load_simps)
next
  case (2 l)
  have "ample (\<lambda>n. LoadBuildFileIncludesIntoList n L (\<lambda>l. ctx (GList l)) l path st = Some (Inr (l, st)))"
    using 2 by (intro plain_list) auto
  then show ?case by (rule ample_Suc) (simp add: load_simps)
qed (rule ample_always, simp add: load_simps)+

lemma plain_items_of: "plain (GDict d) \<Longrightarrow> ample (\<lambda>n. includes_in_items n L ctx d path st = Some (Inr (d, st)))"
  by (rule plain_items) (auto intro: plain_value)

lemma plain_file:
  assumes "read_build_file L f = Inr (GDict d)" and "plain (GDict d)" and "dict_get (ld_data st) f = None"
  shows "ample (\<lambda>n. LoadOneBuildFile n L f None False st =
    Some (Inr (d, finish_file f d (start_file f d st))))"
proof -
  have "ample (\<lambda>n. LoadBuildFileIncludesIntoDict n L None d f None (start_file f d st) =
      Some (Inr (d, start_file f d st)))"
    using assms(2) by (intro plain_dict plain_items_of) auto
  then show ?thesis
    by (rule ample_Suc) (use assms in \<open>simp add: load_simps appendV_def appendE_def\<close>)
qed

subsection \<open>A file and the files it includes\<close>

text \<open>
  The tables after \<open>path\<close> has merged the files \<open>fs\<close>, whose contents \<open>contents\<close> gives, into
  \<open>d\<close>: a file is read when it is first included and found in the table after that.
\<close>

fun after_includes :: "load_env \<Rightarrow> (string \<Rightarrow> gdict) \<Rightarrow> string \<Rightarrow> gdict \<Rightarrow> string list \<Rightarrow> loaded \<Rightarrow> loaded" where
  "after_includes L contents path d [] st = st"
| "after_includes L contents path d (f # fs) st =
     (let st = publish path d (note_included path f st) in
      after_includes L contents path (projr (MergeDicts (gyp_of L) d (contents f) path f)) fs
        (if has_key (ld_data st) f then st else finish_file f (contents f) (start_file f (contents f) st)))"

lemma after_includes_tables:
  assumes "path \<notin> set fs" and "dict_get (ld_aux st) path = Some old"
    and "\<forall>f \<in> set fs. has_key (ld_data st) f \<longrightarrow>
      dict_get (ld_data st) f = Some (contents f) \<and> dict_get (ld_aux st) f = Some []"
    and "g \<noteq> path"
  shows "dict_get (ld_data (after_includes L contents path d fs st)) g =
      (if g \<in> set fs then Some (contents g) else dict_get (ld_data st) g) \<and>
    dict_get (ld_aux (after_includes L contents path d fs st)) g =
      (if g \<in> set fs then Some [] else dict_get (ld_aux st) g) \<and>
    dict_get (ld_aux (after_includes L contents path d fs st)) path = Some (old @ fs)"
  using assms(1,2,3)
proof (induction fs arbitrary: st old d)
  case (Cons f fs)
  let ?st = "publish path d (note_included path f st)"
  define new where "new = (if has_key (ld_data ?st) f then ?st
    else finish_file f (contents f) (start_file f (contents f) ?st))"
  have ne: "f \<noteq> path" using Cons.prems(1) by auto
  have data: "dict_get (ld_data new) h = (if h = f then Some (contents f) else dict_get (ld_data st) h)" if "h \<noteq> path" for h
    using Cons.prems(3) ne that
    by (auto simp: new_def note_included_def publish_def finish_file_def start_file_def al.lookup_store)
  have aux: "dict_get (ld_aux new) h = (if h = f then Some [] else dict_get (ld_aux st) h)" if "h \<noteq> path" for h
    using Cons.prems(3) ne that
    by (auto simp: new_def note_included_def publish_def finish_file_def start_file_def al.lookup_store)
  have own: "dict_get (ld_aux new) path = Some (old @ [f])"
    using Cons.prems(2) ne
    by (auto simp: new_def note_included_def publish_def finish_file_def start_file_def al.lookup_store)
  have p: "path \<notin> set fs" using Cons.prems(1) by simp
  have "\<forall>h \<in> set fs. has_key (ld_data new) h \<longrightarrow>
      dict_get (ld_data new) h = Some (contents h) \<and> dict_get (ld_aux new) h = Some []"
  proof (intro ballI impI)
    fix h assume h: "h \<in> set fs" "has_key (ld_data new) h"
    with p have "h \<noteq> path" by auto
    with h Cons.prems(3) data aux
    show "dict_get (ld_data new) h = Some (contents h) \<and> dict_get (ld_aux new) h = Some []" by (cases "h = f") auto
  qed
  from Cons.IH [OF p own this] have
    "dict_get (ld_data (after_includes L contents path d' fs new)) g =
      (if g \<in> set fs then Some (contents g) else dict_get (ld_data new) g) \<and>
    dict_get (ld_aux (after_includes L contents path d' fs new)) g =
      (if g \<in> set fs then Some [] else dict_get (ld_aux new) g) \<and>
    dict_get (ld_aux (after_includes L contents path d' fs new)) path = Some ((old @ [f]) @ fs)" for d' .
  moreover have "after_includes L contents path d (f # fs) st =
      after_includes L contents path (projr (MergeDicts (gyp_of L) d (contents f) path f)) fs new"
    by (simp add: Let_def new_def)
  ultimately show ?case using data [OF assms(4)] aux [OF assms(4)]
    by (cases "g = f") (simp_all del: after_includes.simps)
qed simp

lemma merge_plain_includes:
  assumes "\<forall>f \<in> set fs. f \<noteq> path \<and> plain (GDict (contents f)) \<and> read_build_file L f = Inr (GDict (contents f))"
    and "\<forall>f \<in> set fs. has_key (ld_data st) f \<longrightarrow> dict_get (ld_data st) f = Some (contents f)"
    and "foldE (\<lambda>to f. MergeDicts (gyp_of L) to (contents f) path f) d fs = Inr r"
  shows "ample (\<lambda>n. merge_includes n L None d path fs st = Some (Inr (r, after_includes L contents path d fs st)))"
  using assms
proof (induction fs arbitrary: d st)
  case Nil
  show ?case by (rule ample_always) (use Nil in \<open>simp add: load_simps\<close>)
next
  case (Cons f fs)
  let ?st = "publish path d (note_included path f st)"
  define new where "new = (if has_key (ld_data ?st) f then ?st
    else finish_file f (contents f) (start_file f (contents f) ?st))"
  from Cons.prems(3) obtain d1 where d1: "MergeDicts (gyp_of L) d (contents f) path f = Inr d1"
    and r: "foldE (\<lambda>to f. MergeDicts (gyp_of L) to (contents f) path f) d1 fs = Inr r"
    by (auto simp: bindE_Inr_iff)
  have ne: "f \<noteq> path" using Cons.prems(1) by simp
  have load: "ample (\<lambda>n. LoadOneBuildFile n L f None False ?st = Some (Inr (contents f, new)))"
  proof (cases "dict_get (ld_data ?st) f")
    case None
    then show ?thesis using plain_file [of L f "contents f" ?st] Cons.prems(1) by (simp add: new_def)
  next
    case (Some x)
    with Cons.prems(2) ne have "x = contents f" by (simp add: note_included_def publish_def al.lookup_store)
    show ?thesis
      by (rule ample_always) (use Some \<open>x = contents f\<close> in \<open>simp add: load_simps new_def\<close>)
  qed
  have data: "dict_get (ld_data new) h = (if h = f then Some (contents f) else dict_get (ld_data st) h)" if "h \<noteq> path" for h
    using Cons.prems(2) ne that
    by (auto simp: new_def note_included_def publish_def finish_file_def start_file_def al.lookup_store)
  have "ample (\<lambda>n. merge_includes n L None d1 path fs new = Some (Inr (r, after_includes L contents path d1 fs new)))"
    by (rule Cons.IH [OF _ _ r]) (use Cons.prems(1,2) data in auto)
  from ample_both [OF load this] show ?case
    by (rule ample_Suc) (use d1 ne in \<open>simp add: load_simps Let_def new_def whole_def\<close>)
qed

text \<open>Two files, the first of which includes the second.\<close>

definition sample_file :: "string \<Rightarrow> gdict" where
  "sample_file f =
     (if f = ''a.gyp'' then [(KStr ''includes'', GList [GStr ''b.gypi'']), (KStr ''type'', GStr ''x'')]
      else [(KStr ''type'', GStr ''y'')])"

definition sample_env :: load_env where
  "sample_env = \<lparr>gyp_of = base_env ''/'', read_file = Some, py_parse = (\<lambda>s. Inl (SyntaxError s)),
     py_eval = (\<lambda>s. Inr (GDict (sample_file s))), checked = False\<rparr>"

text \<open>Two files, each of which includes the other.\<close>

definition circular_file :: "string \<Rightarrow> gdict" where
  "circular_file f =
     (if f = ''a.gypi'' then [(KStr ''includes'', GList [GStr ''b.gypi'']), (KStr ''x'', GStr ''1'')]
      else [(KStr ''includes'', GList [GStr ''a.gypi'']), (KStr ''y'', GStr ''2'')])"

text \<open>
  (C24) A file that includes others, when neither it nor any of them is in the tables yet and
  no further includes are asked for.  The included files are dictionaries with no
  \<open>includes\<close> in them at any depth, and neither has the merged result.  With enough fuel the file
  is read, and its contents are what its own dictionary, without \<open>includes\<close>, becomes when the
  files are merged into it, in their order, each relative to its own directory, so that
  an included file overrides the settings of the file that includes it.  The table of
  files has its entry and each included file's contents, and the other table records the
  included files in order for it and none for them.
\<close>

theorem LoadOneBuildFile_merges_includes:
  assumes "read_build_file L path = Inr (GDict d)" and "includes_list d path None = Inr fs"
    and "\<forall>f \<in> set fs. f \<noteq> path \<and> read_build_file L f = Inr (GDict (contents f)) \<and> plain (GDict (contents f))"
    and "foldE (\<lambda>to f. MergeDicts (gyp_of L) to (contents f) path f) (unhook d ''includes'') fs = Inr r"
    and "plain (GDict r)" and "\<forall>f \<in> insert path (set fs). dict_get (ld_data st) f = None"
  shows "\<exists>n st'. LoadOneBuildFile n L path None tgt st = Some (Inr (r, st')) \<and>
    dict_get (ld_data st') path = Some r \<and> dict_get (ld_aux st') path = Some fs \<and>
    (\<forall>f \<in> set fs. dict_get (ld_data st') f = Some (contents f) \<and> dict_get (ld_aux st') f = Some [])"
proof -
  let ?st = "start_file path d st"
  let ?st' = "after_includes L contents path (unhook d ''includes'') fs ?st"
  have data: "dict_get (ld_data ?st) f = None" if "f \<in> set fs" for f
    using assms(3,6) that by (simp add: start_file_def al.lookup_store)
  have m: "ample (\<lambda>n. merge_includes n L None (unhook d ''includes'') path fs ?st = Some (Inr (r, ?st')))"
    by (rule merge_plain_includes) (use assms(3,4) data in auto)
  from ample_both [OF m plain_items_of [OF assms(5), of L "whole None" path ?st']]
  have "ample (\<lambda>n. LoadBuildFileIncludesIntoDict n L None d path None ?st = Some (Inr (r, ?st')))"
    by (rule ample_Suc) (use assms(2) in \<open>simp add: load_simps\<close>)
  then have "ample (\<lambda>n. LoadOneBuildFile n L path None tgt st = Some (Inr (r, finish_file path r ?st')))"
    by (rule ample_Suc) (use assms(1,6) in \<open>simp add: load_simps appendV_def appendE_def\<close>)
  then obtain n where n: "LoadOneBuildFile n L path None tgt st = Some (Inr (r, finish_file path r ?st'))"
    using ample_ex by blast
  have path: "path \<notin> set fs" and own: "dict_get (ld_aux ?st) path = Some []"
    using assms(3) by (auto simp: start_file_def al.lookup_store)
  have old: "\<forall>f \<in> set fs. has_key (ld_data ?st) f \<longrightarrow>
      dict_get (ld_data ?st) f = Some (contents f) \<and> dict_get (ld_aux ?st) f = Some []"
    using data by auto
  note after = after_includes_tables [OF path own old, where L = L and d = "unhook d ''includes''"]
  have f: "dict_get (ld_data ?st') f = Some (contents f)" "dict_get (ld_aux ?st') f = Some []" "f \<noteq> path"
    if "f \<in> set fs" for f using after [of f] assms(3) that by auto
  obtain g where g: "g \<noteq> path" by (meson list.distinct(1) not_Cons_self2)
  from after [OF g] have "dict_get (ld_aux ?st') path = Some fs" by simp
  with n f show ?thesis
    by (intro exI [of _ n] exI [of _ "finish_file path r ?st'"]) (auto simp: finish_file_def al.lookup_store)
qed

theorem LoadOneBuildFile_merges_includes_witness:
  "\<exists>n st'. LoadOneBuildFile n sample_env ''a.gyp'' None True \<lparr>ld_data = [], ld_aux = []\<rparr> =
      Some (Inr ([(KStr ''type'', GStr ''y'')], st')) \<and>
    dict_get (ld_data st') ''a.gyp'' = Some [(KStr ''type'', GStr ''y'')] \<and>
    dict_get (ld_aux st') ''a.gyp'' = Some [''b.gypi''] \<and>
    (\<forall>f \<in> set [''b.gypi'']. dict_get (ld_data st') f = Some (sample_file f) \<and> dict_get (ld_aux st') f = Some [])"
proof (rule LoadOneBuildFile_merges_includes)
  show "read_build_file sample_env ''a.gyp'' = Inr (GDict (sample_file ''a.gyp''))" by code_simp
  show "includes_list (sample_file ''a.gyp'') ''a.gyp'' None = Inr [''b.gypi'']" by code_simp
  show "\<forall>f \<in> set [''b.gypi'']. f \<noteq> ''a.gyp'' \<and> read_build_file sample_env f = Inr (GDict (sample_file f)) \<and>
      plain (GDict (sample_file f))" by code_simp
  show "foldE (\<lambda>to f. MergeDicts (gyp_of sample_env) to (sample_file f) ''a.gyp'' f)
      (unhook (sample_file ''a.gyp'') ''includes'') [''b.gypi''] = Inr [(KStr ''type'', GStr ''y'')]" by code_simp
qed (simp_all add: dict_get_def)

text \<open>
  (C25) Whenever reading a file returns, files that include each other in a circle included,
  and the program keeps its two tables in step: the file's result is its entry in the
  table of files, the entries that were there before have not changed, every recorded
  include is known, and the list of the files that contributed to it can be computed: it
  has all that are reached through the recorded includes, each once.
\<close>

theorem LoadOneBuildFile_includes_known:
  assumes "LoadOneBuildFile n L path inc tgt st = Some (Inr (d, st'))" and "in_step st" and "closed {} st"
  shows "dict_get (ld_data st') path = Some d \<and> data_kept {} st st' \<and> in_step st' \<and> closed {} st' \<and>
    (\<exists>fs. GetIncludedBuildFiles (Suc (card (fst ` set (ld_aux st')))) (ld_aux st') path [] = Some (Inr fs) \<and>
       distinct fs \<and> set fs = includes_of (ld_aux st') path)"
proof -
  note l = load_keeps [of n, THEN conjunct1, rule_format, OF assms(1,2)]
  then have "closed ({} - {path}) st'" using assms(3) unfolding file_loaded_def by blast
  then have c: "closed {} st'" by simp
  then have "aux_closed (ld_aux st')" unfolding closed_def aux_closed_def by simp
  moreover have "in_step st'" "dict_get (ld_data st') path = Some d" using l unfolding file_loaded_def by blast+
  then have "has_key (ld_aux st') path" unfolding in_step_def by (metis option.distinct(1))
  ultimately show ?thesis using included_exact [of "ld_aux st'" path] l c unfolding file_loaded_def by blast
qed

text \<open>
  Two files that include each other: the second finds the first in the table, without
  the key \<open>includes\<close>, and both end up with the settings of both.
\<close>

theorem LoadOneBuildFile_includes_known_witness:
  "\<exists>d st'. LoadOneBuildFile 9 (sample_env\<lparr>py_eval := (\<lambda>s. Inr (GDict (circular_file s)))\<rparr>) ''a.gypi'' None False
      \<lparr>ld_data = [], ld_aux = []\<rparr> = Some (Inr (d, st')) \<and>
    d = [(KStr ''x'', GStr ''1''), (KStr ''y'', GStr ''2'')] \<and>
    dict_get (ld_data st') ''b.gypi'' = Some [(KStr ''y'', GStr ''2''), (KStr ''x'', GStr ''1'')] \<and>
    (\<exists>fs. GetIncludedBuildFiles 3 (ld_aux st') ''a.gypi'' [] = Some (Inr fs) \<and> distinct fs \<and>
      set fs = includes_of (ld_aux st') ''a.gypi'')"
proof -
  let ?d = "[(KStr ''x'', GStr ''1''), (KStr ''y'', GStr ''2'')]"
  let ?L = "sample_env\<lparr>py_eval := (\<lambda>s. Inr (GDict (circular_file s)))\<rparr>"
  let ?st = "\<lparr>ld_data = [(''a.gypi'', ?d), (''b.gypi'', [(KStr ''y'', GStr ''2''), (KStr ''x'', GStr ''1'')])],
    ld_aux = [(''a.gypi'', [''b.gypi'']), (''b.gypi'', [''a.gypi''])]\<rparr>"
  have r: "LoadOneBuildFile 9 ?L ''a.gypi'' None False \<lparr>ld_data = [], ld_aux = []\<rparr> = Some (Inr (?d, ?st))"
    by code_simp
  have three: "Suc (card (fst ` set (ld_aux ?st))) = 3" by code_simp
  have "in_step \<lparr>ld_data = [], ld_aux = []\<rparr>" "closed {} \<lparr>ld_data = [], ld_aux = []\<rparr>"
    by (simp_all add: in_step_def closed_def)
  note k = LoadOneBuildFile_includes_known [OF r this, unfolded three]
  have "dict_get (ld_data ?st) ''b.gypi'' = Some [(KStr ''y'', GStr ''2''), (KStr ''x'', GStr ''1'')]" by code_simp
  with k r show ?thesis by blast
qed

text \<open>
  A file that includes itself: its scalars and a list without repetitions stay as they
  are, and a list of dictionaries, such as its targets, is appended to itself for ever.
\<close>

theorem own_include_keeps_or_hangs:
  "LoadOneBuildFile 9 (sample_env\<lparr>py_eval := (\<lambda>s. Inr (GDict [(KStr ''includes'', GList [GStr ''a.gypi'']),
      (KStr ''x'', GStr ''1''), (KStr ''defines'', GList [GStr ''D''])]))\<rparr>) ''a.gypi'' None False
    \<lparr>ld_data = [], ld_aux = []\<rparr> =
   Some (Inr ([(KStr ''x'', GStr ''1''), (KStr ''defines'', GList [GStr ''D''])],
     \<lparr>ld_data = [(''a.gypi'', [(KStr ''x'', GStr ''1''), (KStr ''defines'', GList [GStr ''D''])])],
       ld_aux = [(''a.gypi'', [''a.gypi''])]\<rparr>))"
  "merge_own (base_env ''/'') ''a.gypi'' [(KStr ''targets'', GList [GDict [(KStr ''target_name'', GStr ''t'')]])]
    [(KStr ''targets'', GList [GDict [(KStr ''target_name'', GStr ''t'')]])] = None"
  by code_simp+

end
