(* ===== verification/Input_Driver.thy ===== *)
theory Input_Driver
  imports Input_Settled Input_Include
begin

text \<open>
  \<open>LoadTargetBuildFile\<close> of \<open>tools/gyp/pylib/gyp/input.py\<close>: it reads a build file with its
  includes, applies the early phase of expansion to it, merges the defaults of its targets,
  and goes on to the build files that its targets depend on.

  The state is what the function passes along and changes: the set
  \<open>data['target_build_files']\<close>, the tables of files (\<open>loaded\<close>), the dictionary \<open>variables\<close>, whose
  \<open>DEPTH\<close> every call sets anew, and the state of variable expansion.  The recursion over the
  files is bounded by an argument; reading and expanding a file have the fuel \<open>dr_fuel\<close>.
\<close>

subsection \<open>The state and the loop\<close>

record driver =
  dr_load :: load_env
  dr_expand :: xenv
  dr_includes :: "string list"
  dr_depth :: string
  dr_fuel :: nat

record load_state =
  tfiles :: "string list"
  lfiles :: loaded
  lvars :: vars
  lexpand :: xstate

abbreviation dr_env :: "driver \<Rightarrow> gyp_env" where
  "dr_env D \<equiv> gyp_of (dr_load D)"

text \<open>What \<open>LoadTargetBuildFile\<close> returns: \<open>False\<close>, nothing, or the file and its dependencies.\<close>

datatype load_answer = Loaded_Before | Loaded_All | Loaded_One string "string option list"

subsection \<open>One build file\<close>

definition with_DEPTH :: "driver \<Rightarrow> string \<Rightarrow> load_state \<Rightarrow> load_state" where
  "with_DEPTH D build_file_path st =
     (if dr_depth D = [] then st
      else st\<lparr>lvars := dict_set (lvars st) (KStr ''DEPTH'')
                (HStr (DEPTH_variable (dr_env D) (dr_depth D) build_file_path))\<rparr>)"

definition absolute_path :: "gyp_env \<Rightarrow> string \<Rightarrow> string" where
  "absolute_path E build_file_path =
     (if absolute_build_file_paths E then abspath (cwd E) build_file_path else build_file_path)"

text \<open>The file becomes a target build file and is read; the result is its list of dependencies.\<close>

definition load_target_file :: "driver \<Rightarrow> string \<Rightarrow> load_state \<Rightarrow> (string option list \<times> load_state) eval" where
  "load_target_file D build_file_path st =
     (let E = dr_env D; m = dr_fuel D; st = st\<lparr>tfiles := tfiles st @ [build_file_path]\<rparr> in
      bindV (LoadOneBuildFile m (dr_load D) build_file_path (Some (dr_includes D)) True (lfiles st)) (\<lambda>(d, files).
      bindV (add_included_files m E (ld_aux files) (dr_depth D) build_file_path d) (\<lambda>d.
      bindV (Some (ProcessToolsetsInDict E d)) (\<lambda>d.
      bindV (expand_dict (dr_expand D) m PHASE_EARLY (lvars st) build_file_path d (lexpand st)) (\<lambda>(d, xs).
      bindV (Some (ProcessToolsetsInDict E d)) (\<lambda>d.
      bindV (Some (merge_target_defaults E build_file_path d)) (\<lambda>d.
      bindV (Some (build_file_dependencies E build_file_path d)) (\<lambda>dependencies.
        Some (Inr (dependencies, st\<lparr>lfiles := finish_file build_file_path d files, lexpand := xs\<rparr>))))))))))"

subsection \<open>\<open>LoadTargetBuildFile\<close>\<close>

text \<open>A dependency always names a file, the one of the target that has it when it names none.\<close>

definition dependency_file :: "string option \<Rightarrow> string res" where
  "dependency_file dependency =
     (case dependency of None \<Rightarrow> Inl (AttributeError ''NoneType object has no attribute rfind'') | Some f \<Rightarrow> Inr f)"

primrec LoadTargetBuildFile ::
  "nat \<Rightarrow> driver \<Rightarrow> bool \<Rightarrow> string \<Rightarrow> load_state \<Rightarrow> (load_answer \<times> load_state) eval" where
  "LoadTargetBuildFile 0 D load_dependencies build_file_path st = None"
| "LoadTargetBuildFile (Suc n) D load_dependencies build_file_path st =
     (let st = with_DEPTH D build_file_path st; build_file_path = absolute_path (dr_env D) build_file_path in
      if build_file_path \<in> set (tfiles st) then Some (Inr (Loaded_Before, st))
      else
        bindV (load_target_file D build_file_path st) (\<lambda>(dependencies, st).
          if load_dependencies then
            bindV (foldV (\<lambda>st dependency.
                     appendV (''while loading dependencies of '' @ build_file_path)
                       (bindV (Some (dependency_file dependency)) (\<lambda>dependency.
                        bindV (LoadTargetBuildFile n D True dependency st) (\<lambda>(answer, st). Some (Inr st)))))
                     st dependencies)
              (\<lambda>st. Some (Inr (Loaded_All, st)))
          else Some (Inr (Loaded_One build_file_path dependencies, st))))"

text \<open>The loop of \<open>Load\<close> over the build files it is given, without the parallel variant.\<close>

definition load_build_files :: "nat \<Rightarrow> driver \<Rightarrow> string list \<Rightarrow> load_state \<Rightarrow> load_state eval" where
  "load_build_files n D build_files st =
     foldV (\<lambda>st build_file.
       let build_file = normpath build_file in
       appendV (''while trying to load '' @ build_file)
         (bindV (LoadTargetBuildFile n D True build_file st) (\<lambda>(answer, st). Some (Inr st)))) st build_files"

declare appendV_Inr_iff [simp]

lemma appendV_None_iff [simp]: "appendV msg r = None \<longleftrightarrow> r = None"
  by (simp add: appendV_def)

subsection \<open>What loading keeps\<close>

text \<open>
  The files loaded before stay as they are; a file is settled when the build files its targets
  depend on are loaded too.
\<close>

definition load_inv :: "load_state \<Rightarrow> bool" where
  "load_inv st \<longleftrightarrow> in_step (lfiles st) \<and> distinct (tfiles st)"

definition file_data :: "load_state \<Rightarrow> string \<Rightarrow> gdict option" where
  "file_data st f = dict_get (ld_data (lfiles st)) f"

definition load_grows :: "load_state \<Rightarrow> load_state \<Rightarrow> bool" where
  "load_grows st st' \<longleftrightarrow> load_inv st' \<and> set (tfiles st) \<subseteq> set (tfiles st') \<and>
     (\<forall>f \<in> set (tfiles st). file_data st f \<noteq> None \<longrightarrow> file_data st' f = file_data st f)"

definition settled_file :: "driver \<Rightarrow> load_state \<Rightarrow> string \<Rightarrow> bool" where
  "settled_file D st f \<longleftrightarrow> (\<exists>d ds. file_data st f = Some d \<and> build_file_dependencies (dr_env D) f d = Inr ds \<and>
     (\<forall>g. Some g \<in> set ds \<longrightarrow> absolute_path (dr_env D) g \<in> set (tfiles st)))"

definition news_settled :: "driver \<Rightarrow> load_state \<Rightarrow> load_state \<Rightarrow> bool" where
  "news_settled D st st' \<longleftrightarrow> (\<forall>f \<in> set (tfiles st') - set (tfiles st). settled_file D st' f)"

lemma load_grows_trans: "load_grows a b \<Longrightarrow> load_grows b c \<Longrightarrow> load_grows a c"
  unfolding load_grows_def by (metis subset_iff)

lemma settled_grows:
  "settled_file D st f \<Longrightarrow> f \<in> set (tfiles st) \<Longrightarrow> load_grows st st' \<Longrightarrow> settled_file D st' f"
  unfolding settled_file_def load_grows_def by (metis option.distinct(1) subset_iff)

lemma news_settled_trans:
  "news_settled D a b \<Longrightarrow> news_settled D b c \<Longrightarrow> load_grows b c \<Longrightarrow> news_settled D a c"
  unfolding news_settled_def using settled_grows by (metis Diff_iff)

lemma with_DEPTH_fields [simp]:
  "tfiles (with_DEPTH D f st) = tfiles st" "lfiles (with_DEPTH D f st) = lfiles st"
  "lexpand (with_DEPTH D f st) = lexpand st" "load_inv (with_DEPTH D f st) = load_inv st"
  "file_data (with_DEPTH D f st) g = file_data st g"
  by (simp_all add: with_DEPTH_def load_inv_def file_data_def)

lemma load_target_file_grows:
  assumes "load_target_file D f st = Some (Inr (ds, st'))" and "load_inv st" and "f \<notin> set (tfiles st)"
  shows "load_grows st st' \<and> tfiles st' = tfiles st @ [f] \<and>
    (\<exists>d. file_data st' f = Some d \<and> build_file_dependencies (dr_env D) f d = Inr ds)"
proof -
  from assms(1) obtain d0 files d xs where
    l: "LoadOneBuildFile (dr_fuel D) (dr_load D) f (Some (dr_includes D)) True (lfiles st) = Some (Inr (d0, files))"
    and b: "build_file_dependencies (dr_env D) f d = Inr ds"
    and st': "st' = st\<lparr>tfiles := tfiles st @ [f], lfiles := finish_file f d files, lexpand := xs\<rparr>"
    unfolding load_target_file_def Let_def by (auto simp: bindV_Inr_iff)
  from assms(2) have "in_step (lfiles st)" by (simp add: load_inv_def)
  note r = load_keeps [of "dr_fuel D", THEN conjunct1, rule_format, OF l this, unfolded file_loaded_def]
  then have "in_step (finish_file f d files)"
    by (auto simp: in_step_def finish_file_def al.lookup_store)
  moreover have "dict_get (ld_data (finish_file f d files)) g = dict_get (ld_data (lfiles st)) g"
    if "g \<in> set (tfiles st)" "dict_get (ld_data (lfiles st)) g \<noteq> None" for g
    using that r assms(3) by (auto simp: finish_file_def al.lookup_store data_kept_def)
  moreover have "dict_get (ld_data (finish_file f d files)) f = Some d" by (simp add: finish_file_def al.lookup_store)
  ultimately show ?thesis
    using assms(2,3) b by (auto simp: st' load_grows_def load_inv_def file_data_def)
qed

lemma LoadTargetBuildFile_grows:
  assumes "LoadTargetBuildFile n D True f st = Some (Inr (r, st'))" and "load_inv st"
  shows "load_grows st st' \<and> news_settled D st st' \<and> absolute_path (dr_env D) f \<in> set (tfiles st')"
  using assms
proof (induction n arbitrary: f st r st')
  case (Suc n)
  let ?p = "absolute_path (dr_env D) f"
  let ?st = "with_DEPTH D f st"
  show ?case
  proof (cases "?p \<in> set (tfiles st)")
    case True
    with Suc.prems have "st' = ?st" by (simp add: Let_def)
    with True Suc.prems(2) show ?thesis by (simp add: load_grows_def news_settled_def)
  next
    case False
    with Suc.prems(1) [unfolded LoadTargetBuildFile.simps Let_def] obtain ds st1 where l: "load_target_file D ?p ?st = Some (Inr (ds, st1))"
      and loop: "foldV (\<lambda>st dependency. appendV (''while loading dependencies of '' @ ?p)
          (bindV (Some (dependency_file dependency)) (\<lambda>dependency.
           bindV (LoadTargetBuildFile n D True dependency st) (\<lambda>(answer, st). Some (Inr st))))) st1 ds = Some (Inr st')"
      by (auto simp: bindV_Inr_iff simp del: LoadTargetBuildFile.simps)
    from load_target_file_grows [OF l] Suc.prems(2) False obtain d
      where g: "load_grows ?st st1" and t: "tfiles st1 = tfiles st @ [?p]"
        and d: "file_data st1 ?p = Some d" "build_file_dependencies (dr_env D) ?p d = Inr ds" by auto
    let ?P = "\<lambda>A s. load_grows st1 s \<and> news_settled D st1 s \<and>
        (\<forall>g. Some g \<in> A \<longrightarrow> absolute_path (dr_env D) g \<in> set (tfiles s))"
    have "?P (set ds) st'"
    proof (rule foldV_invariant [OF loop])
      show "?P {} st1" using g by (simp add: load_grows_def news_settled_def)
    next
      fix s x s' A
      assume "appendV (''while loading dependencies of '' @ ?p) (bindV (Some (dependency_file x)) (\<lambda>dependency.
           bindV (LoadTargetBuildFile n D True dependency s) (\<lambda>(answer, st). Some (Inr st)))) = Some (Inr s')"
        and P: "?P A s"
      then obtain y a where x: "x = Some y" and y: "LoadTargetBuildFile n D True y s = Some (Inr (a, s'))"
        by (auto simp: bindV_Inr_iff dependency_file_def split: option.splits)
      from P have "load_inv s" by (simp add: load_grows_def)
      note one = Suc.IH [OF y this]
      from P one have "load_grows st1 s'" "news_settled D st1 s'"
        using load_grows_trans news_settled_trans by blast+
      moreover from one have "set (tfiles s) \<subseteq> set (tfiles s')" by (simp add: load_grows_def)
      ultimately show "?P (insert x A) s'" using P one x by blast
    qed
    then have e: "load_grows st1 st'" "news_settled D st1 st'"
      "\<forall>g. Some g \<in> set ds \<longrightarrow> absolute_path (dr_env D) g \<in> set (tfiles st')" by blast+
    have "?p \<in> set (tfiles st1)" using t by simp
    with e(1) d(1) have kept: "file_data st' ?p = Some d" "?p \<in> set (tfiles st')"
      unfolding load_grows_def by (metis option.distinct(1), blast)
    then have "settled_file D st' ?p" using d(2) e(3) unfolding settled_file_def by blast
    then have "news_settled D st st'" using e(2) t unfolding news_settled_def by auto
    moreover have "load_grows ?st st'" using g e(1) load_grows_trans by blast
    then have "load_grows st st'" by (simp add: load_grows_def)
    ultimately show ?thesis using kept(2) by blast
  qed
qed simp

subsection \<open>Ending\<close>

text \<open>
  In the states that can come up (\<open>Q\<close>), the files of \<open>F\<close> depend on files of \<open>F\<close> only;
  \<open>readable_files\<close> adds that reading and expanding each of them ends.
\<close>

definition files_within :: "driver \<Rightarrow> (load_state \<Rightarrow> bool) \<Rightarrow> string set \<Rightarrow> bool" where
  "files_within D Q F \<longleftrightarrow> finite F \<and> (\<forall>f st. Q st \<longrightarrow> Q (with_DEPTH D f st)) \<and>
     (\<forall>f \<in> F. \<forall>st ds st'. Q st \<and> f \<notin> set (tfiles st) \<and> load_target_file D f st = Some (Inr (ds, st')) \<longrightarrow>
        Q st' \<and> (\<forall>g. Some g \<in> set ds \<longrightarrow> absolute_path (dr_env D) g \<in> F))"

definition readable_files :: "driver \<Rightarrow> (load_state \<Rightarrow> bool) \<Rightarrow> string set \<Rightarrow> bool" where
  "readable_files D Q F \<longleftrightarrow> finite F \<and> (\<forall>f st. Q st \<longrightarrow> Q (with_DEPTH D f st)) \<and>
     (\<forall>f \<in> F. \<forall>st. Q st \<and> f \<notin> set (tfiles st) \<longrightarrow> load_target_file D f st \<noteq> None \<and>
        (\<forall>ds st'. load_target_file D f st = Some (Inr (ds, st')) \<longrightarrow> Q st' \<and>
           tfiles st' = tfiles st @ [f] \<and> (\<forall>g. Some g \<in> set ds \<longrightarrow> absolute_path (dr_env D) g \<in> F)))"

lemma bindV_snd:
  "bindV m (\<lambda>(a, s). Some (Inr s)) = None \<longleftrightarrow> m = None"
  "bindV m (\<lambda>(a, s). Some (Inr s)) = Some (Inr t) \<longleftrightarrow> (\<exists>a. m = Some (Inr (a, t)))"
  by (auto simp: bindV_def split: option.splits sum.splits)

lemma LoadTargetBuildFile_answers:
  assumes "readable_files D Q F" and "absolute_path (dr_env D) f \<in> F" and "card (F - set (tfiles st)) < n" and "Q st"
  shows "LoadTargetBuildFile n D True f st \<noteq> None \<and>
    (\<forall>r st'. LoadTargetBuildFile n D True f st = Some (Inr (r, st')) \<longrightarrow> Q st' \<and> set (tfiles st) \<subseteq> set (tfiles st'))"
  using assms(2-4)
proof (induction n arbitrary: f st)
  case (Suc n)
  let ?p = "absolute_path (dr_env D) f"
  let ?st = "with_DEPTH D f st"
  let ?loop = "\<lambda>st dependency. appendV (''while loading dependencies of '' @ ?p)
    (bindV (Some (dependency_file dependency)) (\<lambda>dependency.
     bindV (LoadTargetBuildFile n D True dependency st) (\<lambda>(answer, st). Some (Inr st))))"
  have fin: "finite F" and Q: "Q ?st" using assms(1) Suc.prems(3) by (simp_all add: readable_files_def)
  show ?case
  proof (cases "?p \<in> set (tfiles st)")
    case True
    with Q show ?thesis by (simp add: Let_def)
  next
    case False
    then have "?p \<notin> set (tfiles ?st)" by simp
    note loads = assms(1) [unfolded readable_files_def, THEN conjunct2, THEN conjunct2, rule_format, OF Suc.prems(1) conjI, OF Q this]
    then obtain r where r: "load_target_file D ?p ?st = Some r" by blast
    show ?thesis
    proof (cases r)
      case (Inl e)
      with False r show ?thesis by (simp add: Let_def)
    next
      case (Inr q)
      obtain ds st1 where q: "q = (ds, st1)" by (cases q)
      from loads r Inr q have t: "tfiles st1 = tfiles st @ [?p]" and Q1: "Q st1"
        and ds: "\<And>g. Some g \<in> set ds \<Longrightarrow> absolute_path (dr_env D) g \<in> F" by simp_all
      have "F - set (tfiles st1) \<subset> F - set (tfiles st)" using t False Suc.prems(1) by auto
      then have c: "card (F - set (tfiles st1)) < n" using fin Suc.prems(2) psubset_card_mono [of "F - set (tfiles st)"]
        by (metis finite_Diff less_Suc_eq_le order_less_le_trans)
      let ?P = "\<lambda>s. Q s \<and> set (tfiles st1) \<subseteq> set (tfiles s)"
      have loop: "foldV ?loop st1 ds \<noteq> None \<and> (\<forall>s'. foldV ?loop st1 ds = Some (Inr s') \<longrightarrow> ?P s')"
      proof (rule foldV_total)
        fix s :: load_state and x assume x: "x \<in> set ds" and P: "?P s"
        show "?loop s x \<noteq> None \<and> (\<forall>s'. ?loop s x = Some (Inr s') \<longrightarrow> ?P s')"
        proof (cases x)
          case None
          then show ?thesis by (simp add: dependency_file_def)
        next
          case (Some y)
          have "F - set (tfiles s) \<subseteq> F - set (tfiles st1)" using P by blast
          then have "card (F - set (tfiles s)) \<le> card (F - set (tfiles st1))" by (rule card_mono [rotated]) (simp add: fin)
          then have "card (F - set (tfiles s)) < n" using c by simp
          from Suc.IH [OF ds [OF x [unfolded Some]] this conjunct1 [OF P]] P show ?thesis
            unfolding Some dependency_file_def option.case bindV_simps appendV_Inr_iff appendV_None_iff bindV_snd
            by blast
        qed
      qed (use Q1 in simp)
      define m where "m = foldV ?loop st1 ds"
      from loop have m: "m \<noteq> None" "\<And>s'. m = Some (Inr s') \<Longrightarrow> ?P s'" unfolding m_def by blast+
      have step: "LoadTargetBuildFile (Suc n) D True f st = bindV m (\<lambda>st. Some (Inr (Loaded_All, st)))"
        unfolding m_def using False r Inr q by (simp add: Let_def)
      obtain x where x: "m = Some x" using m(1) by blast
      have "set (tfiles st) \<subseteq> set (tfiles st1)" using t by auto
      with m(2) x show ?thesis unfolding step by (cases x) auto
    qed
  qed
qed simp

lemma load_target_file_marks:
  "load_target_file D f st = Some (Inr (ds, st')) \<Longrightarrow> tfiles st' = tfiles st @ [f]"
  by (auto simp: load_target_file_def Let_def bindV_Inr_iff)

lemma files_within_readable:
  assumes "files_within D Q F" and "\<not> (\<exists>g \<in> F. \<exists>s. Q s \<and> g \<notin> set (tfiles s) \<and> load_target_file D g s = None)"
  shows "readable_files D Q F"
proof -
  have "load_target_file D f st \<noteq> None" if "f \<in> F" "Q st" "f \<notin> set (tfiles st)" for f st
    using assms(2) that by metis
  with assms(1) show ?thesis
    unfolding files_within_def readable_files_def by (meson load_target_file_marks)
qed

text \<open>
  (C2) Loading a build file and those that its targets depend on, where a finite set \<open>F\<close>
  has the file and, with each file, the ones its targets depend on, in all states that can
  come up (\<open>Q\<close>, kept by loading a file of \<open>F\<close>).  One more level of recursion than there are
  files of \<open>F\<close> not loaded yet is enough, also for files that depend on each other in a
  circle: if there is no answer then reading and expanding one single file that was not
  loaded has none.  When loading does not raise, the build file is loaded, no file is
  loaded twice or changed after it was, and every file that was added is settled: the
  build files that its targets depend on are loaded as well.
\<close>

theorem LoadTargetBuildFile_complete:
  assumes "files_within D Q F" and "absolute_path (dr_env D) f \<in> F" and "card (F - set (tfiles st)) < n"
    and "Q st" and "load_inv st"
  shows "(LoadTargetBuildFile n D True f st = None \<longrightarrow>
      (\<exists>g \<in> F. \<exists>s. Q s \<and> g \<notin> set (tfiles s) \<and> load_target_file D g s = None)) \<and>
    (\<forall>a st'. LoadTargetBuildFile n D True f st = Some (Inr (a, st')) \<longrightarrow>
       load_grows st st' \<and> news_settled D st st' \<and> absolute_path (dr_env D) f \<in> set (tfiles st'))"
  using LoadTargetBuildFile_answers [OF files_within_readable [OF assms(1)] assms(2-4)]
    LoadTargetBuildFile_grows [OF _ assms(5)] by blast

definition sample_project :: gdict where
  "sample_project = [(KStr ''targets'', GList [
     GDict [(KStr ''target_name'', GStr ''t''), (KStr ''type'', GStr ''none''), (KStr ''dependencies'', GList [GStr ''a.gyp:u''])],
     GDict [(KStr ''target_name'', GStr ''u''), (KStr ''type'', GStr ''none'')]])]"

definition sample_driver :: "xenv \<Rightarrow> driver" where
  "sample_driver X = \<lparr>dr_load = sample_env\<lparr>gyp_of := base_env ''/w'', py_eval := (\<lambda>s. Inr (GDict sample_project))\<rparr>, dr_expand = X,
     dr_includes = [], dr_depth = [], dr_fuel = 30\<rparr>"

definition sample_load_state :: "(string \<rightharpoonup> string) \<Rightarrow> load_state" where
  "sample_load_state fs = \<lparr>tfiles = [], lfiles = \<lparr>ld_data = [], ld_aux = []\<rparr>, lvars = [],
     lexpand = \<lparr>objs = [], cached_command_results = [], commands = [], files = fs\<rparr>\<rparr>"

text \<open>The dictionary of the sample project with the entries the loader adds, before and after expansion.\<close>

definition sample_loaded :: "gval list \<Rightarrow> gdict" where
  "sample_loaded toolset = [(KStr ''targets'', GList [
     GDict ([(KStr ''target_name'', GStr ''t''), (KStr ''type'', GStr ''none''), (KStr ''dependencies'', GList [GStr ''a.gyp:u''])] @
            map (Pair (KStr ''toolset'')) toolset),
     GDict ([(KStr ''target_name'', GStr ''u''), (KStr ''type'', GStr ''none'')] @ map (Pair (KStr ''toolset'')) toolset)]),
     (KStr ''_DEPTH'', GStr []), (KStr ''included_files'', GList [GStr ''a.gyp''])]"

definition sample_loaded_state :: "xstate \<Rightarrow> load_state" where
  "sample_loaded_state xs = \<lparr>tfiles = [''a.gyp''], lfiles = \<lparr>ld_data = [(''a.gyp'', sample_loaded [GStr ''target''])],
     ld_aux = [(''a.gyp'', [])]\<rparr>, lvars = [], lexpand = xs\<rparr>"

lemma sample_file_loads:
  "\<exists>xs. load_target_file (sample_driver X) ''a.gyp'' (sample_load_state fs) =
    Some (Inr ([Some ''a.gyp''], sample_loaded_state xs))"
proof -
  let ?L = "sample_env\<lparr>gyp_of := base_env ''/w'', py_eval := (\<lambda>s. Inr (GDict sample_project))\<rparr>"
  let ?E = "base_env ''/w''"
  have l: "LoadOneBuildFile 30 ?L ''a.gyp'' (Some []) True \<lparr>ld_data = [], ld_aux = []\<rparr> =
      Some (Inr (sample_project, \<lparr>ld_data = [(''a.gyp'', sample_project)], ld_aux = [(''a.gyp'', [])]\<rparr>))"
    by code_simp
  have i: "add_included_files 30 ?E [(''a.gyp'', [])] [] ''a.gyp'' sample_project = Some (Inr (sample_loaded []))"
    by code_simp
  have t: "ProcessToolsetsInDict ?E (sample_loaded []) = Inr (sample_loaded [GStr ''target''])"
    "ProcessToolsetsInDict ?E (sample_loaded [GStr ''target'']) = Inr (sample_loaded [GStr ''target''])"
    by code_simp+
  have s: "settled_val PHASE_EARLY (GDict (sample_loaded [GStr ''target'']))" by code_simp
  have n: "need (GDict (sample_loaded [GStr ''target''])) \<le> Suc 30" by (simp add: sample_loaded_def)
  have m: "merge_target_defaults ?E ''a.gyp'' (sample_loaded [GStr ''target'']) = Inr (sample_loaded [GStr ''target''])"
    by code_simp
  have d: "build_file_dependencies ?E ''a.gyp'' (sample_loaded [GStr ''target'']) = Inr [Some ''a.gyp'']"
    by code_simp
  have e: "gyp_of ?L = ?E" by (simp add: sample_env_def)
  show ?thesis
    unfolding load_target_file_def Let_def sample_driver_def sample_load_state_def sample_loaded_state_def
    by (simp add: l i t m d e expand_dict_settled [OF s n] finish_file_def)
qed

theorem LoadTargetBuildFile_complete_witness:
  "\<forall>X fs. \<exists>r. LoadTargetBuildFile 2 (sample_driver X) True ''a.gyp'' (sample_load_state fs) = Some r \<and>
    (\<forall>a st'. r = Inr (a, st') \<longrightarrow> news_settled (sample_driver X) (sample_load_state fs) st' \<and> ''a.gyp'' \<in> set (tfiles st'))"
proof (intro allI)
  fix X fs
  let ?Q = "\<lambda>st. st = sample_load_state fs \<or> ''a.gyp'' \<in> set (tfiles st)"
  let ?D = "sample_driver X"
  have abs: "absolute_path (dr_env ?D) f = f" for f
    by (simp add: absolute_path_def sample_driver_def sample_env_def base_env_def)
  obtain st where st: "load_target_file ?D ''a.gyp'' (sample_load_state fs) = Some (Inr ([Some ''a.gyp''], st))"
    "tfiles st = [''a.gyp'']" using sample_file_loads [of X fs] by (auto simp: sample_loaded_state_def)
  have "with_DEPTH ?D f s = s" for f s by (simp add: with_DEPTH_def sample_driver_def)
  moreover have none: "tfiles (sample_load_state fs) = []" by (simp add: sample_load_state_def)
  ultimately have "files_within ?D ?Q {''a.gyp''}"
    using st unfolding files_within_def by (auto simp: abs)
  moreover have "\<not> (\<exists>g \<in> {''a.gyp''}. \<exists>s. ?Q s \<and> g \<notin> set (tfiles s) \<and> load_target_file ?D g s = None)"
    using st by auto
  moreover have "load_inv (sample_load_state fs)" by (simp add: load_inv_def in_step_def sample_load_state_def)
  ultimately show "\<exists>r. LoadTargetBuildFile 2 ?D True ''a.gyp'' (sample_load_state fs) = Some r \<and>
      (\<forall>a st'. r = Inr (a, st') \<longrightarrow> news_settled ?D (sample_load_state fs) st' \<and> ''a.gyp'' \<in> set (tfiles st'))"
    using LoadTargetBuildFile_complete [of ?D ?Q "{''a.gyp''}" "''a.gyp''" "sample_load_state fs" 2]
    by (auto simp: abs none simp del: LoadTargetBuildFile.simps)
qed

end
