(* ===== verification/Input_Graph.thy ===== *)
theory Input_Graph
  imports Input_Merge "HOL-Library.While_Combinator"
begin

text \<open>
  \<open>DependencyGraphNode\<close>, \<open>BuildDependencyList\<close> and
  \<open>VerifyNoGYPFileCircularDependencies\<close> of \<open>tools/gyp/pylib/gyp/input.py\<close>.  A node
  is its \<open>ref\<close>, \<open>None\<close> for the root node; the two adjacency lists each node keeps
  are two dictionaries of the graph.  \<open>FlattenToList\<close> pops from a Python set: which
  element comes out is not determined, so the element is chosen by an argument
  \<open>pick\<close>, over which every theorem quantifies.  The loop over \<open>in_degree_zeros\<close>
  is kept as a loop (\<open>while_option\<close>), and it is proved to stop.

  The interface \<open>graph_builder\<close> states what a builder of a dependency graph
  promises; the target graph and the graph of build files are interpretations,
  and the correctness of the flattening is proved once, for both.
\<close>

subsection \<open>Python sets with an arbitrary pop\<close>

definition set_pop :: "('a list \<Rightarrow> nat) \<Rightarrow> 'a list \<Rightarrow> 'a \<times> 'a list" where
  "set_pop pick s =
     (let i = pick s mod length s in (s ! i, take i s @ drop (Suc i) s))"

definition set_add :: "'a \<Rightarrow> 'a list \<Rightarrow> 'a list" where
  "set_add x s = (if x \<in> set s then s else s @ [x])"

locale py_set =
  fixes pop :: "'s \<Rightarrow> 'a \<times> 's" and add :: "'a \<Rightarrow> 's \<Rightarrow> 's"
    and elems :: "'s \<Rightarrow> 'a set" and ok :: "'s \<Rightarrow> bool"
  assumes pop_in: "ok s \<Longrightarrow> elems s \<noteq> {} \<Longrightarrow> pop s = (x, s') \<Longrightarrow> x \<in> elems s"
    and pop_rest: "ok s \<Longrightarrow> elems s \<noteq> {} \<Longrightarrow> pop s = (x, s') \<Longrightarrow> elems s' = elems s - {x} \<and> ok s'"
    and elems_add: "elems (add x s) = insert x (elems s)"
    and ok_add: "ok s \<Longrightarrow> ok (add x s)"
begin

lemma fold_add:
  "ok s \<Longrightarrow> ok (foldl (\<lambda>z x. if P x then add x z else z) s xs) \<and>
    elems (foldl (\<lambda>z x. if P x then add x z else z) s xs) = elems s \<union> {x \<in> set xs. P x}"
  by (induction xs arbitrary: s) (auto simp: elems_add ok_add)

end

interpretation ps: py_set "set_pop pick" set_add set distinct
proof unfold_locales
  fix s s' :: "'a list" and x
  assume d: "distinct s" and ne: "set s \<noteq> {}" and p: "set_pop pick s = (x, s')"
  let ?i = "pick s mod length s"
  from ne have i: "?i < length s" by simp
  from p have x: "x = s ! ?i" and s': "s' = take ?i s @ drop (Suc ?i) s"
    by (simp_all add: set_pop_def Let_def)
  show "x \<in> set s" using i x by simp
  have "s = take ?i s @ x # drop (Suc ?i) s" using i x id_take_nth_drop by blast
  with d have "distinct (take ?i s @ x # drop (Suc ?i) s)" and "set s = insert x (set s')"
    unfolding s' by (metis, metis Un_insert_right list.set(2) set_append)
  then show "set s' = set s - {x} \<and> distinct s'" unfolding s' by auto
qed (auto simp: set_add_def)

subsection \<open>The graph\<close>

record 'r dgraph =
  g_deps :: "('r option \<times> 'r option list) list"
  g_dependents :: "('r option \<times> 'r option list) list"

definition empty_graph :: "'r dgraph" where
  "empty_graph = \<lparr>g_deps = [], g_dependents = []\<rparr>"

definition adj :: "('n \<times> 'n list) list \<Rightarrow> 'n \<Rightarrow> 'n list" where
  "adj d n = (case dict_get d n of None \<Rightarrow> [] | Some l \<Rightarrow> l)"

abbreviation deps :: "'r dgraph \<Rightarrow> 'r option \<Rightarrow> 'r option list" where
  "deps g \<equiv> adj (g_deps g)"

abbreviation dependents :: "'r dgraph \<Rightarrow> 'r option \<Rightarrow> 'r option list" where
  "dependents g \<equiv> adj (g_dependents g)"

definition adj_append :: "('n \<times> 'n list) list \<Rightarrow> 'n \<Rightarrow> 'n \<Rightarrow> ('n \<times> 'n list) list" where
  "adj_append d n x = dict_set d n (adj d n @ [x])"

lemma adj_append_eq [simp]: "adj (adj_append d n x) m = (if m = n then adj d n @ [x] else adj d m)"
  by (simp add: adj_append_def adj_def al.lookup_store)

lemma adj_dict_set [simp]: "adj (dict_set d n l) m = (if m = n then l else adj d m)"
  by (simp add: adj_def al.lookup_store)

lemma adj_empty [simp]: "adj [] n = []"
  by (simp add: adj_def)

text \<open>\<open>m\<close> depends on \<open>n\<close>: the two appends that link the nodes.\<close>

definition add_dep :: "'r dgraph \<Rightarrow> 'r option \<Rightarrow> 'r option \<Rightarrow> 'r dgraph" where
  "add_dep g m n = g\<lparr>g_deps := adj_append (g_deps g) m n,
                     g_dependents := adj_append (g_dependents g) n m\<rparr>"

text \<open>\<open>m\<close> depends on the root only.\<close>

definition add_root_dep :: "'r dgraph \<Rightarrow> 'r option \<Rightarrow> 'r dgraph" where
  "add_root_dep g m = g\<lparr>g_deps := dict_set (g_deps g) m [None],
                        g_dependents := adj_append (g_dependents g) None m\<rparr>"

subsection \<open>Flattening\<close>

type_synonym 'r flat_state = "'r option list \<times> 'r option list"

definition flatten_step ::
  "('r option list \<Rightarrow> 'r option list \<Rightarrow> nat) \<Rightarrow> 'r dgraph \<Rightarrow> 'r flat_state \<Rightarrow> 'r flat_state" where
  "flatten_step pick g st =
     (let (flat_list, in_degree_zeros) = st;
          (node, zeros) = set_pop (pick flat_list) in_degree_zeros;
          flat_list = flat_list @ [node]
      in (flat_list,
          foldl (\<lambda>zeros node_dependent.
                   if \<forall>d \<in> set (deps g node_dependent). d \<in> set flat_list
                   then set_add node_dependent zeros else zeros)
                zeros (dependents g node)))"

definition FlattenToList ::
  "('r option list \<Rightarrow> 'r option list \<Rightarrow> nat) \<Rightarrow> 'r dgraph \<Rightarrow> 'r option \<Rightarrow> 'r option list option" where
  "FlattenToList pick g self =
     map_option fst
       (while_option (\<lambda>(flat_list, in_degree_zeros). in_degree_zeros \<noteq> [])
          (flatten_step pick g) ([], foldl (\<lambda>s x. set_add x s) [] (dependents g self)))"

subsection \<open>What a builder promises\<close>

text \<open>
  \<open>graph_ok N D g\<close>: the nodes are \<open>N\<close>, \<open>D\<close> gives each its dependencies, all of them
  nodes, and the adjacency lists of \<open>g\<close> say the same, with the nodes that depend on
  nothing hung under the root.
\<close>

definition graph_ok :: "'r list \<Rightarrow> ('r \<Rightarrow> 'r list) \<Rightarrow> 'r dgraph \<Rightarrow> bool" where
  "graph_ok N D g \<longleftrightarrow>
     distinct N \<and> (\<forall>m \<in> set N. set (D m) \<subseteq> set N) \<and>
     (\<forall>m \<in> set N. set (deps g (Some m)) = (if D m = [] then {None} else Some ` set (D m))) \<and>
     set (dependents g None) = Some ` {m \<in> set N. D m = []} \<and>
     (\<forall>n \<in> set N. set (dependents g (Some n)) = Some ` {m \<in> set N. n \<in> set (D m)})"

text \<open>\<open>depends_on N D\<close>: the pairs (dependency, dependent).\<close>

definition depends_on :: "'r list \<Rightarrow> ('r \<Rightarrow> 'r list) \<Rightarrow> ('r \<times> 'r) set" where
  "depends_on N D = {(n, m). m \<in> set N \<and> n \<in> set (D m)}"

text \<open>Every element comes after all its dependencies.\<close>

definition dep_sorted :: "('r \<Rightarrow> 'r list) \<Rightarrow> 'r list \<Rightarrow> bool" where
  "dep_sorted D xs \<longleftrightarrow> (\<forall>i < length xs. set (D (xs ! i)) \<subseteq> set (take i xs))"

lemma dep_sorted_Nil [simp]: "dep_sorted D []"
  by (simp add: dep_sorted_def)

lemma dep_sorted_snoc: "dep_sorted D (xs @ [x]) \<longleftrightarrow> dep_sorted D xs \<and> set (D x) \<subseteq> set xs"
  by (auto simp: dep_sorted_def nth_append less_Suc_eq)

lemma dep_sorted_closed: "dep_sorted D xs \<Longrightarrow> x \<in> set xs \<Longrightarrow> set (D x) \<subseteq> set xs"
  by (fastforce simp: dep_sorted_def in_set_conv_nth dest: in_set_takeD)

lemma dep_sorted_acyclic:
  assumes "dep_sorted D xs" and "distinct xs" and "set N \<subseteq> set xs"
  shows "acyclic (depends_on N D)"
proof -
  define pos where "pos x = (THE i. i < length xs \<and> xs ! i = x)" for x
  have pos: "pos (xs ! i) = i" if "i < length xs" for i
    unfolding pos_def using that assms(2) by (intro the_equality) (auto simp: nth_eq_iff_index_eq)
  have "depends_on N D \<subseteq> inv_image less_than pos"
  proof
    fix p assume "p \<in> depends_on N D"
    then obtain n m where p: "p = (n, m)" and m: "m \<in> set xs" and n: "n \<in> set (D m)"
      using assms(3) by (auto simp: depends_on_def)
    then obtain i where i: "i < length xs" "m = xs ! i" by (auto simp: in_set_conv_nth)
    with assms(1) n obtain j where "j < i" "n = xs ! j"
      by (fastforce simp: dep_sorted_def in_set_conv_nth)
    with i pos p show "p \<in> inv_image less_than pos" by (simp add: in_inv_image)
  qed
  then show ?thesis
    by (meson acyclic_subset wf_acyclic wf_inv_image wf_less_than)
qed

subsection \<open>Correctness of the flattening, once for every graph\<close>

locale graph_builder =
  fixes build :: "'i \<Rightarrow> exn + 'r dgraph" and node_list :: "'i \<Rightarrow> 'r list"
    and dep_list :: "'i \<Rightarrow> 'r \<Rightarrow> 'r list" and valid :: "'i \<Rightarrow> bool"
  assumes build_ok: "valid i \<Longrightarrow> build i = Inr g \<Longrightarrow> graph_ok (node_list i) (dep_list i) g"
begin

text \<open>The loop invariant: the flat list is sorted and consists of nodes; the pending
  nodes are exactly the other nodes whose dependencies are all in it.\<close>

definition flat_inv :: "'i \<Rightarrow> 'r flat_state \<Rightarrow> bool" where
  "flat_inv i st \<longleftrightarrow>
     (\<exists>flat. fst st = map Some flat \<and> distinct flat \<and> set flat \<subseteq> set (node_list i) \<and>
        dep_sorted (dep_list i) flat \<and> distinct (snd st) \<and>
        set (snd st) = Some ` {m \<in> set (node_list i). m \<notin> set flat \<and> set (dep_list i m) \<subseteq> set flat})"

lemma flat_inv_init:
  assumes "valid i" and "build i = Inr g"
  shows "flat_inv i ([], foldl (\<lambda>s x. set_add x s) [] (dependents g None))"
proof -
  have "graph_ok (node_list i) (dep_list i) g" using assms by (rule build_ok)
  then show ?thesis
    using ps.fold_add [of "[]" "\<lambda>x. True" "dependents g None"]
    by (auto simp: flat_inv_def graph_ok_def)
qed

lemma flat_inv_step:
  assumes v: "valid i" and g: "build i = Inr g" and inv: "flat_inv i st" and ne: "snd st \<noteq> []"
  shows "flat_inv i (flatten_step pick g st) \<and>
         length (fst (flatten_step pick g st)) = Suc (length (fst st))"
proof -
  let ?N = "set (node_list i)" and ?D = "dep_list i"
  have ok: "graph_ok (node_list i) ?D g" using v g by (rule build_ok)
  obtain flat where f: "fst st = map Some flat" "distinct flat" "set flat \<subseteq> ?N" "dep_sorted ?D flat"
    "distinct (snd st)" "set (snd st) = Some ` {m \<in> ?N. m \<notin> set flat \<and> set (?D m) \<subseteq> set flat}"
    using inv unfolding flat_inv_def by blast
  obtain node zeros where pop: "set_pop (pick (fst st)) (snd st) = (node, zeros)" by fastforce
  have "node \<in> set (snd st)" and zeros: "set zeros = set (snd st) - {node}" "distinct zeros"
    using ps.pop_in [OF f(5) _ pop] ps.pop_rest [OF f(5) _ pop] ne by simp_all
  then obtain x where x: "node = Some x" "x \<in> ?N" "x \<notin> set flat" "set (?D x) \<subseteq> set flat"
    using f(6) by auto
  let ?flat = "flat @ [x]"
  let ?P = "\<lambda>d. \<forall>e \<in> set (deps g d). e \<in> set (map Some ?flat)"
  have step: "flatten_step pick g st =
      (map Some ?flat, foldl (\<lambda>z d. if ?P d then set_add d z else z) zeros (dependents g (Some x)))"
    using pop x(1) f(1) by (cases st) (simp add: flatten_step_def)
  have dpt: "{d \<in> set (dependents g (Some x)). ?P d} =
      Some ` {m \<in> ?N. x \<in> set (?D m) \<and> set (?D m) \<subseteq> set ?flat}"
  proof -
    have dm: "set (deps g (Some m)) = Some ` set (?D m)" if "m \<in> ?N" "x \<in> set (?D m)" for m
      using ok that by (auto simp: graph_ok_def)
    have "?P (Some m) \<longleftrightarrow> set (?D m) \<subseteq> set ?flat" if "m \<in> ?N" "x \<in> set (?D m)" for m
      unfolding dm [OF that] by auto
    moreover have "set (dependents g (Some x)) = Some ` {m \<in> ?N. x \<in> set (?D m)}"
      using ok x(2) by (simp add: graph_ok_def)
    ultimately show ?thesis by auto
  qed
  have notin: "m \<notin> set ?flat" if "x \<in> set (?D m)" for m
    using that x(3,4) dep_sorted_closed [OF f(4), of m] by auto
  have "set zeros \<union> {d \<in> set (dependents g (Some x)). ?P d} =
      Some ` {m \<in> ?N. m \<notin> set ?flat \<and> set (?D m) \<subseteq> set ?flat}"
    unfolding dpt zeros(1) f(6) x(1) using x(4) notin by fastforce
  moreover have "dep_sorted ?D ?flat" using f(4) x(4) by (simp add: dep_sorted_snoc)
  ultimately have "flat_inv i (flatten_step pick g st)"
    unfolding flat_inv_def step using f(2,3) x(2,3) ps.fold_add [OF zeros(2), of ?P]
    by (intro exI [of _ ?flat]) auto
  then show ?thesis using step f(1) by simp
qed

lemma flatten_terminates:
  assumes v: "valid i" and g: "build i = Inr g"
  shows "\<exists>flat. FlattenToList pick g None = Some (map Some flat) \<and> flat_inv i (map Some flat, [])"
proof -
  let ?b = "\<lambda>(flat_list :: 'r option list, in_degree_zeros :: 'r option list). in_degree_zeros \<noteq> []"
  let ?s = "([], foldl (\<lambda>s x. set_add x s) [] (dependents g None))"
  have bound: "length (fst st) \<le> length (node_list i)" if "flat_inv i st" for st
  proof -
    from that obtain flat where "fst st = map Some flat" "distinct flat" "set flat \<subseteq> set (node_list i)"
      unfolding flat_inv_def by blast
    then show ?thesis by (metis card_length card_mono distinct_card finite_set length_map le_trans)
  qed
  have "\<exists>t. while_option ?b (flatten_step pick g) ?s = Some t"
  proof (rule measure_while_option_Some [where P = "flat_inv i"
        and f = "\<lambda>st. length (node_list i) - length (fst st)"])
    fix st assume "flat_inv i st" and "?b st"
    then have s: "flat_inv i (flatten_step pick g st)"
      "length (fst (flatten_step pick g st)) = Suc (length (fst st))"
      using flat_inv_step [OF v g] by (auto split: prod.splits)
    with bound [OF s(1)] show "flat_inv i (flatten_step pick g st) \<and>
        length (node_list i) - length (fst (flatten_step pick g st))
          < length (node_list i) - length (fst st)" by simp
  qed (rule flat_inv_init [OF v g])
  then obtain t where t: "while_option ?b (flatten_step pick g) ?s = Some t" by blast
  have "flat_inv i t"
    by (rule while_option_rule [where P = "flat_inv i", OF _ t flat_inv_init [OF v g]])
      (use flat_inv_step [OF v g] in \<open>auto split: prod.splits\<close>)
  moreover have "snd t = []" using while_option_stop [OF t] by (auto split: prod.splits)
  ultimately show ?thesis
    using t by (cases t) (auto simp: FlattenToList_def flat_inv_def)
qed

text \<open>The flat list is complete exactly when the dependencies have no cycle.\<close>

lemma flat_complete_iff:
  assumes v: "valid i" and g: "build i = Inr g" and inv: "flat_inv i (map Some flat, [])"
  shows "length flat = length (node_list i) \<longleftrightarrow> acyclic (depends_on (node_list i) (dep_list i))"
    and "length flat = length (node_list i) \<longleftrightarrow> set flat = set (node_list i)"
proof -
  let ?N = "node_list i" and ?D = "dep_list i"
  have ok: "graph_ok ?N ?D g" using v g by (rule build_ok)
  from inv have f: "distinct flat" "set flat \<subseteq> set ?N" "dep_sorted ?D flat"
    and full: "{m \<in> set ?N. m \<notin> set flat \<and> set (?D m) \<subseteq> set flat} = {}"
    by (auto simp: flat_inv_def inj_map_eq_map)
  have dN: "distinct ?N" using ok by (simp add: graph_ok_def)
  show eq: "length flat = length ?N \<longleftrightarrow> set flat = set ?N"
    using f(1,2) dN by (metis card_subset_eq distinct_card finite_set)
  have "set flat = set ?N" if ac: "acyclic (depends_on ?N ?D)"
  proof -
    have "finite (depends_on ?N ?D)"
      by (rule finite_subset [of _ "set ?N \<times> set ?N"])
        (use ok in \<open>auto simp: depends_on_def graph_ok_def\<close>)
    then have "wf (depends_on ?N ?D)" using ac by (rule finite_acyclic_wf)
    then have "m \<in> set ?N \<longrightarrow> m \<in> set flat" for m
    proof (induction m)
      case (less m)
      show ?case
      proof
        assume m: "m \<in> set ?N"
        then have "set (?D m) \<subseteq> set flat"
          using less.IH ok by (auto simp: depends_on_def graph_ok_def)
        with full m show "m \<in> set flat" by blast
      qed
    qed
    with f(2) show ?thesis by blast
  qed
  moreover have "acyclic (depends_on ?N ?D)" if "set flat = set ?N"
    using dep_sorted_acyclic [OF f(3,1)] that by simp
  ultimately show "length flat = length ?N \<longleftrightarrow> acyclic (depends_on ?N ?D)" using eq by blast
qed

end

subsection \<open>The target graph\<close>

type_synonym targets = "(string \<times> gdict) list"

text \<open>
  \<open>dependency_nodes.get(dependency)\<close>: any hashable object can be asked for, and only names
  are found.  An object of another class is shown by its class.
\<close>

definition link_dep :: "string list \<Rightarrow> string \<Rightarrow> string dgraph \<Rightarrow> gval \<Rightarrow> string dgraph res" where
  "link_dep names target g v =
     (let missing = (\<lambda>shown. Inl (GypError (''Dependency '' @ [ch_squote] @ shown @ [ch_squote] @
              '' not found while trying to load target '' @ target))) in
      case v of
        GStr dependency \<Rightarrow>
          if dependency \<notin> set names then missing dependency
          else Inr (add_dep g (Some target) (Some dependency))
      | GInt i \<Rightarrow> missing (show_int i)
      | GOther c b \<Rightarrow> missing c
      | _ \<Rightarrow> Inl (TypeError (''unhashable type: '' @ class_name v)))"

definition link_target :: "string list \<Rightarrow> string dgraph \<Rightarrow> string \<times> gdict \<Rightarrow> string dgraph res" where
  "link_target names g p =
     (let (target, spec) = p in
      case get spec ''dependencies'' of
        None \<Rightarrow> Inr (add_root_dep g (Some target))
      | Some dependencies \<Rightarrow>
          if \<not> truthy dependencies then Inr (add_root_dep g (Some target))
          else bindE (as_list dependencies) (foldE (link_dep names target) g))"

definition build_graph :: "targets \<Rightarrow> string dgraph res" where
  "build_graph targets = foldE (link_target (map fst targets)) empty_graph targets"

definition BuildDependencyList ::
  "(string option list \<Rightarrow> string option list \<Rightarrow> nat) \<Rightarrow> targets \<Rightarrow> (string dgraph \<times> string list) res option" where
  "BuildDependencyList pick targets =
     (case build_graph targets of
        Inl e \<Rightarrow> Some (Inl e)
      | Inr g \<Rightarrow>
          (case FlattenToList pick g None of
             None \<Rightarrow> None
           | Some flat_list \<Rightarrow>
               if length flat_list \<noteq> length targets
               then Some (Inl (CircularException
                      (''Some targets not reachable, cycle in dependency graph detected: '' @
                       join_with '' '' (filter (\<lambda>t. Some t \<notin> set flat_list) (map fst targets)))))
               else Some (Inr (g, map the flat_list))))"

subsection \<open>The graph of build files\<close>

text \<open>
  \<open>'%s' % file\<close> of a build file, \<open>None\<close> for a name without one.  The names of targets always
  have a build file, so the message on a cycle never joins a \<open>None\<close>, which would fail.
\<close>

definition show_opt :: "string option \<Rightarrow> string" where
  "show_opt s = (case s of None \<Rightarrow> ''None'' | Some x \<Rightarrow> x)"

definition file_nodes :: "targets \<Rightarrow> string option list" where
  "file_nodes targets = foldl (\<lambda>s x. set_add x s) [] (map (\<lambda>p. BuildFile (fst p)) targets)"

definition link_file ::
  "string option list \<Rightarrow> string option \<Rightarrow> string option dgraph \<Rightarrow> gval \<Rightarrow> string option dgraph res" where
  "link_file files build_file g v =
     bindE (as_str v) (\<lambda>dependency.
       let dependency_build_file = BuildFile dependency in
       if dependency_build_file = build_file then Inr g
       else if dependency_build_file \<notin> set files
       then Inl (GypError (''Dependancy '' @ [ch_squote] @ show_opt dependency_build_file @ [ch_squote] @ '' not found''))
       else if Some dependency_build_file \<in> set (deps g (Some build_file)) then Inr g
       else Inr (add_dep g (Some build_file) (Some dependency_build_file)))"

definition link_file_target ::
  "string option list \<Rightarrow> string option dgraph \<Rightarrow> string \<times> gdict \<Rightarrow> string option dgraph res" where
  "link_file_target files g p =
     (let (target, spec) = p in
      bindE (get_list spec ''dependencies'') (foldE (link_file files (BuildFile target)) g))"

definition link_files_root :: "string option list \<Rightarrow> string option dgraph \<Rightarrow> string option dgraph" where
  "link_files_root files g =
     foldl (\<lambda>g f. if deps g (Some f) = [] then add_root_dep g (Some f) else g) g files"

definition build_file_graph :: "targets \<Rightarrow> string option dgraph res" where
  "build_file_graph targets =
     (let files = file_nodes targets in
      bindE (foldE (link_file_target files) empty_graph targets) (\<lambda>g. Inr (link_files_root files g)))"

definition VerifyNoGYPFileCircularDependencies ::
  "(string option option list \<Rightarrow> string option option list \<Rightarrow> nat) \<Rightarrow> targets \<Rightarrow> unit res option" where
  "VerifyNoGYPFileCircularDependencies pick targets =
     (case build_file_graph targets of
        Inl e \<Rightarrow> Some (Inl e)
      | Inr g \<Rightarrow>
          (case FlattenToList pick g None of
             None \<Rightarrow> None
           | Some flat_list \<Rightarrow>
               if length flat_list \<noteq> length (file_nodes targets)
               then Some (Inl (CircularException
                      (''Some files not reachable, cycle in .gyp file dependency graph detected involving some or all of: '' @
                       join_with '' '' (map show_opt (filter (\<lambda>f. Some f \<notin> set flat_list) (file_nodes targets))))))
               else Some (Inr ())))"

subsection \<open>Both builders keep their promise\<close>

text \<open>The edges \<open>R\<close> (dependent, dependency) and the nodes \<open>Z\<close> under the root that a graph holds.\<close>

definition holds_edges :: "('r \<times> 'r) set \<Rightarrow> 'r set \<Rightarrow> 'r dgraph \<Rightarrow> bool" where
  "holds_edges R Z g \<longleftrightarrow>
     (\<forall>m. set (deps g (Some m)) = Some ` {n. (m, n) \<in> R} \<union> (if m \<in> Z then {None} else {})) \<and>
     set (dependents g None) = Some ` Z \<and>
     (\<forall>n. set (dependents g (Some n)) = Some ` {m. (m, n) \<in> R})"

lemma holds_edges_empty: "holds_edges {} {} empty_graph"
  by (simp add: holds_edges_def empty_graph_def)

lemma holds_edges_add:
  "holds_edges R Z g \<Longrightarrow> holds_edges (insert (m, n) R) Z (add_dep g (Some m) (Some n))"
  by (auto simp: holds_edges_def add_dep_def)

lemma holds_edges_root:
  "holds_edges R Z g \<Longrightarrow> (\<And>n. (m, n) \<notin> R) \<Longrightarrow> holds_edges R (insert m Z) (add_root_dep g (Some m))"
  by (auto simp: holds_edges_def add_root_dep_def)

lemma holds_edges_graph_ok:
  assumes "holds_edges {(m, n). m \<in> set N \<and> n \<in> set (D m)} {m \<in> set N. D m = []} g"
    and "distinct N" and "\<forall>m \<in> set N. set (D m) \<subseteq> set N"
  shows "graph_ok N D g"
  using assms unfolding holds_edges_def graph_ok_def by auto

fun str_items :: "gval list \<Rightarrow> string list" where
  "str_items [] = []"
| "str_items (GStr s # xs) = s # str_items xs"
| "str_items (_ # xs) = str_items xs"

definition spec_names :: "gdict \<Rightarrow> string list" where
  "spec_names spec = (case get spec ''dependencies'' of Some (GList l) \<Rightarrow> str_items l | _ \<Rightarrow> [])"

definition dep_names :: "targets \<Rightarrow> string \<Rightarrow> string list" where
  "dep_names targets t = (case dict_get targets t of None \<Rightarrow> [] | Some spec \<Rightarrow> spec_names spec)"

lemma link_deps_edges:
  "foldE (link_dep names t) g l = Inr g' \<Longrightarrow> holds_edges R Z g \<Longrightarrow>
   holds_edges (R \<union> {(t, n) |n. n \<in> set (str_items l)}) Z g' \<and> set (str_items l) \<subseteq> set names \<and>
   l = map GStr (str_items l)"
proof (induction l arbitrary: g R)
  case (Cons v l)
  then obtain g1 where g1: "link_dep names t g v = Inr g1"
    and rest1: "foldE (link_dep names t) g1 l = Inr g'" by (auto simp: bindE_Inr_iff)
  then obtain d where v: "v = GStr d" "d \<in> set names"
    and rest: "foldE (link_dep names t) (add_dep g (Some t) (Some d)) l = Inr g'"
    by (auto simp: link_dep_def Let_def split: if_splits gval.splits)
  have "insert (t, d) R \<union> {(t, n) |n. n \<in> set (str_items l)} =
      R \<union> {(t, n) |n. n \<in> set (str_items (v # l))}" using v by auto
  with Cons.IH [OF rest holds_edges_add [OF Cons.prems(2)]] v show ?case by auto
qed simp

lemma link_target_cases:
  assumes "link_target names g (t, spec) = Inr g'"
  obtains l where "get spec ''dependencies'' = Some (GList l)" "l \<noteq> []"
      "foldE (link_dep names t) g l = Inr g'"
  | "spec_names spec = []" "g' = add_root_dep g (Some t)"
proof (cases "get spec ''dependencies''")
  case None
  with assms that(2) show thesis by (simp add: link_target_def spec_names_def)
next
  case (Some v)
  show thesis
  proof (cases "truthy v")
    case True
    with assms Some obtain l where "v = GList l" "foldE (link_dep names t) g l = Inr g'"
      by (auto simp: link_target_def bindE_Inr_iff)
    with Some True that(1) show thesis by simp
  next
    case False
    with assms Some that(2) show thesis
      by (cases v) (simp_all add: link_target_def spec_names_def)
  qed
qed

lemma link_target_edges:
  assumes "link_target names g (t, spec) = Inr g'" and "holds_edges R Z g" and "\<And>n. (t, n) \<notin> R"
  shows "holds_edges (R \<union> {(t, n) |n. n \<in> set (spec_names spec)})
           (if spec_names spec = [] then insert t Z else Z) g' \<and>
         set (spec_names spec) \<subseteq> set names"
  using assms(1)
proof (cases rule: link_target_cases)
  case (1 l)
  then have n: "spec_names spec = str_items l" by (simp add: spec_names_def)
  have e: "holds_edges (R \<union> {(t, n) |n. n \<in> set (str_items l)}) Z g'"
    "set (str_items l) \<subseteq> set names" "l = map GStr (str_items l)"
    using link_deps_edges [OF 1(3) assms(2)] by blast+
  with 1(2) have "str_items l \<noteq> []" by (metis map_is_Nil_conv)
  with e(1,2) n show ?thesis by simp
next
  case 2
  then show ?thesis using holds_edges_root [OF assms(2,3)] by simp
qed

lemma link_targets_edges:
  "foldE (link_target names) g ts = Inr g' \<Longrightarrow> holds_edges R Z g \<Longrightarrow> distinct (map fst ts) \<Longrightarrow>
   (\<And>m n. (m, n) \<in> R \<Longrightarrow> m \<notin> fst ` set ts) \<Longrightarrow>
   holds_edges (R \<union> {(m, n). \<exists>spec. (m, spec) \<in> set ts \<and> n \<in> set (spec_names spec)})
     (Z \<union> {m. \<exists>spec. (m, spec) \<in> set ts \<and> spec_names spec = []}) g' \<and>
   (\<forall>(m, spec) \<in> set ts. set (spec_names spec) \<subseteq> set names)"
proof (induction ts arbitrary: g R Z)
  case (Cons p ts)
  obtain t spec where p: "p = (t, spec)" by (cases p)
  from Cons.prems(1) p obtain g1 where g1: "link_target names g (t, spec) = Inr g1"
    and rest: "foldE (link_target names) g1 ts = Inr g'" by (auto simp: bindE_Inr_iff)
  let ?R = "R \<union> {(t, n) |n. n \<in> set (spec_names spec)}"
  let ?Z = "if spec_names spec = [] then insert t Z else Z"
  have nt: "(t, n) \<notin> R" for n using Cons.prems(4) [of t n] p by auto
  have e: "holds_edges ?R ?Z g1" "set (spec_names spec) \<subseteq> set names"
    using link_target_edges [OF g1 Cons.prems(2) nt] by auto
  have fresh: "m \<notin> fst ` set ts" if "(m, n) \<in> ?R" for m n
    using that Cons.prems(3,4) p by auto
  have "?R \<union> {(m, n). \<exists>spec. (m, spec) \<in> set ts \<and> n \<in> set (spec_names spec)} =
      R \<union> {(m, n). \<exists>spec. (m, spec) \<in> set (p # ts) \<and> n \<in> set (spec_names spec)}" using p by auto
  moreover have "?Z \<union> {m. \<exists>spec. (m, spec) \<in> set ts \<and> spec_names spec = []} =
      Z \<union> {m. \<exists>spec. (m, spec) \<in> set (p # ts) \<and> spec_names spec = []}" using p by auto
  ultimately show ?case
    using Cons.IH [OF rest e(1) _ fresh] Cons.prems(3) e(2) p by simp
qed simp

lemma build_graph_ok:
  assumes "dict_wf targets" and "build_graph targets = Inr g"
  shows "graph_ok (map fst targets) (dep_names targets) g"
proof (rule holds_edges_graph_ok)
  have names: "dep_names targets m = spec_names spec" if "(m, spec) \<in> set targets" for m spec
    using dict_get_in [OF assms(1) that] by (simp add: dep_names_def)
  have e: "holds_edges {(m, n). \<exists>spec. (m, spec) \<in> set targets \<and> n \<in> set (spec_names spec)}
      {m. \<exists>spec. (m, spec) \<in> set targets \<and> spec_names spec = []} g"
    "\<forall>(m, spec) \<in> set targets. set (spec_names spec) \<subseteq> set (map fst targets)"
    using link_targets_edges [OF assms(2) [unfolded build_graph_def] holds_edges_empty] assms(1)
    by (auto simp: dict_wf_def)
  have "{(m, n). \<exists>spec. (m, spec) \<in> set targets \<and> n \<in> set (spec_names spec)} =
      {(m, n). m \<in> set (map fst targets) \<and> n \<in> set (dep_names targets m)}"
    "{m. \<exists>spec. (m, spec) \<in> set targets \<and> spec_names spec = []} =
      {m \<in> set (map fst targets). dep_names targets m = []}"
    using names by force+
  with e(1) show "holds_edges {(m, n). m \<in> set (map fst targets) \<and> n \<in> set (dep_names targets m)}
      {m \<in> set (map fst targets). dep_names targets m = []} g" by simp
  show "\<forall>m \<in> set (map fst targets). set (dep_names targets m) \<subseteq> set (map fst targets)"
    using e(2) names by fastforce
qed (use assms(1) in \<open>simp add: dict_wf_def\<close>)

interpretation tg: graph_builder build_graph "map fst" dep_names dict_wf
  by unfold_locales (rule build_graph_ok)

definition file_deps_of :: "string option \<Rightarrow> gdict \<Rightarrow> string option list" where
  "file_deps_of f spec = filter (\<lambda>d. d \<noteq> f) (map BuildFile (spec_names spec))"

definition file_dep_names :: "targets \<Rightarrow> string option \<Rightarrow> string option list" where
  "file_dep_names targets f =
     concat (map (\<lambda>(t, spec). if BuildFile t = f then file_deps_of f spec else []) targets)"

lemma link_file_edges:
  assumes "link_file files f g v = Inr g'" and "holds_edges R {} g"
  shows "\<exists>d. v = GStr d \<and>
           holds_edges (if BuildFile d = f then R else insert (f, BuildFile d) R) {} g' \<and>
           (BuildFile d \<noteq> f \<longrightarrow> BuildFile d \<in> set files)"
proof -
  from assms(1) obtain d where d: "v = GStr d" by (auto simp: link_file_def bindE_Inr_iff)
  have "insert (f, BuildFile d) R = R" if "Some (BuildFile d) \<in> set (deps g (Some f))"
    using that assms(2) by (auto simp: holds_edges_def)
  then show ?thesis
    using assms d holds_edges_add [OF assms(2), of f "BuildFile d"]
    by (auto simp: link_file_def Let_def split: if_splits)
qed

lemma link_file_list_edges:
  "foldE (link_file files f) g l = Inr g' \<Longrightarrow> holds_edges R {} g \<Longrightarrow>
   holds_edges (R \<union> {(f, d) |d. d \<in> BuildFile ` set (str_items l) \<and> d \<noteq> f}) {} g' \<and>
   (\<forall>d \<in> BuildFile ` set (str_items l). d \<noteq> f \<longrightarrow> d \<in> set files)"
proof (induction l arbitrary: g R)
  case (Cons v l)
  then obtain g1 where g1: "link_file files f g v = Inr g1" and rest: "foldE (link_file files f) g1 l = Inr g'"
    by (auto simp: bindE_Inr_iff)
  from link_file_edges [OF g1 Cons.prems(2)] obtain d where d: "v = GStr d"
    and e: "holds_edges (if BuildFile d = f then R else insert (f, BuildFile d) R) {} g1"
    and m: "BuildFile d \<noteq> f \<longrightarrow> BuildFile d \<in> set files" by blast
  let ?R = "if BuildFile d = f then R else insert (f, BuildFile d) R"
  have "?R \<union> {(f, d) |d. d \<in> BuildFile ` set (str_items l) \<and> d \<noteq> f} =
      R \<union> {(f, d) |d. d \<in> BuildFile ` set (str_items (v # l)) \<and> d \<noteq> f}"
    using d by auto
  with Cons.IH [OF rest e] m d show ?case by auto
qed simp

lemma link_file_target_edges:
  assumes "link_file_target files g (t, spec) = Inr g'" and "holds_edges R {} g"
  shows "holds_edges (R \<union> {(BuildFile t, d) |d. d \<in> set (file_deps_of (BuildFile t) spec)}) {} g' \<and>
         set (file_deps_of (BuildFile t) spec) \<subseteq> set files"
proof -
  from assms(1) obtain l where l: "get_list spec ''dependencies'' = Inr l"
    and f: "foldE (link_file files (BuildFile t)) g l = Inr g'"
    by (auto simp: link_file_target_def bindE_Inr_iff)
  have "spec_names spec = str_items l"
    using l by (auto simp: get_list_def spec_names_def split: option.splits)
  then have "set (file_deps_of (BuildFile t) spec) = {d \<in> BuildFile ` set (str_items l). d \<noteq> BuildFile t}"
    by (auto simp: file_deps_of_def)
  with link_file_list_edges [OF f assms(2)] show ?thesis by auto
qed

lemma link_file_targets_edges:
  "foldE (link_file_target files) g ts = Inr g' \<Longrightarrow> holds_edges R {} g \<Longrightarrow>
   holds_edges (R \<union> {(f, d). d \<in> set (file_dep_names ts f)}) {} g' \<and>
   (\<forall>f. set (file_dep_names ts f) \<subseteq> set files)"
proof (induction ts arbitrary: g R)
  case Nil
  then show ?case by (simp add: file_dep_names_def)
next
  case (Cons p ts)
  obtain t spec where p: "p = (t, spec)" by (cases p)
  from Cons.prems(1) p obtain g1 where g1: "link_file_target files g (t, spec) = Inr g1"
    and rest: "foldE (link_file_target files) g1 ts = Inr g'" by (auto simp: bindE_Inr_iff)
  let ?R = "R \<union> {(BuildFile t, d) |d. d \<in> set (file_deps_of (BuildFile t) spec)}"
  have n: "set (file_dep_names (p # ts) f) =
      (if f = BuildFile t then set (file_deps_of f spec) else {}) \<union> set (file_dep_names ts f)" for f
    by (auto simp: file_dep_names_def p)
  have "?R \<union> {(f, d). d \<in> set (file_dep_names ts f)} = R \<union> {(f, d). d \<in> set (file_dep_names (p # ts) f)}"
    using n by (auto split: if_splits)
  with link_file_target_edges [OF g1 Cons.prems(2)] Cons.IH [OF rest, of ?R] n
  show ?case by auto
qed

lemma link_files_root_edges:
  "distinct files \<Longrightarrow> holds_edges R Z g \<Longrightarrow> set files \<inter> Z = {} \<Longrightarrow>
    holds_edges R (Z \<union> {f \<in> set files. \<forall>d. (f, d) \<notin> R}) (link_files_root files g)"
proof (induction files arbitrary: g Z)
  case Nil
  then show ?case by (simp add: link_files_root_def)
next
  case (Cons f files)
  have f: "deps g (Some f) = [] \<longleftrightarrow> (\<forall>d. (f, d) \<notin> R)"
    using Cons.prems(2,3) by (auto simp: holds_edges_def simp flip: set_empty)
  show ?case
  proof (cases "\<forall>d. (f, d) \<notin> R")
    case True
    then have e: "holds_edges R (insert f Z) (add_root_dep g (Some f))"
      by (intro holds_edges_root Cons.prems(2)) simp
    have "insert f Z \<union> {f \<in> set files. \<forall>d. (f, d) \<notin> R} = Z \<union> {x \<in> set (f # files). \<forall>d. (x, d) \<notin> R}"
      using True by auto
    moreover have "link_files_root (f # files) g = link_files_root files (add_root_dep g (Some f))"
      using True f by (simp add: link_files_root_def)
    ultimately show ?thesis
      using Cons.IH [OF _ e] Cons.prems(1,3) by simp
  next
    case False
    then have "Z \<union> {f \<in> set files. \<forall>d. (f, d) \<notin> R} = Z \<union> {x \<in> set (f # files). \<forall>d. (x, d) \<notin> R}" by auto
    moreover have "deps g (Some f) \<noteq> []" using False f by blast
    then have "link_files_root (f # files) g = link_files_root files g"
      by (simp add: link_files_root_def)
    ultimately show ?thesis using Cons.IH [OF _ Cons.prems(2)] Cons.prems(1,3) by simp
  qed
qed

lemma file_nodes_props: "distinct (file_nodes targets) \<and> set (file_nodes targets) = BuildFile ` fst ` set targets"
  using ps.fold_add [of "[]" "\<lambda>x. True" "map (\<lambda>p. BuildFile (fst p)) targets"]
  by (simp add: file_nodes_def image_image)

lemma build_file_graph_ok:
  assumes "build_file_graph targets = Inr g"
  shows "graph_ok (file_nodes targets) (file_dep_names targets) g"
proof (rule holds_edges_graph_ok)
  from assms obtain g1 where g1: "foldE (link_file_target (file_nodes targets)) empty_graph targets = Inr g1"
    and g: "g = link_files_root (file_nodes targets) g1"
    by (auto simp: build_file_graph_def Let_def bindE_Inr_iff)
  let ?R = "{(f, d). d \<in> set (file_dep_names targets f)}"
  have e: "holds_edges ?R {} g1" and c: "\<forall>f. set (file_dep_names targets f) \<subseteq> set (file_nodes targets)"
    using link_file_targets_edges [OF g1 holds_edges_empty] by auto
  have "file_dep_names targets f = []" if "f \<notin> set (file_nodes targets)" for f
    using that file_nodes_props [of targets] by (force simp: file_dep_names_def)
  then have node: "f \<in> set (file_nodes targets)" if "d \<in> set (file_dep_names targets f)" for f d
    using that by (cases "f \<in> set (file_nodes targets)") auto
  then have R: "?R = {(m, n). m \<in> set (file_nodes targets) \<and> n \<in> set (file_dep_names targets m)}"
    by blast
  have Z: "{f \<in> set (file_nodes targets). \<forall>d. (f, d) \<notin> ?R} =
      {m \<in> set (file_nodes targets). file_dep_names targets m = []}"
    by (simp add: all_not_in_conv flip: set_empty)
  have "holds_edges ?R ({} \<union> {f \<in> set (file_nodes targets). \<forall>d. (f, d) \<notin> ?R}) g"
    unfolding g by (rule link_files_root_edges [OF _ e]) (simp_all add: file_nodes_props)
  then show "holds_edges {(m, n). m \<in> set (file_nodes targets) \<and> n \<in> set (file_dep_names targets m)}
      {m \<in> set (file_nodes targets). file_dep_names targets m = []} g"
    unfolding Z unfolding R by simp
  show "\<forall>m \<in> set (file_nodes targets). set (file_dep_names targets m) \<subseteq> set (file_nodes targets)"
    using c by blast
qed (simp add: file_nodes_props)

interpretation fg: graph_builder build_file_graph file_nodes file_dep_names "\<lambda>targets. True"
  by unfold_locales (rule build_file_graph_ok)

lemma BuildDependencyList_result:
  assumes "dict_wf targets" and "build_graph targets = Inr g"
  obtains flat where "FlattenToList pick g None = Some (map Some flat)"
    and "tg.flat_inv targets (map Some flat, [])"
    and "BuildDependencyList pick targets =
      (if acyclic (depends_on (map fst targets) (dep_names targets)) then Some (Inr (g, flat))
       else Some (Inl (CircularException
              (''Some targets not reachable, cycle in dependency graph detected: '' @
               join_with '' '' (filter (\<lambda>t. t \<notin> set flat) (map fst targets))))))"
proof -
  obtain flat where f: "FlattenToList pick g None = Some (map Some flat)"
    "tg.flat_inv targets (map Some flat, [])"
    using tg.flatten_terminates [OF assms] by blast
  have "length flat = length targets \<longleftrightarrow> acyclic (depends_on (map fst targets) (dep_names targets))"
    using tg.flat_complete_iff(1) [OF assms f(2)] by simp
  moreover have "map the (map Some flat) = flat" by (simp add: comp_def)
  moreover have "(\<lambda>t. Some t \<notin> set (map Some flat)) = (\<lambda>t. t \<notin> set flat)" by auto
  ultimately show thesis
    using that [OF f] assms(2) f(1) by (simp add: BuildDependencyList_def)
qed

lemmas graph_eval = BuildDependencyList_def build_graph_def link_target_def link_dep_def add_dep_def
  add_root_dep_def empty_graph_def adj_append_def adj_def FlattenToList_def while_option_unfold
  flatten_step_def set_pop_def set_add_def build_file_graph_def file_nodes_def link_file_target_def
  link_file_def link_files_root_def get_list_def BuildFile_eq Let_def

lemma flat_list_sorted:
  assumes "dict_wf targets" and "BuildDependencyList pick targets = Some (Inr (g, flat_list))"
  shows "distinct flat_list \<and> set flat_list = set (map fst targets) \<and>
         dep_sorted (dep_names targets) flat_list"
proof -
  from assms(2) have g: "build_graph targets = Inr g"
    by (auto simp: BuildDependencyList_def split: sum.splits option.splits if_splits)
  obtain flat where inv: "tg.flat_inv targets (map Some flat, [])"
    and r: "BuildDependencyList pick targets =
      (if acyclic (depends_on (map fst targets) (dep_names targets)) then Some (Inr (g, flat))
       else Some (Inl (CircularException
              (''Some targets not reachable, cycle in dependency graph detected: '' @
               join_with '' '' (filter (\<lambda>t. t \<notin> set flat) (map fst targets))))))"
    by (rule BuildDependencyList_result [OF assms(1) g])
  from r assms(2) have "acyclic (depends_on (map fst targets) (dep_names targets))"
    and "flat_list = flat" by (auto split: if_splits)
  with tg.flat_complete_iff [OF assms(1) g inv] inv show ?thesis
    by (auto simp: tg.flat_inv_def inj_map_eq_map)
qed

subsection \<open>Properties\<close>

text \<open>
  (C3) The list \<open>BuildDependencyList\<close> returns contains every target exactly once, and
  every target comes after all of its dependencies, whichever element each
  \<open>set.pop\<close> takes.
\<close>

theorem BuildDependencyList_sorted:
  assumes "dict_wf targets" and "BuildDependencyList pick targets = Some (Inr (g, flat_list))"
  shows "distinct flat_list \<and> set flat_list = set (map fst targets) \<and>
         dep_sorted (dep_names targets) flat_list"
  by (rule flat_list_sorted [OF assms])

theorem BuildDependencyList_sorted_witness:
  "\<exists>g. BuildDependencyList (\<lambda>_ _. 0)
         [(''a'', [(KStr ''dependencies'', GList [GStr ''b''])]), (''b'', [])] =
       Some (Inr (g, [''b'', ''a''])) \<and>
     dep_sorted (dep_names [(''a'', [(KStr ''dependencies'', GList [GStr ''b''])]), (''b'', [])])
       [''b'', ''a'']"
proof -
  let ?t = "[(''a'', [(KStr ''dependencies'', GList [GStr ''b''])]), (''b'', [])]"
  have r: "BuildDependencyList (\<lambda>_ _. 0) ?t =
      Some (Inr (\<lparr>g_deps = [(Some ''a'', [Some ''b'']), (Some ''b'', [None])],
        g_dependents = [(Some ''b'', [Some ''a'']), (None, [Some ''b''])]\<rparr>, [''b'', ''a'']))"
    by (simp add: graph_eval)
  with BuildDependencyList_sorted [OF _ r] show ?thesis by (simp add: dict_wf_def)
qed

text \<open>
  (C4) Cycle detection is exact and always terminates: once all dependencies are
  found, \<open>BuildDependencyList\<close> returns a list if the dependency relation is
  acyclic and raises \<open>CircularException\<close> if it is not, for every choice of the
  popped elements.
\<close>

theorem BuildDependencyList_decides_cycles:
  assumes "dict_wf targets" and "build_graph targets = Inr g"
  shows "if acyclic (depends_on (map fst targets) (dep_names targets))
         then \<exists>flat_list. BuildDependencyList pick targets = Some (Inr (g, flat_list))
         else \<exists>m. BuildDependencyList pick targets = Some (Inl (CircularException m))"
  by (rule BuildDependencyList_result [OF assms, of pick]) auto

theorem BuildDependencyList_decides_cycles_witness:
  "let t = [(''a'', [(KStr ''dependencies'', GList [GStr ''a''])])] in
   if acyclic (depends_on (map fst t) (dep_names t))
   then \<exists>flat_list. BuildDependencyList (\<lambda>_ _. 0) t = Some (Inr
          (\<lparr>g_deps = [(Some ''a'', [Some ''a''])], g_dependents = [(Some ''a'', [Some ''a''])]\<rparr>,
           flat_list))
   else \<exists>m. BuildDependencyList (\<lambda>_ _. 0) t = Some (Inl (CircularException m))"
  unfolding Let_def
proof (rule BuildDependencyList_decides_cycles)
  show "build_graph [(''a'', [(KStr ''dependencies'', GList [GStr ''a''])])] =
      Inr \<lparr>g_deps = [(Some ''a'', [Some ''a''])], g_dependents = [(Some ''a'', [Some ''a''])]\<rparr>"
    by (simp add: graph_eval)
qed (simp add: dict_wf_def)

text \<open>
  (C35) \<open>VerifyNoGYPFileCircularDependencies\<close> always terminates, and, once every
  dependency's build file is known, it accepts exactly when no cycle runs through
  different build files (a file may refer to itself).
\<close>

theorem VerifyNoGYPFileCircularDependencies_exact:
  assumes "build_file_graph targets = Inr g"
  shows "if acyclic (depends_on (file_nodes targets) (file_dep_names targets))
         then VerifyNoGYPFileCircularDependencies pick targets = Some (Inr ())
         else \<exists>m. VerifyNoGYPFileCircularDependencies pick targets = Some (Inl (CircularException m))"
proof -
  obtain flat where f: "FlattenToList pick g None = Some (map Some flat)"
    "fg.flat_inv targets (map Some flat, [])"
    using fg.flatten_terminates [OF TrueI assms] by blast
  have "length flat = length (file_nodes targets) \<longleftrightarrow>
      acyclic (depends_on (file_nodes targets) (file_dep_names targets))"
    by (rule fg.flat_complete_iff(1) [OF TrueI assms f(2)])
  with assms f(1) show ?thesis
    by (simp add: VerifyNoGYPFileCircularDependencies_def)
qed

theorem VerifyNoGYPFileCircularDependencies_exact_witness:
  "let t = [(''f:a'', [(KStr ''dependencies'', GList [GStr ''f:b''])]), (''f:b'', [])] in
   if acyclic (depends_on (file_nodes t) (file_dep_names t))
   then VerifyNoGYPFileCircularDependencies (\<lambda>_ _. 0) t = Some (Inr ())
   else \<exists>m. VerifyNoGYPFileCircularDependencies (\<lambda>_ _. 0) t = Some (Inl (CircularException m))"
  unfolding Let_def
proof (rule VerifyNoGYPFileCircularDependencies_exact)
  show "build_file_graph [(''f:a'', [(KStr ''dependencies'', GList [GStr ''f:b''])]), (''f:b'', [])] =
      Inr \<lparr>g_deps = [(Some (Some ''f''), [None])], g_dependents = [(None, [Some (Some ''f'')])]\<rparr>"
    by (simp add: graph_eval)
qed

end
