(* ===== verification/Input_Deps.thy ===== *)
theory Input_Deps
  imports Input_Graph
begin

text \<open>
  The searches of \<open>DependencyGraphNode\<close> in \<open>tools/gyp/pylib/gyp/input.py\<close>
  (\<open>DirectDependencies\<close>, \<open>_AddImportedDependencies\<close>,
  \<open>DirectAndImportedDependencies\<close>, \<open>DeepDependencies\<close>, \<open>LinkDependencies\<close>) and
  \<open>AdjustStaticLibraryDependencies\<close>.  Each search carries the list of names found
  so far, and the recursive ones are nested: the list a recursive call returns is
  the list the loop goes on with.  They stop because the names of a graph are
  finitely many and a call is made only for a name not yet in the list.
\<close>

subsection \<open>Direct dependencies\<close>

fun DirectDependencies :: "'r option list \<Rightarrow> 'r list \<Rightarrow> 'r list" where
  "DirectDependencies [] dependencies = dependencies"
| "DirectDependencies (d # ds) dependencies =
     (case d of
        None \<Rightarrow> DirectDependencies ds dependencies
      | Some r \<Rightarrow>
          if r \<in> set dependencies then DirectDependencies ds dependencies
          else DirectDependencies ds (dependencies @ [r]))"

lemma set_DirectDependencies: "set (DirectDependencies ds acc) = set acc \<union> {r. Some r \<in> set ds}"
  by (induction ds acc rule: DirectDependencies.induct) (auto split: option.splits)

lemma distinct_DirectDependencies: "distinct acc \<Longrightarrow> distinct (DirectDependencies ds acc)"
  by (induction ds acc rule: DirectDependencies.induct) (auto split: option.splits)

subsection \<open>Deep dependencies\<close>

text \<open>All names that occur in the adjacency lists: a finite set that bounds every search.\<close>

definition adj_names :: "('r option \<times> 'r option list) list \<Rightarrow> 'r set" where
  "adj_names d = {r. \<exists>(n, l) \<in> set d. Some r \<in> set l}"

lemma finite_somes [simp]: "finite {r. Some r \<in> set l}"
proof -
  have "{r. Some r \<in> set l} = Some -` set l" by auto
  then show ?thesis by (simp add: finite_vimageI)
qed

lemma finite_adj_names [simp]: "finite (adj_names d)"
proof -
  have "adj_names d = (\<Union>p \<in> set d. {r. Some r \<in> set (snd p)})"
    by (auto simp: adj_names_def)
  then show ?thesis by simp
qed

lemma adj_in_names: "Some r \<in> set (adj d n) \<Longrightarrow> r \<in> adj_names d"
proof -
  assume r: "Some r \<in> set (adj d n)"
  then obtain l where "dict_get d n = Some l" "Some r \<in> set l"
    by (cases "dict_get d n") (auto simp: adj_def)
  then show ?thesis by (auto simp: adj_names_def dest: dict_get_Some_in)
qed

text \<open>
  \<open>DeepDependencies\<close>: the loop over the dependencies of a node; the recursive call
  is the loop over the dependencies of the one just added.
\<close>

function DeepLoop :: "'r dgraph \<Rightarrow> 'r option list \<Rightarrow> 'r list \<Rightarrow> 'r list" where
  "DeepLoop g [] dependencies = dependencies"
| "DeepLoop g (None # ds) dependencies = DeepLoop g ds dependencies"
| "DeepLoop g (Some r # ds) dependencies =
     (if r \<in> set dependencies then DeepLoop g ds dependencies
      else DeepLoop g ds (DeepLoop g (deps g (Some r)) (dependencies @ [r])))"
  by pat_completeness auto

lemma DeepLoop_grows: "DeepLoop_dom (g, ds, acc) \<Longrightarrow> set acc \<subseteq> set (DeepLoop g ds acc)"
  by (induction g ds acc rule: DeepLoop.pinduct) (force simp: DeepLoop.psimps)+

text \<open>A bound on the names still to be found: those of the graph and of the list at hand.\<close>

definition unseen :: "'r dgraph \<Rightarrow> 'r option list \<Rightarrow> 'r list \<Rightarrow> 'r set" where
  "unseen g ds acc = (adj_names (g_deps g) \<union> {r. Some r \<in> set ds}) - set acc"

lemma finite_unseen [simp]: "finite (unseen g ds acc)"
  by (simp add: unseen_def)

lemma unseen_smaller:
  assumes "r \<notin> set acc" and "Some r \<in> set ds" and "set acc \<union> {r} \<subseteq> set acc'"
    and "unseen g ds' acc' \<subseteq> unseen g ds acc'"
  shows "card (unseen g ds' acc') < card (unseen g ds acc)"
proof (rule psubset_card_mono)
  have "unseen g ds acc' \<subseteq> unseen g ds acc" "r \<in> unseen g ds acc" "r \<notin> unseen g ds acc'"
    using assms(1-3) by (auto simp: unseen_def)
  then show "unseen g ds' acc' \<subset> unseen g ds acc" using assms(4) by blast
qed simp

termination DeepLoop
proof (relation "measures [\<lambda>(g, ds, acc). card (unseen g ds acc), \<lambda>(g, ds, acc). length ds]")
  fix g :: "'r dgraph" and ds :: "'r option list" and acc :: "'r list"
  have "card (unseen g ds acc) \<le> card (unseen g (None # ds) acc)"
    by (rule card_mono) (auto simp: unseen_def)
  then show "((g, ds, acc), g, None # ds, acc)
      \<in> measures [\<lambda>(g, ds, acc). card (unseen g ds acc), \<lambda>(g, ds, acc). length ds]" by auto
next
  fix g :: "'r dgraph" and r and ds :: "'r option list" and acc :: "'r list"
  have "card (unseen g ds acc) \<le> card (unseen g (Some r # ds) acc)"
    by (rule card_mono) (auto simp: unseen_def)
  then show "((g, ds, acc), g, Some r # ds, acc)
      \<in> measures [\<lambda>(g, ds, acc). card (unseen g ds acc), \<lambda>(g, ds, acc). length ds]" by auto
next
  fix g :: "'r dgraph" and r and ds :: "'r option list" and acc :: "'r list"
  assume r: "r \<notin> set acc"
  have "card (unseen g (deps g (Some r)) (acc @ [r])) < card (unseen g (Some r # ds) acc)"
    using r by (intro unseen_smaller) (auto simp: unseen_def dest: adj_in_names)
  then show "((g, deps g (Some r), acc @ [r]), g, Some r # ds, acc)
      \<in> measures [\<lambda>(g, ds, acc). card (unseen g ds acc), \<lambda>(g, ds, acc). length ds]" by auto
next
  fix g :: "'r dgraph" and r and ds :: "'r option list" and acc :: "'r list"
  assume r: "r \<notin> set acc" and dom: "DeepLoop_dom (g, deps g (Some r), acc @ [r])"
  have "card (unseen g ds (DeepLoop g (deps g (Some r)) (acc @ [r]))) < card (unseen g (Some r # ds) acc)"
    using r DeepLoop_grows [OF dom] by (intro unseen_smaller) (auto simp: unseen_def)
  then show "((g, ds, DeepLoop g (deps g (Some r)) (acc @ [r])), g, Some r # ds, acc)
      \<in> measures [\<lambda>(g, ds, acc). card (unseen g ds acc), \<lambda>(g, ds, acc). length ds]" by auto
qed simp

definition DeepDependencies :: "'r dgraph \<Rightarrow> 'r option \<Rightarrow> 'r list" where
  "DeepDependencies g self = DeepLoop g (deps g self) []"

text \<open>The names an edge of the graph leads to; \<open>dep_step\<close> is the relation between names.\<close>

definition dep_step :: "'r dgraph \<Rightarrow> ('r \<times> 'r) set" where
  "dep_step g = {(m, n). Some n \<in> set (deps g (Some m))}"

lemma distinct_DeepLoop: "distinct acc \<Longrightarrow> distinct (DeepLoop g ds acc)"
  by (induction g ds acc rule: DeepLoop.induct) auto

lemma DeepLoop_mono: "set acc \<subseteq> set (DeepLoop g ds acc)"
  by (induction g ds acc rule: DeepLoop.induct) (auto split: if_splits)

lemma DeepLoop_covers: "Some r \<in> set ds \<Longrightarrow> r \<in> set (DeepLoop g ds acc)"
proof (induction g ds acc rule: DeepLoop.induct)
  case (3 g r' ds acc)
  show ?case
  proof (cases "r' \<in> set acc")
    case True
    with 3 DeepLoop_mono [of acc g ds] show ?thesis by auto
  next
    case False
    with 3 DeepLoop_mono [of "acc @ [r']" g "deps g (Some r')"]
      DeepLoop_mono [of "DeepLoop g (deps g (Some r')) (acc @ [r'])" g ds]
    show ?thesis by auto
  qed
qed auto

text \<open>Whatever is new in the result has all its dependencies in the result.\<close>

lemma DeepLoop_closed:
  "x \<in> set (DeepLoop g ds acc) \<Longrightarrow> x \<notin> set acc \<Longrightarrow> (x, y) \<in> dep_step g \<Longrightarrow>
    y \<in> set (DeepLoop g ds acc)"
proof (induction g ds acc rule: DeepLoop.induct)
  case (3 g r ds acc)
  show ?case
  proof (cases "r \<in> set acc")
    case True
    with 3 show ?thesis by simp
  next
    case False
    let ?mid = "DeepLoop g (deps g (Some r)) (acc @ [r])"
    have res: "DeepLoop g (Some r # ds) acc = DeepLoop g ds ?mid" using False by simp
    show ?thesis
    proof (cases "x \<in> set ?mid")
      case False
      with 3 \<open>r \<notin> set acc\<close> res show ?thesis by simp
    next
      case True
      have "y \<in> set ?mid"
      proof (cases "x = r")
        case True
        with 3(6) show ?thesis by (auto simp: dep_step_def intro: DeepLoop_covers)
      next
        case xr: False
        with 3 \<open>r \<notin> set acc\<close> True show ?thesis by simp
      qed
      with DeepLoop_mono [of ?mid g ds] res show ?thesis by auto
    qed
  qed
qed auto

lemma DeepLoop_sound:
  "x \<in> set (DeepLoop g ds acc) \<Longrightarrow>
    x \<in> set acc \<or> (\<exists>r. Some r \<in> set ds \<and> (r, x) \<in> (dep_step g)\<^sup>*)"
proof (induction g ds acc arbitrary: x rule: DeepLoop.induct)
  case (3 g r ds acc)
  show ?case
  proof (cases "r \<in> set acc")
    case True
    with 3 show ?thesis by auto
  next
    case False
    let ?mid = "DeepLoop g (deps g (Some r)) (acc @ [r])"
    have "x \<in> set ?mid \<or> (\<exists>s. Some s \<in> set ds \<and> (s, x) \<in> (dep_step g)\<^sup>*)"
      using 3(3) [OF False] 3(4) False by simp
    moreover have "x \<in> set acc \<or> x = r \<or> (\<exists>s. Some s \<in> set (deps g (Some r)) \<and> (s, x) \<in> (dep_step g)\<^sup>*)"
      if "x \<in> set ?mid" using 3(2) [OF False that] by auto
    moreover have "(r, x) \<in> (dep_step g)\<^sup>*"
      if "Some s \<in> set (deps g (Some r))" "(s, x) \<in> (dep_step g)\<^sup>*" for s
      using that by (auto simp: dep_step_def intro: converse_rtrancl_into_rtrancl)
    ultimately show ?thesis by auto
  qed
qed auto

lemma set_DeepDependencies: "set (DeepDependencies g (Some t)) = {x. (t, x) \<in> (dep_step g)\<^sup>+}"
proof (intro set_eqI iffI)
  fix x assume "x \<in> set (DeepDependencies g (Some t))"
  then obtain r where "(t, r) \<in> dep_step g" "(r, x) \<in> (dep_step g)\<^sup>*"
    using DeepLoop_sound [of x g "deps g (Some t)" "[]"] by (auto simp: DeepDependencies_def dep_step_def)
  then show "x \<in> {x. (t, x) \<in> (dep_step g)\<^sup>+}" by (simp add: rtrancl_into_trancl2)
next
  fix x assume "x \<in> {x. (t, x) \<in> (dep_step g)\<^sup>+}"
  then have "(t, x) \<in> (dep_step g)\<^sup>+" by simp
  then show "x \<in> set (DeepDependencies g (Some t))"
  proof (induction rule: trancl_induct)
    case (base y)
    then show ?case by (auto simp: DeepDependencies_def dep_step_def intro: DeepLoop_covers)
  next
    case (step y z)
    then show ?case
      unfolding DeepDependencies_def using DeepLoop_closed [of y g "deps g (Some t)" "[]" z] by simp
  qed
qed

subsection \<open>Imported dependencies\<close>

definition targetE :: "targets \<Rightarrow> string \<Rightarrow> gdict res" where
  "targetE targets t = (case dict_get targets t of None \<Rightarrow> Inl (KeyError t) | Some d \<Rightarrow> Inr d)"

text \<open>\<open>list.insert\<close>: an index past the end appends.\<close>

definition insert_at :: "nat \<Rightarrow> 'a \<Rightarrow> 'a list \<Rightarrow> 'a list" where
  "insert_at i x xs = take i xs @ x # drop i xs"

lemma set_of_insert_at [simp]: "set (insert_at i x xs) = insert x (set xs)"
proof -
  have "set xs = set (take i xs) \<union> set (drop i xs)" by (metis append_take_drop_id set_append)
  then show ?thesis by (auto simp: insert_at_def)
qed

lemma distinct_insert_at [simp]: "distinct (insert_at i x xs) \<longleftrightarrow> x \<notin> set xs \<and> distinct xs"
proof -
  define a b where "a = take i xs" and "b = drop i xs"
  then have "xs = a @ b" by simp
  then show ?thesis unfolding insert_at_def a_def [symmetric] b_def [symmetric] by auto
qed

lemma length_insert_at [simp]: "length (insert_at i x xs) = Suc (length xs)"
  by (simp add: insert_at_def)

lemma take_insert_at: "j \<le> i \<Longrightarrow> j \<le> length xs \<Longrightarrow> take j (insert_at i x xs) = take j xs"
  by (simp add: insert_at_def min_def)

text \<open>The inner loop over the dependencies that one dependency exports.\<close>

fun import_from :: "nat \<Rightarrow> nat \<Rightarrow> string list \<Rightarrow> string list \<Rightarrow> string list" where
  "import_from index add_index [] dependencies = dependencies"
| "import_from index add_index (imported # rest) dependencies =
     (if imported \<in> set dependencies then import_from index add_index rest dependencies
      else import_from index (add_index + 1) rest (insert_at (index + add_index) imported dependencies))"

lemma set_import_from [simp]: "set (import_from i a l ds) = set l \<union> set ds"
  by (induction i a l ds rule: import_from.induct) auto

lemma distinct_import_from [simp]: "distinct (import_from i a l ds) \<longleftrightarrow> distinct ds"
  by (induction i a l ds rule: import_from.induct) auto

lemma take_import_from: "0 < a \<Longrightarrow> i < length ds \<Longrightarrow> take (Suc i) (import_from i a l ds) = take (Suc i) ds"
  by (induction i a l ds rule: import_from.induct) (auto simp: take_insert_at)

lemma length_import_from: "length ds \<le> length (import_from i a l ds)"
  by (induction i a l ds rule: import_from.induct) auto

definition exports :: "gdict \<Rightarrow> string list res" where
  "exports d = bindE (get_list d ''export_dependent_settings'') (mapE as_str)"

text \<open>All the names any target exports; they bound the loop.\<close>

definition export_names :: "targets \<Rightarrow> string set" where
  "export_names targets = (\<Union>(t, d) \<in> set targets. case exports d of Inr l \<Rightarrow> set l | Inl e \<Rightarrow> {})"

lemma finite_export_names [simp]: "finite (export_names targets)"
  by (auto simp: export_names_def split: sum.splits)

lemma targetE_Inr [simp]: "targetE targets t = Inr d \<longleftrightarrow> dict_get targets t = Some d"
  by (simp add: targetE_def split: option.splits)

lemma exports_in_names:
  "dict_get targets t = Some d \<Longrightarrow> exports d = Inr l \<Longrightarrow> set l \<subseteq> export_names targets"
  by (force simp: export_names_def dest: dict_get_Some_in)

function AddImportedDependencies :: "targets \<Rightarrow> nat \<Rightarrow> string list \<Rightarrow> string list res" where
  "AddImportedDependencies targets index dependencies =
     (if index < length dependencies
      then bindE (targetE targets (dependencies ! index)) (\<lambda>dependency_dict.
           bindE (exports dependency_dict) (\<lambda>imported.
             AddImportedDependencies targets (index + 1) (import_from index 1 imported dependencies)))
      else Inr dependencies)"
  by pat_completeness auto

termination AddImportedDependencies
proof (relation "measures [\<lambda>(ts, i, ds). card (export_names ts - set ds), \<lambda>(ts, i, ds). length ds - i]")
  fix targets :: targets and index and ds :: "string list" and d l
  assume i: "index < length ds" and "targetE targets (ds ! index) = Inr d" and "exports d = Inr l"
  then have sub: "set l \<subseteq> export_names targets"
    by (metis exports_in_names targetE_Inr)
  show "((targets, index + 1, import_from index 1 l ds), targets, index, ds)
      \<in> measures [\<lambda>(ts, i, ds). card (export_names ts - set ds), \<lambda>(ts, i, ds). length ds - i]"
  proof (cases "set l \<subseteq> set ds")
    case True
    then have "import_from index a l ds = ds" for a by (induction l) auto
    with i show ?thesis by simp
  next
    case False
    with sub have "export_names targets - (set l \<union> set ds) \<subset> export_names targets - set ds" by blast
    then have "card (export_names targets - (set l \<union> set ds)) < card (export_names targets - set ds)"
      by (intro psubset_card_mono) simp_all
    then show ?thesis by simp
  qed
qed simp

declare AddImportedDependencies.simps [simp del]

definition DirectAndImportedDependencies ::
  "string dgraph \<Rightarrow> targets \<Rightarrow> string option \<Rightarrow> string list res" where
  "DirectAndImportedDependencies g targets self =
     AddImportedDependencies targets 0 (DirectDependencies (deps g self) [])"

text \<open>\<open>(t, x)\<close>: the target \<open>t\<close> exports the settings of \<open>x\<close>.\<close>

definition export_step :: "targets \<Rightarrow> (string \<times> string) set" where
  "export_step targets = {(t, x). \<exists>d l. dict_get targets t = Some d \<and> exports d = Inr l \<and> x \<in> set l}"

lemma AddImported_sound:
  "AddImportedDependencies targets i ds = Inr r \<Longrightarrow>
    set ds \<subseteq> set r \<and> (distinct ds \<longrightarrow> distinct r) \<and>
    (\<forall>x \<in> set r. \<exists>d \<in> set ds. (d, x) \<in> (export_step targets)\<^sup>*)"
proof (induction targets i ds rule: AddImportedDependencies.induct)
  case (1 targets i ds)
  show ?case
  proof (cases "i < length ds")
    case False
    with "1.prems" show ?thesis by (subst (asm) AddImportedDependencies.simps) auto
  next
    case True
    with "1.prems" obtain d l where d: "dict_get targets (ds ! i) = Some d" and l: "exports d = Inr l"
      and rest: "AddImportedDependencies targets (i + 1) (import_from i 1 l ds) = Inr r"
      by (subst (asm) AddImportedDependencies.simps) (auto simp: bindE_Inr_iff)
    have IH: "set (import_from i 1 l ds) \<subseteq> set r \<and> (distinct (import_from i 1 l ds) \<longrightarrow> distinct r) \<and>
        (\<forall>x \<in> set r. \<exists>d \<in> set (import_from i 1 l ds). (d, x) \<in> (export_step targets)\<^sup>*)"
      using d l rest by (intro "1.IH" [OF True, of d l]) simp_all
    have "(ds ! i, e) \<in> export_step targets" if "e \<in> set l" for e
      using that d l by (auto simp: export_step_def)
    then have "\<exists>d \<in> set ds. (d, x) \<in> (export_step targets)\<^sup>*" if "x \<in> set r" for x
      using IH that True by (metis Un_iff converse_rtrancl_into_rtrancl nth_mem set_import_from)
    with IH show ?thesis by simp
  qed
qed

lemma AddImported_closed:
  "AddImportedDependencies targets i ds = Inr r \<Longrightarrow>
    (\<forall>x \<in> set (take i ds). \<forall>y. (x, y) \<in> export_step targets \<longrightarrow> y \<in> set ds) \<Longrightarrow>
    x \<in> set r \<Longrightarrow> (x, y) \<in> export_step targets \<Longrightarrow> y \<in> set r"
proof (induction targets i ds rule: AddImportedDependencies.induct)
  case (1 targets i ds)
  show ?case
  proof (cases "i < length ds")
    case False
    with "1.prems" show ?thesis by (subst (asm) AddImportedDependencies.simps) auto
  next
    case True
    with "1.prems"(1) obtain d l where d: "dict_get targets (ds ! i) = Some d" and l: "exports d = Inr l"
      and rest: "AddImportedDependencies targets (i + 1) (import_from i 1 l ds) = Inr r"
      by (subst (asm) AddImportedDependencies.simps) (auto simp: bindE_Inr_iff)
    have tk: "take (i + 1) (import_from i 1 l ds) = take i ds @ [ds ! i]"
      using True take_import_from [of 1 i ds l] by (simp add: take_Suc_conv_app_nth)
    have "\<forall>x \<in> set (take (i + 1) (import_from i 1 l ds)). \<forall>y. (x, y) \<in> export_step targets \<longrightarrow>
        y \<in> set (import_from i 1 l ds)"
      unfolding tk using "1.prems"(2) d l by (auto simp: export_step_def)
    with d l rest "1.prems"(3,4) show ?thesis
      by (intro "1.IH" [OF True, of d l]) simp_all
  qed
qed

lemma AddImported_total:
  "set ds \<subseteq> fst ` set targets \<Longrightarrow>
   (\<forall>(t, d) \<in> set targets. \<exists>l. exports d = Inr l \<and> set l \<subseteq> fst ` set targets) \<Longrightarrow>
   \<exists>r. AddImportedDependencies targets i ds = Inr r"
proof (induction targets i ds rule: AddImportedDependencies.induct)
  case (1 targets i ds)
  show ?case
  proof (cases "i < length ds")
    case False
    then show ?thesis by (subst AddImportedDependencies.simps) simp
  next
    case True
    with "1.prems"(1) have "ds ! i \<in> fst ` set targets" by (meson nth_mem subsetD)
    then have "dict_get targets (ds ! i) \<noteq> None"
      by (auto simp: dict_get_def map_of_eq_None_iff)
    then obtain d where d: "dict_get targets (ds ! i) = Some d" by blast
    with "1.prems"(2) obtain l where l: "exports d = Inr l" "set l \<subseteq> fst ` set targets"
      by (fastforce dest: dict_get_Some_in)
    have "\<exists>r. AddImportedDependencies targets (i + 1) (import_from i 1 l ds) = Inr r"
      using d l "1.prems" by (intro "1.IH" [OF True, of d l]) auto
    with True d l(1) show ?thesis by (subst AddImportedDependencies.simps) (simp add: targetE_def)
  qed
qed

lemma DirectAndImported_closure:
  assumes "DirectAndImportedDependencies g targets self = Inr r"
  shows "distinct r"
    and "set r = {x. \<exists>d. Some d \<in> set (deps g self) \<and> (d, x) \<in> (export_step targets)\<^sup>*}"
proof -
  let ?ds = "DirectDependencies (deps g self) []"
  have a: "AddImportedDependencies targets 0 ?ds = Inr r"
    using assms by (simp add: DirectAndImportedDependencies_def)
  note s = AddImported_sound [OF a]
  show "distinct r" using s by (simp add: distinct_DirectDependencies)
  have "x \<in> set r" if "d \<in> set ?ds" "(d, x) \<in> (export_step targets)\<^sup>*" for d x
    using that(2,1)
  proof (induction rule: rtrancl_induct)
    case base
    with s show ?case by blast
  next
    case (step y z)
    with AddImported_closed [OF a, of y z] show ?case by simp
  qed
  with s show "set r = {x. \<exists>d. Some d \<in> set (deps g self) \<and> (d, x) \<in> (export_step targets)\<^sup>*}"
    by (auto simp: set_DirectDependencies)
qed

subsection \<open>Link dependencies\<close>

text \<open>The text of a value in an error message; a container is abbreviated to its class.\<close>

definition str_of :: "gval \<Rightarrow> string" where
  "str_of v = (case v of GStr s \<Rightarrow> s | GInt i \<Rightarrow> show_int i | _ \<Rightarrow> class_name v)"

definition type_in :: "gval \<Rightarrow> string list \<Rightarrow> bool" where
  "type_in v types = (v \<in> GStr ` set types)"

definition link_type :: "gdict \<Rightarrow> gval res" where
  "link_type d =
     (case get d ''target_name'' of
        None \<Rightarrow> Inl (GypError (''Missing '' @ [ch_squote] @ ''target_name'' @ [ch_squote] @ '' field in target.''))
      | Some n \<Rightarrow>
          (case get d ''type'' of
             None \<Rightarrow> Inl (GypError (''Missing '' @ [ch_squote] @ ''type'' @ [ch_squote] @ '' field in target '' @ str_of n))
           | Some t \<Rightarrow> Inr t))"

definition no_traverse :: "gdict \<Rightarrow> gval \<Rightarrow> bool" where
  "no_traverse d target_type =
     (target_type = GStr ''none'' \<and>
      \<not> (case get d ''dependencies_traverse'' of None \<Rightarrow> True | Some v \<Rightarrow> truthy v))"

text \<open>
  What \<open>LinkDependencies\<close> does at one node before its loop: the list it has then,
  and whether the loop over the node's dependencies follows.
\<close>

definition link_visit :: "targets \<Rightarrow> bool \<Rightarrow> string \<Rightarrow> string list \<Rightarrow> (bool \<times> string list) res" where
  "link_visit targets initial ref dependencies =
     bindE (targetE targets ref) (\<lambda>d. bindE (link_type d) (\<lambda>target_type.
       let is_linkable = type_in target_type linkable_types in
       if initial \<and> \<not> is_linkable then Inr (False, dependencies)
       else if no_traverse d target_type
       then Inr (False, if ref \<in> set dependencies then dependencies else dependencies @ [ref])
       else if \<not> initial \<and> type_in target_type [''executable'', ''loadable_module'']
       then Inr (False, dependencies)
       else if ref \<in> set dependencies then Inr (False, dependencies)
       else Inr (initial \<or> \<not> is_linkable, dependencies @ [ref])))"

lemma link_visit_result:
  "link_visit targets initial ref acc = Inr (b, acc') \<Longrightarrow>
    (acc' = acc \<and> \<not> b) \<or> (ref \<notin> set acc \<and> acc' = acc @ [ref])"
  by (auto simp: link_visit_def Let_def bindE_Inr_iff split: if_splits)

function LinkLoop :: "string dgraph \<Rightarrow> targets \<Rightarrow> string option list \<Rightarrow> string list \<Rightarrow> string list res" where
  "LinkLoop g targets [] dependencies = Inr dependencies"
| "LinkLoop g targets (None # ds) dependencies = LinkLoop g targets ds dependencies"
| "LinkLoop g targets (Some r # ds) dependencies =
     (case link_visit targets False r dependencies of
        Inl e \<Rightarrow> Inl e
      | Inr (further, dependencies') \<Rightarrow>
          (if further
           then case LinkLoop g targets (deps g (Some r)) dependencies' of
                  Inl e \<Rightarrow> Inl e
                | Inr dependencies'' \<Rightarrow> LinkLoop g targets ds dependencies''
           else LinkLoop g targets ds dependencies'))"
  by pat_completeness auto

lemma LinkLoop_grows:
  "LinkLoop_dom (g, targets, ds, acc) \<Longrightarrow> LinkLoop g targets ds acc = Inr r \<Longrightarrow> set acc \<subseteq> set r"
proof (induction g targets ds acc arbitrary: r rule: LinkLoop.pinduct)
  case (3 g targets n ds acc)
  note res = "3.prems" [unfolded LinkLoop.psimps(3) [OF "3.hyps"]]
  from res obtain b acc' where v: "link_visit targets False n acc = Inr (b, acc')"
    by (auto split: sum.splits)
  have "set acc \<subseteq> set acc'" using link_visit_result [OF v] by auto
  moreover have "set acc' \<subseteq> set r"
  proof (cases b)
    case True
    with res v obtain m where m: "LinkLoop g targets (deps g (Some n)) acc' = Inr m"
      and "LinkLoop g targets ds m = Inr r" by (auto split: sum.splits)
    with "3.IH"(1) [OF v refl True m] "3.IH"(2) [OF v refl True m] show ?thesis by blast
  next
    case False
    with res v "3.IH"(3) [OF v refl False] show ?thesis by simp
  qed
  ultimately show ?case by blast
qed (auto simp: LinkLoop.psimps)

lemma unseen_tail: "card (unseen g ds acc') \<le> card (unseen g (d # ds) acc)" if "set acc \<subseteq> set acc'"
  using that by (intro card_mono [OF finite_unseen]) (auto simp: unseen_def)

termination LinkLoop
proof (relation "measures [\<lambda>(g, ts, ds, acc). card (unseen g ds acc), \<lambda>(g, ts, ds, acc). length ds]",
    goal_cases)
  case (2 g targets ds acc)
  then show ?case using unseen_tail [of acc acc g ds None] by auto
next
  case (3 g targets n ds acc p b acc')
  then have "n \<notin> set acc" "acc' = acc @ [n]"
    using link_visit_result [of targets False n acc b acc'] by auto
  then have "card (unseen g (deps g (Some n)) acc') < card (unseen g (Some n # ds) acc)"
    by (intro unseen_smaller) (auto simp: unseen_def dest: adj_in_names)
  then show ?case by simp
next
  case (4 g targets n ds acc p b acc' m)
  then have n: "n \<notin> set acc" "acc' = acc @ [n]"
    using link_visit_result [of targets False n acc b acc'] by auto
  have "set acc' \<subseteq> set m" using 4 LinkLoop_grows by blast
  with n have "card (unseen g ds m) < card (unseen g (Some n # ds) acc)"
    by (intro unseen_smaller) (auto simp: unseen_def)
  then show ?case by simp
next
  case (5 g targets n ds acc p b acc')
  then have "set acc \<subseteq> set acc'"
    using link_visit_result [of targets False n acc b acc'] by auto
  then show ?case using unseen_tail [of acc acc' g ds "Some n"] by auto
qed simp

definition LinkDependencies :: "string dgraph \<Rightarrow> targets \<Rightarrow> string option \<Rightarrow> string list res" where
  "LinkDependencies g targets self =
     (case self of
        None \<Rightarrow> Inr []
      | Some ref \<Rightarrow>
          bindE (link_visit targets True ref []) (\<lambda>(further, dependencies).
            if further then LinkLoop g targets (deps g (Some ref)) dependencies else Inr dependencies))"

text \<open>
  The specification: a target is taken unless it is fully linked already, and the
  search goes on through the targets that are not linkable themselves.
\<close>

definition link_info :: "targets \<Rightarrow> string \<Rightarrow> (gdict \<times> gval) option" where
  "link_info targets r =
     (case dict_get targets r of
        None \<Rightarrow> None
      | Some d \<Rightarrow> (case link_type d of Inl e \<Rightarrow> None | Inr t \<Rightarrow> Some (d, t)))"

definition link_taken :: "targets \<Rightarrow> string \<Rightarrow> bool" where
  "link_taken targets r =
     (case link_info targets r of
        None \<Rightarrow> False
      | Some (d, t) \<Rightarrow> \<not> type_in t [''executable'', ''loadable_module''])"

definition link_through :: "targets \<Rightarrow> string \<Rightarrow> bool" where
  "link_through targets r =
     (case link_info targets r of
        None \<Rightarrow> False
      | Some (d, t) \<Rightarrow> \<not> type_in t linkable_types \<and> \<not> no_traverse d t)"

definition link_step :: "string dgraph \<Rightarrow> targets \<Rightarrow> (string \<times> string) set" where
  "link_step g targets =
     {(m, n). link_through targets m \<and> Some n \<in> set (deps g (Some m)) \<and> link_taken targets n}"

lemma link_visit_False:
  assumes "link_visit targets False r acc = Inr (b, acc')"
  shows "acc' = (if link_taken targets r \<and> r \<notin> set acc then acc @ [r] else acc)"
    and "b \<longleftrightarrow> link_through targets r \<and> r \<notin> set acc"
proof -
  from assms obtain d t where d: "link_info targets r = Some (d, t)"
    and i: "dict_get targets r = Some d" "link_type d = Inr t"
    by (auto simp: link_visit_def bindE_Inr_iff link_info_def)
  from assms [symmetric] i have "(b, acc') =
      (if no_traverse d t then (False, if r \<in> set acc then acc else acc @ [r])
       else if type_in t [''executable'', ''loadable_module''] then (False, acc)
       else if r \<in> set acc then (False, acc) else (\<not> type_in t linkable_types, acc @ [r]))"
    by (simp add: link_visit_def targetE_def split: if_splits)
  moreover have "no_traverse d t \<Longrightarrow> \<not> type_in t [''executable'', ''loadable_module'']"
    and "type_in t [''executable'', ''loadable_module''] \<Longrightarrow> type_in t linkable_types"
    by (auto simp: no_traverse_def type_in_def linkable_types_def)
  ultimately show "acc' = (if link_taken targets r \<and> r \<notin> set acc then acc @ [r] else acc)"
    and "b \<longleftrightarrow> link_through targets r \<and> r \<notin> set acc"
    using d by (auto simp: link_taken_def link_through_def split: if_splits)
qed

lemma LinkLoop_ConsE:
  assumes "LinkLoop g targets (Some n # ds) acc = Inr r"
  obtains (follow) m where "link_taken targets n" "link_through targets n" "n \<notin> set acc"
      "link_visit targets False n acc = Inr (True, acc @ [n])"
      "LinkLoop g targets (deps g (Some n)) (acc @ [n]) = Inr m" "LinkLoop g targets ds m = Inr r"
  | (skip) acc' where "acc' = (if link_taken targets n \<and> n \<notin> set acc then acc @ [n] else acc)"
      "n \<in> set acc \<or> \<not> link_through targets n"
      "link_visit targets False n acc = Inr (False, acc')" "LinkLoop g targets ds acc' = Inr r"
proof -
  from assms obtain b acc' where v: "link_visit targets False n acc = Inr (b, acc')"
    by (auto split: sum.splits)
  note info = link_visit_False [OF v] and res = link_visit_result [OF v]
  show thesis
  proof (cases b)
    case True
    with res have acc': "acc' = acc @ [n]" by auto
    with True assms v obtain m where "LinkLoop g targets (deps g (Some n)) acc' = Inr m"
      "LinkLoop g targets ds m = Inr r" by (auto split: sum.splits)
    with True info v acc' show thesis by (intro follow) (auto split: if_splits)
  next
    case False
    with info v assms show thesis by (intro skip [of acc']) auto
  qed
qed

lemma LinkLoop_mono: "LinkLoop g targets ds acc = Inr r \<Longrightarrow> set acc \<subseteq> set r \<and> (distinct acc \<longrightarrow> distinct r)"
proof (induction g targets ds acc arbitrary: r rule: LinkLoop.induct)
  case (3 g targets n ds acc)
  from "3.prems" show ?case
  proof (cases rule: LinkLoop_ConsE)
    case (follow m)
    with "3.IH"(1) [OF follow(4) refl TrueI follow(5)] "3.IH"(2) [OF follow(4) refl TrueI follow(5,6)]
    show ?thesis by auto
  next
    case (skip acc')
    with "3.IH"(3) [OF skip(3) refl _ skip(4)] show ?thesis by (auto split: if_splits)
  qed
qed auto

lemma LinkLoop_covers:
  "LinkLoop g targets ds acc = Inr r \<Longrightarrow> Some s \<in> set ds \<Longrightarrow> link_taken targets s \<Longrightarrow> s \<in> set r"
proof (induction g targets ds acc arbitrary: r rule: LinkLoop.induct)
  case (3 g targets n ds acc)
  from "3.prems"(1) show ?case
  proof (cases rule: LinkLoop_ConsE)
    case (follow m)
    have "n \<in> set m" "set m \<subseteq> set r"
      using LinkLoop_mono [OF follow(5)] LinkLoop_mono [OF follow(6)] by auto
    with "3.IH"(2) [OF follow(4) refl TrueI follow(5,6)] "3.prems"(2,3) show ?thesis by auto
  next
    case (skip acc')
    have "link_taken targets n \<Longrightarrow> n \<in> set r" using skip(1) LinkLoop_mono [OF skip(4)] by (auto split: if_splits)
    with "3.IH"(3) [OF skip(3) refl _ skip(4)] "3.prems"(2,3) show ?thesis by auto
  qed
qed auto

lemma LinkLoop_closed:
  "LinkLoop g targets ds acc = Inr r \<Longrightarrow> x \<in> set r \<Longrightarrow> x \<notin> set acc \<Longrightarrow>
    (x, y) \<in> link_step g targets \<Longrightarrow> y \<in> set r"
proof (induction g targets ds acc arbitrary: r rule: LinkLoop.induct)
  case (3 g targets n ds acc)
  from "3.prems"(1) show ?case
  proof (cases rule: LinkLoop_ConsE)
    case (follow m)
    note m = "3.IH"(1) [OF follow(4) refl TrueI follow(5)]
    note rest = "3.IH"(2) [OF follow(4) refl TrueI follow(5,6)]
    have "y \<in> set m" if "x \<in> set m"
    proof (cases "x = n")
      case True
      with "3.prems"(4) show ?thesis
        by (intro LinkLoop_covers [OF follow(5)]) (auto simp: link_step_def)
    next
      case False
      with m that "3.prems"(3,4) show ?thesis by auto
    qed
    with rest "3.prems" LinkLoop_mono [OF follow(6)] show ?thesis by blast
  next
    case (skip acc')
    have "x \<notin> set acc'"
      using skip(1,2) "3.prems"(3,4) by (auto simp: link_step_def split: if_splits)
    with "3.IH"(3) [OF skip(3) refl _ skip(4)] "3.prems" show ?thesis by blast
  qed
qed auto

lemma LinkLoop_sound:
  "LinkLoop g targets ds acc = Inr r \<Longrightarrow> x \<in> set r \<Longrightarrow>
    x \<in> set acc \<or> (\<exists>s. Some s \<in> set ds \<and> link_taken targets s \<and> (s, x) \<in> (link_step g targets)\<^sup>*)"
proof (induction g targets ds acc arbitrary: r x rule: LinkLoop.induct)
  case (3 g targets n ds acc)
  from "3.prems"(1) show ?case
  proof (cases rule: LinkLoop_ConsE)
    case (follow m)
    have "(n, x) \<in> (link_step g targets)\<^sup>*"
      if "Some s \<in> set (deps g (Some n))" "link_taken targets s" "(s, x) \<in> (link_step g targets)\<^sup>*" for s
      using that follow(2) by (auto simp: link_step_def intro: converse_rtrancl_into_rtrancl)
    then have "x \<in> set acc \<or> (n, x) \<in> (link_step g targets)\<^sup>*" if "x \<in> set m"
      using "3.IH"(1) [OF follow(4) refl TrueI follow(5) that] by auto
    with "3.IH"(2) [OF follow(4) refl TrueI follow(5,6) "3.prems"(2)] follow(1) show ?thesis by auto
  next
    case (skip acc')
    with "3.IH"(3) [OF skip(3) refl _ skip(4) "3.prems"(2)] show ?thesis by (auto split: if_splits)
  qed
qed auto

lemma LinkDependencies_closure:
  assumes "LinkDependencies g targets (Some t) = Inr r"
    and "link_info targets t = Some (d, ty)" and "type_in ty linkable_types"
  shows "distinct r"
    and "set r = insert t {x. \<exists>s. Some s \<in> set (deps g (Some t)) \<and> link_taken targets s \<and>
           (s, x) \<in> (link_step g targets)\<^sup>*}"
proof -
  have "link_visit targets True t [] = Inr (True, [t])"
    using assms(2,3) by (auto simp: link_visit_def link_info_def targetE_def no_traverse_def type_in_def
        linkable_types_def split: option.splits sum.splits)
  with assms(1) have l: "LinkLoop g targets (deps g (Some t)) [t] = Inr r"
    by (simp add: LinkDependencies_def)
  show "distinct r" using LinkLoop_mono [OF l] by simp
  have nt: "(t, y) \<notin> link_step g targets" for y
    using assms(2,3) by (simp add: link_step_def link_through_def)
  have "x \<in> set r" if "Some s \<in> set (deps g (Some t))" "link_taken targets s"
    "(s, x) \<in> (link_step g targets)\<^sup>*" for s x
    using that(3,1,2)
  proof (induction rule: rtrancl_induct)
    case base
    then show ?case by (rule LinkLoop_covers [OF l])
  next
    case (step y z)
    with nt have "y \<notin> set [t]" by auto
    with step LinkLoop_closed [OF l, of y z] show ?case by blast
  qed
  with LinkLoop_sound [OF l] LinkLoop_mono [OF l]
  show "set r = insert t {x. \<exists>s. Some s \<in> set (deps g (Some t)) \<and> link_taken targets s \<and>
           (s, x) \<in> (link_step g targets)\<^sup>*}" by auto
qed

subsection \<open>Settings of dependencies\<close>

text \<open>
  The build file of a qualified target; the code passes it on to path functions,
  which raise on the \<open>None\<close> of an unqualified name.
\<close>

definition file_of :: "string \<Rightarrow> string res" where
  "file_of target =
     (case BuildFile target of
        None \<Rightarrow> Inl (AttributeError ''NoneType'')
      | Some f \<Rightarrow> Inr f)"

definition settings_dependencies ::
  "string \<Rightarrow> targets \<Rightarrow> string dgraph \<Rightarrow> string \<Rightarrow> string list res" where
  "settings_dependencies key targets g target =
     (if key = ''all_dependent_settings'' then Inr (DeepDependencies g (Some target))
      else if key = ''direct_dependent_settings'' then DirectAndImportedDependencies g targets (Some target)
      else if key = ''link_settings'' then LinkDependencies g targets (Some target)
      else Inl (GypError (''DoDependentSettings doesn'' @ [ch_squote] @
             ''t know how to determine dependencies for '' @ key)))"

definition merge_settings ::
  "gyp_env \<Rightarrow> string \<Rightarrow> string \<Rightarrow> string \<Rightarrow> targets \<Rightarrow> string \<Rightarrow> targets res" where
  "merge_settings E key target build_file targets dependency =
     bindE (targetE targets dependency) (\<lambda>dependency_dict.
       case get dependency_dict key of
         None \<Rightarrow> Inr targets
       | Some settings \<Rightarrow>
           bindE (as_dict settings) (\<lambda>settings.
           bindE (targetE targets target) (\<lambda>target_dict.
           bindE (file_of dependency) (\<lambda>dependency_build_file.
           bindE (MergeDicts E target_dict settings build_file dependency_build_file) (\<lambda>merged.
             Inr (dict_set targets target merged))))))"

definition settings_of_target ::
  "gyp_env \<Rightarrow> string \<Rightarrow> string dgraph \<Rightarrow> targets \<Rightarrow> string \<Rightarrow> targets res" where
  "settings_of_target E key g targets target =
     bindE (targetE targets target) (\<lambda>target_dict.
     bindE (file_of target) (\<lambda>build_file.
     bindE (settings_dependencies key targets g target) (\<lambda>dependencies.
       foldE (merge_settings E key target build_file) targets dependencies)))"

definition DoDependentSettings ::
  "gyp_env \<Rightarrow> string \<Rightarrow> string list \<Rightarrow> targets \<Rightarrow> string dgraph \<Rightarrow> targets res" where
  "DoDependentSettings E key flat_list targets g =
     foldE (settings_of_target E key g) targets flat_list"

subsection \<open>Static libraries\<close>

definition is_static :: "gdict \<Rightarrow> bool res" where
  "is_static d = bindE (getE d ''type'') (\<lambda>t. Inr (t = GStr ''static_library''))"

definition is_hard :: "gdict \<Rightarrow> bool" where
  "is_hard d = (case get d ''hard_dependency'' of None \<Rightarrow> False | Some v \<Rightarrow> truthy v)"

text \<open>The loop that takes dependencies out of the list of a static library.\<close>

fun prune_dependencies :: "targets \<Rightarrow> gval list \<Rightarrow> string list \<Rightarrow> string list res" where
  "prune_dependencies targets direct [] = Inr []"
| "prune_dependencies targets direct (dependency # ds) =
     bindE (targetE targets dependency) (\<lambda>dependency_dict.
     bindE (is_static dependency_dict) (\<lambda>static.
       if (static \<and> \<not> is_hard dependency_dict) \<or> (\<not> static \<and> GStr dependency \<notin> set direct)
       then prune_dependencies targets direct ds
       else bindE (prune_dependencies targets direct ds) (\<lambda>rest. Inr (dependency # rest))))"

definition adjust_static ::
  "targets \<Rightarrow> string dgraph \<Rightarrow> string \<Rightarrow> gdict \<Rightarrow> gdict res" where
  "adjust_static targets g target target_dict =
     (case get target_dict ''dependencies'' of
        None \<Rightarrow> Inr target_dict
      | Some original \<Rightarrow>
          bindE (as_list original) (\<lambda>direct.
          bindE (DirectAndImportedDependencies g targets (Some target)) (\<lambda>dependencies.
          bindE (prune_dependencies targets direct dependencies) (\<lambda>kept.
            let d = put target_dict ''dependencies_original'' (GList direct) in
            Inr (if kept \<noteq> [] then put d ''dependencies'' (GList (map GStr kept))
                 else unhook d ''dependencies'')))))"

definition add_link_dependency :: "string \<Rightarrow> gdict \<Rightarrow> string \<Rightarrow> gdict res" where
  "add_link_dependency target target_dict dependency =
     (if dependency = target then Inr target_dict
      else
        let d = (if has_key target_dict (KStr ''dependencies'') then target_dict
                 else put target_dict ''dependencies'' (GList [])) in
        bindE (getE d ''dependencies'') (\<lambda>v. bindE (as_list v) (\<lambda>l.
          Inr (if GStr dependency \<in> set l then d
               else put d ''dependencies'' (GList (l @ [GStr dependency]))))))"

definition adjust_linkable ::
  "targets \<Rightarrow> string dgraph \<Rightarrow> string list \<Rightarrow> bool \<Rightarrow> string \<Rightarrow> gdict \<Rightarrow> gdict res" where
  "adjust_linkable targets g flat_list sort_dependencies target target_dict =
     bindE (LinkDependencies g targets (Some target)) (\<lambda>link_dependencies.
     bindE (foldE (add_link_dependency target) target_dict link_dependencies) (\<lambda>d.
       if sort_dependencies \<and> has_key d (KStr ''dependencies'')
       then bindE (getE d ''dependencies'') (\<lambda>v. bindE (as_list v) (\<lambda>l.
              Inr (put d ''dependencies''
                    (GList (map GStr (filter (\<lambda>dep. GStr dep \<in> set l) (rev flat_list)))))))
       else Inr d))"

definition adjust_dict ::
  "string dgraph \<Rightarrow> string list \<Rightarrow> bool \<Rightarrow> targets \<Rightarrow> string \<Rightarrow> gdict \<Rightarrow> gdict res" where
  "adjust_dict g flat_list sort_dependencies targets target target_dict =
     bindE (getE target_dict ''type'') (\<lambda>target_type.
       if target_type = GStr ''static_library'' then adjust_static targets g target target_dict
       else if type_in target_type linkable_types
       then adjust_linkable targets g flat_list sort_dependencies target target_dict
       else Inr target_dict)"

definition adjust_target ::
  "string dgraph \<Rightarrow> string list \<Rightarrow> bool \<Rightarrow> targets \<Rightarrow> string \<Rightarrow> targets res" where
  "adjust_target g flat_list sort_dependencies targets target =
     bindE (targetE targets target) (\<lambda>target_dict.
     bindE (adjust_dict g flat_list sort_dependencies targets target target_dict) (\<lambda>d.
       Inr (dict_set targets target d)))"

definition AdjustStaticLibraryDependencies ::
  "string list \<Rightarrow> targets \<Rightarrow> string dgraph \<Rightarrow> bool \<Rightarrow> targets res" where
  "AdjustStaticLibraryDependencies flat_list targets g sort_dependencies =
     foldE (adjust_target g flat_list sort_dependencies) targets flat_list"

text \<open>
  The pass changes \<open>dependencies\<close> and \<open>dependencies_original\<close> only.  What it reads of
  the other targets is the rest, so each target is adjusted as if it were alone.
\<close>

definition settings_view :: "gdict \<Rightarrow> string \<Rightarrow> gval option" where
  "settings_view d k = (if k \<in> {''dependencies'', ''dependencies_original''} then None else get d k)"

definition agree :: "targets \<Rightarrow> targets \<Rightarrow> bool" where
  "agree ts ts' \<longleftrightarrow>
     (\<forall>t. map_option settings_view (dict_get ts t) = map_option settings_view (dict_get ts' t))"

lemma settings_view_eqD:
  "settings_view d = settings_view d' \<Longrightarrow> k \<notin> {''dependencies'', ''dependencies_original''} \<Longrightarrow> get d k = get d' k"
  by (metis settings_view_def)

lemma settings_view_put [simp]:
  "settings_view (put d ''dependencies'' v) = settings_view d"
  "settings_view (put d ''dependencies_original'' v) = settings_view d"
  "settings_view (unhook d ''dependencies'') = settings_view d"
  by (auto simp: settings_view_def al.lookup_store fun_eq_iff)

lemma agree_refl [simp]: "agree ts ts"
  by (simp add: agree_def)

lemma agree_bind:
  assumes "agree ts ts'" and "\<And>d d'. settings_view d = settings_view d' \<Longrightarrow> f d = f d'"
  shows "bindE (targetE ts t) f = bindE (targetE ts' t) f"
proof -
  have v: "map_option settings_view (dict_get ts t) = map_option settings_view (dict_get ts' t)"
    using assms(1) by (simp add: agree_def)
  show ?thesis
  proof (cases "dict_get ts t")
    case None
    with v show ?thesis by (simp add: targetE_def)
  next
    case (Some d)
    with v obtain d' where d': "dict_get ts' t = Some d'" and "settings_view d = settings_view d'"
      by (cases "dict_get ts' t") simp_all
    with Some assms(2) [of d d'] show ?thesis by (simp add: targetE_def)
  qed
qed

lemma view_reads:
  assumes "settings_view d = settings_view d'"
  shows "exports d = exports d'" and "link_type d = link_type d'" and "no_traverse d = no_traverse d'"
    and "is_static d = is_static d'" and "is_hard d = is_hard d'"
proof -
  note e = settings_view_eqD [OF assms, of "''export_dependent_settings''"]
    settings_view_eqD [OF assms, of "''target_name''"] settings_view_eqD [OF assms, of "''type''"]
    settings_view_eqD [OF assms, of "''dependencies_traverse''"]
    settings_view_eqD [OF assms, of "''hard_dependency''"]
  show "exports d = exports d'" using e(1) by (simp add: exports_def get_list_def)
  show "link_type d = link_type d'"
    using e(2,3) by (auto simp: link_type_def split: option.splits)
  show "no_traverse d = no_traverse d'" using e(4) by (simp add: no_traverse_def fun_eq_iff)
  show "is_static d = is_static d'" using e(3) by (simp add: is_static_def getE_def)
  show "is_hard d = is_hard d'" using e(5) by (simp add: is_hard_def)
qed

lemma AddImported_agree:
  "agree ts ts' \<Longrightarrow> AddImportedDependencies ts i ds = AddImportedDependencies ts' i ds"
proof (induction ts i ds rule: AddImportedDependencies.induct)
  case (1 ts i ds)
  show ?case
  proof (cases "i < length ds")
    case True
    let ?k = "\<lambda>T d. bindE (exports d) (\<lambda>l. AddImportedDependencies T (i + 1) (import_from i 1 l ds))"
    have "?k ts d = ?k ts' d" if "targetE ts (ds ! i) = Inr d" for d
      using "1.IH" [OF True that _ "1.prems"] by (cases "exports d") simp_all
    then have "bindE (targetE ts (ds ! i)) (?k ts) = bindE (targetE ts (ds ! i)) (?k ts')"
      by (rule bindE_cong [OF refl])
    also have "\<dots> = bindE (targetE ts' (ds ! i)) (?k ts')"
      by (rule agree_bind [OF "1.prems"]) (frule view_reads(1), simp)
    finally show ?thesis
      using True by (subst (1 2) AddImportedDependencies.simps) simp
  next
    case False
    then show ?thesis by (subst (1 2) AddImportedDependencies.simps) simp
  qed
qed

lemma link_visit_agree:
  assumes "agree ts ts'"
  shows "link_visit ts b r acc = link_visit ts' b r acc"
  unfolding link_visit_def
  by (rule agree_bind [OF assms]) (frule view_reads(2), drule view_reads(3), simp only:)

lemma LinkLoop_agree: "agree ts ts' \<Longrightarrow> LinkLoop g ts ds acc = LinkLoop g ts' ds acc"
proof (induction g ts ds acc rule: LinkLoop.induct)
  case (3 g ts n ds acc)
  then show ?case
    by (auto simp: link_visit_agree [OF "3.prems"] split: sum.splits)
qed auto

lemma LinkDependencies_agree:
  assumes "agree ts ts'"
  shows "LinkDependencies g ts t = LinkDependencies g ts' t"
  unfolding LinkDependencies_def link_visit_agree [OF assms] LinkLoop_agree [OF assms] ..

lemma prune_agree:
  assumes "agree ts ts'"
  shows "prune_dependencies ts direct ds = prune_dependencies ts' direct ds"
proof (induction ds)
  case (Cons x ds)
  show ?case
    unfolding prune_dependencies.simps Cons.IH
    by (rule agree_bind [OF assms]) (frule view_reads(4), drule view_reads(5), simp)
qed simp

lemma adjust_dict_agree:
  assumes "agree ts ts'"
  shows "adjust_dict g fl s ts t d = adjust_dict g fl s ts' t d"
  unfolding adjust_dict_def adjust_static_def adjust_linkable_def LinkDependencies_agree [OF assms]
    prune_agree [OF assms] DirectAndImportedDependencies_def AddImported_agree [OF assms] ..

lemma add_link_view: "foldE (add_link_dependency t) d ls = Inr d' \<Longrightarrow> settings_view d' = settings_view d"
  by (rule foldE_invariant [where P = "\<lambda>x. settings_view x = settings_view d"])
    (auto simp: add_link_dependency_def Let_def bindE_Inr_iff split: if_splits)

lemma adjust_dict_view: "adjust_dict g fl s ts t d = Inr d' \<Longrightarrow> settings_view d' = settings_view d"
  by (auto simp: adjust_dict_def adjust_static_def adjust_linkable_def Let_def bindE_Inr_iff
      dest!: add_link_view split: if_splits option.splits)

lemma adjust_target_step:
  assumes "adjust_target g fl s ts t = Inr ts'" and "agree ts0 ts"
  shows "agree ts0 ts' \<and> (\<forall>u. u \<noteq> t \<longrightarrow> dict_get ts' u = dict_get ts u) \<and>
         (\<exists>d d'. dict_get ts t = Some d \<and> adjust_dict g fl s ts0 t d = Inr d' \<and> dict_get ts' t = Some d')"
proof -
  from assms(1) obtain d d' where d: "dict_get ts t = Some d" "adjust_dict g fl s ts t d = Inr d'"
    "ts' = dict_set ts t d'" by (auto simp: adjust_target_def bindE_Inr_iff)
  have "agree ts ts'"
    using d(1,3) adjust_dict_view [OF d(2)] by (simp add: agree_def al.lookup_store)
  with assms(2) have "agree ts0 ts'" by (simp add: agree_def)
  with d show ?thesis
    using adjust_dict_agree [OF assms(2), of g fl s t d] by (simp add: al.lookup_store)
qed

lemma AdjustStatic_pointwise:
  assumes "foldE (adjust_target g fl s) ts order = Inr ts'" and "agree ts0 ts" and "distinct order"
  shows "agree ts0 ts' \<and> (\<forall>u. u \<notin> set order \<longrightarrow> dict_get ts' u = dict_get ts u) \<and>
         (\<forall>t \<in> set order. \<exists>d d'. dict_get ts t = Some d \<and> adjust_dict g fl s ts0 t d = Inr d' \<and>
            dict_get ts' t = Some d')"
  using assms
proof (induction order arbitrary: ts)
  case (Cons t order)
  from Cons.prems(1) obtain ts1 where s1: "adjust_target g fl s ts t = Inr ts1"
    and rest: "foldE (adjust_target g fl s) ts1 order = Inr ts'" by (auto simp: bindE_Inr_iff)
  note step = adjust_target_step [OF s1 Cons.prems(2)]
  have IH: "agree ts0 ts' \<and> (\<forall>u. u \<notin> set order \<longrightarrow> dict_get ts' u = dict_get ts1 u) \<and>
      (\<forall>t \<in> set order. \<exists>d d'. dict_get ts1 t = Some d \<and> adjust_dict g fl s ts0 t d = Inr d' \<and>
         dict_get ts' t = Some d')"
    using Cons.IH [OF rest] step Cons.prems(3) by simp
  have "\<exists>d d'. dict_get ts u = Some d \<and> adjust_dict g fl s ts0 u d = Inr d' \<and> dict_get ts' u = Some d'"
    if "u \<in> set (t # order)" for u
  proof (cases "u = t")
    case True
    with step IH Cons.prems(3) show ?thesis by simp
  next
    case False
    with that have "u \<in> set order" by simp
    with IH step False show ?thesis by metis
  qed
  moreover have "dict_get ts' u = dict_get ts u" if "u \<notin> set (t # order)" for u
    using that IH step by simp
  ultimately show ?case using IH by blast
qed simp

text \<open>What the two branches leave in \<open>dependencies\<close>.\<close>

definition kept_dependency :: "targets \<Rightarrow> gval list \<Rightarrow> string \<Rightarrow> bool" where
  "kept_dependency targets direct dependency =
     (case dict_get targets dependency of
        None \<Rightarrow> False
      | Some d \<Rightarrow> if get d ''type'' = Some (GStr ''static_library'') then is_hard d
                  else GStr dependency \<in> set direct)"

lemma prune_dependencies_filter:
  "prune_dependencies targets direct ds = Inr kept \<Longrightarrow> kept = filter (kept_dependency targets direct) ds"
  by (induction ds arbitrary: kept)
    (auto simp: bindE_Inr_iff is_static_def getE_Inr_iff kept_dependency_def split: if_splits)

lemma add_link_dependencies:
  "foldE (add_link_dependency t) d ls = Inr d' \<Longrightarrow> get d ''dependencies'' = Some (GList l) \<Longrightarrow>
    \<exists>l'. get d' ''dependencies'' = Some (GList l') \<and> set l' = set l \<union> GStr ` (set ls - {t})"
proof (induction ls arbitrary: d l)
  case (Cons x ls)
  from Cons.prems(1) obtain d1 where d1: "add_link_dependency t d x = Inr d1"
    and rest: "foldE (add_link_dependency t) d1 ls = Inr d'" by (auto simp: bindE_Inr_iff)
  from d1 Cons.prems(2) obtain l1 where "get d1 ''dependencies'' = Some (GList l1)"
    and "set l1 = set l \<union> GStr ` ({x} - {t})"
    by (auto simp: add_link_dependency_def Let_def al.lookup_store split: if_splits)
  with Cons.IH [OF rest] show ?case by auto
qed simp

subsection \<open>One pass of settings\<close>

text \<open>
  Merging the settings of one dependency into a target's dictionary, the
  dependencies being read from a fixed set of targets.
\<close>

definition merge_from ::
  "gyp_env \<Rightarrow> string \<Rightarrow> targets \<Rightarrow> string \<Rightarrow> gdict \<Rightarrow> string \<Rightarrow> gdict res" where
  "merge_from E key targets build_file target_dict dependency =
     bindE (targetE targets dependency) (\<lambda>dependency_dict.
       case get dependency_dict key of
         None \<Rightarrow> Inr target_dict
       | Some settings \<Rightarrow>
           bindE (as_dict settings) (\<lambda>settings.
           bindE (file_of dependency) (\<lambda>dependency_build_file.
             MergeDicts E target_dict settings build_file dependency_build_file)))"

lemma merge_settings_step:
  assumes "merge_settings E key t f ts x = Inr ts'" and "dict_get ts t = Some d"
  shows "\<exists>d'. dict_get ts' t = Some d' \<and> (\<forall>u. u \<noteq> t \<longrightarrow> dict_get ts' u = dict_get ts u) \<and>
           map fst ts' = map fst ts \<and> merge_from E key ts f d x = Inr d'"
  using assms
  by (auto simp: merge_settings_def merge_from_def bindE_Inr_iff al.lookup_store targetE_def
      dict_keys_set_same [unfolded dict_keys_def] split: option.splits)

lemma merge_settings_fold:
  assumes "foldE (merge_settings E key t f) ts ds = Inr ts'" and "dict_get ts t = Some d"
  shows "\<exists>d'. dict_get ts' t = Some d' \<and> (\<forall>u. u \<noteq> t \<longrightarrow> dict_get ts' u = dict_get ts u) \<and>
           map fst ts' = map fst ts \<and>
           (t \<notin> set ds \<longrightarrow> foldE (merge_from E key ts f) d ds = Inr d')"
  using assms
proof (induction ds arbitrary: ts d)
  case (Cons x ds)
  from Cons.prems(1) obtain ts1 where s1: "merge_settings E key t f ts x = Inr ts1"
    and rest: "foldE (merge_settings E key t f) ts1 ds = Inr ts'" by (auto simp: bindE_Inr_iff)
  from merge_settings_step [OF s1 Cons.prems(2)] obtain d1 where d1: "dict_get ts1 t = Some d1"
    "\<And>u. u \<noteq> t \<Longrightarrow> dict_get ts1 u = dict_get ts u" "map fst ts1 = map fst ts"
    "merge_from E key ts f d x = Inr d1" by blast
  have eq: "merge_from E key ts1 f e y = merge_from E key ts f e y" if "y \<noteq> t" for e y
    using d1(2) [OF that] by (simp add: merge_from_def targetE_def)
  have "foldE (merge_from E key ts1 f) e ds = foldE (merge_from E key ts f) e ds" if "t \<notin> set ds" for e
    by (rule foldE_cong [OF refl refl], rule eq) (use that in auto)
  with Cons.IH [OF rest d1(1)] d1 show ?case by auto
qed simp

lemma settings_of_target_step:
  assumes "settings_of_target E key g ts t = Inr ts'"
  shows "\<exists>d d' f ds. dict_get ts t = Some d \<and> dict_get ts' t = Some d' \<and> file_of t = Inr f \<and>
           settings_dependencies key ts g t = Inr ds \<and>
           (t \<notin> set ds \<longrightarrow> foldE (merge_from E key ts f) d ds = Inr d') \<and>
           (\<forall>u. u \<noteq> t \<longrightarrow> dict_get ts' u = dict_get ts u) \<and> map fst ts' = map fst ts"
proof -
  from assms obtain d f ds where d: "dict_get ts t = Some d" "file_of t = Inr f"
    "settings_dependencies key ts g t = Inr ds" "foldE (merge_settings E key t f) ts ds = Inr ts'"
    by (auto simp: settings_of_target_def bindE_Inr_iff)
  with merge_settings_fold [OF d(4,1)] show ?thesis by auto
qed

lemma DoDependentSettings_others:
  assumes "foldE (settings_of_target E key g) ts order = Inr ts'"
  shows "map fst ts' = map fst ts" and "u \<notin> set order \<Longrightarrow> dict_get ts' u = dict_get ts u"
proof -
  have "map fst ts' = map fst ts \<and> (u \<notin> set order \<longrightarrow> dict_get ts' u = dict_get ts u)"
  proof (rule foldE_invariant [OF assms, where P = "\<lambda>x. map fst x = map fst ts \<and>
          (u \<notin> set order \<longrightarrow> dict_get x u = dict_get ts u)"])
    fix a t b
    assume a: "map fst a = map fst ts \<and> (u \<notin> set order \<longrightarrow> dict_get a u = dict_get ts u)"
      and t: "t \<in> set order" and b: "settings_of_target E key g a t = Inr b"
    have "u \<noteq> t \<Longrightarrow> dict_get b u = dict_get a u" and "map fst b = map fst a"
      using settings_of_target_step [OF b] by blast+
    with a t show "map fst b = map fst ts \<and> (u \<notin> set order \<longrightarrow> dict_get b u = dict_get ts u)" by metis
  qed simp
  then show "map fst ts' = map fst ts" and "u \<notin> set order \<Longrightarrow> dict_get ts' u = dict_get ts u"
    by simp_all
qed

text \<open>In a dependency order every dependency is final when it is read.\<close>

lemma DoDependentSettings_split:
  assumes run: "foldE (settings_of_target E key g) ts (xs @ t # ys) = Inr ts'"
    and dist: "distinct (xs @ t # ys)"
    and deps: "\<And>T. settings_dependencies key T g t = Inr ds" "set ds \<subseteq> set xs"
  shows "\<exists>d d' f. dict_get ts t = Some d \<and> dict_get ts' t = Some d' \<and> file_of t = Inr f \<and>
           foldE (merge_from E key ts' f) d ds = Inr d'"
proof -
  from run obtain ts1 ts2 where r: "foldE (settings_of_target E key g) ts xs = Inr ts1"
    "settings_of_target E key g ts1 t = Inr ts2" "foldE (settings_of_target E key g) ts2 ys = Inr ts'"
    by (auto simp: foldE_append bindE_Inr_iff)
  from settings_of_target_step [OF r(2)] deps(1) obtain d d' f where
    d: "dict_get ts1 t = Some d" "dict_get ts2 t = Some d'" "file_of t = Inr f"
    "t \<notin> set ds \<longrightarrow> foldE (merge_from E key ts1 f) d ds = Inr d'"
    "\<And>u. u \<noteq> t \<Longrightarrow> dict_get ts2 u = dict_get ts1 u" by auto
  have "dict_get ts' x = dict_get ts1 x" if "x \<in> set ds" for x
  proof -
    from that deps(2) dist have "x \<noteq> t" "x \<notin> set ys" by auto
    with d(5) [of x] DoDependentSettings_others(2) [OF r(3), of x] show ?thesis by simp
  qed
  then have "foldE (merge_from E key ts' f) d ds = foldE (merge_from E key ts1 f) d ds"
    by (intro foldE_cong) (auto simp: merge_from_def targetE_def)
  moreover have "t \<notin> set ds" using deps(2) dist by auto
  moreover have "dict_get ts t = Some d" "dict_get ts' t = Some d'"
    using DoDependentSettings_others(2) [OF r(1), of t] DoDependentSettings_others(2) [OF r(3), of t]
      dist d(1,2) by auto
  ultimately show ?thesis using d(3,4) by metis
qed

lemma LinkLoop_total:
  "(\<And>r. Some r \<in> set ds \<or> r \<in> adj_names (g_deps g) \<Longrightarrow> link_info targets r \<noteq> None) \<Longrightarrow>
    \<exists>r. LinkLoop g targets ds acc = Inr r"
proof (induction g targets ds acc rule: LinkLoop.induct)
  case (3 g targets n ds acc)
  from "3.prems" [of n] have "\<exists>d t. dict_get targets n = Some d \<and> link_type d = Inr t"
    by (auto simp: link_info_def split: option.splits sum.splits)
  then have "\<exists>p. link_visit targets False n acc = Inr p"
    by (auto simp: link_visit_def targetE_def Let_def)
  then obtain b acc' where v: "link_visit targets False n acc = Inr (b, acc')" by auto
  show ?case
  proof (cases b)
    case True
    have "\<exists>m. LinkLoop g targets (deps g (Some n)) acc' = Inr m"
      using "3.prems" by (intro "3.IH"(1) [OF v refl True]) (auto dest: adj_in_names)
    then obtain m where m: "LinkLoop g targets (deps g (Some n)) acc' = Inr m" by blast
    have "\<exists>r. LinkLoop g targets ds m = Inr r"
      using "3.prems" by (intro "3.IH"(2) [OF v refl True m]) auto
    with v m True show ?thesis by simp
  next
    case False
    have "\<exists>r. LinkLoop g targets ds acc' = Inr r"
      using "3.prems" by (intro "3.IH"(3) [OF v refl False]) auto
    with v False show ?thesis by simp
  qed
qed auto

subsection \<open>Properties\<close>

text \<open>
  \<open>DeepDependencies\<close> stops on every graph, cyclic ones included, and returns
  each target reachable over one or more dependencies exactly once.
\<close>

theorem DeepDependencies_transitive:
  "distinct (DeepDependencies g (Some t)) \<and>
   set (DeepDependencies g (Some t)) = {x. (t, x) \<in> (dep_step g)\<^sup>+}"
  by (simp add: set_DeepDependencies, simp add: DeepDependencies_def distinct_DeepLoop)

text \<open>
  (C12) When every exported name is a target, \<open>DirectAndImportedDependencies\<close> returns,
  each name once, the direct dependencies and all that they export, through any
  number of levels.
\<close>

theorem DirectAndImportedDependencies_exact:
  assumes "\<And>d. Some d \<in> set (deps g (Some t)) \<Longrightarrow> d \<in> fst ` set targets"
    and "\<forall>(u, d) \<in> set targets. \<exists>l. exports d = Inr l \<and> set l \<subseteq> fst ` set targets"
  shows "\<exists>r. DirectAndImportedDependencies g targets (Some t) = Inr r \<and> distinct r \<and>
           set r = {x. \<exists>d. Some d \<in> set (deps g (Some t)) \<and> (d, x) \<in> (export_step targets)\<^sup>*}"
proof -
  have "set (DirectDependencies (deps g (Some t)) []) \<subseteq> fst ` set targets"
    using assms(1) by (auto simp: set_DirectDependencies)
  then obtain r where r: "DirectAndImportedDependencies g targets (Some t) = Inr r"
    using AddImported_total [OF _ assms(2)] unfolding DirectAndImportedDependencies_def by blast
  with DirectAndImported_closure [OF r] show ?thesis by blast
qed

theorem DirectAndImportedDependencies_exact_witness:
  "let g = \<lparr>g_deps = [(Some ''a'', [Some ''b''])], g_dependents = [(Some ''b'', [Some ''a''])]\<rparr>;
       targets = [(''b'', [(KStr ''export_dependent_settings'', GList [GStr ''c''])]), (''c'', [])]
   in \<exists>r. DirectAndImportedDependencies g targets (Some ''a'') = Inr r \<and> distinct r \<and>
        set r = {x. \<exists>d. Some d \<in> set (deps g (Some ''a'')) \<and> (d, x) \<in> (export_step targets)\<^sup>*}"
  unfolding Let_def
  by (rule DirectAndImportedDependencies_exact) (simp_all add: adj_def exports_def get_list_def)

text \<open>
  (C9) For a linkable target whose graph only mentions targets with a name and a
  type, \<open>LinkDependencies\<close> returns the target itself and every target linked into
  it: the search takes what is not yet fully linked and passes only through
  targets that are not linkable themselves.
\<close>

theorem LinkDependencies_exact:
  assumes "link_info targets t = Some (d, ty)" and "type_in ty linkable_types"
    and "\<And>r. r \<in> adj_names (g_deps g) \<Longrightarrow> link_info targets r \<noteq> None"
  shows "\<exists>r. LinkDependencies g targets (Some t) = Inr r \<and> distinct r \<and>
           set r = insert t {x. \<exists>s. Some s \<in> set (deps g (Some t)) \<and> link_taken targets s \<and>
             (s, x) \<in> (link_step g targets)\<^sup>*}"
proof -
  have "link_visit targets True t [] = Inr (True, [t])"
    using assms(1,2) by (auto simp: link_visit_def link_info_def targetE_def no_traverse_def type_in_def
        linkable_types_def split: option.splits sum.splits)
  then have "LinkDependencies g targets (Some t) = LinkLoop g targets (deps g (Some t)) [t]"
    by (simp add: LinkDependencies_def)
  moreover have "\<exists>r. LinkLoop g targets (deps g (Some t)) [t] = Inr r"
  proof (rule LinkLoop_total)
    fix r assume "Some r \<in> set (deps g (Some t)) \<or> r \<in> adj_names (g_deps g)"
    then show "link_info targets r \<noteq> None" using assms(3) [of r] adj_in_names [of r] by blast
  qed
  ultimately obtain r where r: "LinkDependencies g targets (Some t) = Inr r" by auto
  with LinkDependencies_closure [OF r assms(1,2)] show ?thesis by blast
qed

theorem LinkDependencies_exact_witness:
  "let g = \<lparr>g_deps = [(Some ''a'', [Some ''b''])], g_dependents = [(Some ''b'', [Some ''a''])]\<rparr>;
       targets = [(''a'', [(KStr ''target_name'', GStr ''a''), (KStr ''type'', GStr ''executable'')]),
                  (''b'', [(KStr ''target_name'', GStr ''b''), (KStr ''type'', GStr ''static_library'')])]
   in \<exists>r. LinkDependencies g targets (Some ''a'') = Inr r \<and> distinct r \<and>
        set r = insert ''a'' {x. \<exists>s. Some s \<in> set (deps g (Some ''a'')) \<and> link_taken targets s \<and>
          (s, x) \<in> (link_step g targets)\<^sup>*}"
  unfolding Let_def
  by (rule LinkDependencies_exact [where ty = "GStr ''executable''"])
    (auto simp: link_info_def link_type_def type_in_def linkable_types_def adj_names_def)

text \<open>
  (C13) After \<open>AdjustStaticLibraryDependencies\<close> the dependencies of a static library
  are exactly its direct and imported dependencies that are hard static libraries
  or direct dependencies of another type, in that order; the key is removed when
  none is left, and the original list is kept aside.
\<close>

theorem AdjustStaticLibraryDependencies_static:
  assumes "AdjustStaticLibraryDependencies flat_list targets g sort_dependencies = Inr targets'"
    and "distinct flat_list" and "t \<in> set flat_list" and "dict_get targets t = Some d"
    and "get d ''type'' = Some (GStr ''static_library'')" and "get d ''dependencies'' = Some (GList direct)"
  shows "\<exists>d' r. dict_get targets' t = Some d' \<and> DirectAndImportedDependencies g targets (Some t) = Inr r \<and>
           get d' ''dependencies_original'' = Some (GList direct) \<and>
           get d' ''dependencies'' =
             (if filter (kept_dependency targets direct) r = [] then None
              else Some (GList (map GStr (filter (kept_dependency targets direct) r))))"
proof -
  have "foldE (adjust_target g flat_list sort_dependencies) targets flat_list = Inr targets'"
    using assms(1) by (simp add: AdjustStaticLibraryDependencies_def)
  with AdjustStatic_pointwise [OF _ agree_refl assms(2)] assms(3,4) obtain d' where
    d': "adjust_dict g flat_list sort_dependencies targets t d = Inr d'" "dict_get targets' t = Some d'"
    by fastforce
  from d'(1) assms(5,6) obtain r kept where
    r: "DirectAndImportedDependencies g targets (Some t) = Inr r"
    "prune_dependencies targets direct r = Inr kept"
    and e: "d' = (let d = put d ''dependencies_original'' (GList direct) in
        if kept \<noteq> [] then put d ''dependencies'' (GList (map GStr kept)) else unhook d ''dependencies'')"
    by (auto simp: adjust_dict_def adjust_static_def bindE_Inr_iff Let_def)
  with prune_dependencies_filter [OF r(2)] d'(2) r(1) show ?thesis
    by (auto simp: Let_def al.lookup_store)
qed

lemmas deps_eval = AdjustStaticLibraryDependencies_def adjust_target_def adjust_dict_def adjust_static_def
  adjust_linkable_def add_link_dependency_def targetE_def DirectAndImportedDependencies_def
  AddImportedDependencies.simps exports_def get_list_def adj_def is_static_def is_hard_def
  LinkDependencies_def link_visit_def link_type_def no_traverse_def type_in_def linkable_types_def

theorem AdjustStaticLibraryDependencies_static_witness:
  "let a = [(KStr ''type'', GStr ''static_library''), (KStr ''dependencies'', GList [GStr ''b''])];
       targets = [(''b'', [(KStr ''type'', GStr ''static_library'')]), (''a'', a)];
       g = \<lparr>g_deps = [(Some ''a'', [Some ''b''])], g_dependents = [(Some ''b'', [Some ''a''])]\<rparr>
   in \<exists>r. DirectAndImportedDependencies g targets (Some ''a'') = Inr r \<and>
        filter (kept_dependency targets [GStr ''b'']) r = []"
proof -
  let ?a = "[(KStr ''type'', GStr ''static_library''), (KStr ''dependencies'', GList [GStr ''b''])]"
  let ?ts = "[(''b'', [(KStr ''type'', GStr ''static_library'')]), (''a'', ?a)]"
  let ?g = "\<lparr>g_deps = [(Some ''a'', [Some ''b''])], g_dependents = [(Some ''b'', [Some ''a''])]\<rparr>"
  have r: "AdjustStaticLibraryDependencies [''b'', ''a''] ?ts ?g False =
      Inr [(''b'', [(KStr ''type'', GStr ''static_library'')]),
           (''a'', [(KStr ''type'', GStr ''static_library''),
                    (KStr ''dependencies_original'', GList [GStr ''b''])])]"
    by (simp add: deps_eval)
  from AdjustStaticLibraryDependencies_static [OF r, of "''a''" ?a "[GStr ''b'']"]
  show ?thesis unfolding Let_def by (auto split: if_splits)
qed

text \<open>
  After \<open>AdjustStaticLibraryDependencies\<close> the dependencies of a linkable target
  hold all it held and all its link dependencies, but not itself; with
  \<open>sort_dependencies\<close> they are listed from dependents to dependencies.
\<close>

theorem AdjustStaticLibraryDependencies_linkable:
  assumes "AdjustStaticLibraryDependencies flat_list targets g sort_dependencies = Inr targets'"
    and "distinct flat_list" and "t \<in> set flat_list" and "dict_get targets t = Some d"
    and "get d ''type'' = Some ty" and "type_in ty linkable_types" and "get d ''dependencies'' = Some (GList l)"
  shows "\<exists>d' r l'. dict_get targets' t = Some d' \<and> LinkDependencies g targets (Some t) = Inr r \<and>
           get d' ''dependencies'' = Some (GList l') \<and>
           (if sort_dependencies
            then l' = map GStr (filter (\<lambda>x. GStr x \<in> set l \<or> (x \<in> set r \<and> x \<noteq> t)) (rev flat_list))
            else set l' = set l \<union> GStr ` (set r - {t}))"
proof -
  have "foldE (adjust_target g flat_list sort_dependencies) targets flat_list = Inr targets'"
    using assms(1) by (simp add: AdjustStaticLibraryDependencies_def)
  with AdjustStatic_pointwise [OF _ agree_refl assms(2)] assms(3,4) obtain d' where
    d': "adjust_dict g flat_list sort_dependencies targets t d = Inr d'" "dict_get targets' t = Some d'"
    by fastforce
  have "ty \<noteq> GStr ''static_library''" using assms(6) by (auto simp: type_in_def linkable_types_def)
  with d'(1) assms(5,6) have a: "adjust_linkable targets g flat_list sort_dependencies t d = Inr d'"
    by (simp add: adjust_dict_def)
  then obtain r d1 where r: "LinkDependencies g targets (Some t) = Inr r"
    and f: "foldE (add_link_dependency t) d r = Inr d1" by (auto simp: adjust_linkable_def bindE_Inr_iff)
  from add_link_dependencies [OF f assms(7)] obtain l' where
    l': "get d1 ''dependencies'' = Some (GList l')" "set l' = set l \<union> GStr ` (set r - {t})" by blast
  have "GStr x \<in> set l' \<longleftrightarrow> GStr x \<in> set l \<or> (x \<in> set r \<and> x \<noteq> t)" for x using l'(2) by auto
  then show ?thesis
    using a r f l' d'(2) by (cases sort_dependencies) (auto simp: adjust_linkable_def al.lookup_store)
qed

theorem AdjustStaticLibraryDependencies_linkable_witness:
  "let a = [(KStr ''target_name'', GStr ''a''), (KStr ''type'', GStr ''executable''),
            (KStr ''dependencies'', GList [GStr ''b''])];
       targets = [(''a'', a)]; g = \<lparr>g_deps = [], g_dependents = []\<rparr>
   in \<exists>targets' d' r l'. AdjustStaticLibraryDependencies [''a''] targets g True = Inr targets' \<and>
        dict_get targets' ''a'' = Some d' \<and> LinkDependencies g targets (Some ''a'') = Inr r \<and>
        get d' ''dependencies'' = Some (GList l') \<and>
        l' = map GStr (filter (\<lambda>x. GStr x \<in> set [GStr ''b''] \<or> (x \<in> set r \<and> x \<noteq> ''a'')) (rev [''a'']))"
proof -
  let ?a = "[(KStr ''target_name'', GStr ''a''), (KStr ''type'', GStr ''executable''),
             (KStr ''dependencies'', GList [GStr ''b''])]"
  have r: "AdjustStaticLibraryDependencies [''a''] [(''a'', ?a)] \<lparr>g_deps = [], g_dependents = []\<rparr> True =
      Inr [(''a'', [(KStr ''target_name'', GStr ''a''), (KStr ''type'', GStr ''executable''),
             (KStr ''dependencies'', GList [])])]"
    by (simp add: deps_eval)
  from AdjustStaticLibraryDependencies_linkable [OF r, of "''a''" ?a "GStr ''executable''" "[GStr ''b'']"] r
  show ?thesis unfolding Let_def by (simp add: type_in_def linkable_types_def)
qed

text \<open>
  One pass of \<open>all_dependent_settings\<close> over a dependency order gives every target
  its own dictionary with the final settings of all its deep dependencies merged
  into it, in the order of \<open>DeepDependencies\<close>: no dependency is read before it is
  complete, and names and other targets stay as they are.
\<close>

theorem DoDependentSettings_all_final:
  assumes "DoDependentSettings E ''all_dependent_settings'' (xs @ t # ys) targets g = Inr targets'"
    and "distinct (xs @ t # ys)" and "set (DeepDependencies g (Some t)) \<subseteq> set xs"
  shows "map fst targets' = map fst targets \<and>
         (\<exists>d d' f. dict_get targets t = Some d \<and> dict_get targets' t = Some d' \<and> file_of t = Inr f \<and>
            foldE (merge_from E ''all_dependent_settings'' targets' f) d (DeepDependencies g (Some t)) = Inr d')"
proof -
  note run = assms(1) [unfolded DoDependentSettings_def]
  show ?thesis
    using DoDependentSettings_others(1) [OF run] DoDependentSettings_split [OF run assms(2) _ assms(3)]
    by (simp add: settings_dependencies_def)
qed

theorem DoDependentSettings_all_final_witness:
  "let key = ''all_dependent_settings'';
       b = [(KStr key, GDict [(KStr ''type'', GStr ''none'')])];
       targets' = [(''f:b'', b), (''f:a'', [(KStr ''type'', GStr ''none'')])];
       g = \<lparr>g_deps = [(Some ''f:a'', [Some ''f:b''])], g_dependents = [(Some ''f:b'', [Some ''f:a''])]\<rparr>
   in DoDependentSettings (base_env ''/'') key [''f:b'', ''f:a''] [(''f:b'', b), (''f:a'', [])] g = Inr targets' \<and>
      (\<exists>d d' f. dict_get [(''f:b'', b), (''f:a'', [])] ''f:a'' = Some d \<and> dict_get targets' ''f:a'' = Some d' \<and>
         foldE (merge_from (base_env ''/'') key targets' f) d (DeepDependencies g (Some ''f:a'')) = Inr d')"
proof -
  let ?key = "''all_dependent_settings''"
  let ?b = "[(KStr ?key, GDict [(KStr ''type'', GStr ''none'')])]"
  let ?g = "\<lparr>g_deps = [(Some ''f:a'', [Some ''f:b''])], g_dependents = [(Some ''f:b'', [Some ''f:a''])]\<rparr>"
  have r: "DoDependentSettings (base_env ''/'') ?key ([''f:b''] @ ''f:a'' # []) [(''f:b'', ?b), (''f:a'', [])] ?g =
      Inr [(''f:b'', ?b), (''f:a'', [(KStr ''type'', GStr ''none'')])]"
    by code_simp
  have d: "DeepDependencies ?g (Some ''f:a'') = [''f:b'']" by code_simp
  from DoDependentSettings_all_final [OF r] r show ?thesis by (auto simp: Let_def d)
qed

end
