(* ===== verification/Gyp_Topo.thy ===== *)
theory Gyp_Topo
  imports Input_Deps
begin

text \<open>
  The graph searches of \<open>tools/gyp/pylib/gyp/common.py\<close>: \<open>DeepDependencyTargets\<close>,
  \<open>BuildFileTargets\<close>, \<open>AllTargets\<close> and \<open>TopologicallySorted\<close>.  The pending set of
  \<open>DeepDependencyTargets\<close> is popped in an arbitrary order (\<open>pick\<close>, as in
  \<open>FlattenToList\<close>).  \<open>Visit\<close> recurses as deep as the graph goes and the graph is a
  function, so it carries fuel: one unit per nesting level, and a level is entered
  only for a node not visited before, so one more than the number of reachable
  nodes is enough, which is proved.
\<close>

subsection \<open>Targets of a build file and all they need\<close>

definition named_targets :: "gdict \<Rightarrow> string \<Rightarrow> string list res" where
  "named_targets spec key = bindE (get_list spec key) (mapE as_str)"

definition spec_children :: "gdict \<Rightarrow> string list res" where
  "spec_children spec =
     bindE (named_targets spec ''dependencies'') (\<lambda>a.
     bindE (named_targets spec ''dependencies_original'') (\<lambda>b. Inr (a @ b)))"

definition set_update :: "'a list \<Rightarrow> 'a list \<Rightarrow> 'a list" where
  "set_update s xs = foldl (\<lambda>z x. set_add x z) s xs"

lemma set_update_props: "distinct s \<Longrightarrow> distinct (set_update s xs) \<and> set (set_update s xs) = set s \<union> set xs"
  using ps.fold_add [of s "\<lambda>x. True" xs] by (simp add: set_update_def)

function DeepTargetsLoop ::
  "(string list \<Rightarrow> string list \<Rightarrow> nat) \<Rightarrow> targets \<Rightarrow> string list \<Rightarrow> string list \<Rightarrow> string list res" where
  "DeepTargetsLoop pick target_dicts pending dependencies =
     (if pending = [] then Inr dependencies
      else
        let (r, rest) = set_pop (pick dependencies) pending in
        if r \<in> set dependencies then DeepTargetsLoop pick target_dicts rest dependencies
        else
          bindE (targetE target_dicts r) (\<lambda>spec.
          bindE (spec_children spec) (\<lambda>children.
            DeepTargetsLoop pick target_dicts (set_update rest children) (dependencies @ [r]))))"
  by pat_completeness auto

lemma set_pop_length: "pending \<noteq> [] \<Longrightarrow> set_pop p pending = (r, rest) \<Longrightarrow> length rest < length pending"
proof -
  assume ne: "pending \<noteq> []" and "set_pop p pending = (r, rest)"
  then have "rest = take (p pending mod length pending) pending @ drop (Suc (p pending mod length pending)) pending"
    by (simp add: set_pop_def Let_def)
  moreover have "p pending mod length pending < length pending" using ne by simp
  ultimately show ?thesis by simp
qed

termination DeepTargetsLoop
proof (relation "measures [\<lambda>(p, td, pe, ds). card (fst ` set td - set ds), \<lambda>(p, td, pe, ds). length pe]", goal_cases)
  case (2 pick td pending ds x r rest)
  then show ?case using set_pop_length [of pending "pick ds" r rest] by simp
next
  case (3 pick td pending ds x r rest spec children)
  then have "dict_get td r = Some spec" by simp
  then have r: "r \<in> fst ` set td" by (metis dict_get_Some_in fst_conv image_eqI)
  have "card (fst ` set td - set (ds @ [r])) < card (fst ` set td - set ds)"
    by (rule psubset_card_mono) (use 3 r in auto)
  then show ?case by simp
qed simp

declare DeepTargetsLoop.simps [simp del]

definition DeepDependencyTargets ::
  "(string list \<Rightarrow> string list \<Rightarrow> nat) \<Rightarrow> targets \<Rightarrow> string list \<Rightarrow> string list res" where
  "DeepDependencyTargets pick target_dicts roots =
     bindE (DeepTargetsLoop pick target_dicts (set_update [] roots) [])
       (\<lambda>dependencies. Inr (filter (\<lambda>d. d \<notin> set roots) dependencies))"

definition BuildFileTargets :: "string list \<Rightarrow> string \<Rightarrow> string list" where
  "BuildFileTargets target_list build_file = filter (\<lambda>p. BuildFile p = Some build_file) target_list"

definition AllTargets ::
  "(string list \<Rightarrow> string list \<Rightarrow> nat) \<Rightarrow> string list \<Rightarrow> targets \<Rightarrow> string \<Rightarrow> string list res" where
  "AllTargets pick target_list target_dicts build_file =
     (let bftargets = BuildFileTargets target_list build_file in
      bindE (DeepDependencyTargets pick target_dicts bftargets) (\<lambda>deptargets. Inr (bftargets @ deptargets)))"

definition child_step :: "targets \<Rightarrow> (string \<times> string) set" where
  "child_step td = {(t, x). \<exists>spec l. dict_get td t = Some spec \<and> spec_children spec = Inr l \<and> x \<in> set l}"

lemma DeepTargetsLoop_cases:
  assumes "DeepTargetsLoop pick td pending ds = Inr r" and "distinct pending"
  obtains (stop) "pending = []" "r = ds"
  | (seen) x rest where "pending \<noteq> []" "set_pop (pick ds) pending = (x, rest)" "x \<in> set ds" "distinct rest"
      "set pending = insert x (set rest)" "DeepTargetsLoop pick td rest ds = Inr r"
  | (new) x rest spec l where "pending \<noteq> []" "set_pop (pick ds) pending = (x, rest)" "x \<notin> set ds"
      "targetE td x = Inr spec" "spec_children spec = Inr l" "distinct (set_update rest l)"
      "set pending = insert x (set rest)" "set (set_update rest l) = set rest \<union> set l"
      "{y. (x, y) \<in> child_step td} = set l"
      "DeepTargetsLoop pick td (set_update rest l) (ds @ [x]) = Inr r"
proof (cases "pending = []")
  case True
  with assms(1) show thesis by (intro stop) (simp_all add: DeepTargetsLoop.simps)
next
  case False
  obtain x rest where p: "set_pop (pick ds) pending = (x, rest)" by fastforce
  have rest: "distinct rest" "set rest = set pending - {x}" "x \<in> set pending"
    using ps.pop_rest [OF assms(2) _ p] ps.pop_in [OF assms(2) _ p] False by simp_all
  show thesis
  proof (cases "x \<in> set ds")
    case True
    with False assms(1) p rest show thesis by (intro seen [of x rest]) (auto simp: DeepTargetsLoop.simps)
  next
    case nin: False
    with False assms(1) p obtain spec l where l: "targetE td x = Inr spec" "spec_children spec = Inr l"
      "DeepTargetsLoop pick td (set_update rest l) (ds @ [x]) = Inr r"
      by (subst (asm) DeepTargetsLoop.simps) (auto simp: bindE_Inr_iff)
    with False nin p rest set_update_props [OF rest(1), of l] show thesis
      by (intro new [of x rest spec l]) (auto simp: child_step_def)
  qed
qed

lemma DeepTargetsLoop_sound:
  "DeepTargetsLoop pick td pending ds = Inr r \<Longrightarrow> distinct pending \<Longrightarrow> distinct ds \<Longrightarrow>
    distinct r \<and> set ds \<union> set pending \<subseteq> set r \<and>
    (\<forall>x \<in> set r. x \<in> set ds \<or> (\<exists>p \<in> set pending. (p, x) \<in> (child_step td)\<^sup>*)) \<and>
    ((\<forall>x \<in> set ds. \<forall>y. (x, y) \<in> child_step td \<longrightarrow> y \<in> set ds \<union> set pending) \<longrightarrow>
     (\<forall>x \<in> set r. \<forall>y. (x, y) \<in> child_step td \<longrightarrow> y \<in> set r))"
proof (induction pick td pending ds rule: DeepTargetsLoop.induct)
  case (1 pick td pending ds)
  from "1.prems"(1,2) show ?case
  proof (cases rule: DeepTargetsLoop_cases)
    case stop
    with "1.prems" show ?thesis by auto
  next
    case (seen x rest)
    note IH = "1.IH"(1) [OF seen(1) seen(2) [symmetric] refl seen(3,6,4) "1.prems"(3)]
    with seen(3,5) show ?thesis by auto
  next
    case (new x rest spec l)
    have "distinct (ds @ [x])" using "1.prems"(3) new(3) by simp
    note IH = "1.IH"(2) [OF new(1) new(2) [symmetric] refl new(3,4,5,10,6) this]
    have "\<forall>z \<in> set r. z \<in> set ds \<or> (\<exists>p \<in> set pending. (p, z) \<in> (child_step td)\<^sup>*)"
    proof
      fix z assume "z \<in> set r"
      with IH new(8) consider "z \<in> set (ds @ [x])" | p where "p \<in> set rest" "(p, z) \<in> (child_step td)\<^sup>*"
        | p where "p \<in> set l" "(p, z) \<in> (child_step td)\<^sup>*" by blast
      then show "z \<in> set ds \<or> (\<exists>p \<in> set pending. (p, z) \<in> (child_step td)\<^sup>*)"
      proof cases
        case 3
        then have "(x, p) \<in> child_step td" using new(9) by blast
        with 3 have "(x, z) \<in> (child_step td)\<^sup>*" by (simp add: converse_rtrancl_into_rtrancl)
        with new(7) show ?thesis by blast
      qed (use new(7) in auto)
    qed
    moreover have "\<forall>z \<in> set r. \<forall>y. (z, y) \<in> child_step td \<longrightarrow> y \<in> set r"
      if "\<forall>z \<in> set ds. \<forall>y. (z, y) \<in> child_step td \<longrightarrow> y \<in> set ds \<union> set pending"
    proof -
      have "\<forall>z \<in> set (ds @ [x]). \<forall>y. (z, y) \<in> child_step td \<longrightarrow> y \<in> set (ds @ [x]) \<union> set (set_update rest l)"
        using that new(7,8,9) by auto
      with IH show ?thesis by blast
    qed
    ultimately show ?thesis using IH new(7,8) by auto
  qed
qed

lemma DeepTargetsLoop_total:
  "distinct pending \<Longrightarrow> set pending \<subseteq> fst ` set td \<Longrightarrow>
   (\<forall>(t, d) \<in> set td. \<exists>l. spec_children d = Inr l \<and> set l \<subseteq> fst ` set td) \<Longrightarrow>
   \<exists>r. DeepTargetsLoop pick td pending ds = Inr r"
proof (induction pick td pending ds rule: DeepTargetsLoop.induct)
  case (1 pick td pending ds)
  show ?case
  proof (cases "pending = []")
    case True
    then show ?thesis by (simp add: DeepTargetsLoop.simps)
  next
    case False
    obtain x rest where p: "set_pop (pick ds) pending = (x, rest)" by fastforce
    have rest: "distinct rest" "set rest = set pending - {x}" "x \<in> set pending"
      using ps.pop_rest [OF "1.prems"(1) _ p] ps.pop_in [OF "1.prems"(1) _ p] False by simp_all
    show ?thesis
    proof (cases "x \<in> set ds")
      case True
      have "\<exists>r. DeepTargetsLoop pick td rest ds = Inr r"
        using rest "1.prems" by (intro "1.IH"(1) [OF False p [symmetric] refl True]) auto
      with False p True show ?thesis by (subst DeepTargetsLoop.simps) simp
    next
      case nin: False
      have "x \<in> fst ` set td" using rest(3) "1.prems"(2) by blast
      then obtain d where d: "dict_get td x = Some d"
        by (cases "dict_get td x") (auto simp: dict_get_def map_of_eq_None_iff)
      then obtain l where l: "spec_children d = Inr l" "set l \<subseteq> fst ` set td"
        using "1.prems"(3) dict_get_Some_in by fastforce
      have "\<exists>r. DeepTargetsLoop pick td (set_update rest l) (ds @ [x]) = Inr r"
        using rest "1.prems"(2,3) l d set_update_props [OF rest(1), of l]
        by (intro "1.IH"(2) [OF False p [symmetric] refl nin _ l(1)]) auto
      with False p nin d l(1) show ?thesis by (subst DeepTargetsLoop.simps) (simp add: targetE_def)
    qed
  qed
qed

lemma DeepDependencyTargets_reach:
  assumes "DeepDependencyTargets pick td roots = Inr r"
  shows "distinct r" and "set r = {x. x \<notin> set roots \<and> (\<exists>t \<in> set roots. (t, x) \<in> (child_step td)\<^sup>*)}"
proof -
  from assms obtain ds where ds: "DeepTargetsLoop pick td (set_update [] roots) [] = Inr ds"
    and r: "r = filter (\<lambda>d. d \<notin> set roots) ds" by (auto simp: DeepDependencyTargets_def bindE_Inr_iff)
  have u: "distinct (set_update [] roots)" "set (set_update [] roots) = set roots"
    using set_update_props [of "[]" roots] by simp_all
  note s = DeepTargetsLoop_sound [OF ds u(1)]
  show "distinct r" using s r by simp
  have closed: "y \<in> set ds" if "x \<in> set ds" "(x, y) \<in> child_step td" for x y
    using s that by simp
  have "x \<in> set ds" if "t \<in> set roots" "(t, x) \<in> (child_step td)\<^sup>*" for t x
    using that(2,1)
  proof (induction rule: rtrancl_induct)
    case base
    with s u(2) show ?case by auto
  next
    case (step y z)
    with closed show ?case by blast
  qed
  then show "set r = {x. x \<notin> set roots \<and> (\<exists>t \<in> set roots. (t, x) \<in> (child_step td)\<^sup>*)}"
    using s u(2) r by (auto 0 2)
qed

subsection \<open>Topological sorting\<close>

record topo_state =
  visited :: "string list"
  visiting :: "string list"
  ordered_nodes :: "string list"

text \<open>\<open>Visit\<close> and its loop over the neighbours; the outer \<open>None\<close> is out of fuel.\<close>

fun Visit :: "nat \<Rightarrow> (string \<Rightarrow> string list) \<Rightarrow> topo_state \<Rightarrow> string \<Rightarrow> topo_state res option"
  and VisitAll :: "nat \<Rightarrow> (string \<Rightarrow> string list) \<Rightarrow> topo_state \<Rightarrow> string list \<Rightarrow> topo_state res option" where
  "Visit fuel get_edges st node =
     (case fuel of
        0 \<Rightarrow> None
      | Suc fuel \<Rightarrow>
          if node \<in> set (visiting st) then Some (Inl (CycleError (visiting st)))
          else if node \<in> set (visited st) then Some (Inr st)
          else
            (case VisitAll fuel get_edges
                    (st\<lparr>visited := node # visited st, visiting := node # visiting st\<rparr>) (get_edges node) of
               None \<Rightarrow> None
             | Some (Inl e) \<Rightarrow> Some (Inl e)
             | Some (Inr st) \<Rightarrow>
                 Some (Inr (st\<lparr>visiting := filter (\<lambda>n. n \<noteq> node) (visiting st),
                               ordered_nodes := node # ordered_nodes st\<rparr>))))"
| "VisitAll fuel get_edges st [] = Some (Inr st)"
| "VisitAll fuel get_edges st (n # ns) =
     (case Visit fuel get_edges st n of
        None \<Rightarrow> None
      | Some (Inl e) \<Rightarrow> Some (Inl e)
      | Some (Inr st) \<Rightarrow> VisitAll fuel get_edges st ns)"

declare Visit.simps [simp del]

definition TopologicallySorted ::
  "nat \<Rightarrow> string list \<Rightarrow> (string \<Rightarrow> string list) \<Rightarrow> string list res option" where
  "TopologicallySorted fuel graph get_edges =
     map_option (map_sum id ordered_nodes)
       (VisitAll fuel get_edges \<lparr>visited = [], visiting = [], ordered_nodes = []\<rparr> (sort graph))"

definition edge :: "(string \<Rightarrow> string list) \<Rightarrow> (string \<times> string) set" where
  "edge get_edges = {(a, b). b \<in> set (get_edges a)}"

text \<open>A list in which every node comes before all its neighbours.\<close>

fun topo :: "(string \<Rightarrow> string list) \<Rightarrow> string list \<Rightarrow> bool" where
  "topo e [] \<longleftrightarrow> True"
| "topo e (n # ns) \<longleftrightarrow> n \<notin> set ns \<and> set (e n) \<subseteq> set ns \<and> topo e ns"

lemma topo_distinct: "topo e ns \<Longrightarrow> distinct ns"
  by (induction ns) auto

lemma topo_closed: "topo e ns \<Longrightarrow> x \<in> set ns \<Longrightarrow> (x, y) \<in> (edge e)\<^sup>* \<Longrightarrow> y \<in> set ns"
proof -
  assume t: "topo e ns" and x: "x \<in> set ns" and r: "(x, y) \<in> (edge e)\<^sup>*"
  have "set (e z) \<subseteq> set ns" if "z \<in> set ns" for z
    using t that by (induction ns) auto
  with r x show ?thesis by (induction rule: rtrancl_induct) (auto simp: edge_def)
qed

lemma topo_acyclic: "topo e ns \<Longrightarrow> x \<in> set ns \<Longrightarrow> (x, x) \<notin> (edge e)\<^sup>+"
proof (induction ns)
  case (Cons n ns)
  show ?case
  proof (cases "x \<in> set ns")
    case True
    with Cons show ?thesis by simp
  next
    case False
    with Cons.prems have n: "x = n" "set (e n) \<subseteq> set ns" "topo e ns" by auto
    show ?thesis
    proof
      assume "(x, x) \<in> (edge e)\<^sup>+"
      then obtain y where "(x, y) \<in> edge e" "(y, x) \<in> (edge e)\<^sup>*" by (meson tranclD)
      with n topo_closed [OF n(3), of y x] False show False by (auto simp: edge_def)
    qed
  qed
qed simp

text \<open>The order is sorted and holds what is visited but not being visited.\<close>

definition topo_inv :: "(string \<Rightarrow> string list) \<Rightarrow> topo_state \<Rightarrow> bool" where
  "topo_inv e st \<longleftrightarrow>
     topo e (ordered_nodes st) \<and> set (visiting st) \<subseteq> set (visited st) \<and>
     set (ordered_nodes st) = set (visited st) - set (visiting st)"

definition topo_grows :: "topo_state \<Rightarrow> topo_state \<Rightarrow> bool" where
  "topo_grows st st' \<longleftrightarrow>
     set (visiting st') = set (visiting st) \<and> set (ordered_nodes st) \<subseteq> set (ordered_nodes st')"

lemma Visit_sound:
  "Visit fuel e st n = Some (Inr st') \<Longrightarrow> topo_inv e st \<Longrightarrow>
    topo_inv e st' \<and> topo_grows st st' \<and> n \<in> set (ordered_nodes st') \<and>
    (\<forall>x \<in> set (ordered_nodes st') - set (ordered_nodes st). (n, x) \<in> (edge e)\<^sup>*)"
  "VisitAll fuel e st ns = Some (Inr st') \<Longrightarrow> topo_inv e st \<Longrightarrow>
    topo_inv e st' \<and> topo_grows st st' \<and> set ns \<subseteq> set (ordered_nodes st') \<and>
    (\<forall>x \<in> set (ordered_nodes st') - set (ordered_nodes st). \<exists>n \<in> set ns. (n, x) \<in> (edge e)\<^sup>*)"
proof (induction fuel e st n and fuel e st ns arbitrary: st' and st' rule: Visit_VisitAll.induct)
  case (1 fuel e st n)
  from "1.prems"(1) obtain f where f: "fuel = Suc f" and nv: "n \<notin> set (visiting st)"
    by (auto simp: Visit.simps split: nat.splits if_splits)
  show ?case
  proof (cases "n \<in> set (visited st)")
    case True
    with "1.prems" f nv show ?thesis by (auto simp: Visit.simps topo_grows_def topo_inv_def)
  next
    case False
    let ?s = "st\<lparr>visited := n # visited st, visiting := n # visiting st\<rparr>"
    from "1.prems"(1) f nv False obtain s' where v: "VisitAll f e ?s (e n) = Some (Inr s')"
      and st': "st' = s'\<lparr>visiting := filter (\<lambda>m. m \<noteq> n) (visiting s'), ordered_nodes := n # ordered_nodes s'\<rparr>"
      by (auto simp: Visit.simps split: option.splits sum.splits)
    have inv: "topo_inv e ?s" using "1.prems"(2) False by (auto simp: topo_inv_def)
    note IH = "1.IH" [OF f nv False v inv]
    have n: "n \<in> set (visited s')" "n \<notin> set (ordered_nodes s')"
      using IH by (auto simp: topo_inv_def topo_grows_def)
    have "topo_inv e st'" using IH n nv unfolding topo_inv_def st' topo_grows_def by auto
    moreover have "topo_grows st st'" using IH nv unfolding st' topo_grows_def by auto
    moreover have "(n, x) \<in> (edge e)\<^sup>*" if "x \<in> set (ordered_nodes st') - set (ordered_nodes st)" for x
    proof (cases "x = n")
      case False
      with that IH st' obtain m where "m \<in> set (e n)" "(m, x) \<in> (edge e)\<^sup>*" by auto
      then show ?thesis by (auto simp: edge_def intro: converse_rtrancl_into_rtrancl)
    qed simp
    ultimately show ?thesis using st' by simp
  qed
next
  case (3 fuel e st n ns)
  from "3.prems"(1) obtain s1 where s1: "Visit fuel e st n = Some (Inr s1)"
    and rest: "VisitAll fuel e s1 ns = Some (Inr st')" by (auto split: option.splits sum.splits)
  note a = "3.IH"(1) [OF s1 "3.prems"(2)]
  note b = "3.IH"(2) [OF s1 refl rest conjunct1 [OF a]]
  have "\<exists>m \<in> set (n # ns). (m, x) \<in> (edge e)\<^sup>*"
    if "x \<in> set (ordered_nodes st') - set (ordered_nodes st)" for x
    using that a b by (cases "x \<in> set (ordered_nodes s1)") auto
  with a b show ?case unfolding topo_grows_def by auto
qed (auto simp: topo_grows_def)

text \<open>A \<open>CycleError\<close> means a cycle: whatever is being visited leads to the node at hand.\<close>

lemma Visit_cycle:
  "Visit fuel e st n = Some (Inl x) \<Longrightarrow> topo_inv e st \<Longrightarrow> (\<forall>g \<in> set (visiting st). (g, n) \<in> (edge e)\<^sup>+) \<Longrightarrow>
    (\<exists>c. (n, c) \<in> (edge e)\<^sup>* \<and> (c, c) \<in> (edge e)\<^sup>+) \<and> (\<exists>ns. x = CycleError ns)"
  "VisitAll fuel e st ns = Some (Inl x) \<Longrightarrow> topo_inv e st \<Longrightarrow>
    (\<forall>g \<in> set (visiting st). \<forall>n \<in> set ns. (g, n) \<in> (edge e)\<^sup>+) \<Longrightarrow>
    (\<exists>n \<in> set ns. \<exists>c. (n, c) \<in> (edge e)\<^sup>* \<and> (c, c) \<in> (edge e)\<^sup>+) \<and> (\<exists>ns. x = CycleError ns)"
proof (induction fuel e st n and fuel e st ns rule: Visit_VisitAll.induct)
  case (1 fuel e st n)
  from "1.prems"(1) obtain f where f: "fuel = Suc f" by (auto simp: Visit.simps split: nat.splits)
  show ?case
  proof (cases "n \<in> set (visiting st)")
    case True
    with "1.prems" f show ?thesis by (auto simp: Visit.simps)
  next
    case nv: False
    let ?s = "st\<lparr>visited := n # visited st, visiting := n # visiting st\<rparr>"
    from "1.prems"(1) f nv have nd: "n \<notin> set (visited st)" by (auto simp: Visit.simps split: if_splits)
    from "1.prems"(1) f nv nd have v: "VisitAll f e ?s (e n) = Some (Inl x)"
      by (auto simp: Visit.simps split: option.splits sum.splits)
    have step: "(n, m) \<in> edge e" if "m \<in> set (e n)" for m using that by (simp add: edge_def)
    have "topo_inv e ?s" using "1.prems"(2) nd by (auto simp: topo_inv_def)
    moreover have "\<forall>g \<in> set (visiting ?s). \<forall>m \<in> set (e n). (g, m) \<in> (edge e)\<^sup>+"
      using "1.prems"(3) step by (auto intro: trancl.trancl_into_trancl)
    ultimately have "(\<exists>m \<in> set (e n). \<exists>c. (m, c) \<in> (edge e)\<^sup>* \<and> (c, c) \<in> (edge e)\<^sup>+) \<and> (\<exists>ns. x = CycleError ns)"
      by (rule "1.IH" [OF f nv nd v])
    then obtain m c where "m \<in> set (e n)" "(m, c) \<in> (edge e)\<^sup>*" "(c, c) \<in> (edge e)\<^sup>+" "\<exists>ns. x = CycleError ns"
      by blast
    with step [of m] show ?thesis by (blast intro: converse_rtrancl_into_rtrancl)
  qed
next
  case (3 fuel e st n ns)
  show ?case
  proof (cases "\<exists>s1. Visit fuel e st n = Some (Inr s1)")
    case True
    then obtain s1 where s1: "Visit fuel e st n = Some (Inr s1)" by blast
    with "3.prems"(1) have rest: "VisitAll fuel e s1 ns = Some (Inl x)" by simp
    have "topo_inv e s1" "set (visiting s1) = set (visiting st)"
      using Visit_sound(1) [OF s1 "3.prems"(2)] by (auto simp: topo_grows_def)
    with "3.IH"(2) [OF s1 refl rest] "3.prems"(3) show ?thesis by auto
  next
    case False
    with "3.prems"(1) have "Visit fuel e st n = Some (Inl x)" by (auto split: option.splits sum.splits)
    with "3.IH"(1) "3.prems"(2,3) show ?thesis by auto
  qed
qed auto

text \<open>Enough fuel: a level is entered for a new node only.\<close>

lemma Visit_visited: 
  "Visit fuel e st n = Some (Inr st') \<Longrightarrow> set (visited st) \<subseteq> set (visited st')"
  "VisitAll fuel e st ns = Some (Inr st') \<Longrightarrow> set (visited st) \<subseteq> set (visited st')"
proof (induction fuel e st n and fuel e st ns arbitrary: st' and st' rule: Visit_VisitAll.induct)
  case (1 fuel e st n)
  then show ?case by (auto simp: Visit.simps split: nat.splits if_splits option.splits sum.splits) fastforce
next
  case (3 fuel e st n ns)
  then show ?case by (fastforce split: option.splits sum.splits)
qed auto

lemma Visit_fuel:
  "finite U \<Longrightarrow> n \<in> U \<Longrightarrow> (\<forall>u \<in> U. set (e u) \<subseteq> U) \<Longrightarrow> card (U - set (visited st)) < fuel \<Longrightarrow>
    Visit fuel e st n \<noteq> None"
  "finite U \<Longrightarrow> set ns \<subseteq> U \<Longrightarrow> (\<forall>u \<in> U. set (e u) \<subseteq> U) \<Longrightarrow> card (U - set (visited st)) < fuel \<Longrightarrow>
    VisitAll fuel e st ns \<noteq> None"
proof (induction fuel e st n and fuel e st ns rule: Visit_VisitAll.induct)
  case (1 fuel e st n)
  then obtain f where f: "fuel = Suc f" by (cases fuel) auto
  have "VisitAll f e (st\<lparr>visited := n # visited st, visiting := n # visiting st\<rparr>) (e n) \<noteq> None"
    if "n \<notin> set (visiting st)" and nd: "n \<notin> set (visited st)"
  proof (rule "1.IH" [OF f that "1.prems"(1) _ "1.prems"(3)])
    show "set (e n) \<subseteq> U" using "1.prems"(2,3) by blast
    have "U - set (n # visited st) \<subset> U - set (visited st)" using nd "1.prems"(2) by auto
    then have "card (U - set (n # visited st)) < card (U - set (visited st))"
      using "1.prems"(1) by (intro psubset_card_mono) auto
    with "1.prems"(4) f show "card (U - set (visited (st\<lparr>visited := n # visited st, visiting := n # visiting st\<rparr>))) < f"
      by simp
  qed
  with f show ?case
    by (cases "n \<in> set (visiting st)"; cases "n \<in> set (visited st)")
      (auto simp: Visit.simps split: option.splits sum.splits)
next
  case (3 fuel e st n ns)
  have "Visit fuel e st n \<noteq> None" using 3 by simp
  then consider x where "Visit fuel e st n = Some (Inl x)" | s1 where "Visit fuel e st n = Some (Inr s1)"
    by (metis not_None_eq sum.exhaust_sel)
  then show ?case
  proof cases
    case (2 s1)
    have "card (U - set (visited s1)) \<le> card (U - set (visited st))"
      using Visit_visited(1) [OF 2] "3.prems"(1) by (intro card_mono) auto
    then have "VisitAll fuel e s1 ns \<noteq> None"
      using "3.prems" by (intro "3.IH"(2) [OF 2 refl]) auto
    with 2 show ?thesis by simp
  qed simp
qed auto

subsection \<open>Properties\<close>

text \<open>
  (C27) \<open>TopologicallySorted\<close> with fuel for every reachable node terminates; it raises
  \<open>CycleError\<close> exactly when a cycle is reachable from the given nodes, and otherwise
  returns every reachable node once, each before all its neighbours.
\<close>

theorem TopologicallySorted_correct:
  assumes "finite U" and "set graph \<subseteq> U" and "\<forall>u \<in> U. set (get_edges u) \<subseteq> U" and "card U < fuel"
  shows "if \<exists>n \<in> set graph. \<exists>c. (n, c) \<in> (edge get_edges)\<^sup>* \<and> (c, c) \<in> (edge get_edges)\<^sup>+
         then \<exists>ns. TopologicallySorted fuel graph get_edges = Some (Inl (CycleError ns))
         else \<exists>order. TopologicallySorted fuel graph get_edges = Some (Inr order) \<and> topo get_edges order \<and>
                set order = {x. \<exists>n \<in> set graph. (n, x) \<in> (edge get_edges)\<^sup>*}"
proof -
  let ?s = "\<lparr>visited = [], visiting = [], ordered_nodes = []\<rparr>"
  have inv: "topo_inv get_edges ?s" by (simp add: topo_inv_def)
  have "VisitAll fuel get_edges ?s (sort graph) \<noteq> None"
    using assms by (intro Visit_fuel(2) [OF assms(1)]) auto
  then consider x where "VisitAll fuel get_edges ?s (sort graph) = Some (Inl x)"
    | st where "VisitAll fuel get_edges ?s (sort graph) = Some (Inr st)"
    by (metis not_None_eq sum.exhaust_sel)
  then show ?thesis
  proof cases
    case (1 x)
    with Visit_cycle(2) [OF 1 inv] show ?thesis by (auto simp: TopologicallySorted_def)
  next
    case (2 st)
    note s = Visit_sound(2) [OF 2 inv]
    then have t: "topo get_edges (ordered_nodes st)" and g: "set graph \<subseteq> set (ordered_nodes st)"
      by (auto simp: topo_inv_def)
    have r: "c \<in> set (ordered_nodes st)" if "n \<in> set graph" "(n, c) \<in> (edge get_edges)\<^sup>*" for n c
      using topo_closed [OF t _ that(2)] g that(1) by blast
    then have "\<not> (\<exists>n \<in> set graph. \<exists>c. (n, c) \<in> (edge get_edges)\<^sup>* \<and> (c, c) \<in> (edge get_edges)\<^sup>+)"
      using topo_acyclic [OF t] by blast
    moreover have "set (ordered_nodes st) = {x. \<exists>n \<in> set graph. (n, x) \<in> (edge get_edges)\<^sup>*}"
      using s r by auto
    ultimately show ?thesis using t 2 by (simp add: TopologicallySorted_def)
  qed
qed

theorem TopologicallySorted_correct_witness:
  "let e = (\<lambda>n. if n = ''a'' then [''b'', ''c''] else if n = ''c'' then [''b''] else []) in
   if \<exists>n \<in> set [''a'', ''b'', ''c'']. \<exists>c. (n, c) \<in> (edge e)\<^sup>* \<and> (c, c) \<in> (edge e)\<^sup>+
   then \<exists>ns. TopologicallySorted 4 [''a'', ''b'', ''c''] e = Some (Inl (CycleError ns))
   else \<exists>order. TopologicallySorted 4 [''a'', ''b'', ''c''] e = Some (Inr order) \<and> topo e order \<and>
          set order = {x. \<exists>n \<in> set [''a'', ''b'', ''c'']. (n, x) \<in> (edge e)\<^sup>*}"
  unfolding Let_def
  by (rule TopologicallySorted_correct [of "{''a'', ''b'', ''c''}"]) (auto simp: card_insert_if)

text \<open>
  When every dependency is a known target, \<open>AllTargets\<close> returns the targets of
  the build file followed by every further target they need, each of these once,
  whatever order the pending set is popped in.
\<close>

theorem AllTargets_exact:
  assumes "set target_list \<subseteq> fst ` set target_dicts"
    and "\<forall>(t, d) \<in> set target_dicts. \<exists>l. spec_children d = Inr l \<and> set l \<subseteq> fst ` set target_dicts"
  shows "\<exists>r. AllTargets pick target_list target_dicts build_file =
               Inr (BuildFileTargets target_list build_file @ r) \<and> distinct r \<and>
           set r = {x. x \<notin> set (BuildFileTargets target_list build_file) \<and>
             (\<exists>t \<in> set (BuildFileTargets target_list build_file). (t, x) \<in> (child_step target_dicts)\<^sup>*)}"
proof -
  let ?bf = "BuildFileTargets target_list build_file"
  have "set ?bf \<subseteq> fst ` set target_dicts" using assms(1) by (auto simp: BuildFileTargets_def)
  with set_update_props [of "[]" ?bf] obtain ds where
    "DeepTargetsLoop pick target_dicts (set_update [] ?bf) [] = Inr ds"
    using DeepTargetsLoop_total [OF _ _ assms(2)] by force
  then obtain r where r: "DeepDependencyTargets pick target_dicts ?bf = Inr r"
    by (simp add: DeepDependencyTargets_def)
  with DeepDependencyTargets_reach [OF r] show ?thesis by (simp add: AllTargets_def)
qed

theorem AllTargets_exact_witness:
  "let td = [(''f:a'', [(KStr ''dependencies'', GList [GStr ''g:b''])]), (''g:b'', [])];
       bf = BuildFileTargets [''f:a'', ''g:b''] ''f'' in
   \<exists>r. AllTargets (\<lambda>_ _. 0) [''f:a'', ''g:b''] td ''f'' = Inr (bf @ r) \<and> distinct r \<and>
     set r = {x. x \<notin> set bf \<and> (\<exists>t \<in> set bf. (t, x) \<in> (child_step td)\<^sup>*)}"
  unfolding Let_def
  by (rule AllTargets_exact) (simp_all add: spec_children_def named_targets_def get_list_def)

end
