(* ===== verification/Input_Targets.thy ===== *)
theory Input_Targets
  imports Gyp_Topo
begin

text \<open>
  The target table and the passes over its dependency lists, from
  \<open>tools/gyp/pylib/gyp/input.py\<close>: \<open>BuildTargetsDict\<close>, \<open>QualifyDependencies\<close>,
  \<open>ExpandWildcardDependencies\<close>, \<open>Unify\<close>, \<open>RemoveDuplicateDependencies\<close> and
  \<open>VerifyNoCollidingTargets\<close>.  The passes iterate over \<open>targets.iteritems()\<close> and
  change values only, so each is a map over the table that may fail.
\<close>

subsection \<open>Loaded data and the target table\<close>

text \<open>\<open>data\<close>: the set of target build files and the contents of every loaded file.\<close>

record gyp_data =
  target_build_files :: "string list"
  gd_files :: "(string \<times> gdict) list"

definition fileE :: "gyp_data \<Rightarrow> string option \<Rightarrow> gdict res" where
  "fileE data build_file =
     (case build_file of
        None \<Rightarrow> Inl (KeyError ''None'')
      | Some f \<Rightarrow> (case dict_get (gd_files data) f of None \<Rightarrow> Inl (KeyError f) | Some d \<Rightarrow> Inr d))"

definition getE_str :: "gdict \<Rightarrow> string \<Rightarrow> string res" where
  "getE_str d k = bindE (getE d k) as_str"

definition add_target :: "string \<Rightarrow> targets \<Rightarrow> gval \<Rightarrow> targets res" where
  "add_target build_file targets v =
     bindE (as_dict v) (\<lambda>target.
     bindE (getE_str target ''target_name'') (\<lambda>name.
     bindE (getE_str target ''toolset'') (\<lambda>toolset.
     bindE (QualifiedTarget (Some build_file) name (Some toolset)) (\<lambda>target_name.
       if has_key targets target_name
       then Inl (GypError (''Duplicate target definitions for '' @ target_name))
       else Inr (dict_set targets target_name target)))))"

definition add_file_targets :: "gyp_data \<Rightarrow> targets \<Rightarrow> string \<Rightarrow> targets res" where
  "add_file_targets data targets build_file =
     bindE (fileE data (Some build_file)) (\<lambda>d.
     bindE (get_list d ''targets'') (foldE (add_target build_file) targets))"

definition BuildTargetsDict :: "gyp_data \<Rightarrow> targets res" where
  "BuildTargetsDict data = foldE (add_file_targets data) [] (target_build_files data)"

subsection \<open>Qualified dependencies\<close>

definition map_targets :: "(string \<Rightarrow> gdict \<Rightarrow> gdict res) \<Rightarrow> targets \<Rightarrow> targets res" where
  "map_targets f = mapE (\<lambda>(t, d). bindE (f t d) (\<lambda>d'. Inr (t, d')))"

definition all_dependency_sections :: "string list" where
  "all_dependency_sections = concat (map (\<lambda>dep. map (\<lambda>op. dep @ op) ['''', ''!'', ''/'']) dependency_sections)"

definition qualify_name :: "gyp_env \<Rightarrow> string option \<Rightarrow> string \<Rightarrow> string \<Rightarrow> string res" where
  "qualify_name E target_build_file toolset name =
     (let (dep_file, dep_target, dep_toolset) = ResolveTarget (cwd E) target_build_file name (Some toolset);
          dep_toolset = (if multiple_toolsets E then dep_toolset else Some toolset)
      in QualifiedTarget dep_file dep_target dep_toolset)"

definition qualify_item ::
  "gyp_env \<Rightarrow> string \<Rightarrow> string \<Rightarrow> gdict \<Rightarrow> string \<Rightarrow> gval \<Rightarrow> gval res" where
  "qualify_item E target toolset target_dict dependency_key item =
     bindE (as_str item) (\<lambda>name.
     bindE (qualify_name E (BuildFile target) toolset name) (\<lambda>dependency.
       if dependency_key = ''dependencies'' then Inr (GStr dependency)
       else bindE (getE target_dict ''dependencies'') (\<lambda>v. bindE (as_list v) (\<lambda>l.
              if GStr dependency \<notin> set l
              then Inl (GypError (''Found '' @ dependency @ '' in '' @ dependency_key @ '' of '' @ target @
                     '', but not in dependencies''))
              else Inr (GStr dependency)))))"

definition qualify_section ::
  "gyp_env \<Rightarrow> string \<Rightarrow> string \<Rightarrow> gdict \<Rightarrow> string \<Rightarrow> gdict res" where
  "qualify_section E target toolset target_dict dependency_key =
     (case get target_dict dependency_key of
        None \<Rightarrow> Inr target_dict
      | Some v \<Rightarrow>
          bindE (as_list v) (\<lambda>dependencies.
          bindE (mapE (qualify_item E target toolset target_dict dependency_key) dependencies) (\<lambda>l.
            Inr (put target_dict dependency_key (GList l)))))"

definition qualify_target :: "gyp_env \<Rightarrow> string \<Rightarrow> gdict \<Rightarrow> gdict res" where
  "qualify_target E target target_dict =
     bindE (getE_str target_dict ''toolset'') (\<lambda>toolset.
       foldE (qualify_section E target toolset) target_dict all_dependency_sections)"

definition QualifyDependencies :: "gyp_env \<Rightarrow> targets \<Rightarrow> targets res" where
  "QualifyDependencies E = map_targets (qualify_target E)"

subsection \<open>Wildcards\<close>

text \<open>\<open>int(s)\<close> on a string.\<close>

definition int_of_str :: "string \<Rightarrow> int res" where
  "int_of_str s =
     (let t = strip s;
          (neg, ds) = (case t of
             [] \<Rightarrow> (False, [])
           | c # cs \<Rightarrow> if c = CHR ''-'' then (True, cs) else if c = CHR ''+'' then (False, cs) else (False, t))
      in if ds = [] \<or> (\<exists>c \<in> set ds. \<not> is_digit c)
         then Inl (ValueError (''invalid literal for int() with base 10: '' @ s))
         else Inr (if neg then - int (read_nat 0 ds) else int (read_nat 0 ds)))"

definition int_of_val :: "gval \<Rightarrow> int res" where
  "int_of_val v =
     (case v of
        GInt i \<Rightarrow> Inr i
      | GStr s \<Rightarrow> int_of_str s
      | _ \<Rightarrow> Inl (TypeError ''int() argument must be a string or a number''))"

definition suppressed :: "gdict \<Rightarrow> bool res" where
  "suppressed d =
     (case get d ''suppress_wildcard'' of
        None \<Rightarrow> Inr False
      | Some v \<Rightarrow> bindE (int_of_val v) (\<lambda>i. Inr (i \<noteq> 0)))"

text \<open>The names one wildcard stands for, from the loop over the other file's targets.\<close>

fun wildcard_targets :: "string \<Rightarrow> string \<Rightarrow> string option \<Rightarrow> gval list \<Rightarrow> string list res" where
  "wildcard_targets build_file dep_target dep_toolset [] = Inr []"
| "wildcard_targets build_file dep_target dep_toolset (v # vs) =
     bindE (as_dict v) (\<lambda>d.
     bindE (suppressed d) (\<lambda>skip.
       if skip then wildcard_targets build_file dep_target dep_toolset vs
       else
         bindE (getE_str d ''target_name'') (\<lambda>name.
           if dep_target \<noteq> ''*'' \<and> dep_target \<noteq> name
           then wildcard_targets build_file dep_target dep_toolset vs
           else
             bindE (getE_str d ''toolset'') (\<lambda>toolset.
               if dep_toolset \<noteq> Some ''*'' \<and> dep_toolset \<noteq> Some toolset
               then wildcard_targets build_file dep_target dep_toolset vs
               else
                 bindE (QualifiedTarget (Some build_file) name (Some toolset)) (\<lambda>dependency.
                 bindE (wildcard_targets build_file dep_target dep_toolset vs) (\<lambda>rest.
                   Inr (dependency # rest)))))))"

definition is_wildcard :: "string \<Rightarrow> bool" where
  "is_wildcard name =
     (let (b, t, ts) = ParseQualifiedTarget name in t = ''*'' \<or> ts = Some ''*'')"

definition expand_wildcard :: "gyp_data \<Rightarrow> string \<Rightarrow> string \<Rightarrow> string \<Rightarrow> string list res" where
  "expand_wildcard data target dependency_key name =
     (let (dep_file, dep_target, dep_toolset) = ParseQualifiedTarget name in
      if dep_file = BuildFile target
      then Inl (GypError (''Found wildcard in '' @ dependency_key @ '' of '' @ target @
             '' referring to same build file''))
      else bindE (fileE data dep_file) (\<lambda>d.
           bindE (getE d ''targets'') (\<lambda>v.
           bindE (as_list v) (\<lambda>vs.
             wildcard_targets (the dep_file) dep_target dep_toolset vs))))"

text \<open>The inserts in place of a wildcard just deleted at \<open>index\<close>, and the next index.\<close>

fun insert_all :: "nat \<Rightarrow> 'a list \<Rightarrow> 'a list \<Rightarrow> nat \<times> 'a list" where
  "insert_all index [] dependencies = (index, dependencies)"
| "insert_all index (x # xs) dependencies = insert_all (index + 1) xs (insert_at index x dependencies)"

lemma insert_all_split: "insert_all (length a) xs (a @ b) = (length a + length xs, a @ xs @ b)"
proof (induction xs arbitrary: a)
  case (Cons x xs)
  have "insert_all (length a) (x # xs) (a @ b) = insert_all (length (a @ [x])) xs ((a @ [x]) @ b)"
    by (simp add: insert_at_def)
  then show ?case using Cons.IH [of "a @ [x]"] by simp
qed simp

text \<open>The loop over the indices of one dependency list.\<close>

function ExpandLoop :: "gyp_data \<Rightarrow> string \<Rightarrow> string \<Rightarrow> nat \<Rightarrow> gval list \<Rightarrow> gval list res" where
  "ExpandLoop data target dependency_key index dependencies =
     (if index < length dependencies
      then bindE (as_str (dependencies ! index)) (\<lambda>name.
             if \<not> is_wildcard name then ExpandLoop data target dependency_key (index + 1) dependencies
             else bindE (expand_wildcard data target dependency_key name) (\<lambda>names.
               let deleted = take index dependencies @ drop (index + 1) dependencies;
                   p = insert_all index (map GStr names) deleted
               in ExpandLoop data target dependency_key (fst p) (snd p)))
      else Inr dependencies)"
  by pat_completeness auto

lemma insert_all_deleted:
  assumes "i < length ds"
  shows "insert_all i xs (take i ds @ drop (i + 1) ds) = (i + length xs, take i ds @ xs @ drop (i + 1) ds)"
  using assms insert_all_split [of "take i ds" xs "drop (i + 1) ds"] by simp

termination ExpandLoop
  by (relation "measure (\<lambda>(d, t, k, i, ds). length ds - i)") (auto simp: insert_all_deleted [simplified])

declare ExpandLoop.simps [simp del]

definition expand_section :: "gyp_data \<Rightarrow> string \<Rightarrow> gdict \<Rightarrow> string \<Rightarrow> gdict res" where
  "expand_section data target target_dict dependency_key =
     (case get target_dict dependency_key of
        None \<Rightarrow> Inr target_dict
      | Some v \<Rightarrow>
          bindE (as_list v) (\<lambda>dependencies.
          bindE (ExpandLoop data target dependency_key 0 dependencies) (\<lambda>l.
            Inr (put target_dict dependency_key (GList l)))))"

definition expand_target :: "gyp_data \<Rightarrow> string \<Rightarrow> gdict \<Rightarrow> gdict res" where
  "expand_target data target target_dict =
     bindE (getE target_dict ''toolset'') (\<lambda>toolset.
       foldE (expand_section data target) target_dict dependency_sections)"

definition ExpandWildcardDependencies :: "targets \<Rightarrow> gyp_data \<Rightarrow> targets res" where
  "ExpandWildcardDependencies targets data = map_targets (expand_target data) targets"

subsection \<open>Duplicates and collisions\<close>

text \<open>\<open>Unify\<close>: the comprehension with its \<open>seen\<close> dictionary; an unhashable element raises.\<close>

fun unify_loop :: "gval list \<Rightarrow> gval list \<Rightarrow> gval list res" where
  "unify_loop seen [] = Inr []"
| "unify_loop seen (e # l) =
     (if \<not> is_hashable e then Inl (TypeError ''unhashable type'')
      else if e \<in> set seen then unify_loop seen l
      else bindE (unify_loop (e # seen) l) (\<lambda>rest. Inr (e # rest)))"

definition Unify :: "gval list \<Rightarrow> gval list res" where
  "Unify l = unify_loop [] l"

definition dedup_section :: "gdict \<Rightarrow> string \<Rightarrow> gdict res" where
  "dedup_section target_dict dependency_key =
     (case get target_dict dependency_key of
        None \<Rightarrow> Inr target_dict
      | Some v \<Rightarrow>
          if \<not> truthy v then Inr target_dict
          else bindE (as_list v) (\<lambda>dependencies.
               bindE (Unify dependencies) (\<lambda>l. Inr (put target_dict dependency_key (GList l)))))"

definition RemoveDuplicateDependencies :: "targets \<Rightarrow> targets res" where
  "RemoveDuplicateDependencies =
     map_targets (\<lambda>target_name target_dict. foldE dedup_section target_dict dependency_sections)"

text \<open>The key a target is looked up by: directory and name.\<close>

definition collision_key :: "string \<Rightarrow> (string \<times> string \<times> string) res" where
  "collision_key target =
     (case rsplit1 (CHR '':'') target of
        None \<Rightarrow> Inl (ValueError ''need more than 1 value to unpack'')
      | Some (path, name) \<Rightarrow>
          (let (subdir, gyp) = path_split path;
               subdir = (if subdir = [] then ''.'' else subdir)
           in Inr (name, subdir, gyp)))"

fun collide_loop :: "(string \<times> string) list \<Rightarrow> string list \<Rightarrow> unit res" where
  "collide_loop used [] = Inr ()"
| "collide_loop used (target # targets) =
     bindE (collision_key target) (\<lambda>(name, subdir, gyp).
       let key = subdir @ '':'' @ name in
       case dict_get used key of
         Some other \<Rightarrow>
           Inl (GypError (''Duplicate target name \"'' @ name @ ''\" in directory \"'' @ subdir @
                  ''\" used both in \"'' @ gyp @ ''\" and \"'' @ other @ ''\".''))
       | None \<Rightarrow> collide_loop (dict_set used key gyp) targets)"

definition VerifyNoCollidingTargets :: "string list \<Rightarrow> unit res" where
  "VerifyNoCollidingTargets targets = collide_loop [] targets"

subsection \<open>Lemmas on the passes\<close>

lemma map_targets_get:
  assumes "map_targets f ts = Inr ts'"
  shows "map fst ts' = map fst ts"
    and "dict_get ts t = Some d \<Longrightarrow> \<exists>d'. dict_get ts' t = Some d' \<and> f t d = Inr d'"
proof -
  have "map fst ts' = map fst ts \<and> (dict_get ts t = Some d \<longrightarrow> (\<exists>d'. dict_get ts' t = Some d' \<and> f t d = Inr d'))"
    using assms
  proof (induction ts arbitrary: ts')
    case (Cons p ts)
    then show ?case by (cases p) (auto simp: map_targets_def bindE_Inr_iff)
  qed (simp add: map_targets_def)
  then show "map fst ts' = map fst ts"
    and "dict_get ts t = Some d \<Longrightarrow> \<exists>d'. dict_get ts' t = Some d' \<and> f t d = Inr d'" by simp_all
qed

text \<open>A pass over several keys of a dictionary, each step changing its own key only.\<close>

definition own_key :: "(gdict \<Rightarrow> string \<Rightarrow> gdict res) \<Rightarrow> bool" where
  "own_key sec \<longleftrightarrow> (\<forall>d k d' j. sec d k = Inr d' \<longrightarrow> j \<noteq> k \<longrightarrow> get d' j = get d j)"

lemma sections_other:
  "own_key sec \<Longrightarrow> foldE sec d ks = Inr d' \<Longrightarrow> j \<notin> set ks \<Longrightarrow> get d' j = get d j"
  by (induction ks arbitrary: d) (auto simp: bindE_Inr_iff own_key_def)

lemma sections_this:
  assumes "own_key sec" and "foldE sec d ks = Inr d'" and "distinct ks" and "k \<in> set ks"
  shows "\<exists>e e'. get e k = get d k \<and> sec e k = Inr e' \<and> get d' k = get e' k"
  using assms(2-4)
proof (induction ks arbitrary: d)
  case (Cons j ks)
  from Cons.prems(1) obtain d1 where d1: "sec d j = Inr d1" and rest: "foldE sec d1 ks = Inr d'"
    by (auto simp: bindE_Inr_iff)
  show ?case
  proof (cases "j = k")
    case True
    with Cons.prems(2) have "get d' k = get d1 k" by (intro sections_other [OF assms(1) rest]) auto
    with True d1 show ?thesis by blast
  next
    case False
    then have "get d1 k = get d k" using d1 assms(1) by (simp add: own_key_def)
    with Cons.prems(2,3) False Cons.IH [OF rest] show ?thesis by auto
  qed
qed simp

lemma add_target_Inr:
  "add_target f ts v = Inr ts' \<longleftrightarrow>
     (\<exists>d n tool t. v = GDict d \<and> get d ''target_name'' = Some (GStr n) \<and> get d ''toolset'' = Some (GStr tool) \<and>
        QualifiedTarget (Some f) n (Some tool) = Inr t \<and> \<not> has_key ts t \<and> ts' = dict_set ts t d)"
  by (auto simp: add_target_def getE_str_def bindE_Inr_iff getE_Inr_iff)

text \<open>\<open>target_def f v t d\<close>: the value \<open>v\<close> of a \<open>targets\<close> list of the file \<open>f\<close> defines the target \<open>t\<close>.\<close>

definition target_def :: "string \<Rightarrow> gval \<Rightarrow> string \<Rightarrow> gdict \<Rightarrow> bool" where
  "target_def f v t d \<longleftrightarrow>
     v = GDict d \<and> (\<exists>n tool. get d ''target_name'' = Some (GStr n) \<and> get d ''toolset'' = Some (GStr tool) \<and>
       QualifiedTarget (Some f) n (Some tool) = Inr t)"

lemma add_targets_get:
  "foldE (add_target f) ts vs = Inr ts' \<Longrightarrow>
    (dict_wf ts \<longrightarrow> dict_wf ts') \<and>
    (dict_get ts' t = Some d \<longleftrightarrow> dict_get ts t = Some d \<or> (\<exists>v \<in> set vs. target_def f v t d))"
proof (induction vs arbitrary: ts)
  case (Cons v vs)
  from Cons.prems obtain ts1 where a: "add_target f ts v = Inr ts1"
    and rest: "foldE (add_target f) ts1 vs = Inr ts'" by (auto simp: bindE_Inr_iff)
  from a obtain d' n tool t' where v: "v = GDict d'" "get d' ''target_name'' = Some (GStr n)"
    "get d' ''toolset'' = Some (GStr tool)" "QualifiedTarget (Some f) n (Some tool) = Inr t'"
    "\<not> has_key ts t'" "ts1 = dict_set ts t' d'" by (auto simp: add_target_Inr)
  have "dict_get ts1 t = Some d \<longleftrightarrow> dict_get ts t = Some d \<or> target_def f v t d"
    using v by (auto simp: target_def_def al.lookup_store)
  moreover have "dict_wf ts \<longrightarrow> dict_wf ts1" using v(6) by (simp add: al.wf_store)
  ultimately show ?case using Cons.IH [OF rest] by auto
qed simp

lemma add_files_get:
  "foldE (add_file_targets data) ts fs = Inr ts' \<Longrightarrow>
    (dict_wf ts \<longrightarrow> dict_wf ts') \<and>
    (dict_get ts' t = Some d \<longleftrightarrow> dict_get ts t = Some d \<or>
       (\<exists>f \<in> set fs. \<exists>fd vs. fileE data (Some f) = Inr fd \<and> get_list fd ''targets'' = Inr vs \<and>
          (\<exists>v \<in> set vs. target_def f v t d)))"
proof (induction fs arbitrary: ts)
  case (Cons f fs)
  from Cons.prems obtain ts1 where "add_file_targets data ts f = Inr ts1"
    and rest: "foldE (add_file_targets data) ts1 fs = Inr ts'" by (auto simp: bindE_Inr_iff)
  then obtain fd vs where a: "fileE data (Some f) = Inr fd" "get_list fd ''targets'' = Inr vs"
    "foldE (add_target f) ts vs = Inr ts1"
    by (auto simp: bindE_Inr_iff add_file_targets_def)
  from Cons.IH [OF rest] add_targets_get [OF a(3), of t d] a(1,2) show ?case by auto
qed simp

text \<open>The reference for the wildcard loop: every item is replaced by what it stands for.\<close>

definition expand_item :: "gyp_data \<Rightarrow> string \<Rightarrow> string \<Rightarrow> gval \<Rightarrow> gval list res" where
  "expand_item data target key v =
     bindE (as_str v) (\<lambda>name.
       if \<not> is_wildcard name then Inr [v]
       else bindE (expand_wildcard data target key name) (\<lambda>names. Inr (map GStr names)))"

definition concatE :: "('a \<Rightarrow> 'e + 'b list) \<Rightarrow> 'a list \<Rightarrow> 'e + 'b list" where
  "concatE f xs = bindE (mapE f xs) (\<lambda>ys. Inr (concat ys))"

lemma concatE_simps [simp]:
  "concatE f [] = Inr []"
  "concatE f (x # xs) = bindE (f x) (\<lambda>y. bindE (concatE f xs) (\<lambda>ys. Inr (y @ ys)))"
proof -
  show "concatE f (x # xs) = bindE (f x) (\<lambda>y. bindE (concatE f xs) (\<lambda>ys. Inr (y @ ys)))"
    by (cases "f x"; cases "mapE f xs") (simp_all add: concatE_def)
qed (simp add: concatE_def)

lemma expand_item_simps:
  "as_str v = Inl e \<Longrightarrow> expand_item data t k v = Inl e"
  "expand_item data t k (GStr name) =
     (if \<not> is_wildcard name then Inr [GStr name]
      else bindE (expand_wildcard data t k name) (\<lambda>names. Inr (map GStr names)))"
  by (simp_all add: expand_item_def)

lemma ExpandLoop_reference:
  "ExpandLoop data t k (length a) (a @ b) = bindE (concatE (expand_item data t k) b) (\<lambda>r. Inr (a @ r))"
proof (induction b arbitrary: a)
  case Nil
  then show ?case by (simp add: ExpandLoop.simps)
next
  case (Cons v b)
  show ?case
  proof (cases "as_str v")
    case (Inl e)
    then show ?thesis by (subst ExpandLoop.simps) (simp add: expand_item_simps)
  next
    case (Inr name)
    then have v: "v = GStr name" by simp
    show ?thesis
    proof (cases "is_wildcard name")
      case False
      have "ExpandLoop data t k (length a) (a @ v # b) = ExpandLoop data t k (length (a @ [v])) ((a @ [v]) @ b)"
        using v False by (subst ExpandLoop.simps) simp
      also have "\<dots> = bindE (concatE (expand_item data t k) b) (\<lambda>r. Inr ((a @ [v]) @ r))" by (rule Cons.IH)
      finally show ?thesis
        using v False by (cases "concatE (expand_item data t k) b") (simp_all add: expand_item_simps)
    next
      case True
      show ?thesis
      proof (cases "expand_wildcard data t k name")
        case (Inl e)
        with v True show ?thesis by (subst ExpandLoop.simps) (simp add: expand_item_simps)
      next
        case (Inr names)
        have "ExpandLoop data t k (length a) (a @ v # b) =
            ExpandLoop data t k (length (a @ map GStr names)) ((a @ map GStr names) @ b)"
          using v True Inr insert_all_split [of a "map GStr names" b] by (subst ExpandLoop.simps) simp
        also have "\<dots> = bindE (concatE (expand_item data t k) b) (\<lambda>r. Inr ((a @ map GStr names) @ r))"
          by (rule Cons.IH)
        finally show ?thesis
          using v True Inr by (cases "concatE (expand_item data t k) b") (simp_all add: expand_item_simps)
      qed
    qed
  qed
qed

text \<open>\<open>Unify\<close> keeps the first of equal elements, in order.\<close>

lemma unify_loop_spec:
  "(\<forall>x \<in> set l. is_hashable x) \<Longrightarrow> \<exists>r. unify_loop seen l = Inr r \<and> distinct r \<and>
     set r = set l - set seen \<and> r = filter (\<lambda>x. x \<notin> set seen) (rev (remdups (rev l)))"
proof (induction l arbitrary: seen)
  case (Cons e l)
  have rem: "rev (remdups (rev l @ [e])) = e # filter (\<lambda>x. x \<noteq> e) (rev (remdups (rev l)))"
  proof -
    have "remdups (xs @ [e]) = filter (\<lambda>x. x \<noteq> e) (remdups xs) @ [e]" for xs :: "gval list"
      by (induction xs) auto
    then show ?thesis by (simp add: rev_filter)
  qed
  show ?case
  proof (cases "e \<in> set seen")
    case True
    then have "filter (\<lambda>x. x \<noteq> e \<and> x \<notin> set seen) xs = filter (\<lambda>x. x \<notin> set seen) xs" for xs
      by (intro filter_cong) auto
    with True Cons.IH [of seen] Cons.prems show ?thesis by (auto simp: rem)
  next
    case False
    from Cons.IH [of "e # seen"] Cons.prems obtain r where r: "unify_loop (e # seen) l = Inr r" "distinct r"
      "set r = set l - set (e # seen)" "r = filter (\<lambda>x. x \<notin> set (e # seen)) (rev (remdups (rev l)))" by auto
    then have "unify_loop seen (e # l) = Inr (e # r)" using False Cons.prems by simp
    moreover have "e # r = filter (\<lambda>x. x \<notin> set seen) (rev (remdups (rev (e # l))))"
      using r(4) False by (simp add: rem conj_commute)
    moreover have "distinct (e # r)" "set (e # r) = set (e # l) - set seen" using r(2,3) False by auto
    ultimately show ?thesis by blast
  qed
qed simp

text \<open>A section other than the one at hand keeps its value.\<close>

lemma own_key_qualify: "own_key (qualify_section E t tool)"
  by (auto simp: own_key_def qualify_section_def bindE_Inr_iff al.lookup_store split: option.splits)

lemma qualify_section_this:
  assumes "qualify_section E t tool d k = Inr d'" and "get d k = Some (GList l)"
  shows "\<exists>l'. get d' k = Some (GList (map GStr l')) \<and>
           list_all2 (\<lambda>v s. \<exists>n. v = GStr n \<and> qualify_name E (BuildFile t) tool n = Inr s) l l' \<and>
           (k \<noteq> ''dependencies'' \<and> l \<noteq> [] \<longrightarrow>
              (\<exists>ds. get d' ''dependencies'' = Some (GList ds) \<and> GStr ` set l' \<subseteq> set ds))"
proof -
  from assms obtain m where m: "mapE (qualify_item E t tool d k) l = Inr m" and d': "d' = put d k (GList m)"
    by (auto simp: qualify_section_def bindE_Inr_iff)
  have "\<exists>l'. m = map GStr l' \<and>
      list_all2 (\<lambda>v s. \<exists>n. v = GStr n \<and> qualify_name E (BuildFile t) tool n = Inr s) l l' \<and>
      (k \<noteq> ''dependencies'' \<and> l \<noteq> [] \<longrightarrow> (\<exists>ds. get d ''dependencies'' = Some (GList ds) \<and> GStr ` set l' \<subseteq> set ds))"
    using m
  proof (induction l arbitrary: m)
    case (Cons v l)
    from Cons.prems obtain w m' where w: "qualify_item E t tool d k v = Inr w"
      and m': "mapE (qualify_item E t tool d k) l = Inr m'" and m: "m = w # m'" by (auto simp: bindE_Inr_iff)
    from w obtain n s where n: "v = GStr n" "qualify_name E (BuildFile t) tool n = Inr s" "w = GStr s"
      "k \<noteq> ''dependencies'' \<longrightarrow> (\<exists>ds. get d ''dependencies'' = Some (GList ds) \<and> GStr s \<in> set ds)"
      by (auto simp: qualify_item_def bindE_Inr_iff getE_Inr_iff split: if_splits)
    from Cons.IH [OF m'] obtain l' where "m' = map GStr l'"
      "list_all2 (\<lambda>v s. \<exists>n. v = GStr n \<and> qualify_name E (BuildFile t) tool n = Inr s) l l'"
      "k \<noteq> ''dependencies'' \<and> l \<noteq> [] \<longrightarrow> (\<exists>ds. get d ''dependencies'' = Some (GList ds) \<and> GStr ` set l' \<subseteq> set ds)"
      by blast
    with n m show ?case by (intro exI [of _ "s # l'"]) auto
  qed simp
  then show ?thesis unfolding d' by (auto simp: al.lookup_store)
qed

lemma qualify_target_section:
  assumes "foldE (qualify_section E t tool) d ks = Inr d'" and "distinct ks" and "k \<in> set ks"
    and "get d k = Some (GList l)" and "''dependencies'' \<in> set ks \<longrightarrow> hd ks = ''dependencies''"
  shows "\<exists>l'. get d' k = Some (GList (map GStr l')) \<and>
           list_all2 (\<lambda>v s. \<exists>n. v = GStr n \<and> qualify_name E (BuildFile t) tool n = Inr s) l l' \<and>
           (k \<noteq> ''dependencies'' \<and> l \<noteq> [] \<longrightarrow>
              (\<exists>ds. get d' ''dependencies'' = Some (GList ds) \<and> GStr ` set l' \<subseteq> set ds))"
  using assms
proof (induction ks arbitrary: d)
  case (Cons j ks)
  from Cons.prems(1) obtain d1 where d1: "qualify_section E t tool d j = Inr d1"
    and rest: "foldE (qualify_section E t tool) d1 ks = Inr d'" by (auto simp: bindE_Inr_iff)
  have nd: "''dependencies'' \<notin> set ks" using Cons.prems(2,5) by auto
  show ?case
  proof (cases "j = k")
    case True
    with Cons.prems(2) have "k \<notin> set ks" by auto
    with qualify_section_this [OF d1 [unfolded True] Cons.prems(4)] sections_other [OF own_key_qualify rest]
      nd show ?thesis by auto
  next
    case False
    then have "get d1 k = get d k" using d1 own_key_qualify [of E t tool] by (simp add: own_key_def)
    with False Cons.prems nd show ?thesis by (intro Cons.IH [OF rest]) auto
  qed
qed simp

lemma all_dependency_sections_eq:
  "all_dependency_sections =
     [''dependencies'', ''dependencies!'', ''dependencies/'', ''export_dependent_settings'',
      ''export_dependent_settings!'', ''export_dependent_settings/'']"
  by (simp add: all_dependency_sections_def dependency_sections_def)

lemma own_key_expand: "own_key (expand_section data t)"
  by (auto simp: own_key_def expand_section_def bindE_Inr_iff al.lookup_store split: option.splits)

lemma own_key_dedup: "own_key dedup_section"
  by (auto simp: own_key_def dedup_section_def bindE_Inr_iff al.lookup_store split: option.splits if_splits)

text \<open>The directory (\<open>.\<close> for none) and the name of a qualified target.\<close>

definition dir_and_name :: "string \<Rightarrow> string" where
  "dir_and_name t = (case projr (collision_key t) of (name, subdir, gyp) \<Rightarrow> subdir @ '':'' @ name)"

lemma collide_loop_ok:
  "(\<forall>t \<in> set ts. \<exists>p. collision_key t = Inr p) \<Longrightarrow>
   collide_loop used ts = Inr () \<longleftrightarrow>
     distinct (map dir_and_name ts) \<and> (\<forall>t \<in> set ts. \<not> has_key used (dir_and_name t))"
proof (induction ts arbitrary: used)
  case (Cons t ts)
  from Cons.prems obtain n s g where k: "collision_key t = Inr (n, s, g)" by auto
  then have key: "dir_and_name t = s @ '':'' @ n" by (simp add: dir_and_name_def)
  show ?case
  proof (cases "dict_get used (dir_and_name t)")
    case None
    have "collide_loop used (t # ts) = collide_loop (dict_set used (dir_and_name t) g) ts"
      using k None by (simp add: key)
    moreover have "collide_loop (dict_set used (dir_and_name t) g) ts = Inr () \<longleftrightarrow>
        distinct (map dir_and_name ts) \<and>
        (\<forall>u \<in> set ts. \<not> has_key (dict_set used (dir_and_name t) g) (dir_and_name u))"
      using Cons by simp
    moreover have "(\<forall>u \<in> set ts. \<not> has_key (dict_set used (dir_and_name t) g) (dir_and_name u)) \<longleftrightarrow>
        dir_and_name t \<notin> dir_and_name ` set ts \<and> (\<forall>u \<in> set ts. \<not> has_key used (dir_and_name u))"
      by (simp add: al.lookup_store image_iff) metis
    ultimately show ?thesis using None by (simp del: collide_loop.simps) blast
  next
    case (Some other)
    with k show ?thesis by (simp add: key)
  qed
qed simp

subsection \<open>Properties\<close>

text \<open>
  (C36) \<open>BuildTargetsDict\<close> maps exactly the targets of the target build files, each
  under its qualified name, and no name twice.
\<close>

theorem BuildTargetsDict_exact:
  assumes "BuildTargetsDict data = Inr targets"
  shows "dict_wf targets \<and>
         (dict_get targets t = Some d \<longleftrightarrow>
            (\<exists>f \<in> set (target_build_files data). \<exists>fd vs. fileE data (Some f) = Inr fd \<and>
               get_list fd ''targets'' = Inr vs \<and> (\<exists>v \<in> set vs. target_def f v t d)))"
  using add_files_get [OF assms [unfolded BuildTargetsDict_def], of t d] by (simp add: dict_wf_def)

theorem BuildTargetsDict_exact_witness:
  "let d = [(KStr ''target_name'', GStr ''a''), (KStr ''toolset'', GStr ''target'')];
       data = \<lparr>target_build_files = [''f''], gd_files = [(''f'', [(KStr ''targets'', GList [GDict d])])]\<rparr>
   in BuildTargetsDict data = Inr [(''f:a#target'', d)] \<and>
      (\<exists>f \<in> set (target_build_files data). \<exists>fd vs. fileE data (Some f) = Inr fd \<and>
         get_list fd ''targets'' = Inr vs \<and> (\<exists>v \<in> set vs. target_def f v ''f:a#target'' d))"
proof -
  let ?d = "[(KStr ''target_name'', GStr ''a''), (KStr ''toolset'', GStr ''target'')]"
  have r: "BuildTargetsDict \<lparr>target_build_files = [''f''],
      gd_files = [(''f'', [(KStr ''targets'', GList [GDict ?d])])]\<rparr> = Inr [(''f:a#target'', ?d)]"
    by (simp add: BuildTargetsDict_def add_file_targets_def fileE_def get_list_def add_target_def getE_str_def
        QualifiedTarget_def str_true_def)
  from BuildTargetsDict_exact [OF r, of "''f:a#target''" ?d] r show ?thesis unfolding Let_def by simp
qed

text \<open>
  \<open>QualifyDependencies\<close> keeps the table's names; in every dependency section of a
  target it puts the qualified form of each item, in place, and whatever stands
  in another section than \<open>dependencies\<close> then also stands there.
\<close>

theorem QualifyDependencies_sections:
  assumes "QualifyDependencies E targets = Inr targets'" and "dict_get targets t = Some d"
    and "get d ''toolset'' = Some (GStr tool)" and "k \<in> set all_dependency_sections"
    and "get d k = Some (GList l)"
  shows "\<exists>d' l'. map fst targets' = map fst targets \<and> dict_get targets' t = Some d' \<and>
           get d' k = Some (GList (map GStr l')) \<and>
           list_all2 (\<lambda>v s. \<exists>n. v = GStr n \<and> qualify_name E (BuildFile t) tool n = Inr s) l l' \<and>
           (k \<noteq> ''dependencies'' \<and> l \<noteq> [] \<longrightarrow>
              (\<exists>ds. get d' ''dependencies'' = Some (GList ds) \<and> GStr ` set l' \<subseteq> set ds))"
proof -
  note m = assms(1) [unfolded QualifyDependencies_def]
  from map_targets_get(2) [OF m assms(2)] obtain d' where d': "dict_get targets' t = Some d'"
    "qualify_target E t d = Inr d'" by blast
  from d'(2) assms(3) have f: "foldE (qualify_section E t tool) d all_dependency_sections = Inr d'"
    by (simp add: qualify_target_def getE_str_def)
  from qualify_target_section [OF f _ assms(4,5)] map_targets_get(1) [OF m] d'(1) show ?thesis
    by (auto simp: all_dependency_sections_eq)
qed

theorem QualifyDependencies_sections_witness:
  "\<exists>targets' d' l'. QualifyDependencies (base_env ''/'')
       [(''f:a#target'', [(KStr ''toolset'', GStr ''target''), (KStr ''dependencies'', GList [GStr ''b''])])] =
     Inr targets' \<and> dict_get targets' ''f:a#target'' = Some d' \<and>
     get d' ''dependencies'' = Some (GList (map GStr l')) \<and>
     list_all2 (\<lambda>v s. \<exists>n. v = GStr n \<and>
       qualify_name (base_env ''/'') (BuildFile ''f:a#target'') ''target'' n = Inr s) [GStr ''b''] l'"
proof -
  let ?d = "[(KStr ''toolset'', GStr ''target''), (KStr ''dependencies'', GList [GStr ''b''])]"
  have r: "QualifyDependencies (base_env ''/'') [(''f:a#target'', ?d)] =
      Inr [(''f:a#target'', [(KStr ''toolset'', GStr ''target''), (KStr ''dependencies'', GList [GStr ''f:b#target''])])]"
    by code_simp
  from QualifyDependencies_sections [OF r, of "''f:a#target''" ?d "''target''" "''dependencies''" "[GStr ''b'']"] r
  show ?thesis by (simp add: all_dependency_sections_eq)
qed

text \<open>
  The index loop of \<open>ExpandWildcardDependencies\<close>, which deletes and inserts in the
  list it walks over, replaces each wildcard by the targets it stands for and
  leaves every other item in place: it equals the plain list expansion.
\<close>

theorem ExpandWildcardDependencies_expands:
  assumes "ExpandWildcardDependencies targets data = Inr targets'" and "dict_get targets t = Some d"
    and "k \<in> set dependency_sections" and "get d k = Some (GList l)"
  shows "\<exists>d' l'. dict_get targets' t = Some d' \<and> get d' k = Some (GList l') \<and>
           concatE (expand_item data t k) l = Inr l'"
proof -
  from map_targets_get(2) [OF assms(1) [unfolded ExpandWildcardDependencies_def] assms(2)] obtain d' where
    d': "dict_get targets' t = Some d'" "expand_target data t d = Inr d'" by blast
  from d'(2) have f: "foldE (expand_section data t) d dependency_sections = Inr d'"
    by (auto simp: expand_target_def bindE_Inr_iff)
  from sections_this [OF own_key_expand f _ assms(3)] obtain e e' where
    e: "get e k = get d k" "expand_section data t e k = Inr e'" "get d' k = get e' k"
    by (auto simp: dependency_sections_def)
  with assms(4) obtain l' where l': "ExpandLoop data t k 0 l = Inr l'" "e' = put e k (GList l')"
    by (auto simp: expand_section_def bindE_Inr_iff)
  have "concatE (expand_item data t k) l = Inr l'"
    using ExpandLoop_reference [of data t k "[]" l] l'(1)
    by (cases "concatE (expand_item data t k) l") simp_all
  with d'(1) e(3) l'(2) show ?thesis by (simp add: al.lookup_store)
qed

theorem ExpandWildcardDependencies_expands_witness:
  "let b = [(KStr ''target_name'', GStr ''b''), (KStr ''toolset'', GStr ''target'')];
       data = \<lparr>target_build_files = [''g''], gd_files = [(''g'', [(KStr ''targets'', GList [GDict b])])]\<rparr>
   in concatE (expand_item data ''f:a#target'' ''dependencies'') [GStr ''g:*#target''] =
        Inr [GStr ''g:b#target'']"
proof -
  let ?b = "[(KStr ''target_name'', GStr ''b''), (KStr ''toolset'', GStr ''target'')]"
  let ?data = "\<lparr>target_build_files = [''g''], gd_files = [(''g'', [(KStr ''targets'', GList [GDict ?b])])]\<rparr>"
  let ?d = "[(KStr ''toolset'', GStr ''target''), (KStr ''dependencies'', GList [GStr ''g:*#target''])]"
  have r: "ExpandWildcardDependencies [(''f:a#target'', ?d)] ?data =
      Inr [(''f:a#target'', [(KStr ''toolset'', GStr ''target''), (KStr ''dependencies'', GList [GStr ''g:b#target''])])]"
    by code_simp
  from ExpandWildcardDependencies_expands [OF r, of "''f:a#target''" ?d "''dependencies''" "[GStr ''g:*#target'']"]
  show ?thesis unfolding Let_def by (simp add: dependency_sections_def)
qed

text \<open>
  \<open>RemoveDuplicateDependencies\<close> leaves each dependency once, at its first
  position, in both dependency sections of every target.
\<close>

theorem RemoveDuplicateDependencies_unique:
  assumes "RemoveDuplicateDependencies targets = Inr targets'" and "dict_get targets t = Some d"
    and "k \<in> set dependency_sections" and "get d k = Some (GList l)" and "\<forall>x \<in> set l. is_hashable x"
  shows "\<exists>d'. dict_get targets' t = Some d' \<and> get d' k = Some (GList (rev (remdups (rev l))))"
proof -
  from map_targets_get(2) [OF assms(1) [unfolded RemoveDuplicateDependencies_def] assms(2)] obtain d' where
    d': "dict_get targets' t = Some d'" and f: "foldE dedup_section d dependency_sections = Inr d'" by blast
  from sections_this [OF own_key_dedup f _ assms(3)] obtain e e' where
    e: "get e k = get d k" "dedup_section e k = Inr e'" "get d' k = get e' k"
    by (auto simp: dependency_sections_def)
  from unify_loop_spec [OF assms(5), of "[]"] have "Unify l = Inr (rev (remdups (rev l)))"
    by (auto simp: Unify_def)
  with e assms(4) have "get e' k = Some (GList (rev (remdups (rev l))))"
    by (cases "l = []") (auto simp: dedup_section_def al.lookup_store)
  with d' e(3) show ?thesis by simp
qed

theorem RemoveDuplicateDependencies_unique_witness:
  "get [(KStr ''dependencies'', GList [GStr ''b'', GStr ''c''])] ''dependencies'' =
     Some (GList (rev (remdups (rev [GStr ''b'', GStr ''c'', GStr ''b'']))))"
proof -
  have r: "RemoveDuplicateDependencies [(''a'', [(KStr ''dependencies'', GList [GStr ''b'', GStr ''c'', GStr ''b''])])] =
      Inr [(''a'', [(KStr ''dependencies'', GList [GStr ''b'', GStr ''c''])])]"
    by code_simp
  from RemoveDuplicateDependencies_unique [OF r, of "''a''" _ "''dependencies''" "[GStr ''b'', GStr ''c'', GStr ''b'']"]
  show ?thesis by (auto simp: dependency_sections_def is_hashable_def)
qed

text \<open>
  \<open>VerifyNoCollidingTargets\<close> accepts a list of qualified targets exactly when no
  two of them have the same directory and name.
\<close>

theorem VerifyNoCollidingTargets_iff:
  assumes "\<forall>t \<in> set targets. \<exists>p. collision_key t = Inr p"
  shows "VerifyNoCollidingTargets targets = Inr () \<longleftrightarrow> distinct (map dir_and_name targets)"
  using collide_loop_ok [OF assms, of "[]"]
  by (simp add: VerifyNoCollidingTargets_def)

theorem VerifyNoCollidingTargets_iff_witness:
  "VerifyNoCollidingTargets [''d/f.gyp:a'', ''d/g.gyp:a''] = Inr () \<longleftrightarrow>
     distinct (map dir_and_name [''d/f.gyp:a'', ''d/g.gyp:a''])"
proof (rule VerifyNoCollidingTargets_iff)
  have "collision_key ''d/f.gyp:a'' = Inr (''a'', ''d'', ''f.gyp'')" by code_simp
  moreover have "collision_key ''d/g.gyp:a'' = Inr (''a'', ''d'', ''g.gyp'')" by code_simp
  ultimately show "\<forall>t \<in> set [''d/f.gyp:a'', ''d/g.gyp:a'']. \<exists>p. collision_key t = Inr p" by simp
qed

end
