(* ===== verification/Input_Config.thy ===== *)
theory Input_Config
  imports Input_Merge
begin

text \<open>
  \<open>MergeConfigWithInheritance\<close> and \<open>SetUpConfigurations\<close> of
  \<open>tools/gyp/pylib/gyp/input.py\<close>.  The target dictionary is threaded through the loop
  over the configurations: the code stores each finished configuration back before
  it builds the next, so a later one that inherits from an earlier one reads the
  finished dictionary.  Inheritance may be circular; the recursion ends because
  a configuration already on the path is skipped.  Both file arguments of
  \<open>MergeDicts\<close> are the target's build file, which is only compared with itself.
\<close>

subsection \<open>Inheritance\<close>

fun val_key :: "gval \<Rightarrow> gkey res" where
  "val_key (GStr s) = Inr (KStr s)"
| "val_key (GInt i) = Inr (KInt i)"
| "val_key v = Inl (TypeError ''unhashable type'')"

definition key_val :: "gkey \<Rightarrow> gval" where
  "key_val k = (case k of KStr s \<Rightarrow> GStr s | KInt i \<Rightarrow> GInt i)"

definition key_text :: "gkey \<Rightarrow> string" where
  "key_text k = (case k of KStr s \<Rightarrow> s | KInt i \<Rightarrow> show_int i)"

definition configurations :: "gdict \<Rightarrow> gdict res" where
  "configurations target_dict = bindE (getE target_dict ''configurations'') as_dict"

definition configuration_of :: "gdict \<Rightarrow> gkey \<Rightarrow> gdict res" where
  "configuration_of target_dict configuration =
     bindE (configurations target_dict) (\<lambda>confs.
       case dict_get confs configuration of
         None \<Rightarrow> Inl (KeyError (key_text configuration))
       | Some v \<Rightarrow> as_dict v)"

definition parents_of :: "gdict \<Rightarrow> gkey list res" where
  "parents_of configuration_dict = bindE (get_list configuration_dict ''inherit_from'') (mapE val_key)"

function MergeConfigWithInheritance ::
  "gyp_env \<Rightarrow> string \<Rightarrow> gdict \<Rightarrow> gkey list \<Rightarrow> gdict \<Rightarrow> gkey \<Rightarrow> gdict res" where
  "MergeConfigWithInheritance E build_file target_dict visited new_configuration_dict configuration =
     (if configuration \<in> set visited then Inr new_configuration_dict
      else
        bindE (configuration_of target_dict configuration) (\<lambda>configuration_dict.
        bindE (parents_of configuration_dict) (\<lambda>parents.
        bindE (foldE (MergeConfigWithInheritance E build_file target_dict (visited @ [configuration]))
                 new_configuration_dict parents) (\<lambda>merged.
        bindE (MergeDicts E merged configuration_dict build_file build_file) (\<lambda>result.
          Inr (if has_key result (KStr ''abstract'') then unhook result ''abstract'' else result))))))"
  by pat_completeness auto

definition config_names :: "gdict \<Rightarrow> gkey set" where
  "config_names target_dict = (case configurations target_dict of Inl e \<Rightarrow> {} | Inr confs \<Rightarrow> fst ` set confs)"

lemma configuration_of_name: "configuration_of d c = Inr cd \<Longrightarrow> c \<in> config_names d"
proof -
  assume "configuration_of d c = Inr cd"
  then obtain confs where confs: "configurations d = Inr confs" "dict_get confs c \<noteq> None"
    by (auto simp: configuration_of_def bindE_Inr_iff split: option.splits)
  then have "c \<in> fst ` set confs" by (simp add: dict_get_def map_of_eq_None_iff)
  with confs(1) show ?thesis by (simp add: config_names_def)
qed

lemma finite_config_names [simp]: "finite (config_names d)"
  by (simp add: config_names_def split: sum.splits)

termination MergeConfigWithInheritance
proof (relation "measure (\<lambda>(E, f, d, visited, n, c). card (config_names d - set visited))", goal_cases)
  case (2 E f d visited n c cd ps s p)
  from configuration_of_name [OF 2(2)] have "card (config_names d - set (visited @ [c])) < card (config_names d - set visited)"
    using 2(1) by (intro psubset_card_mono) auto
  then show ?case by simp
qed simp

declare MergeConfigWithInheritance.simps [simp del]

subsection \<open>Setting up the configurations of a target\<close>

definition key_suffixes :: "char list" where
  "key_suffixes = ''=+?!/''"

definition key_base :: "string \<Rightarrow> string" where
  "key_base key = (if key \<noteq> [] \<and> last key \<in> set key_suffixes then butlast key else key)"

text \<open>The keys whose base is (or is not) a non-configuration key.\<close>

definition delete_keys :: "gyp_env \<Rightarrow> bool \<Rightarrow> gdict \<Rightarrow> string list res" where
  "delete_keys E inside d =
     foldE (\<lambda>ks p. bindE (key_str (fst p)) (\<lambda>key.
              Inr (if (key_base key \<in> set (non_configuration_keys E)) = inside then ks @ [key] else ks))) [] d"

definition drop_keys :: "gyp_env \<Rightarrow> bool \<Rightarrow> gdict \<Rightarrow> gdict res" where
  "drop_keys E inside d = bindE (delete_keys E inside d) (\<lambda>ks. Inr (foldl unhook d ks))"

definition is_abstract :: "gdict \<Rightarrow> bool" where
  "is_abstract d = (case get d ''abstract'' of None \<Rightarrow> False | Some v \<Rightarrow> truthy v)"

definition with_configurations :: "gdict \<Rightarrow> gdict" where
  "with_configurations d =
     (if has_key d (KStr ''configurations'') then d
      else put d ''configurations'' (GDict [(KStr ''Default'', GDict [])]))"

definition concrete_names :: "gdict \<Rightarrow> gkey list res" where
  "concrete_names confs =
     foldE (\<lambda>names p. bindE (as_dict (snd p)) (\<lambda>c.
              Inr (if is_abstract c then names else names @ [fst p]))) [] confs"

definition with_default :: "gdict \<Rightarrow> gdict res" where
  "with_default d =
     (if has_key d (KStr ''default_configuration'') then Inr d
      else bindE (configurations d) (\<lambda>confs.
           bindE (concrete_names confs) (\<lambda>concrete.
             case sort concrete of
               [] \<Rightarrow> Inl IndexError
             | c # _ \<Rightarrow> Inr (put d ''default_configuration'' (key_val c)))))"

definition build_configuration :: "gyp_env \<Rightarrow> string \<Rightarrow> gdict \<Rightarrow> gkey \<Rightarrow> gdict res" where
  "build_configuration E build_file target_dict configuration =
     bindE (configuration_of target_dict configuration) (\<lambda>old_configuration_dict.
       if is_abstract old_configuration_dict then Inr target_dict
       else
         bindE (drop_keys E True target_dict) (\<lambda>new_configuration_dict.
         bindE (MergeConfigWithInheritance E build_file target_dict [] new_configuration_dict configuration)
           (\<lambda>built.
         bindE (configurations target_dict) (\<lambda>confs.
           Inr (put target_dict ''configurations'' (GDict (dict_set confs configuration (GDict built))))))))"

definition drop_abstract :: "gdict \<Rightarrow> gkey \<Rightarrow> gdict res" where
  "drop_abstract target_dict configuration =
     bindE (configuration_of target_dict configuration) (\<lambda>c.
     bindE (configurations target_dict) (\<lambda>confs.
       Inr (if is_abstract c then put target_dict ''configurations'' (GDict (dict_del confs configuration))
            else target_dict)))"

definition check_configuration :: "string \<Rightarrow> gkey \<times> gval \<Rightarrow> unit res" where
  "check_configuration target p =
     bindE (as_dict (snd p)) (\<lambda>d.
       case find (\<lambda>key. \<exists>s \<in> set invalid_configuration_keys. key = KStr s) (map fst d) of
         None \<Rightarrow> Inr ()
       | Some key \<Rightarrow> Inl (GypError (key_text key @ '' not allowed in the '' @ key_text (fst p) @
              '' configuration, found in target '' @ target)))"

definition SetUpConfigurations :: "gyp_env \<Rightarrow> string \<Rightarrow> gdict \<Rightarrow> gdict res" where
  "SetUpConfigurations E target target_dict =
     (let build_file = (case BuildFile target of None \<Rightarrow> ''None'' | Some f \<Rightarrow> f) in
      bindE (with_default (with_configurations target_dict)) (\<lambda>d.
      bindE (configurations d) (\<lambda>confs.
      bindE (foldE (build_configuration E build_file) d (map fst confs)) (\<lambda>d.
      bindE (configurations d) (\<lambda>confs.
      bindE (foldE drop_abstract d (map fst confs)) (\<lambda>d.
      bindE (drop_keys E False d) (\<lambda>d.
      bindE (configurations d) (\<lambda>confs.
      bindE (mapE (check_configuration target) confs) (\<lambda>checked.
        Inr d)))))))))"

subsection \<open>Lemmas\<close>

lemma delete_keys_spec:
  "delete_keys E inside d = Inr ks \<Longrightarrow>
    (\<forall>p \<in> set d. \<exists>s. fst p = KStr s) \<and>
    set ks = {s. KStr s \<in> fst ` set d \<and> (key_base s \<in> set (non_configuration_keys E)) = inside}"
proof -
  let ?f = "\<lambda>ks p. bindE (key_str (fst p)) (\<lambda>key.
      Inr (if (key_base key \<in> set (non_configuration_keys E)) = inside then ks @ [key] else ks))"
  have "(\<forall>p \<in> set d. \<exists>s. fst p = KStr s) \<and>
      set ks = set ks0 \<union> {s. KStr s \<in> fst ` set d \<and> (key_base s \<in> set (non_configuration_keys E)) = inside}"
    if "foldE ?f ks0 d = Inr ks" for ks0 and d :: gdict
    using that
  proof (induction d arbitrary: ks0)
    case (Cons p d)
    from Cons.prems obtain s where s: "fst p = KStr s"
      and rest: "foldE ?f (if (key_base s \<in> set (non_configuration_keys E)) = inside then ks0 @ [s] else ks0) d = Inr ks"
      by (auto simp: bindE_Inr_iff)
    from Cons.IH [OF rest] s show ?case by auto
  qed simp
  from this [of "[]" d] show "delete_keys E inside d = Inr ks \<Longrightarrow> ?thesis"
    by (simp add: delete_keys_def)
qed

lemma get_foldl_del: "dict_get (foldl unhook d ks) k = (if k \<in> KStr ` set ks then None else dict_get d k)"
  by (induction ks arbitrary: d) auto

lemma foldl_del_sub: "p \<in> set (foldl unhook d ks) \<Longrightarrow> p \<in> set d \<and> fst p \<notin> KStr ` set ks"
proof (induction ks arbitrary: d)
  case (Cons k ks)
  from Cons.IH [of "unhook d k"] Cons.prems have "p \<in> set (unhook d k)" "fst p \<notin> KStr ` set ks" by auto
  with dict_del_sub [of "fst p" "snd p" d "KStr k"] show ?case by auto
qed simp

lemma drop_keys_spec:
  assumes "drop_keys E inside d = Inr d'"
  shows "\<forall>p \<in> set d'. \<exists>s. fst p = KStr s \<and> (key_base s \<in> set (non_configuration_keys E)) \<noteq> inside"
    and "get d' k = (if (key_base k \<in> set (non_configuration_keys E)) = inside then None else get d k)"
proof -
  from assms obtain ks where ks: "delete_keys E inside d = Inr ks" "d' = foldl unhook d ks"
    by (auto simp: drop_keys_def bindE_Inr_iff)
  note s = delete_keys_spec [OF ks(1)]
  show "\<forall>p \<in> set d'. \<exists>s. fst p = KStr s \<and> (key_base s \<in> set (non_configuration_keys E)) \<noteq> inside"
  proof
    fix p assume "p \<in> set d'"
    then have p: "p \<in> set d" "fst p \<notin> KStr ` set ks" using foldl_del_sub ks(2) by blast+
    with s obtain x where "fst p = KStr x" by blast
    moreover from this p have "KStr x \<in> fst ` set d" "x \<notin> set ks" by (metis image_eqI, auto)
    then have "(key_base x \<in> set (non_configuration_keys E)) \<noteq> inside" using s by blast
    ultimately show "\<exists>s. fst p = KStr s \<and> (key_base s \<in> set (non_configuration_keys E)) \<noteq> inside" by blast
  qed
  have "get d k = None" if "KStr k \<notin> fst ` set d"
    using that by (simp add: dict_get_def map_of_eq_None_iff)
  then show "get d' k = (if (key_base k \<in> set (non_configuration_keys E)) = inside then None else get d k)"
    unfolding ks(2) get_foldl_del using s by auto
qed

lemma drop_abstract_step:
  assumes "drop_abstract d c = Inr d'" and "configurations d = Inr confs"
  shows "\<exists>v. dict_get confs c = Some (GDict v) \<and>
           configurations d' = Inr (if is_abstract v then dict_del confs c else confs)"
proof -
  from assms obtain v where v: "configuration_of d c = Inr v"
    and d': "d' = (if is_abstract v then put d ''configurations'' (GDict (dict_del confs c)) else d)"
    by (auto simp: drop_abstract_def bindE_Inr_iff)
  from v assms(2) have "dict_get confs c = Some (GDict v)"
    by (auto simp: configuration_of_def split: option.splits)
  moreover have "configurations d' = Inr (if is_abstract v then dict_del confs c else confs)"
    using d' assms(2) by (simp add: configurations_def getE_def al.lookup_store)
  ultimately show ?thesis by blast
qed

lemma drop_abstract_all:
  "foldE drop_abstract d cs = Inr d' \<Longrightarrow> configurations d = Inr confs \<Longrightarrow>
    \<exists>confs'. configurations d' = Inr confs' \<and>
      (\<forall>c. dict_get confs' c \<noteq> None \<longrightarrow> dict_get confs' c = dict_get confs c) \<and>
      (\<forall>c v. dict_get confs c = Some (GDict v) \<longrightarrow> \<not> is_abstract v \<longrightarrow> dict_get confs' c = Some (GDict v)) \<and>
      (\<forall>c \<in> set cs. dict_get confs' c = None \<or> (\<exists>v. dict_get confs' c = Some (GDict v) \<and> \<not> is_abstract v))"
proof (induction cs arbitrary: d confs)
  case (Cons c cs)
  from Cons.prems(1) obtain d1 where d1: "drop_abstract d c = Inr d1" and rest: "foldE drop_abstract d1 cs = Inr d'"
    by (auto simp: bindE_Inr_iff)
  from drop_abstract_step [OF d1 Cons.prems(2)] obtain v where v: "dict_get confs c = Some (GDict v)"
    "configurations d1 = Inr (if is_abstract v then dict_del confs c else confs)" by blast
  from Cons.IH [OF rest v(2)] obtain confs' where c': "configurations d' = Inr confs'"
    "\<And>x. dict_get confs' x \<noteq> None \<Longrightarrow> dict_get confs' x = dict_get (if is_abstract v then dict_del confs c else confs) x"
    "\<And>x w. dict_get (if is_abstract v then dict_del confs c else confs) x = Some (GDict w) \<Longrightarrow> \<not> is_abstract w \<Longrightarrow>
       dict_get confs' x = Some (GDict w)"
    "\<forall>x \<in> set cs. dict_get confs' x = None \<or> (\<exists>v. dict_get confs' x = Some (GDict v) \<and> \<not> is_abstract v)" by blast
  have a: "dict_get confs' x = dict_get confs x" if "dict_get confs' x \<noteq> None" for x
    using c'(2) [OF that] that by (auto split: if_splits)
  have b: "dict_get confs' x = Some (GDict w)" if "dict_get confs x = Some (GDict w)" "\<not> is_abstract w" for x w
    using that v(1) by (intro c'(3)) auto
  have e: "dict_get confs' c = None \<or> (\<exists>v. dict_get confs' c = Some (GDict v) \<and> \<not> is_abstract v)"
    using c'(2) [of c] v(1) by (cases "is_abstract v"; cases "dict_get confs' c") auto
  show ?case
    by (rule exI [of _ confs'], intro conjI allI impI ballI, rule c'(1), erule a, erule (1) b)
      (use e c'(4) in force)
qed simp

lemma check_configurations_ok:
  assumes "mapE (check_configuration target) confs = Inr u" and "(c, v) \<in> set confs"
  shows "\<exists>d. v = GDict d \<and> (\<forall>s \<in> set invalid_configuration_keys. get d s = None)"
proof -
  have "\<exists>r. check_configuration target (c, v) = Inr r"
    using assms by (induction confs arbitrary: u) (auto simp: bindE_Inr_iff)
  then obtain d where d: "v = GDict d"
    and n: "find (\<lambda>key. \<exists>s \<in> set invalid_configuration_keys. key = KStr s) (map fst d) = None"
    by (auto simp: check_configuration_def bindE_Inr_iff split: option.splits)
  from n have n: "KStr s \<notin> fst ` set d" if "s \<in> set invalid_configuration_keys" for s
    using that by (auto simp: find_None_iff image_iff)
  have "get d s = None" if "s \<in> set invalid_configuration_keys" for s
    using n [OF that] by (simp add: dict_get_def map_of_eq_None_iff)
  with d show ?thesis by blast
qed

lemma MergeConfig_last_merge:
  assumes "MergeConfigWithInheritance E f d visited n c = Inr r" and "c \<notin> set visited"
  shows "\<exists>cd m r'. configuration_of d c = Inr cd \<and> MergeDicts E m cd f f = Inr r' \<and>
           (\<forall>k. dict_get r k = (if k = KStr ''abstract'' then None else dict_get r' k))"
proof -
  from assms obtain cd m r' where c: "configuration_of d c = Inr cd" "MergeDicts E m cd f f = Inr r'"
    "r = (if has_key r' (KStr ''abstract'') then unhook r' ''abstract'' else r')"
    by (subst (asm) MergeConfigWithInheritance.simps) (auto simp: bindE_Inr_iff)
  have "dict_get r k = (if k = KStr ''abstract'' then None else dict_get r' k)" for k
    by (cases "get r' ''abstract''") (auto simp: c(3))
  with c(1,2) show ?thesis by blast
qed

subsection \<open>Properties\<close>

text \<open>
  After \<open>SetUpConfigurations\<close> the target keeps only keys that do not belong in a
  configuration, and its configurations are all concrete: none is abstract and
  none holds a key that is invalid in a configuration.
\<close>

theorem SetUpConfigurations_shape:
  assumes "SetUpConfigurations E target target_dict = Inr d"
  shows "(\<forall>p \<in> set d. \<exists>s. fst p = KStr s \<and> key_base s \<in> set (non_configuration_keys E)) \<and>
         (\<exists>confs. get d ''configurations'' = Some (GDict confs) \<and>
            (\<forall>(c, v) \<in> set confs. dict_get confs c = Some v \<longrightarrow>
               (\<exists>cd. v = GDict cd \<and> \<not> is_abstract cd \<and>
                  (\<forall>s \<in> set invalid_configuration_keys. get cd s = None))))"
proof -
  from assms obtain d1 confs1 d2 confs2 u where r: "configurations d1 = Inr confs1"
    "foldE drop_abstract d1 (map fst confs1) = Inr d2" "drop_keys E False d2 = Inr d"
    "configurations d = Inr confs2" "mapE (check_configuration target) confs2 = Inr u"
    by (auto simp: SetUpConfigurations_def Let_def bindE_Inr_iff)
  note keep = drop_keys_spec [OF r(3)]
  from drop_abstract_all [OF r(2,1)] obtain confs' where c': "configurations d2 = Inr confs'"
    "\<And>c. dict_get confs' c \<noteq> None \<Longrightarrow> dict_get confs' c = dict_get confs1 c"
    "\<forall>c \<in> set (map fst confs1). dict_get confs' c = None \<or> (\<exists>v. dict_get confs' c = Some (GDict v) \<and> \<not> is_abstract v)"
    by blast
  have g: "get d ''configurations'' = Some (GDict confs2)"
    using r(4) by (simp add: configurations_def bindE_Inr_iff getE_Inr_iff)
  have "confs' = confs2"
    using c'(1) g keep(2) [of "''configurations''"]
    by (auto simp: configurations_def bindE_Inr_iff getE_Inr_iff split: if_splits)
  have "\<exists>cd. v = GDict cd \<and> \<not> is_abstract cd \<and> (\<forall>s \<in> set invalid_configuration_keys. get cd s = None)"
    if "(c, v) \<in> set confs2" "dict_get confs2 c = Some v" for c v
  proof -
    have "dict_get confs1 c = Some v" using c'(2) [of c] that(2) \<open>confs' = confs2\<close> by simp
    then have "c \<in> set (map fst confs1)" by (metis dict_get_Some_in fst_conv image_eqI set_map)
    with c'(3) that(2) \<open>confs' = confs2\<close> obtain cd where "v = GDict cd" "\<not> is_abstract cd" by auto
    with check_configurations_ok [OF r(5) that(1)] show ?thesis by auto
  qed
  with keep(1) g show ?thesis by auto
qed

theorem SetUpConfigurations_shape_witness:
  "\<exists>d. SetUpConfigurations (base_env ''/'') ''f:t''
         [(KStr ''type'', GStr ''none''), (KStr ''defines'', GList [GStr ''A'']),
          (KStr ''configurations'', GDict
             [(KStr ''Base'', GDict [(KStr ''abstract'', GInt 1), (KStr ''cflags'', GList [GStr ''-g''])]),
              (KStr ''Debug'', GDict [(KStr ''inherit_from'', GList [GStr ''Base''])])])] = Inr d \<and>
       (\<forall>p \<in> set d. \<exists>s. fst p = KStr s \<and> key_base s \<in> set (non_configuration_keys (base_env ''/'')))"
proof -
  have r: "SetUpConfigurations (base_env ''/'') ''f:t''
         [(KStr ''type'', GStr ''none''), (KStr ''defines'', GList [GStr ''A'']),
          (KStr ''configurations'', GDict
             [(KStr ''Base'', GDict [(KStr ''abstract'', GInt 1), (KStr ''cflags'', GList [GStr ''-g''])]),
              (KStr ''Debug'', GDict [(KStr ''inherit_from'', GList [GStr ''Base''])])])] =
     Inr [(KStr ''type'', GStr ''none''), (KStr ''configurations'', GDict
            [(KStr ''Debug'', GDict [(KStr ''defines'', GList [GStr ''A'']), (KStr ''cflags'', GList [GStr ''-g'']),
               (KStr ''inherit_from'', GList [GStr ''Base''])])]),
          (KStr ''default_configuration'', GStr ''Debug'')]"
    by code_simp
  from SetUpConfigurations_shape [OF r] r show ?thesis by blast
qed

text \<open>
  In a configuration built with inheritance the configuration's own strings and
  integers win over those of its parents and of the target, even when the
  inheritance is circular.
\<close>

theorem MergeConfigWithInheritance_own_wins:
  assumes "MergeConfigWithInheritance E f target_dict [] n c = Inr r"
    and "configuration_of target_dict c = Inr (xs @ (KStr k, v) # ys)" and "is_scalar v"
    and "KStr k \<notin> target_of ` set xs" and "KStr k \<notin> target_of ` set ys"
    and "k \<noteq> ''abstract''"
  shows "\<exists>v'. merge_scalar E f f (KStr k) v = Inr v' \<and> get r k = Some v'"
proof -
  from MergeConfig_last_merge [OF assms(1)] assms(2) obtain m r' where
    m: "MergeDicts E m (xs @ (KStr k, v) # ys) f f = Inr r'"
    "\<And>j. dict_get r j = (if j = KStr ''abstract'' then None else dict_get r' j)" by auto
  from MergeDicts_scalar_item [OF m(1) assms(3-5)] m(2) [of "KStr k"] assms(6) show ?thesis by simp
qed

theorem MergeConfigWithInheritance_own_wins_witness:
  "\<exists>v'. merge_scalar (base_env ''/'') ''f'' ''f'' (KStr ''x'') (GStr ''own'') = Inr v' \<and>
        get [(KStr ''x'', GStr ''own''), (KStr ''inherit_from'', GList [GStr ''A'', GStr ''B''])] ''x'' = Some v'"
proof (rule MergeConfigWithInheritance_own_wins [where ys = "[(KStr ''inherit_from'', GList [GStr ''B''])]" and xs = "[]"])
  let ?d = "[(KStr ''configurations'', GDict
      [(KStr ''A'', GDict [(KStr ''x'', GStr ''own''), (KStr ''inherit_from'', GList [GStr ''B''])]),
       (KStr ''B'', GDict [(KStr ''x'', GStr ''base''), (KStr ''inherit_from'', GList [GStr ''A''])])])]"
  show "MergeConfigWithInheritance (base_env ''/'') ''f'' ?d [] [] (KStr ''A'') =
      Inr [(KStr ''x'', GStr ''own''), (KStr ''inherit_from'', GList [GStr ''A'', GStr ''B''])]" by code_simp
  show "configuration_of ?d (KStr ''A'') =
      Inr ([] @ (KStr ''x'', GStr ''own'') # [(KStr ''inherit_from'', GList [GStr ''B''])])" by code_simp
qed (simp_all add: target_of_def list_policy_of_def)

end
