(* ===== verification/Input_Validate.thy ===== *)
theory Input_Validate
  imports Input_Merge
begin

text \<open>
  The checks at the end of \<open>Load\<close> in \<open>tools/gyp/pylib/gyp/input.py\<close>
  (\<open>ValidateTargetType\<close>, \<open>ValidateSourcesInTarget\<close>, \<open>ValidateRulesInTarget\<close>,
  \<open>ValidateRunAsInTarget\<close>, \<open>ValidateActionsInTarget\<close>) and the conversion of integers
  (\<open>TurnIntIntoStrInDict\<close>, \<open>TurnIntIntoStrInList\<close>).  A check returns \<open>()\<close> or raises; the
  rule check also stores \<open>rule_sources\<close>, so it returns the target.  The listing
  that \<open>ValidateSourcesInTarget\<close> prints before it raises is not modelled.
\<close>

subsection \<open>Target types\<close>

text \<open>\<open>%s\<close> of a value that may be absent; a container is abbreviated to its class.\<close>

definition opt_text :: "gval option \<Rightarrow> string" where
  "opt_text v =
     (case v of
        None \<Rightarrow> ''None'' | Some (GStr s) \<Rightarrow> s | Some (GInt i) \<Rightarrow> show_int i | Some w \<Rightarrow> class_name w)"

definition opt_true :: "gval option \<Rightarrow> bool" where
  "opt_true v = (case v of None \<Rightarrow> False | Some w \<Rightarrow> truthy w)"

definition VALID_TARGET_TYPES :: "string list" where
  "VALID_TARGET_TYPES =
     [''executable'', ''loadable_module'', ''static_library'', ''shared_library'', ''none'']"

definition ValidateTargetType :: "string \<Rightarrow> gdict \<Rightarrow> unit res" where
  "ValidateTargetType target target_dict =
     (let target_type = get target_dict ''type'' in
      if target_type \<notin> (\<lambda>s. Some (GStr s)) ` set VALID_TARGET_TYPES
      then Inl (GypError (''Target '' @ target @ '' has an invalid target type '' @ [ch_squote] @
             opt_text target_type @ [ch_squote] @ ''.  Must be one of '' @
             join_with ''/'' VALID_TARGET_TYPES @ ''.''))
      else if opt_true (get target_dict ''standalone_static_library'') \<and>
              target_type \<noteq> Some (GStr ''static_library'')
      then Inl (GypError (''Target '' @ target @ '' has type '' @ opt_text target_type @
             '' but standalone_static_library flag is only valid for static_library type.''))
      else Inr ())"

subsection \<open>Sources\<close>

definition compiled_extensions :: "string list" where
  "compiled_extensions = [''.c'', ''.cc'', ''.cpp'', ''.cxx'', ''.m'', ''.mm'', ''.s'', ''.S'']"

definition add_basename ::
  "(string \<times> string list) list \<Rightarrow> gval \<Rightarrow> (string \<times> string list) list res" where
  "add_basename basenames v =
     bindE (as_str v) (\<lambda>source.
       let (name, ext) = splitext source in
       if ext \<notin> set compiled_extensions then Inr basenames
       else let b = basename name;
                files = (case dict_get basenames b of None \<Rightarrow> [] | Some l \<Rightarrow> l)
            in Inr (dict_set basenames b (files @ [source])))"

definition ValidateSourcesInTarget :: "string \<Rightarrow> gdict \<Rightarrow> unit res" where
  "ValidateSourcesInTarget target target_dict =
     (if get target_dict ''type'' \<noteq> Some (GStr ''static_library'') then Inr ()
      else
        bindE (get_list target_dict ''sources'') (\<lambda>sources.
        bindE (foldE add_basename [] sources) (\<lambda>basenames.
          if \<exists>p \<in> set basenames. length (snd p) > 1
          then Inl (GypError ''Duplicate basenames in sources section, see list above'')
          else Inr ())))"

subsection \<open>Rules\<close>

definition source_extension :: "string \<Rightarrow> string" where
  "source_extension source =
     (let ext = snd (splitext source) in if startswith ext ''.'' then drop 1 ext else ext)"

fun rule_sources_of :: "gval \<Rightarrow> gval list \<Rightarrow> gval list res" where
  "rule_sources_of extension [] = Inr []"
| "rule_sources_of extension (v # vs) =
     bindE (as_str v) (\<lambda>source.
     bindE (rule_sources_of extension vs) (\<lambda>rest.
       Inr (if GStr (source_extension source) = extension then v # rest else rest)))"

record rule_state =
  rule_names :: "gval list"
  rule_extensions :: "(gval \<times> gdict) list"
  done_rules :: "gval list"

definition hashable :: "gval \<Rightarrow> gval res" where
  "hashable v = (if is_hashable v then Inr v else Inl (TypeError (''unhashable type: '' @ class_name v)))"

definition validate_rule ::
  "string \<Rightarrow> gdict \<Rightarrow> string list \<Rightarrow> rule_state \<Rightarrow> gval \<Rightarrow> rule_state res" where
  "validate_rule target target_dict extra_sources_for_rules st v =
     bindE (as_dict v) (\<lambda>rule.
     bindE (bindE (getE rule ''rule_name'') hashable) (\<lambda>rule_name.
       if rule_name \<in> set (rule_names st)
       then Inl (GypError (''rule '' @ opt_text (Some rule_name) @ '' exists in duplicate, target '' @ target))
       else
         bindE (bindE (getE rule ''extension'') hashable) (\<lambda>extension.
           case dict_get (rule_extensions st) extension of
             Some other \<Rightarrow>
               Inl (GypError (''extension '' @ opt_text (Some extension) @
                 '' associated with multiple rules, target '' @ target @ '' rules '' @
                 opt_text (get other ''rule_name'') @ '' and '' @ opt_text (Some rule_name)))
           | None \<Rightarrow>
               if has_key rule (KStr ''rule_sources'')
               then Inl (GypError (''rule_sources must not exist in input, target '' @ target @
                      '' rule '' @ opt_text (Some rule_name)))
               else
                 bindE (mapE (get_list target_dict) (''sources'' # extra_sources_for_rules)) (\<lambda>sources.
                 bindE (rule_sources_of extension (concat sources)) (\<lambda>rule_sources.
                   Inr \<lparr>rule_names = rule_name # rule_names st,
                        rule_extensions = dict_set (rule_extensions st) extension rule,
                        done_rules = done_rules st @
                          [GDict (if rule_sources \<noteq> [] then put rule ''rule_sources'' (GList rule_sources)
                                  else rule)]\<rparr>)))))"

definition ValidateRulesInTarget :: "string \<Rightarrow> gdict \<Rightarrow> string list \<Rightarrow> gdict res" where
  "ValidateRulesInTarget target target_dict extra_sources_for_rules =
     (case get target_dict ''rules'' of
        None \<Rightarrow> Inr target_dict
      | Some v \<Rightarrow>
          bindE (as_list v) (\<lambda>rules.
          bindE (foldE (validate_rule target target_dict extra_sources_for_rules)
                   \<lparr>rule_names = [], rule_extensions = [], done_rules = []\<rparr> rules) (\<lambda>st.
            Inr (put target_dict ''rules'' (GList (done_rules st))))))"

subsection \<open>Run-as and actions\<close>

definition target_and_file :: "gdict \<Rightarrow> string \<Rightarrow> string" where
  "target_and_file target_dict build_file =
     '' in target '' @ opt_text (get target_dict ''target_name'') @ '' from file '' @ build_file"

definition ValidateRunAsInTarget :: "string \<Rightarrow> gdict \<Rightarrow> string \<Rightarrow> unit res" where
  "ValidateRunAsInTarget target target_dict build_file =
     (let name = opt_text (get target_dict ''target_name''); q = (\<lambda>s. [ch_squote] @ s @ [ch_squote]) in
      if \<not> opt_true (get target_dict ''run_as'') then Inr ()
      else case get target_dict ''run_as'' of
        Some (GDict run_as) \<Rightarrow>
          if \<not> opt_true (get run_as ''action'')
          then Inl (GypError (''The '' @ q ''run_as'' @ target_and_file target_dict build_file @
                 '' must have an '' @ q ''action'' @ '' section.''))
          else if \<not> is_list (the (get run_as ''action''))
          then Inl (GypError (''The '' @ q ''action'' @ '' for '' @ q ''run_as'' @
                 target_and_file target_dict build_file @ '' must be a list.''))
          else if opt_true (get run_as ''working_directory'') \<and>
                  \<not> is_str (the (get run_as ''working_directory''))
          then Inl (GypError (''The '' @ q ''working_directory'' @ '' for '' @ q ''run_as'' @
                 '' in target '' @ name @ '' in file '' @ build_file @ '' should be a string.''))
          else if opt_true (get run_as ''environment'') \<and>
                  \<not> is_dict (the (get run_as ''environment''))
          then Inl (GypError (''The '' @ q ''environment'' @ '' for '' @ q ''run_as'' @
                 '' in target '' @ name @ '' in file '' @ build_file @ '' should be a dictionary.''))
          else Inr ()
      | _ \<Rightarrow> Inl (GypError (''The '' @ q ''run_as'' @ target_and_file target_dict build_file @
               '' should be a dictionary.'')))"

text \<open>\<open>action_command[0]\<close>, on a list, a string or a dictionary.\<close>

definition first_item :: "gval \<Rightarrow> gval res" where
  "first_item v =
     (case v of
        GList (x # _) \<Rightarrow> Inr x
      | GStr (c # _) \<Rightarrow> Inr (GStr [c])
      | GDict d \<Rightarrow> (case dict_get d (KInt 0) of None \<Rightarrow> Inl (KeyError ''0'') | Some x \<Rightarrow> Inr x)
      | GList [] \<Rightarrow> Inl IndexError
      | GStr [] \<Rightarrow> Inl IndexError
      | _ \<Rightarrow> Inl (TypeError ''object has no attribute __getitem__''))"

definition validate_action :: "gdict \<Rightarrow> gval \<Rightarrow> unit res" where
  "validate_action target_dict v =
     bindE (as_dict v) (\<lambda>action.
       let name = opt_text (get target_dict ''target_name'') in
       if \<not> opt_true (get action ''action_name'')
       then Inl (GypError (''Anonymous action in target '' @ name @ ''.  An action must have an '' @
              [ch_squote] @ ''action_name'' @ [ch_squote] @ '' field.''))
       else if case get action ''inputs'' of None \<Rightarrow> True | Some v \<Rightarrow> class_name v = ''NoneType''
       then Inl (GypError (''Action in target '' @ name @ '' has no inputs.''))
       else if \<not> opt_true (get action ''action'') then Inr ()
       else bindE (first_item (the (get action ''action''))) (\<lambda>first.
              if \<not> truthy first then Inl (GypError (''Empty action as command in target '' @ name @ ''.''))
              else Inr ()))"

definition ValidateActionsInTarget :: "string \<Rightarrow> gdict \<Rightarrow> string \<Rightarrow> unit res" where
  "ValidateActionsInTarget target target_dict build_file =
     bindE (get_list target_dict ''actions'') (\<lambda>actions.
     bindE (mapE (validate_action target_dict) actions) (\<lambda>checked. Inr ()))"

subsection \<open>Integers into strings\<close>

text \<open>
  One step of the loop over \<open>the_dict.items()\<close>.  The loop runs over the entries as
  they were; a converted container is the object already in the dictionary, unless
  an integer key with the same text has replaced it there (\<open>replaced\<close>).
\<close>

definition turn_item ::
  "gdict \<times> gkey list \<Rightarrow> (gkey \<times> gval) \<times> gval \<Rightarrow> gdict \<times> gkey list" where
  "turn_item st p =
     (let (the_dict, replaced) = st; ((k, v), v') = p;
          d = (case v of
                 GInt i \<Rightarrow> dict_set the_dict k v'
               | GDict e \<Rightarrow> if k \<in> set replaced then the_dict else dict_set the_dict k v'
               | GList l \<Rightarrow> if k \<in> set replaced then the_dict else dict_set the_dict k v'
               | _ \<Rightarrow> the_dict)
      in case k of
           KStr s \<Rightarrow> (d, replaced)
         | KInt i \<Rightarrow> (dict_del (dict_set d (KStr (show_int i)) v') k, KStr (show_int i) # replaced))"

fun TurnIntIntoStr :: "gval \<Rightarrow> gval" where
  "TurnIntIntoStr (GInt i) = GStr (show_int i)"
| "TurnIntIntoStr (GList l) = GList (map TurnIntIntoStr l)"
| "TurnIntIntoStr (GDict d) =
     GDict (fst (foldl turn_item (d, []) (zip d (map (\<lambda>p. TurnIntIntoStr (snd p)) d))))"
| "TurnIntIntoStr v = v"

definition TurnIntIntoStrInDict :: "gdict \<Rightarrow> gdict" where
  "TurnIntIntoStrInDict the_dict =
     fst (foldl turn_item (the_dict, []) (zip the_dict (map (\<lambda>p. TurnIntIntoStr (snd p)) the_dict)))"

definition TurnIntIntoStrInList :: "gval list \<Rightarrow> gval list" where
  "TurnIntIntoStrInList the_list = map TurnIntIntoStr the_list"

subsection \<open>No integer is left\<close>

fun no_ints :: "gval \<Rightarrow> bool" where
  "no_ints (GInt i) = False"
| "no_ints (GList l) = (\<forall>v \<in> set l. no_ints v)"
| "no_ints (GDict d) = (\<forall>p \<in> set d. (\<exists>s. fst p = KStr s) \<and> no_ints (snd p))"
| "no_ints _ = True"

text \<open>
  The invariant of the loop: \<open>ks\<close> are the keys still to come.  An entry is converted,
  or it is still the original one.
\<close>

definition turn_inv :: "gdict \<Rightarrow> gkey list \<Rightarrow> gdict \<times> gkey list \<Rightarrow> bool" where
  "turn_inv d0 ks st \<longleftrightarrow>
     (\<forall>k w. dict_get (fst st) k = Some w \<longrightarrow>
        (if k \<in> set (snd st) \<or> k \<notin> set ks then (\<exists>s. k = KStr s) \<and> no_ints w
         else dict_get d0 k = Some w))"

lemma turn_item_inv:
  assumes inv: "turn_inv d0 (k # ks) (d, rep)" and v: "dict_get d0 k = Some v" and v': "no_ints v'"
    and same: "\<not> is_list v \<Longrightarrow> \<not> is_dict v \<Longrightarrow> (\<forall>i. v \<noteq> GInt i) \<Longrightarrow> no_ints v"
    and fresh: "k \<notin> set ks"
  shows "turn_inv d0 ks (turn_item (d, rep) ((k, v), v'))"
proof -
  define e where "e = (case v of
                 GInt i \<Rightarrow> dict_set d k v'
               | GDict e \<Rightarrow> if k \<in> set rep then d else dict_set d k v'
               | GList l \<Rightarrow> if k \<in> set rep then d else dict_set d k v'
               | _ \<Rightarrow> d)"
  have get_e: "dict_get e j = dict_get d j" if "j \<noteq> k" for j
    unfolding e_def using that by (auto simp: al.lookup_store split: gval.splits)
  have inv_j: "if j \<in> set rep \<or> j \<notin> set (k # ks) then (\<exists>s. j = KStr s) \<and> no_ints w else dict_get d0 j = Some w"
    if "dict_get d j = Some w" for j w
    using inv that by (simp add: turn_inv_def)
  have e_k: "no_ints w" if w: "dict_get e k = Some w" for w
  proof (cases "\<exists>i. v = GInt i")
    case True
    with w v' show ?thesis by (auto simp: e_def)
  next
    case ni: False
    show ?thesis
    proof (cases "is_list v \<or> is_dict v")
      case True
      with w v' inv_j [of k w] show ?thesis
        by (cases v) (auto simp: e_def al.lookup_store split: if_splits)
    next
      case False
      with w ni have "dict_get d k = Some w" by (cases v) (auto simp: e_def)
      from inv_j [OF this] v same False ni show ?thesis by (auto split: if_splits)
    qed
  qed
  show ?thesis
  proof (cases k)
    case (KStr s)
    then have t: "turn_item (d, rep) ((k, v), v') = (e, rep)" by (simp add: turn_item_def e_def split: gval.splits)
    show ?thesis
      unfolding t turn_inv_def fst_conv snd_conv
    proof (intro allI impI)
      fix j w assume w: "dict_get e j = Some w"
      show "if j \<in> set rep \<or> j \<notin> set ks then (\<exists>s. j = KStr s) \<and> no_ints w else dict_get d0 j = Some w"
        using w KStr e_k [of w] fresh get_e [of j] inv_j [of j w] by (cases "j = k") auto
    qed
  next
    case (KInt i)
    then have t: "turn_item (d, rep) ((k, v), v') =
        (dict_del (dict_set e (KStr (show_int i)) v') k, KStr (show_int i) # rep)"
      by (simp add: turn_item_def e_def split: gval.splits)
    show ?thesis
      unfolding t turn_inv_def fst_conv snd_conv
    proof (intro allI impI)
      fix j w assume w: "dict_get (dict_del (dict_set e (KStr (show_int i)) v') k) j = Some w"
      then have "j \<noteq> k" by auto
      with w v' KInt get_e [of j] inv_j [of j w]
      show "if j \<in> set (KStr (show_int i) # rep) \<or> j \<notin> set ks
            then (\<exists>s. j = KStr s) \<and> no_ints w else dict_get d0 j = Some w"
        by (auto simp: al.lookup_store split: if_splits)
    qed
  qed
qed

lemma turn_fold_inv:
  assumes "turn_inv d0 (map fst ps) st" and "distinct (map fst ps)"
    and "\<And>p. p \<in> set ps \<Longrightarrow> dict_get d0 (fst p) = Some (snd p) \<and> no_ints (f (snd p))"
    and "\<And>v. \<not> is_list v \<Longrightarrow> \<not> is_dict v \<Longrightarrow> (\<forall>i. v \<noteq> GInt i) \<Longrightarrow> no_ints v"
  shows "turn_inv d0 [] (foldl turn_item st (zip ps (map (\<lambda>p. f (snd p)) ps)))"
  using assms(1-3)
proof (induction ps arbitrary: st)
  case (Cons p ps)
  obtain k v where p: "p = (k, v)" by (cases p)
  obtain d rep where st: "st = (d, rep)" by (cases st)
  have "turn_inv d0 (map fst ps) (turn_item (d, rep) ((k, v), f v))"
    using Cons.prems(1,2) Cons.prems(3) [of "(k, v)"] p st assms(4) by (intro turn_item_inv) auto
  with Cons p st show ?case by simp
qed simp

lemma other_no_ints: "\<not> is_list v \<Longrightarrow> \<not> is_dict v \<Longrightarrow> (\<forall>i. v \<noteq> GInt i) \<Longrightarrow> no_ints v"
  by (cases v) auto

lemma turn_item_wf: "dict_wf (fst st) \<Longrightarrow> dict_wf (fst (turn_item st p))"
  by (auto simp: turn_item_def Let_def al.wf_store al.wf_del split: prod.splits gval.splits gkey.splits)

lemma turn_dict_no_ints:
  assumes "dict_wf d" and "\<And>p. p \<in> set d \<Longrightarrow> no_ints (f (snd p))"
  shows "no_ints (GDict (fst (foldl turn_item (d, []) (zip d (map (\<lambda>p. f (snd p)) d)))))"
proof -
  let ?r = "foldl turn_item (d, []) (zip d (map (\<lambda>p. f (snd p)) d))"
  have inv: "turn_inv d [] ?r"
  proof (rule turn_fold_inv)
    show "turn_inv d (map fst d) (d, [])"
      by (auto simp: turn_inv_def) (metis dict_get_Some_in fst_conv image_eqI)+
    show "distinct (map fst d)" using assms(1) by (simp add: dict_wf_def)
    show "dict_get d (fst p) = Some (snd p) \<and> no_ints (f (snd p))" if "p \<in> set d" for p
      using assms(2) [OF that] dict_get_in [OF assms(1), of "fst p" "snd p"] that by simp
  qed (rule other_no_ints)
  have "dict_wf (fst (foldl turn_item st qs))" if "dict_wf (fst st)" for st qs
    using that by (induction qs arbitrary: st) (auto simp: turn_item_wf)
  then have wf: "dict_wf (fst ?r)" using assms(1) by simp
  have "(\<exists>s. fst p = KStr s) \<and> no_ints (snd p)" if "p \<in> set (fst ?r)" for p
    using inv dict_get_in [OF wf, of "fst p" "snd p"] that by (simp add: turn_inv_def)
  then show ?thesis by simp
qed

lemma TurnIntIntoStr_no_ints: "wf_val v \<Longrightarrow> no_ints (TurnIntIntoStr v)"
proof (induction v rule: TurnIntIntoStr.induct)
  case (3 d)
  then show ?case
    unfolding TurnIntIntoStr.simps by (intro turn_dict_no_ints) auto
qed (auto simp: wf_val.simps wf_all_def)

subsection \<open>What the rule check stores\<close>

text \<open>The sources a rule with a given extension applies to, in order.\<close>

definition matching_sources :: "gdict \<Rightarrow> string list \<Rightarrow> gval \<Rightarrow> gval list" where
  "matching_sources target_dict extra extension =
     filter (\<lambda>v. \<exists>s. v = GStr s \<and> GStr (source_extension s) = extension)
       (concat (map (\<lambda>k. case get target_dict k of Some (GList l) \<Rightarrow> l | _ \<Rightarrow> []) (''sources'' # extra)))"

lemma rule_sources_of_filter:
  "rule_sources_of ext vs = Inr r \<Longrightarrow> r = filter (\<lambda>v. \<exists>s. v = GStr s \<and> GStr (source_extension s) = ext) vs"
  by (induction vs arbitrary: r) (auto simp: bindE_Inr_iff)

lemma mapE_get_list:
  "mapE (get_list d) ks = Inr ls \<Longrightarrow> ls = map (\<lambda>k. case get d k of Some (GList l) \<Rightarrow> l | _ \<Rightarrow> []) ks"
  by (induction ks arbitrary: ls) (auto simp: bindE_Inr_iff get_list_def split: option.splits)

text \<open>How a rule and the rule after the check are related.\<close>

definition checked_rule :: "gdict \<Rightarrow> string list \<Rightarrow> gval \<Rightarrow> gval \<Rightarrow> bool" where
  "checked_rule target_dict extra v v' \<longleftrightarrow>
     (\<exists>rule rule_name extension. v = GDict rule \<and> get rule ''rule_name'' = Some rule_name \<and>
        get rule ''extension'' = Some extension \<and> get rule ''rule_sources'' = None \<and>
        v' = GDict (if matching_sources target_dict extra extension \<noteq> []
                    then put rule ''rule_sources'' (GList (matching_sources target_dict extra extension))
                    else rule))"

definition rule_field :: "string \<Rightarrow> gval \<Rightarrow> gval option" where
  "rule_field k v = (case v of GDict rule \<Rightarrow> get rule k | _ \<Rightarrow> None)"

lemma validate_rule_step:
  assumes "validate_rule target d extra st v = Inr st'"
  shows "\<exists>n e v'. rule_field ''rule_name'' v = Some n \<and> rule_field ''extension'' v = Some e \<and>
           n \<notin> set (rule_names st) \<and> rule_names st' = n # rule_names st \<and>
           \<not> has_key (rule_extensions st) e \<and>
           (\<forall>x. has_key (rule_extensions st') x \<longleftrightarrow> x = e \<or> has_key (rule_extensions st) x) \<and>
           done_rules st' = done_rules st @ [v'] \<and> checked_rule d extra v v'"
proof -
  from assms obtain rule n e ls rs where r: "v = GDict rule" "get rule ''rule_name'' = Some n"
    "n \<notin> set (rule_names st)" "get rule ''extension'' = Some e" "dict_get (rule_extensions st) e = None"
    "get rule ''rule_sources'' = None" "mapE (get_list d) (''sources'' # extra) = Inr ls"
    "rule_sources_of e (concat ls) = Inr rs"
    "st' = \<lparr>rule_names = n # rule_names st, rule_extensions = dict_set (rule_extensions st) e rule,
            done_rules = done_rules st @ [GDict (if rs \<noteq> [] then put rule ''rule_sources'' (GList rs) else rule)]\<rparr>"
    by (auto simp: validate_rule_def bindE_Inr_iff getE_Inr_iff hashable_def
        simp del: mapE.simps split: if_splits option.splits)
  have "rs = matching_sources d extra e"
    using rule_sources_of_filter [OF r(8)] mapE_get_list [OF r(7)] by (simp only: matching_sources_def)
  with r show ?thesis by (auto simp: rule_field_def checked_rule_def al.lookup_store)
qed

lemma validate_rules_fold:
  "foldE (validate_rule target d extra) st vs = Inr st' \<Longrightarrow>
    (\<exists>vs'. done_rules st' = done_rules st @ vs' \<and> list_all2 (checked_rule d extra) vs vs') \<and>
    distinct (map (rule_field ''rule_name'') vs) \<and> distinct (map (rule_field ''extension'') vs) \<and>
    (\<forall>v \<in> set vs. rule_field ''rule_name'' v \<notin> Some ` set (rule_names st)) \<and>
    (\<forall>v \<in> set vs. \<exists>e. rule_field ''extension'' v = Some e \<and> \<not> has_key (rule_extensions st) e)"
proof (induction vs arbitrary: st)
  case (Cons v vs)
  from Cons.prems obtain st1 where s1: "validate_rule target d extra st v = Inr st1"
    and rest: "foldE (validate_rule target d extra) st1 vs = Inr st'" by (auto simp: bindE_Inr_iff)
  from validate_rule_step [OF s1] obtain n e v' where v: "rule_field ''rule_name'' v = Some n"
    "rule_field ''extension'' v = Some e" "n \<notin> set (rule_names st)" "rule_names st1 = n # rule_names st"
    "\<not> has_key (rule_extensions st) e"
    "\<And>x. has_key (rule_extensions st1) x \<longleftrightarrow> x = e \<or> has_key (rule_extensions st) x"
    "done_rules st1 = done_rules st @ [v']" "checked_rule d extra v v'" by blast
  note IH = Cons.IH [OF rest]
  from IH v(7,8) have "\<exists>vs'. done_rules st' = done_rules st @ vs' \<and> list_all2 (checked_rule d extra) (v # vs) vs'"
    by (metis append_Cons append_Nil append_assoc list_all2_Cons)
  moreover have "distinct (map (rule_field ''rule_name'') (v # vs))"
    using IH v(1,4) by (auto simp: image_iff)
  moreover have "distinct (map (rule_field ''extension'') (v # vs))"
  proof -
    have "rule_field ''extension'' u \<noteq> Some e" if "u \<in> set vs" for u
      using IH that v(6) [of e] by auto
    then show ?thesis using IH v(2) by (auto simp: image_iff)
  qed
  moreover have "\<forall>u \<in> set (v # vs). rule_field ''rule_name'' u \<notin> Some ` set (rule_names st)"
    using IH v(1,3,4) by auto
  moreover have "\<forall>u \<in> set (v # vs). \<exists>e. rule_field ''extension'' u = Some e \<and> \<not> has_key (rule_extensions st) e"
    using IH v(2,5,6) by (metis set_ConsD)
  ultimately show ?case by blast
qed simp

subsection \<open>Properties\<close>

text \<open>
  \<open>TurnIntIntoStrInDict\<close> leaves no integer in a well-formed dictionary: not as a
  value and not as a key, at any depth.
\<close>

theorem TurnIntIntoStrInDict_no_ints:
  assumes "wf_dict d"
  shows "no_ints (GDict (TurnIntIntoStrInDict d))"
  using TurnIntIntoStr_no_ints [OF assms] by (simp add: TurnIntIntoStrInDict_def)

theorem TurnIntIntoStrInDict_no_ints_witness:
  "no_ints (GDict (TurnIntIntoStrInDict [(KInt 7, GList [GInt (- 3), GDict [(KStr ''a'', GInt 0)]])]))"
  by (rule TurnIntIntoStrInDict_no_ints) (simp add: dict_wf_def wf_all_def)

text \<open>
  (C34) When \<open>ValidateRulesInTarget\<close> accepts a target with rules, every rule has a name and an
  extension, no two have the same name or the same extension, none came with
  \<open>rule_sources\<close>, and each has received as \<open>rule_sources\<close> exactly the sources with its
  extension, of \<open>sources\<close> and the extra keys in order (no key if there are none).
\<close>

theorem ValidateRulesInTarget_rules:
  assumes "ValidateRulesInTarget target d extra = Inr d'" and "get d ''rules'' = Some (GList rules)"
  shows "\<exists>rules'. get d' ''rules'' = Some (GList rules') \<and> list_all2 (checked_rule d extra) rules rules' \<and>
           distinct (map (rule_field ''rule_name'') rules) \<and> distinct (map (rule_field ''extension'') rules)"
proof -
  from assms obtain st where st: "foldE (validate_rule target d extra)
      \<lparr>rule_names = [], rule_extensions = [], done_rules = []\<rparr> rules = Inr st"
    "d' = put d ''rules'' (GList (done_rules st))"
    by (auto simp: ValidateRulesInTarget_def bindE_Inr_iff)
  from validate_rules_fold [OF st(1)] st(2) show ?thesis by (auto simp: al.lookup_store)
qed

theorem ValidateRulesInTarget_rules_witness:
  "\<exists>rules'. list_all2 (checked_rule [(KStr ''sources'', GList [GStr ''x.y'', GStr ''z.c'']),
        (KStr ''rules'', GList [GDict [(KStr ''rule_name'', GStr ''r''), (KStr ''extension'', GStr ''y'')]])] [])
      [GDict [(KStr ''rule_name'', GStr ''r''), (KStr ''extension'', GStr ''y'')]] rules'"
proof -
  let ?rule = "GDict [(KStr ''rule_name'', GStr ''r''), (KStr ''extension'', GStr ''y'')]"
  let ?d = "[(KStr ''sources'', GList [GStr ''x.y'', GStr ''z.c'']), (KStr ''rules'', GList [?rule])]"
  have r: "ValidateRulesInTarget ''t'' ?d [] = Inr [(KStr ''sources'', GList [GStr ''x.y'', GStr ''z.c'']),
      (KStr ''rules'', GList [GDict [(KStr ''rule_name'', GStr ''r''), (KStr ''extension'', GStr ''y''),
         (KStr ''rule_sources'', GList [GStr ''x.y''])]])]"
    by code_simp
  from ValidateRulesInTarget_rules [OF r, of "[?rule]"] show ?thesis by (simp del: list_all2_Cons1) blast
qed

text \<open>
  \<open>ValidateTargetType\<close> accepts exactly the five known types, and the flag
  \<open>standalone_static_library\<close> on static libraries only.
\<close>

theorem ValidateTargetType_iff:
  "ValidateTargetType target d = Inr () \<longleftrightarrow>
     (\<exists>t \<in> {''executable'', ''loadable_module'', ''static_library'', ''shared_library'', ''none''}.
        get d ''type'' = Some (GStr t) \<and>
        (t = ''static_library'' \<or> \<not> opt_true (get d ''standalone_static_library'')))"
  unfolding ValidateTargetType_def VALID_TARGET_TYPES_def Let_def by auto

end
