(* ===== verification/Input_Pipeline.thy ===== *)
theory Input_Pipeline
  imports Input_Driver Input_Targets Input_Config Input_Validate
begin

text \<open>
  \<open>Load\<close> of \<open>tools/gyp/pylib/gyp/input.py\<close>, the function that the generators start from.  It
  loads the build files, builds the table of targets and resolves their dependencies
  (\<open>resolve_targets\<close>), orders them (\<open>order_targets\<close>), and processes each target in that order
  (\<open>process_targets\<close>): dependent settings, static libraries, the late phases of expansion
  around configurations and filters, validation.  At the end integers become strings.

  The dictionary of a target in \<open>targets\<close> is the same object as the one in \<open>data\<close>; the model
  works on the table and writes it back where \<open>data\<close> is used again, at the end.  The
  parallel variant of the first step is the subject of \<open>Input_Parallel\<close>.
\<close>

subsection \<open>What the generator asks for\<close>

record generator_info =
  gi_path_sections :: "string list"
  gi_non_configuration_keys :: "string list"
  generator_wants_absolute_build_file_paths :: bool
  generator_supports_multiple_toolsets :: bool
  extra_sources_for_rules :: "string list"
  generator_wants_static_library_dependencies_adjusted :: bool
  generator_wants_sorted_dependencies :: bool

definition generator_env :: "string \<Rightarrow> generator_info \<Rightarrow> gyp_env" where
  "generator_env directory gi =
     \<lparr>cwd = directory, path_sections = base_path_sections @ gi_path_sections gi,
      non_configuration_keys = base_non_configuration_keys @ gi_non_configuration_keys gi,
      absolute_build_file_paths = generator_wants_absolute_build_file_paths gi,
      multiple_toolsets = generator_supports_multiple_toolsets gi\<rparr>"

definition driver_for :: "driver \<Rightarrow> generator_info \<Rightarrow> driver" where
  "driver_for D gi =
     (let E = generator_env (cwd (dr_env D)) gi in
      D\<lparr>dr_load := (dr_load D)\<lparr>gyp_of := E\<rparr>, dr_expand := (dr_expand D)\<lparr>xgyp := E\<rparr>\<rparr>)"

subsection \<open>The table of targets\<close>

text \<open>The filters of the dependency sections, applied to a dictionary of these sections alone.\<close>

definition filter_dependencies :: "re_engine \<Rightarrow> string \<Rightarrow> gdict \<Rightarrow> gdict res" where
  "filter_dependencies re target_name target_dict =
     (let keys = filter (\<lambda>key. has_key target_dict (KStr key)) all_dependency_sections;
          tmp_dict = map (\<lambda>key. (KStr key, the (get target_dict key))) keys;
          target_dict = foldl unhook target_dict keys in
      bindE (ProcessListFiltersInDict re target_name tmp_dict) (\<lambda>tmp_dict.
        Inr (foldl (\<lambda>d (k, v). dict_set d k v) target_dict tmp_dict)))"

definition resolve_targets :: "gyp_env \<Rightarrow> re_engine \<Rightarrow> gyp_data \<Rightarrow> targets res" where
  "resolve_targets E re data =
     bindE (BuildTargetsDict data) (\<lambda>targets.
     bindE (QualifyDependencies E targets) (\<lambda>targets.
     bindE (ExpandWildcardDependencies targets data) (\<lambda>targets.
     bindE (map_targets (filter_dependencies re) targets) (\<lambda>targets.
       RemoveDuplicateDependencies targets))))"

subsection \<open>The order\<close>

type_synonym file_pick = "string option option list \<Rightarrow> string option option list \<Rightarrow> nat"
type_synonym target_pick = "string option list \<Rightarrow> string option list \<Rightarrow> nat"

definition order_targets ::
  "bool \<Rightarrow> file_pick \<Rightarrow> target_pick \<Rightarrow> targets \<Rightarrow> (string dgraph \<times> string list) eval" where
  "order_targets circular_check file_pick pick targets =
     bindV (if circular_check then VerifyNoGYPFileCircularDependencies file_pick targets else Some (Inr ())) (\<lambda>_.
     bindV (BuildDependencyList pick targets) (\<lambda>(dependency_nodes, flat_list).
     bindV (Some (VerifyNoCollidingTargets flat_list)) (\<lambda>_.
       Some (Inr (dependency_nodes, flat_list)))))"

subsection \<open>Passes over the targets in order\<close>

definition update_target :: "(string \<Rightarrow> gdict \<Rightarrow> gdict res) \<Rightarrow> targets \<Rightarrow> string \<Rightarrow> targets res" where
  "update_target f targets target =
     bindE (targetE targets target) (\<lambda>target_dict.
     bindE (f target target_dict) (\<lambda>target_dict. Inr (dict_set targets target target_dict)))"

definition each_target :: "(string \<Rightarrow> gdict \<Rightarrow> gdict res) \<Rightarrow> string list \<Rightarrow> targets \<Rightarrow> targets res" where
  "each_target f flat_list targets = foldE (update_target f) targets flat_list"

text \<open>Settings of one type are handed on, then taken out.\<close>

definition publish_settings ::
  "gyp_env \<Rightarrow> string list \<Rightarrow> string dgraph \<Rightarrow> targets \<Rightarrow> string \<Rightarrow> targets res" where
  "publish_settings E flat_list dependency_nodes targets settings_type =
     bindE (DoDependentSettings E settings_type flat_list targets dependency_nodes) (\<lambda>targets.
       each_target (\<lambda>target d. Inr (unhook d settings_type)) flat_list targets)"

definition settings_types :: "string list" where
  "settings_types = [''all_dependent_settings'', ''direct_dependent_settings'', ''link_settings'']"

definition expand_target_in ::
  "xenv \<Rightarrow> nat \<Rightarrow> nat \<Rightarrow> vars \<Rightarrow> targets \<times> xstate \<Rightarrow> string \<Rightarrow> (targets \<times> xstate) eval" where
  "expand_target_in X m phase variables st target =
     (let (targets, xs) = st in
      bindV (Some (targetE targets target)) (\<lambda>target_dict.
      bindV (Some (file_of target)) (\<lambda>build_file.
      bindV (expand_dict X m phase variables build_file target_dict xs) (\<lambda>(target_dict, xs).
        Some (Inr (dict_set targets target target_dict, xs))))))"

definition expand_targets ::
  "xenv \<Rightarrow> nat \<Rightarrow> nat \<Rightarrow> vars \<Rightarrow> string list \<Rightarrow> targets \<times> xstate \<Rightarrow> (targets \<times> xstate) eval" where
  "expand_targets X m phase variables flat_list st = foldV (expand_target_in X m phase variables) st flat_list"

subsection \<open>Validation\<close>

definition has_substring :: "string \<Rightarrow> string \<Rightarrow> bool" where
  "has_substring s t = list_ex (\<lambda>i. startswith (drop i t) s) [0..<Suc (length t)]"

text \<open>\<open>'arm' in variables.get('target_arch', '')\<close>\<close>

definition arm_target :: "store \<Rightarrow> vars \<Rightarrow> bool res" where
  "arm_target h variables =
     (case dict_get variables (KStr ''target_arch'') of
        None \<Rightarrow> Inr False
      | Some (HStr s) \<Rightarrow> Inr (has_substring ''arm'' s)
      | Some (HInt i) \<Rightarrow> Inl (TypeError ''argument of type int is not iterable'')
      | Some (HOther c t) \<Rightarrow> Inl (TypeError (''argument of type '' @ c @ '' is not iterable''))
      | Some (HRef a) \<Rightarrow>
          (case list_at h a of
             Some l \<Rightarrow> Inr (HStr ''arm'' \<in> set l)
           | None \<Rightarrow> (case dict_at h a of Some d \<Rightarrow> Inr (has_key d (KStr ''arm'')) | None \<Rightarrow> Inr False)))"

definition validate_target :: "string list \<Rightarrow> bool res \<Rightarrow> string \<Rightarrow> gdict \<Rightarrow> gdict res" where
  "validate_target extra_sources arm target target_dict =
     bindE (file_of target) (\<lambda>build_file.
     bindE (ValidateTargetType target target_dict) (\<lambda>_.
     bindE arm (\<lambda>arm.
     bindE (if arm then Inr () else ValidateSourcesInTarget target target_dict) (\<lambda>_.
     bindE (ValidateRulesInTarget target target_dict extra_sources) (\<lambda>target_dict.
     bindE (ValidateRunAsInTarget target target_dict build_file) (\<lambda>_.
     bindE (ValidateActionsInTarget target target_dict build_file) (\<lambda>_.
       Inr target_dict)))))))"

subsection \<open>\<open>Load\<close>\<close>

definition process_targets ::
  "driver \<Rightarrow> generator_info \<Rightarrow> string dgraph \<Rightarrow> string list \<Rightarrow> vars \<Rightarrow> targets \<Rightarrow> xstate \<Rightarrow> (targets \<times> xstate) eval" where
  "process_targets D gi dependency_nodes flat_list variables targets xs =
     (let E = dr_env D; X = dr_expand D; m = dr_fuel D in
      bindV (Some (foldE (publish_settings E flat_list dependency_nodes) targets settings_types)) (\<lambda>targets.
      bindV (Some (if generator_wants_static_library_dependencies_adjusted gi
                   then AdjustStaticLibraryDependencies flat_list targets dependency_nodes
                          (generator_wants_sorted_dependencies gi)
                   else Inr targets)) (\<lambda>targets.
      bindV (expand_targets X m PHASE_LATE variables flat_list (targets, xs)) (\<lambda>(targets, xs).
      bindV (Some (each_target (SetUpConfigurations E) flat_list targets)) (\<lambda>targets.
      bindV (Some (each_target (ProcessListFiltersInDict (filters X)) flat_list targets)) (\<lambda>targets.
      bindV (expand_targets X m PHASE_LATELATE variables flat_list (targets, xs)) (\<lambda>(targets, xs).
      bindV (Some (each_target (validate_target (extra_sources_for_rules gi) (arm_target (objs xs) variables))
                     flat_list targets)) (\<lambda>targets.
        Some (Inr (targets, xs))))))))))"

text \<open>The targets of the build files, in the order of the table, in their places in the files.\<close>

fun give_back :: "gdict list \<Rightarrow> string list \<Rightarrow> (string \<times> gdict) list \<Rightarrow> (string \<times> gdict) list" where
  "give_back ds [] gd = gd"
| "give_back ds (f # fs) gd =
     (case dict_get gd f of
        None \<Rightarrow> give_back ds fs gd
      | Some d \<Rightarrow>
          (case get d ''targets'' of
             Some (GList l) \<Rightarrow>
               give_back (drop (length l) ds) fs
                 (dict_set gd f (put d ''targets'' (GList (map GDict (take (length l) ds)))))
           | _ \<Rightarrow> give_back ds fs gd))"

definition strings_only :: "(string \<times> gdict) list \<Rightarrow> (string \<times> gdict) list" where
  "strings_only = map (\<lambda>(k, d). (k, TurnIntIntoStrInDict d))"

definition data_of :: "load_state \<Rightarrow> gyp_data" where
  "data_of st = \<lparr>target_build_files = tfiles st, gd_files = ld_data (lfiles st)\<rparr>"

definition start_load :: "vars \<Rightarrow> xstate \<Rightarrow> load_state" where
  "start_load variables xs = \<lparr>tfiles = [], lfiles = \<lparr>ld_data = [], ld_aux = []\<rparr>, lvars = variables, lexpand = xs\<rparr>"

definition Load ::
  "nat \<Rightarrow> driver \<Rightarrow> generator_info \<Rightarrow> bool \<Rightarrow> file_pick \<Rightarrow> target_pick \<Rightarrow> string list \<Rightarrow> vars \<Rightarrow> xstate \<Rightarrow>
   ((string list \<times> targets \<times> gyp_data) \<times> load_state) eval" where
  "Load n D gi circular_check file_pick pick build_files variables xs =
     (let D = driver_for D gi in
      bindV (load_build_files n D build_files (start_load variables xs)) (\<lambda>st.
      let data = data_of st in
      bindV (Some (resolve_targets (dr_env D) (filters (dr_expand D)) data)) (\<lambda>targets.
      bindV (order_targets circular_check file_pick pick targets) (\<lambda>(dependency_nodes, flat_list).
      bindV (process_targets D gi dependency_nodes flat_list (lvars st) targets (lexpand st)) (\<lambda>(targets, xs).
        let gd = give_back (map snd targets) (tfiles st) (gd_files data) in
        Some (Inr ((flat_list, strings_only targets, data\<lparr>gd_files := strings_only gd\<rparr>), st\<lparr>lexpand := xs\<rparr>)))))))"

subsection \<open>Passes keep the table's names\<close>

lemma map_fst_dict_set: "targetE ts t = Inr d \<Longrightarrow> map fst (dict_set ts t e) = map fst ts"
  using dict_keys_set_same [of ts t e] by (auto simp: targetE_def dict_keys_def split: option.splits)

lemma each_target_names: "each_target f flat ts = Inr ts' \<Longrightarrow> map fst ts' = map fst ts"
  unfolding each_target_def
  by (erule foldE_invariant) (auto simp: update_target_def bindE_Inr_iff map_fst_dict_set)

lemma DoDependentSettings_names: "DoDependentSettings E key flat ts g = Inr ts' \<Longrightarrow> map fst ts' = map fst ts"
  unfolding DoDependentSettings_def
proof (erule foldE_invariant)
  fix s x s'
  assume s: "map fst s = map fst ts" and r: "settings_of_target E key g s x = Inr s'"
  then obtain bf ds where "foldE (merge_settings E key x bf) s ds = Inr s'"
    by (auto simp: settings_of_target_def bindE_Inr_iff)
  then have "map fst s' = map fst s"
    by (rule foldE_invariant) (auto simp: merge_settings_def bindE_Inr_iff map_fst_dict_set split: option.splits)
  with s show "map fst s' = map fst ts" by simp
qed simp

lemma publish_names: "publish_settings E flat g ts key = Inr ts' \<Longrightarrow> map fst ts' = map fst ts"
  by (auto simp: publish_settings_def bindE_Inr_iff dest!: DoDependentSettings_names each_target_names)

lemma Adjust_names: "AdjustStaticLibraryDependencies flat ts g b = Inr ts' \<Longrightarrow> map fst ts' = map fst ts"
  unfolding AdjustStaticLibraryDependencies_def
  by (erule foldE_invariant) (auto simp: adjust_target_def bindE_Inr_iff map_fst_dict_set)

lemma expand_targets_names:
  assumes "expand_targets X m ph vars flat (ts, xs) = Some (Inr (ts', xs'))"
  shows "map fst ts' = map fst ts"
proof -
  have "map fst (fst (ts', xs')) = map fst ts"
  proof (rule foldV_invariant [OF assms [unfolded expand_targets_def], where P = "\<lambda>A s. map fst (fst s) = map fst ts"])
    fix s x s' A
    assume "expand_target_in X m ph vars s x = Some (Inr s')" and "map fst (fst s) = map fst ts"
    then show "map fst (fst s') = map fst ts"
      by (cases s) (auto simp: expand_target_in_def bindV_Inr_iff map_fst_dict_set)
  qed simp
  then show ?thesis by simp
qed

text \<open>What a pass makes of each target.\<close>

lemma update_target_Inr_iff:
  "update_target f ts t = Inr ts' \<longleftrightarrow> (\<exists>d d'. dict_get ts t = Some d \<and> f t d = Inr d' \<and> ts' = dict_set ts t d')"
  by (auto simp: update_target_def bindE_Inr_iff targetE_def split: option.splits)

lemma each_target_get:
  assumes "each_target f flat ts = Inr ts'" and "distinct flat"
  shows "t \<in> set flat \<Longrightarrow> \<exists>d d'. dict_get ts t = Some d \<and> f t d = Inr d' \<and> dict_get ts' t = Some d'"
    and "t \<notin> set flat \<Longrightarrow> dict_get ts' t = dict_get ts t"
proof -
  have "(t \<in> set flat \<longrightarrow> (\<exists>d d'. dict_get ts t = Some d \<and> f t d = Inr d' \<and> dict_get ts' t = Some d')) \<and>
      (t \<notin> set flat \<longrightarrow> dict_get ts' t = dict_get ts t)"
    using assms unfolding each_target_def
  proof (induction flat arbitrary: ts)
    case (Cons u flat)
    then obtain d d' where u: "dict_get ts u = Some d" "f u d = Inr d'"
      and r: "foldE (update_target f) (dict_set ts u d') flat = Inr ts'"
      by (auto simp: bindE_Inr_iff update_target_Inr_iff)
    from Cons.IH [OF r] Cons.prems(2) u show ?case by (auto simp: al.lookup_store split: if_splits)
  qed simp
  then show "t \<in> set flat \<Longrightarrow> \<exists>d d'. dict_get ts t = Some d \<and> f t d = Inr d' \<and> dict_get ts' t = Some d'"
    and "t \<notin> set flat \<Longrightarrow> dict_get ts' t = dict_get ts t" by blast+
qed

lemma resolve_names:
  assumes "resolve_targets E re data = Inr ts"
  shows "dict_wf ts"
proof -
  from assms obtain t0 t1 t2 t3 where b: "BuildTargetsDict data = Inr t0"
    and "QualifyDependencies E t0 = Inr t1" "ExpandWildcardDependencies t1 data = Inr t2"
      "map_targets (filter_dependencies re) t2 = Inr t3" "RemoveDuplicateDependencies t3 = Inr ts"
    by (auto simp: resolve_targets_def bindE_Inr_iff)
  then have "map fst ts = map fst t0"
    unfolding QualifyDependencies_def ExpandWildcardDependencies_def RemoveDuplicateDependencies_def
    by (auto dest!: map_targets_get(1))
  moreover have "dict_wf t0" using add_files_get [OF b [unfolded BuildTargetsDict_def]] by (simp add: dict_wf_def)
  ultimately show ?thesis by (simp add: dict_wf_def)
qed

subsection \<open>The result of \<open>Load\<close>\<close>

lemma collide_loop_accepts: "collide_loop used ts = Inr () \<Longrightarrow> \<forall>t \<in> set ts. \<exists>p. collision_key t = Inr p"
  by (induction ts arbitrary: used) (fastforce simp: bindE_Inr_iff Let_def split: option.splits)+

lemma order_targets_result:
  assumes "order_targets circular_check file_pick pick ts = Some (Inr (g, flat))" and "dict_wf ts"
  shows "distinct flat" "set flat = set (map fst ts)" "dep_sorted (dep_names ts) flat" "distinct (map dir_and_name flat)"
proof -
  from assms(1) have b: "BuildDependencyList pick ts = Some (Inr (g, flat))" and c: "collide_loop [] flat = Inr ()"
    by (auto simp: order_targets_def bindV_Inr_iff VerifyNoCollidingTargets_def)
  from flat_list_sorted [OF assms(2) b] show "distinct flat" "set flat = set (map fst ts)" "dep_sorted (dep_names ts) flat"
    by blast+
  from collide_loop_ok [OF collide_loop_accepts [OF c], of "[]"] c show "distinct (map dir_and_name flat)" by simp
qed

lemma publish_all_names: "foldE (publish_settings E flat g) ts ks = Inr ts' \<Longrightarrow> map fst ts' = map fst ts"
  by (erule foldE_invariant) (auto dest: publish_names)

lemma validate_target_type:
  assumes "validate_target extra arm t d = Inr d'"
  shows "\<exists>ty \<in> set VALID_TARGET_TYPES. get d' ''type'' = Some (GStr ty)"
proof -
  from assms have "ValidateTargetType t d = Inr ()" and r: "ValidateRulesInTarget t d extra = Inr d'"
    by (auto simp: validate_target_def bindE_Inr_iff)
  then have "\<exists>ty \<in> set VALID_TARGET_TYPES. get d ''type'' = Some (GStr ty)"
    by (auto simp: ValidateTargetType_def Let_def split: if_splits)
  moreover have "get d' ''type'' = get d ''type''"
    using r by (auto simp: ValidateRulesInTarget_def bindE_Inr_iff al.lookup_store split: option.splits)
  ultimately show ?thesis by simp
qed

lemma process_targets_result:
  assumes "process_targets D gi g flat vars ts xs = Some (Inr (ts', xs'))" and "distinct flat"
  shows "map fst ts' = map fst ts"
    and "t \<in> set flat \<Longrightarrow> \<exists>d. dict_get ts' t = Some d \<and> (\<exists>ty \<in> set VALID_TARGET_TYPES. get d ''type'' = Some (GStr ty))"
proof -
  from assms(1) obtain t1 t2 t3 x3 t4 t5 t6 where
    "foldE (publish_settings (dr_env D) flat g) ts settings_types = Inr t1"
    "(if generator_wants_static_library_dependencies_adjusted gi
      then AdjustStaticLibraryDependencies flat t1 g (generator_wants_sorted_dependencies gi) else Inr t1) = Inr t2"
    "expand_targets (dr_expand D) (dr_fuel D) PHASE_LATE vars flat (t2, xs) = Some (Inr (t3, x3))"
    "each_target (SetUpConfigurations (dr_env D)) flat t3 = Inr t4"
    "each_target (ProcessListFiltersInDict (filters (dr_expand D))) flat t4 = Inr t5"
    "expand_targets (dr_expand D) (dr_fuel D) PHASE_LATELATE vars flat (t5, x3) = Some (Inr (t6, xs'))"
    and v: "each_target (validate_target (extra_sources_for_rules gi) (arm_target (objs xs') vars)) flat t6 = Inr ts'"
    unfolding process_targets_def Let_def by (fastforce simp: bindV_Inr_iff)
  then show "map fst ts' = map fst ts"
    by (auto dest!: publish_all_names expand_targets_names each_target_names Adjust_names split: if_splits)
  show "t \<in> set flat \<Longrightarrow> \<exists>d. dict_get ts' t = Some d \<and> (\<exists>ty \<in> set VALID_TARGET_TYPES. get d ''type'' = Some (GStr ty))"
    using each_target_get(1) [OF v assms(2)] validate_target_type by blast
qed

lemma strings_only_facts:
  "map fst (strings_only ts) = map fst ts" "dict_get (strings_only ts) t = map_option TurnIntIntoStrInDict (dict_get ts t)"
  by (induction ts) (auto simp: strings_only_def)

text \<open>Every file in the table of build files is settled, and every one asked for is there.\<close>

lemma load_build_files_result:
  assumes "load_build_files n D fs st = Some (Inr st')" and "load_inv st"
  shows "load_grows st st' \<and> news_settled D st st' \<and> (\<forall>f \<in> set fs. absolute_path (dr_env D) (normpath f) \<in> set (tfiles st'))"
proof -
  let ?P = "\<lambda>A s. load_grows st s \<and> news_settled D st s \<and> (\<forall>f \<in> A. absolute_path (dr_env D) (normpath f) \<in> set (tfiles s))"
  show ?thesis
  proof (rule foldV_invariant [OF assms(1) [unfolded load_build_files_def], where P = ?P])
    show "?P {} st" using assms(2) by (simp add: load_grows_def news_settled_def)
  next
    fix s f s' A
    assume r: "(let build_file = normpath f in appendV (''while trying to load '' @ build_file)
        (bindV (LoadTargetBuildFile n D True build_file s) (\<lambda>(answer, st). Some (Inr st)))) = Some (Inr s')" and P: "?P A s"
    from r [unfolded Let_def appendV_Inr_iff bindV_snd]
    obtain a where a: "LoadTargetBuildFile n D True (normpath f) s = Some (Inr (a, s'))" by blast
    from P have "load_inv s" by (simp add: load_grows_def)
    note one = LoadTargetBuildFile_grows [OF a this]
    from P one have "load_grows st s'" "news_settled D st s'" using load_grows_trans news_settled_trans by blast+
    moreover from one have "set (tfiles s) \<subseteq> set (tfiles s')" by (simp add: load_grows_def)
    ultimately show "?P (insert f A) s'" using P one by blast
  qed
qed

text \<open>
  (C1) What a successful \<open>Load\<close> promises the generator.  The build files it was given are loaded, with
  every build file their targets depend on.  The table of targets has the names it had when the
  dependencies were resolved; the list has each of these once, every target after its dependencies, and no
  two of the same directory with the same name; and each target has been validated to be of a known type.
\<close>

theorem Load_result:
  assumes "Load n D gi circular_check file_pick pick build_files variables xs = Some (Inr ((flat_list, targets, data), st'))"
  defines "D' \<equiv> driver_for D gi"
  shows "(\<forall>f \<in> set build_files. absolute_path (dr_env D') (normpath f) \<in> set (target_build_files data)) \<and>
    (\<forall>f \<in> set (target_build_files data). settled_file D' st' f) \<and>
    (\<exists>ts. resolve_targets (dr_env D') (filters (dr_expand D')) (data_of st') = Inr ts \<and>
       map fst targets = map fst ts \<and> distinct flat_list \<and> set flat_list = set (map fst targets) \<and>
       dep_sorted (dep_names ts) flat_list \<and> distinct (map dir_and_name flat_list)) \<and>
    (\<forall>t \<in> set flat_list. \<exists>d. dict_get targets t = Some (TurnIntIntoStrInDict d) \<and>
       (\<exists>ty \<in> set VALID_TARGET_TYPES. get d ''type'' = Some (GStr ty)))"
proof -
  from assms(1) obtain st1 ts g ts1 ys where l: "load_build_files n D' build_files (start_load variables xs) = Some (Inr st1)"
    and r: "resolve_targets (dr_env D') (filters (dr_expand D')) (data_of st1) = Inr ts"
    and o: "order_targets circular_check file_pick pick ts = Some (Inr (g, flat_list))"
    and p: "process_targets D' gi g flat_list (lvars st1) ts (lexpand st1) = Some (Inr (ts1, ys))"
    and res: "targets = strings_only ts1" "target_build_files data = tfiles st1" "st' = st1\<lparr>lexpand := ys\<rparr>"
    unfolding Load_def Let_def D'_def by (fastforce simp: bindV_Inr_iff data_of_def)
  have start: "load_inv (start_load variables xs)" "tfiles (start_load variables xs) = []"
    by (simp_all add: start_load_def load_inv_def in_step_def)
  note f = load_build_files_result [OF l start(1)]
  have same: "data_of st' = data_of st1" "settled_file D' st' f = settled_file D' st1 f" for f
    by (simp_all add: res(3) data_of_def settled_file_def file_data_def)
  note flat = order_targets_result [OF o resolve_names [OF r]]
  note proc = process_targets_result [OF p flat(1)]
  have "map fst targets = map fst ts" using proc(1) by (simp add: res(1) strings_only_facts)
  moreover have "\<exists>d. dict_get targets t = Some (TurnIntIntoStrInDict d) \<and>
      (\<exists>ty \<in> set VALID_TARGET_TYPES. get d ''type'' = Some (GStr ty))" if "t \<in> set flat_list" for t
    using proc(2) [OF that] by (auto simp: res(1) strings_only_facts)
  moreover have "\<forall>f \<in> set (tfiles st1). settled_file D' st1 f"
    using f start(2) by (simp add: news_settled_def)
  ultimately show ?thesis
    using f flat r res(2) same by auto
qed

text \<open>The sample project of \<open>Input_Driver\<close>: its table of targets before and after configurations are set up.\<close>

definition sample_info :: generator_info where
  "sample_info = \<lparr>gi_path_sections = [], gi_non_configuration_keys = [],
     generator_wants_absolute_build_file_paths = False, generator_supports_multiple_toolsets = False,
     extra_sources_for_rules = [], generator_wants_static_library_dependencies_adjusted = True,
     generator_wants_sorted_dependencies = False\<rparr>"

definition sample_targets :: "gdict \<Rightarrow> targets" where
  "sample_targets conf =
     [(''a.gyp:t#target'', [(KStr ''target_name'', GStr ''t''), (KStr ''type'', GStr ''none''),
        (KStr ''toolset'', GStr ''target''), (KStr ''dependencies'', GList [GStr ''a.gyp:u#target''])] @ conf),
      (''a.gyp:u#target'', [(KStr ''target_name'', GStr ''u''), (KStr ''type'', GStr ''none''),
        (KStr ''toolset'', GStr ''target'')] @ conf)]"

definition sample_conf :: gdict where
  "sample_conf = [(KStr ''configurations'', GDict [(KStr ''Default'', GDict [])]),
     (KStr ''default_configuration'', GStr ''Default'')]"

definition sample_graph :: "string dgraph" where
  "sample_graph = \<lparr>g_deps = [(Some ''a.gyp:t#target'', [Some ''a.gyp:u#target'']), (Some ''a.gyp:u#target'', [None])],
     g_dependents = [(Some ''a.gyp:u#target'', [Some ''a.gyp:t#target'']), (None, [Some ''a.gyp:u#target''])]\<rparr>"

abbreviation sample_order :: "string list" where
  "sample_order \<equiv> [''a.gyp:u#target'', ''a.gyp:t#target'']"

lemma sample_expands:
  assumes "phase \<in> {PHASE_LATE, PHASE_LATELATE}" and "conf \<in> {[], sample_conf}"
  shows "\<exists>xs'. expand_targets X 30 phase vars sample_order (sample_targets conf, xs) = Some (Inr (sample_targets conf, xs'))"
proof -
  let ?d = "\<lambda>t. the (dict_get (sample_targets conf) t)"
  have "list_all (\<lambda>p. list_all (\<lambda>m. list_all (\<lambda>t. settled_val p (GDict (the (dict_get (sample_targets m) t))) \<and>
      need (GDict (the (dict_get (sample_targets m) t))) \<le> Suc 30 \<and> file_of t = Inr ''a.gyp'' \<and>
      dict_get (sample_targets m) t \<noteq> None) sample_order) [[], sample_conf]) [PHASE_LATE, PHASE_LATELATE]"
    by code_simp
  then have t: "settled_val phase (GDict (?d t))" "need (GDict (?d t)) \<le> Suc 30" "file_of t = Inr ''a.gyp''"
    "dict_get (sample_targets conf) t = Some (?d t)" if "t \<in> set sample_order" for t
    using assms that unfolding list_all_iff by auto
  have one: "\<exists>xs'. expand_target_in X 30 phase vars (sample_targets conf, xs) t = Some (Inr (sample_targets conf, xs'))"
    if "t \<in> set sample_order" for t xs
  proof -
    from t [OF that] obtain d where d: "settled_val phase (GDict d)" "need (GDict d) \<le> Suc 30"
      "file_of t = Inr ''a.gyp''" "dict_get (sample_targets conf) t = Some d" by blast
    show ?thesis
      by (simp add: expand_target_in_def targetE_def d(3,4) expand_dict_settled [OF d(1,2)] dict_set_present [OF d(4)])
  qed
  obtain x1 where 1: "expand_target_in X 30 phase vars (sample_targets conf, xs) ''a.gyp:u#target'' =
      Some (Inr (sample_targets conf, x1))" using one [of "''a.gyp:u#target''" xs] by auto
  obtain x2 where 2: "expand_target_in X 30 phase vars (sample_targets conf, x1) ''a.gyp:t#target'' =
      Some (Inr (sample_targets conf, x2))" using one [of "''a.gyp:t#target''" x1] by auto
  show ?thesis unfolding expand_targets_def foldV.simps 1 2 bindV_simps by blast
qed

lemma sample_loads:
  assumes "X' = X\<lparr>xgyp := base_env ''/w''\<rparr>"
  shows "driver_for (sample_driver X) sample_info = sample_driver X'"
    and "\<exists>xs. load_build_files 2 (sample_driver X') [''a.gyp''] (sample_load_state fs) = Some (Inr (sample_loaded_state xs))"
proof -
  have "generator_env ''/w'' sample_info = base_env ''/w''" by (simp add: generator_env_def sample_info_def base_env_def)
  then show "driver_for (sample_driver X) sample_info = sample_driver X'"
    using assms by (simp add: driver_for_def Let_def sample_driver_def sample_env_def base_env_def)
  have abs: "absolute_path (dr_env (sample_driver X')) f = f" for f
    by (simp add: absolute_path_def sample_driver_def sample_env_def base_env_def)
  have dep: "with_DEPTH (sample_driver X') f s = s" for f s by (simp add: with_DEPTH_def sample_driver_def)
  have norm: "normpath ''a.gyp'' = ''a.gyp''" by code_simp
  have none: "tfiles (sample_load_state fs) = []" "tfiles (sample_loaded_state xs) = [''a.gyp'']" for xs
    by (simp_all add: sample_load_state_def sample_loaded_state_def)
  obtain xs where xs: "load_target_file (sample_driver X') ''a.gyp'' (sample_load_state fs) =
      Some (Inr ([Some ''a.gyp''], sample_loaded_state xs))" using sample_file_loads by blast
  show "\<exists>xs. load_build_files 2 (sample_driver X') [''a.gyp''] (sample_load_state fs) = Some (Inr (sample_loaded_state xs))"
    by (intro exI [of _ xs])
      (simp add: load_build_files_def numeral_2_eq_2 abs dep norm none xs dependency_file_def appendV_def appendE_def)
qed

lemma sample_resolves: "resolve_targets (base_env ''/w'') re (data_of (sample_loaded_state xs)) = Inr (sample_targets [])"
proof -
  show ?thesis by code_simp
qed

lemma sample_orders: "order_targets False p q (sample_targets []) = Some (Inr (sample_graph, sample_order))"
  if "q = (\<lambda>_ _. 0)"
proof -
  have "VerifyNoCollidingTargets sample_order = Inr ()" by code_simp
  moreover have "BuildDependencyList (\<lambda>_ _. 0) (sample_targets []) = Some (Inr (sample_graph, sample_order))"
    unfolding sample_targets_def sample_graph_def append_Nil2 by (simp add: graph_eval)
  ultimately show ?thesis using that by (simp add: order_targets_def)
qed

lemma sample_processes:
  "\<exists>xs'. process_targets (sample_driver X) sample_info sample_graph sample_order [] (sample_targets []) xs =
    Some (Inr (sample_targets sample_conf, xs'))"
proof -
  have 1: "foldE (publish_settings (base_env ''/w'') sample_order sample_graph) (sample_targets []) settings_types =
      Inr (sample_targets [])" by code_simp
  have 2: "AdjustStaticLibraryDependencies sample_order (sample_targets []) sample_graph False = Inr (sample_targets [])"
    by code_simp
  have 3: "each_target (SetUpConfigurations (base_env ''/w'')) sample_order (sample_targets []) = Inr (sample_targets sample_conf)"
    by code_simp
  have 4: "each_target (ProcessListFiltersInDict re) sample_order (sample_targets sample_conf) = Inr (sample_targets sample_conf)"
    for re by code_simp
  have 5: "each_target (validate_target [] (Inr False)) sample_order (sample_targets sample_conf) = Inr (sample_targets sample_conf)"
    by code_simp
  have arm: "arm_target h [] = Inr False" for h by (simp add: arm_target_def)
  obtain x1 where x1: "expand_targets X 30 PHASE_LATE [] sample_order (sample_targets [], xs) = Some (Inr (sample_targets [], x1))"
    using sample_expands [of PHASE_LATE "[]" X "[]" xs] by blast
  obtain x2 where x2: "expand_targets X 30 PHASE_LATELATE [] sample_order (sample_targets sample_conf, x1) =
      Some (Inr (sample_targets sample_conf, x2))"
    using sample_expands [of PHASE_LATELATE sample_conf X "[]" x1] by blast
  have D: "dr_env (sample_driver X) = base_env ''/w''" "dr_expand (sample_driver X) = X" "dr_fuel (sample_driver X) = 30"
    "generator_wants_static_library_dependencies_adjusted sample_info" "generator_wants_sorted_dependencies sample_info = False"
    "extra_sources_for_rules sample_info = []"
    by (simp_all add: sample_driver_def sample_env_def sample_info_def)
  show ?thesis 
    unfolding process_targets_def Let_def D 1 2 if_cancel bindV_simps x1 prod.case 3 4 x2 arm 5 by blast
qed

theorem Load_result_witness:
  "\<forall>X fs. \<exists>targets data st'.
     Load 2 (sample_driver X) sample_info False (\<lambda>_ _. 0) (\<lambda>_ _. 0) [''a.gyp''] [] (lexpand (sample_load_state fs)) =
       Some (Inr ((sample_order, targets, data), st')) \<and>
     (\<forall>f \<in> set (target_build_files data). settled_file (driver_for (sample_driver X) sample_info) st' f) \<and>
     set sample_order = set (map fst targets) \<and> distinct (map dir_and_name sample_order)"
proof (intro allI)
  fix X :: xenv and fs
  define X' where "X' = X\<lparr>xgyp := base_env ''/w''\<rparr>"
  note load = sample_loads [OF X'_def]
  obtain xs where xs: "load_build_files 2 (sample_driver X') [''a.gyp''] (sample_load_state fs) =
      Some (Inr (sample_loaded_state xs))" using load(2) by blast
  obtain ys where ys: "process_targets (sample_driver X') sample_info sample_graph sample_order [] (sample_targets []) xs =
      Some (Inr (sample_targets sample_conf, ys))" using sample_processes by blast
  have E: "dr_env (sample_driver X') = base_env ''/w''" by (simp add: sample_driver_def sample_env_def)
  have S: "lvars (sample_loaded_state xs) = []" "lexpand (sample_loaded_state xs) = xs"
    by (simp_all add: sample_loaded_state_def)
  have start: "sample_load_state fs = start_load [] (lexpand (sample_load_state fs))"
    by (simp add: start_load_def sample_load_state_def)
  obtain targets data st' where r:
    "Load 2 (sample_driver X) sample_info False (\<lambda>_ _. 0) (\<lambda>_ _. 0) [''a.gyp''] [] (lexpand (sample_load_state fs)) =
      Some (Inr ((sample_order, targets, data), st'))"
    unfolding Load_def Let_def load(1) start [symmetric] xs bindV_simps E sample_resolves sample_orders [OF refl] S prod.case ys by blast
  from Load_result [OF r] r show "\<exists>targets data st'.
     Load 2 (sample_driver X) sample_info False (\<lambda>_ _. 0) (\<lambda>_ _. 0) [''a.gyp''] [] (lexpand (sample_load_state fs)) =
       Some (Inr ((sample_order, targets, data), st')) \<and>
     (\<forall>f \<in> set (target_build_files data). settled_file (driver_for (sample_driver X) sample_info) st' f) \<and>
     set sample_order = set (map fst targets) \<and> distinct (map dir_and_name sample_order)" by blast
qed

end
