(* ===== verification/Input_Parallel.thy ===== *)
theory Input_Parallel
  imports Gyp_Value "HOL-Library.Multiset"
begin

text \<open>
  Loading build files in parallel, \<open>ParallelState\<close>, \<open>LoadTargetBuildFileParallel\<close> and
  \<open>CallLoadTargetBuildFile\<close> of \<open>tools/gyp/pylib/gyp/input.py\<close>, as a state machine.

  The main thread holds the condition's lock except while it waits, so a callback runs
  only then: \<open>main_step\<close> is one turn of the loop, \<open>LoadTargetBuildFileCallback\<close> one
  callback, and between a notification and the moment the main thread has the lock
  again further callbacks may run.  What a worker process finds in a build file is the
  event of the callback.  A \<open>traced\<close> run also says which files were given to workers and
  what was reported for them.
\<close>

subsection \<open>What a worker returns\<close>

text \<open>How \<open>LoadTargetBuildFile\<close> ends in a worker, with the dictionaries it leaves behind.\<close>

datatype load_end =
    Raised exn
  | AlreadyLoaded
  | Loaded string "(string \<times> gval) list" "(string \<times> gval) list" "string list"

text \<open>The result sent back: \<open>None\<close> stands for both \<open>None\<close> and \<open>False\<close>, which the callback cannot tell apart.\<close>

type_synonym job_result = "(string \<times> (string \<times> gval) list \<times> (string \<times> gval) list \<times> string list) option"

definition CallLoadTargetBuildFile :: "string list \<Rightarrow> string list \<Rightarrow> load_end \<Rightarrow> job_result" where
  "CallLoadTargetBuildFile data_keys aux_data_keys r =
     (case r of
        Raised e \<Rightarrow> None
      | AlreadyLoaded \<Rightarrow> None
      | Loaded path data aux dependencies \<Rightarrow>
          Some (path,
                filter (\<lambda>(k, v). k \<noteq> ''target_build_files'' \<and> k \<notin> set data_keys) data,
                filter (\<lambda>(k, v). k \<notin> set aux_data_keys) aux,
                dependencies))"

subsection \<open>The shared state\<close>

datatype main_pc = Working | Waiting | Notified | Stopped

record parallel_state =
  pdata :: "(string \<times> gval) list"
  paux :: "(string \<times> gval) list"
  target_files :: "string list"
  pending :: int
  scheduled :: "string list"
  dependencies :: "string list"
  perror :: bool
  main :: main_pc
  in_flight :: "string list"

definition start_state :: "string \<Rightarrow> (string \<times> gval) list \<Rightarrow> (string \<times> gval) list \<Rightarrow> string list \<Rightarrow> parallel_state" where
  "start_state build_file data aux files =
     \<lparr>pdata = data, paux = aux, target_files = files, pending = 0, scheduled = [build_file],
      dependencies = [build_file], perror = False, main = Working, in_flight = []\<rparr>"

definition schedule :: "parallel_state \<Rightarrow> string \<Rightarrow> parallel_state" where
  "schedule s f =
     (if f \<notin> set (scheduled s)
      then s\<lparr>scheduled := scheduled s @ [f], dependencies := dependencies s @ [f]\<rparr> else s)"

definition store_all :: "(string \<times> gval) list \<Rightarrow> (string \<times> gval) list \<Rightarrow> (string \<times> gval) list" where
  "store_all d new = foldl (\<lambda>d (k, v). dict_set d k v) d new"

definition LoadTargetBuildFileCallback :: "parallel_state \<Rightarrow> job_result \<Rightarrow> parallel_state" where
  "LoadTargetBuildFileCallback s result =
     (case result of
        None \<Rightarrow> s\<lparr>perror := True\<rparr>
      | Some (build_file_path0, data0, aux_data0, dependencies0) \<Rightarrow>
          let s = s\<lparr>target_files := List.insert build_file_path0 (target_files s),
                    pdata := store_all (pdata s) data0, paux := store_all (paux s) aux_data0\<rparr>;
              s = foldl schedule s dependencies0
          in s\<lparr>pending := pending s - 1\<rparr>)"

text \<open>One turn of the loop; \<open>pop\<close> takes the last dependency.\<close>

definition main_step :: "parallel_state \<Rightarrow> parallel_state" where
  "main_step s =
     (if dependencies s = [] \<and> pending s = 0 then s\<lparr>main := Stopped\<rparr>
      else if perror s then s\<lparr>main := Stopped\<rparr>
      else if dependencies s = [] then s\<lparr>main := Waiting\<rparr>
      else s\<lparr>dependencies := butlast (dependencies s), pending := pending s + 1,
             in_flight := last (dependencies s) # in_flight s\<rparr>)"

text \<open>
  The steps: the main thread works, a job of \<open>in_flight\<close> reports, the main thread wakes up.
  \<open>job f\<close> is what a worker returns for the build file \<open>f\<close>.
\<close>

inductive pstep :: "(string \<Rightarrow> job_result) \<Rightarrow> parallel_state \<Rightarrow> parallel_state \<Rightarrow> bool" for job where
  work: "main s = Working \<Longrightarrow> pstep job s (main_step s)"
| report: "main s \<in> {Waiting, Notified} \<Longrightarrow> f \<in> set (in_flight s) \<Longrightarrow>
    pstep job s ((LoadTargetBuildFileCallback s (job f))\<lparr>in_flight := remove1 f (in_flight s), main := Notified\<rparr>)"
| wake: "main s = Notified \<Longrightarrow> pstep job s (s\<lparr>main := Working\<rparr>)"

text \<open>How the call ends: \<open>sys.exit\<close> after an error.\<close>

definition call_exits :: "parallel_state \<Rightarrow> bool" where
  "call_exits s \<longleftrightarrow> main s = Stopped \<and> perror s"

inductive reached :: "(string \<Rightarrow> job_result) \<Rightarrow> parallel_state \<Rightarrow> parallel_state \<Rightarrow> bool" for job s where
  refl: "reached job s s"
| step: "reached job s t \<Longrightarrow> pstep job t u \<Longrightarrow> reached job s u"

inductive_cases pstepE: "pstep job s t"

text \<open>
  A run with what happens in it: the files given to worker processes, which are those that
  a turn of the loop puts in flight, and the files whose results came back, in order.
\<close>

definition given_out :: "parallel_state \<Rightarrow> string list" where
  "given_out s = take (length (in_flight (main_step s)) - length (in_flight s)) (in_flight (main_step s))"

inductive traced ::
  "(string \<Rightarrow> job_result) \<Rightarrow> parallel_state \<Rightarrow> string list \<Rightarrow> string list \<Rightarrow> parallel_state \<Rightarrow> bool" for job s where
  start: "traced job s [] [] s"
| work: "traced job s given reports t \<Longrightarrow> main t = Working \<Longrightarrow> traced job s (given @ given_out t) reports (main_step t)"
| report: "traced job s given reports t \<Longrightarrow> main t \<in> {Waiting, Notified} \<Longrightarrow> f \<in> set (in_flight t) \<Longrightarrow>
    traced job s given (reports @ [f])
      ((LoadTargetBuildFileCallback t (job f))\<lparr>in_flight := remove1 f (in_flight t), main := Notified\<rparr>)"
| wake: "traced job s given reports t \<Longrightarrow> main t = Notified \<Longrightarrow> traced job s given reports (t\<lparr>main := Working\<rparr>)"

lemma traced_reached: "traced job s given reports t \<Longrightarrow> reached job s t"
  by (induction rule: traced.induct) (blast intro: reached.intros pstep.intros)+

lemma reached_traced: "reached job s t \<Longrightarrow> \<exists>given reports. traced job s given reports t"
proof (induction rule: reached.induct)
  case (step t u)
  from step.hyps(2) step.IH show ?case by (cases rule: pstep.cases) (blast intro: traced.intros)+
qed (blast intro: traced.start)

subsection \<open>Invariant\<close>

text \<open>The dependencies a worker reports for a build file.\<close>

definition job_deps :: "(string \<Rightarrow> job_result) \<Rightarrow> string \<Rightarrow> string list" where
  "job_deps job f = (case job f of None \<Rightarrow> [] | Some (p, d, a, ds) \<Rightarrow> ds)"

text \<open>For the proofs: the scheduled files that are neither queued nor with a worker.\<close>

definition past_files :: "parallel_state \<Rightarrow> string set" where
  "past_files s = set (scheduled s) - set (dependencies s) - set (in_flight s)"

inductive_set needed :: "(string \<Rightarrow> job_result) \<Rightarrow> string \<Rightarrow> string set" for job root where
  root: "root \<in> needed job root"
| dep: "f \<in> needed job root \<Longrightarrow> g \<in> set (job_deps job f) \<Longrightarrow> g \<in> needed job root"

definition par_inv :: "(string \<Rightarrow> job_result) \<Rightarrow> string \<Rightarrow> parallel_state \<Rightarrow> bool" where
  "par_inv job root s \<longleftrightarrow>
     distinct (scheduled s) \<and> distinct (dependencies s @ in_flight s) \<and>
     set (dependencies s) \<union> set (in_flight s) \<subseteq> set (scheduled s) \<and>
     root \<in> set (scheduled s) \<and> set (scheduled s) \<subseteq> needed job root \<and>
     (\<not> perror s \<longrightarrow> pending s = int (length (in_flight s)) \<and>
        (\<forall>f \<in> past_files s. job f \<noteq> None \<and> set (job_deps job f) \<subseteq> set (scheduled s))) \<and>
     (main s = Waiting \<longrightarrow> \<not> perror s \<and> dependencies s = [] \<and> pending s \<noteq> 0) \<and>
     (main s = Stopped \<longrightarrow> perror s \<or> dependencies s = [] \<and> pending s = 0)"


lemma foldl_schedule:
  "distinct (scheduled s) \<Longrightarrow>
   \<exists>new. foldl schedule s ds = s\<lparr>scheduled := scheduled s @ new, dependencies := dependencies s @ new\<rparr> \<and>
     distinct new \<and> set new = set ds - set (scheduled s)"
proof (induction ds arbitrary: s)
  case Nil
  show ?case by (intro exI [of _ "[]"]) simp
next
  case (Cons d ds)
  show ?case
  proof (cases "d \<in> set (scheduled s)")
    case True
    with Cons.IH [OF Cons.prems] show ?thesis by (auto simp: schedule_def)
  next
    case False
    let ?s = "s\<lparr>scheduled := scheduled s @ [d], dependencies := dependencies s @ [d]\<rparr>"
    have "distinct (scheduled ?s)" using Cons.prems False by simp
    from Cons.IH [OF this] obtain new where
      new: "foldl schedule ?s ds = ?s\<lparr>scheduled := scheduled ?s @ new, dependencies := dependencies ?s @ new\<rparr>"
      "distinct new" "set new = set ds - set (scheduled ?s)" by blast
    have "foldl schedule s (d # ds) = foldl schedule ?s ds" using False by (simp add: schedule_def)
    also have "\<dots> = s\<lparr>scheduled := scheduled s @ (d # new), dependencies := dependencies s @ (d # new)\<rparr>"
      unfolding new(1) by simp
    finally have run: "foldl schedule s (d # ds) =
        s\<lparr>scheduled := scheduled s @ (d # new), dependencies := dependencies s @ (d # new)\<rparr>" .
    have "distinct (d # new)" "set (d # new) = set (d # ds) - set (scheduled s)" using new(2,3) False by auto
    with run show ?thesis by blast
  qed
qed

lemma start_inv: "par_inv job root (start_state root data aux files)"
  by (auto simp: par_inv_def start_state_def past_files_def intro: needed.root)

lemma work_inv:
  assumes inv: "par_inv job root s" and "main s = Working"
  shows "par_inv job root (main_step s)"
proof (cases "dependencies s = [] \<or> perror s")
  case True
  with assms show ?thesis by (auto simp: main_step_def par_inv_def past_files_def)
next
  case False
  then obtain ds d where ds: "dependencies s = ds @ [d]" by (cases "dependencies s" rule: rev_cases) auto
  have "main_step s = s\<lparr>dependencies := ds, pending := pending s + 1, in_flight := d # in_flight s\<rparr>"
    using False ds by (simp add: main_step_def)
  with inv ds assms(2) show ?thesis by (auto simp: par_inv_def past_files_def)
qed

lemma report_inv:
  assumes inv: "par_inv job root s" and m: "main s \<in> {Waiting, Notified}" and f: "f \<in> set (in_flight s)"
  shows "par_inv job root ((LoadTargetBuildFileCallback s (job f))\<lparr>in_flight := remove1 f (in_flight s), main := Notified\<rparr>)"
proof (cases "job f")
  case None
  with inv show ?thesis
    by (auto simp: LoadTargetBuildFileCallback_def par_inv_def dest: notin_set_remove1)
next
  case (Some r)
  obtain p d a ds where r: "r = (p, d, a, ds)" by (cases r)
  let ?s = "s\<lparr>target_files := List.insert p (target_files s), pdata := store_all (pdata s) d, paux := store_all (paux s) a\<rparr>"
  have dist: "distinct (scheduled ?s)" using inv by (simp add: par_inv_def)
  obtain new where new: "foldl schedule ?s ds = ?s\<lparr>scheduled := scheduled s @ new, dependencies := dependencies s @ new\<rparr>"
    "distinct new" "set new = set ds - set (scheduled s)"
    using foldl_schedule [OF dist, of ds] by auto
  have fn: "f \<in> needed job root" using inv f by (auto simp: par_inv_def)
  have "job_deps job f = ds" using Some r by (simp add: job_deps_def)
  with new(3) fn have reach: "set new \<subseteq> needed job root" by (auto intro: needed.dep)
  let ?t = "(LoadTargetBuildFileCallback s (job f))\<lparr>in_flight := remove1 f (in_flight s), main := Notified\<rparr>"
  have t: "scheduled ?t = scheduled s @ new" "dependencies ?t = dependencies s @ new" "perror ?t = perror s"
    "pending ?t = pending s - 1" "in_flight ?t = remove1 f (in_flight s)" "main ?t = Notified"
    using Some r new(1) by (simp_all add: LoadTargetBuildFileCallback_def Let_def)
  have dif: "distinct (in_flight s)" using inv by (simp add: par_inv_def)
  have fin: "past_files ?t \<subseteq> insert f (past_files s)"
    using dif by (auto simp: past_files_def t)
  have closed: "job g \<noteq> None \<and> set (job_deps job g) \<subseteq> set (scheduled s @ new)"
    if "\<not> perror s" "g \<in> past_files ?t" for g
  proof (cases "g = f")
    case True
    with Some \<open>job_deps job f = ds\<close> new(3) show ?thesis by auto
  next
    case False
    with fin that inv show ?thesis by (auto simp: par_inv_def)
  qed
  have len: "int (length (remove1 f (in_flight s))) = int (length (in_flight s)) - 1"
    using f by (simp add: length_remove1) (metis Suc_pred length_pos_if_in_set of_nat_Suc add_diff_cancel_right' of_nat_1 of_nat_add Suc_eq_plus1)
  show ?thesis
    unfolding par_inv_def t using inv new(2,3) reach closed dif len
    by (auto simp: par_inv_def dest: notin_set_remove1)
qed

lemma step_inv: "pstep job s t \<Longrightarrow> par_inv job root s \<Longrightarrow> par_inv job root t"
proof (induction rule: pstep.induct)
  case (wake s)
  then show ?case by (auto simp: par_inv_def past_files_def)
qed (auto intro: work_inv report_inv)

lemma reached_inv: "reached job (start_state root data aux files) s \<Longrightarrow> par_inv job root s"
  by (induction rule: reached.induct) (auto intro: start_inv step_inv)

subsection \<open>What the loop achieves\<close>

text \<open>What a worker sends back for the two tables.\<close>

definition job_data :: "(string \<Rightarrow> job_result) \<Rightarrow> string \<Rightarrow> (string \<times> gval) list" where
  "job_data job f = (case job f of None \<Rightarrow> [] | Some (p, d, a, ds) \<Rightarrow> d)"

definition job_aux :: "(string \<Rightarrow> job_result) \<Rightarrow> string \<Rightarrow> (string \<times> gval) list" where
  "job_aux job f = (case job f of None \<Rightarrow> [] | Some (p, d, a, ds) \<Rightarrow> a)"

text \<open>
  A table holds what the files of \<open>F\<close> gave: an entry that one of them gave is an entry of one
  of them, and every other entry is as it was before.
\<close>

definition holds_results ::
  "(string \<times> gval) list \<Rightarrow> (string \<times> gval) list \<Rightarrow> (string \<Rightarrow> (string \<times> gval) list) \<Rightarrow> string set \<Rightarrow> bool" where
  "holds_results table before results F \<longleftrightarrow>
     (\<forall>k. if \<exists>f \<in> F. k \<in> fst ` set (results f)
          then \<exists>f \<in> F. \<exists>v. (k, v) \<in> set (results f) \<and> dict_get table k = Some v
          else dict_get table k = dict_get before k)"

lemma store_all_get:
  "(k \<in> fst ` set new \<longrightarrow> (\<exists>v. (k, v) \<in> set new \<and> dict_get (store_all d new) k = Some v)) \<and>
   (k \<notin> fst ` set new \<longrightarrow> dict_get (store_all d new) k = dict_get d k)"
proof (induction new rule: rev_induct)
  case (snoc kv new)
  then show ?case by (cases kv) (auto simp: store_all_def al.lookup_store)
qed (simp add: store_all_def)

lemma holds_results_store:
  assumes "holds_results t before results F"
  shows "holds_results (store_all t (results f)) before results (insert f F)"
  unfolding holds_results_def
proof (intro allI)
  fix k
  show "if \<exists>g \<in> insert f F. k \<in> fst ` set (results g)
      then \<exists>g \<in> insert f F. \<exists>v. (k, v) \<in> set (results g) \<and> dict_get (store_all t (results f)) k = Some v
      else dict_get (store_all t (results f)) k = dict_get before k"
  proof (cases "k \<in> fst ` set (results f)")
    case True
    with store_all_get [of k "results f" t] show ?thesis by auto
  next
    case False
    with store_all_get [of k "results f" t] have "dict_get (store_all t (results f)) k = dict_get t k" by blast
    with False assms show ?thesis unfolding holds_results_def by (auto split: if_splits)
  qed
qed

lemma holds_results_none:
  "results f = [] \<Longrightarrow> holds_results t before results F \<Longrightarrow> holds_results t before results (insert f F)"
  using holds_results_store [of t before results F f] by (simp add: store_all_def)

text \<open>How the run is reflected in the state.\<close>

definition run_inv ::
  "(string \<Rightarrow> job_result) \<Rightarrow> parallel_state \<Rightarrow> string list \<Rightarrow> string list \<Rightarrow> parallel_state \<Rightarrow> bool" where
  "run_inv job s0 given reports t \<longleftrightarrow>
     distinct (given @ dependencies t) \<and> set given \<union> set (dependencies t) = set (scheduled t) \<and>
     mset given = mset reports + mset (in_flight t) \<and>
     (\<forall>f \<in> set reports. perror t \<or> job f \<noteq> None) \<and>
     set (target_files t) = set (target_files s0) \<union>
       {p. \<exists>f \<in> set reports. \<exists>d a ds. job f = Some (p, d, a, ds)} \<and>
     holds_results (pdata t) (pdata s0) (job_data job) (set reports) \<and>
     holds_results (paux t) (paux s0) (job_aux job) (set reports)"

lemma run_inv_work:
  assumes "run_inv job s0 given reports t"
  shows "run_inv job s0 (given @ given_out t) reports (main_step t)"
proof (cases "dependencies t = [] \<or> perror t")
  case True
  then have "given_out t = []" by (auto simp: given_out_def main_step_def)
  moreover have "\<exists>p. main_step t = t\<lparr>main := p\<rparr>" using True by (auto simp: main_step_def)
  ultimately show ?thesis using assms by (auto simp: run_inv_def)
next
  case False
  then obtain ds d where ds: "dependencies t = ds @ [d]" by (cases "dependencies t" rule: rev_cases) auto
  then have "main_step t = t\<lparr>dependencies := ds, pending := pending t + 1, in_flight := d # in_flight t\<rparr>"
    using False by (simp add: main_step_def)
  moreover from this have "given_out t = [d]" by (simp add: given_out_def)
  ultimately show ?thesis using assms ds by (auto simp: run_inv_def)
qed

lemma run_inv_report:
  assumes inv: "run_inv job s0 given reports t" and par: "par_inv job root t" and f: "f \<in> set (in_flight t)"
  shows "run_inv job s0 given (reports @ [f])
    ((LoadTargetBuildFileCallback t (job f))\<lparr>in_flight := remove1 f (in_flight t), main := Notified\<rparr>)"
proof -
  have m: "mset given = mset (reports @ [f]) + mset (remove1 f (in_flight t))"
    using inv f by (simp add: run_inv_def)
  show ?thesis
  proof (cases "job f")
    case None
    then have "job_data job f = []" "job_aux job f = []" by (simp_all add: job_data_def job_aux_def)
    with None inv m show ?thesis
      by (auto simp: LoadTargetBuildFileCallback_def run_inv_def intro: holds_results_none)
  next
    case (Some r)
    obtain p d a ds where r: "r = (p, d, a, ds)" by (cases r)
    let ?s = "t\<lparr>target_files := List.insert p (target_files t), pdata := store_all (pdata t) d, paux := store_all (paux t) a\<rparr>"
    have "distinct (scheduled ?s)" using par by (simp add: par_inv_def)
    from foldl_schedule [OF this, of ds] obtain new where
      new: "foldl schedule ?s ds = ?s\<lparr>scheduled := scheduled t @ new, dependencies := dependencies t @ new\<rparr>"
      "distinct new" "set new = set ds - set (scheduled t)" by auto
    define u where "u = (LoadTargetBuildFileCallback t (job f))\<lparr>in_flight := remove1 f (in_flight t), main := Notified\<rparr>"
    have t: "scheduled u = scheduled t @ new" "dependencies u = dependencies t @ new" "perror u = perror t"
      "in_flight u = remove1 f (in_flight t)" "target_files u = List.insert p (target_files t)"
      "pdata u = store_all (pdata t) d" "paux u = store_all (paux t) a"
      using Some r new(1) by (simp_all add: u_def LoadTargetBuildFileCallback_def Let_def)
    have "d = job_data job f" "a = job_aux job f" using Some r by (simp_all add: job_data_def job_aux_def)
    then have tables: "holds_results (pdata u) (pdata s0) (job_data job) (insert f (set reports))"
      "holds_results (paux u) (paux s0) (job_aux job) (insert f (set reports))"
      unfolding t using inv by (auto simp: run_inv_def intro: holds_results_store)
    have fresh: "set new \<inter> (set given \<union> set (dependencies t)) = {}" using inv new(3) by (auto simp: run_inv_def)
    have files: "set (target_files u) = set (target_files s0) \<union>
        {p. \<exists>f \<in> set (reports @ [f]). \<exists>d a ds. job f = Some (p, d, a, ds)}"
      unfolding t using inv Some r by (auto simp: run_inv_def)
    have "distinct (given @ dependencies u)" "set given \<union> set (dependencies u) = set (scheduled u)"
      unfolding t using inv fresh new(2) by (auto simp: run_inv_def)
    moreover have "mset given = mset (reports @ [f]) + mset (in_flight u)" unfolding t using m .
    moreover have "\<forall>g \<in> set (reports @ [f]). perror u \<or> job g \<noteq> None" unfolding t using inv Some r by (auto simp: run_inv_def)
    ultimately have "run_inv job s0 given (reports @ [f]) u" unfolding run_inv_def using tables files by simp
    then show ?thesis by (simp only: u_def)
  qed
qed

lemma traced_inv:
  "traced job (start_state root data aux files) given reports s \<Longrightarrow>
    run_inv job (start_state root data aux files) given reports s"
proof (induction rule: traced.induct)
  case start
  show ?case by (auto simp: run_inv_def start_state_def holds_results_def)
next
  case (work given reports t)
  then show ?case by (intro run_inv_work)
next
  case (report given reports t f)
  from reached_inv [OF traced_reached [OF report.hyps(1)]] report show ?case by (intro run_inv_report)
next
  case (wake given reports t)
  then show ?case by (simp add: run_inv_def)
qed

text \<open>
  (C11) When the loop ends without an error, the build files given to worker processes are exactly
  those that the given one needs, directly or through others, each given once; each
  has reported, once, with a result; and the results are stored: the target build files
  are those there were and those the results name, and of either table every entry that
  a result has comes from the results, and every other entry is as it was.
\<close>

theorem LoadTargetBuildFileParallel_complete:
  assumes "traced job (start_state root data aux files) given reports s" and "main s = Stopped" and "\<not> perror s"
  shows "distinct given \<and> set given = needed job root \<and> mset reports = mset given \<and>
    (\<forall>f \<in> needed job root. job f \<noteq> None) \<and>
    set (target_files s) = set files \<union> {p. \<exists>f \<in> needed job root. \<exists>d a ds. job f = Some (p, d, a, ds)} \<and>
    holds_results (pdata s) data (job_data job) (needed job root) \<and>
    holds_results (paux s) aux (job_aux job) (needed job root)"
proof -
  from traced_inv [OF assms(1)] have run: "run_inv job (start_state root data aux files) given reports s" .
  from reached_inv [OF traced_reached [OF assms(1)]] have inv: "par_inv job root s" .
  with assms(2,3) have d: "dependencies s = []" "in_flight s = []" by (auto simp: par_inv_def)
  then have fin: "past_files s = set (scheduled s)" by (simp add: past_files_def)
  have closed: "set (job_deps job f) \<subseteq> set (scheduled s)" and some: "job f \<noteq> None" if "f \<in> set (scheduled s)" for f
    using inv assms(3) fin that by (auto simp: par_inv_def)
  have "f \<in> set (scheduled s)" if "f \<in> needed job root" for f
    using that
  proof induction
    case root
    show ?case using inv by (simp add: par_inv_def)
  next
    case (dep f g)
    with closed show ?case by blast
  qed
  then have needed: "set (scheduled s) = needed job root" using inv by (auto simp: par_inv_def)
  from run d have given: "distinct given" "set given = set (scheduled s)" "mset reports = mset given"
    by (simp_all add: run_inv_def)
  then have reports: "set reports = needed job root" using needed by (metis set_mset_mset)
  from run some given needed show ?thesis unfolding run_inv_def reports by (simp add: start_state_def)
qed

lemma no_deadlock:
  assumes "par_inv job root s" and "main s \<noteq> Stopped"
  shows "\<exists>t. pstep job s t"
proof (cases "main s")
  case Working
  then show ?thesis by (blast intro: pstep.work)
next
  case Waiting
  with assms(1) have "in_flight s \<noteq> []" by (auto simp: par_inv_def)
  then have "hd (in_flight s) \<in> set (in_flight s)" by simp
  with Waiting show ?thesis using pstep.report [of s "hd (in_flight s)" job] by blast
next
  case Notified
  then show ?thesis by (blast intro: pstep.wake)
qed (use assms(2) in simp)

fun main_rank :: "main_pc \<Rightarrow> nat" where
  "main_rank Stopped = 0"
| "main_rank Waiting = 1"
| "main_rank Working = 2"
| "main_rank Notified = 3"

definition par_work :: "(string \<Rightarrow> job_result) \<Rightarrow> string \<Rightarrow> parallel_state \<Rightarrow> nat" where
  "par_work job root s =
     4 * (card (needed job root) - length (scheduled s)) + 4 * length (dependencies s) +
     3 * length (in_flight s) + main_rank (main s)"

lemma report_work:
  assumes inv: "par_inv job root s" and m: "main s \<in> {Waiting, Notified}" and f: "f \<in> set (in_flight s)"
    and fin: "finite (needed job root)"
  shows "par_work job root ((LoadTargetBuildFileCallback s (job f))\<lparr>in_flight := remove1 f (in_flight s), main := Notified\<rparr>)
    < par_work job root s"
proof -
  let ?t = "(LoadTargetBuildFileCallback s (job f))\<lparr>in_flight := remove1 f (in_flight s), main := Notified\<rparr>"
  have inv': "par_inv job root ?t" by (rule report_inv [OF inv m f])
  have sub: "length (scheduled u) \<le> card (needed job root)" if "par_inv job root u" for u
    using that card_mono [OF fin, of "set (scheduled u)"] by (simp add: par_inv_def distinct_card)
  have "\<exists>new. scheduled ?t = scheduled s @ new \<and> dependencies ?t = dependencies s @ new"
  proof (cases "job f")
    case None
    then show ?thesis by (intro exI [of _ "[]"]) (simp add: LoadTargetBuildFileCallback_def)
  next
    case (Some r)
    obtain p d a ds where r: "r = (p, d, a, ds)" by (cases r)
    let ?s = "s\<lparr>target_files := List.insert p (target_files s), pdata := store_all (pdata s) d, paux := store_all (paux s) a\<rparr>"
    have "distinct (scheduled ?s)" using inv by (simp add: par_inv_def)
    from foldl_schedule [OF this, of ds] obtain new where
      "foldl schedule ?s ds = ?s\<lparr>scheduled := scheduled ?s @ new, dependencies := dependencies ?s @ new\<rparr>" by blast
    with Some r show ?thesis by (intro exI [of _ new]) (simp add: LoadTargetBuildFileCallback_def Let_def)
  qed
  then obtain new where new: "scheduled ?t = scheduled s @ new" "dependencies ?t = dependencies s @ new" by blast
  have len: "length (scheduled s) + length new \<le> card (needed job root)"
    using sub [OF inv'] unfolding new(1) by simp
  have fl: "length (remove1 f (in_flight s)) + 1 = length (in_flight s)"
    using f length_pos_if_in_set [OF f] by (simp add: length_remove1)
  have mr: "main_rank (main s) \<ge> 1" using m by auto
  have "par_work job root ?t = 4 * (card (needed job root) - (length (scheduled s) + length new)) +
      4 * (length (dependencies s) + length new) + 3 * length (remove1 f (in_flight s)) + 3"
    unfolding par_work_def new by simp
  also have "\<dots> < par_work job root s" proof -
    obtain c where c: "card (needed job root) = length (scheduled s) + length new + c" using len le_iff_add by metis
    show ?thesis unfolding par_work_def c using fl mr by simp
  qed
  finally show ?thesis .
qed

lemma step_work_decreases:
  assumes "pstep job s t" and "par_inv job root s" and "finite (needed job root)"
  shows "par_work job root t < par_work job root s"
  using assms
proof (induction rule: pstep.induct)
  case (work s)
  show ?case
  proof (cases "dependencies s = [] \<or> perror s")
    case True
    with work show ?thesis by (auto simp: main_step_def par_work_def)
  next
    case False
    then obtain ds d where "dependencies s = ds @ [d]" by (cases "dependencies s" rule: rev_cases) auto
    with work False show ?thesis by (simp add: main_step_def par_work_def)
  qed
next
  case (report s f)
  then show ?case by (intro report_work) auto
next
  case (wake s)
  then show ?case by (simp add: par_work_def)
qed

text \<open>
  (C19) The loop always ends when the build files needed are finitely many: it never waits
  for a report that cannot come, and no run of the program goes on for ever.
\<close>

theorem LoadTargetBuildFileParallel_ends:
  assumes "finite (needed job root)"
  shows "(\<forall>s. reached job (start_state root data aux files) s \<longrightarrow> main s \<noteq> Stopped \<longrightarrow> (\<exists>t. pstep job s t))
    \<and> \<not> (\<exists>run. run 0 = start_state root data aux files \<and> (\<forall>i. pstep job (run i) (run (Suc i))))"
proof
  show "\<forall>s. reached job (start_state root data aux files) s \<longrightarrow> main s \<noteq> Stopped \<longrightarrow> (\<exists>t. pstep job s t)"
    using no_deadlock reached_inv by blast
  show "\<not> (\<exists>run. run 0 = start_state root data aux files \<and> (\<forall>i. pstep job (run i) (run (Suc i))))"
  proof
    assume "\<exists>run. run 0 = start_state root data aux files \<and> (\<forall>i. pstep job (run i) (run (Suc i)))"
    then obtain run where r0: "run 0 = start_state root data aux files" and r: "\<And>i. pstep job (run i) (run (Suc i))"
      by blast
    have inv: "par_inv job root (run i)" for i
    proof (induction i)
      case 0
      show ?case unfolding r0 by (rule start_inv)
    next
      case (Suc i)
      then show ?case by (rule step_inv [OF r])
    qed
    have "par_work job root (run i) + i \<le> par_work job root (run 0)" for i
    proof (induction i)
      case (Suc i)
      with step_work_decreases [OF r inv assms, of i] show ?case by simp
    qed simp
    from this [of "Suc (par_work job root (run 0))"] show False by simp
  qed
qed

text \<open>A build file without dependencies, for the examples.\<close>

definition leaf_job :: "string \<Rightarrow> job_result" where
  "leaf_job f = Some (f, [], [], [])"

lemma needed_leaf: "needed leaf_job root = {root}"
proof
  show "needed leaf_job root \<subseteq> {root}"
  proof
    fix f assume "f \<in> needed leaf_job root"
    then show "f \<in> {root}" by induction (simp_all add: job_deps_def leaf_job_def)
  qed
qed (simp add: needed.root)

text \<open>A build file that needs another, each with an entry for the table of files.\<close>

definition two_jobs :: "string \<Rightarrow> job_result" where
  "two_jobs f = Some (f, [(f, GDict [])], [], if f = ''a.gyp'' then [''b.gyp''] else [])"

lemma needed_two: "needed two_jobs ''a.gyp'' = {''a.gyp'', ''b.gyp''}"
proof
  show "needed two_jobs ''a.gyp'' \<subseteq> {''a.gyp'', ''b.gyp''}"
  proof
    fix f assume "f \<in> needed two_jobs ''a.gyp''"
    then show "f \<in> {''a.gyp'', ''b.gyp''}" by induction (auto simp: job_deps_def two_jobs_def)
  qed
  have "''b.gyp'' \<in> needed two_jobs ''a.gyp''"
    by (rule needed.dep [OF needed.root]) (simp add: job_deps_def two_jobs_def)
  then show "{''a.gyp'', ''b.gyp''} \<subseteq> needed two_jobs ''a.gyp''" by (simp add: needed.root)
qed

definition reported_job :: "(string \<Rightarrow> job_result) \<Rightarrow> parallel_state \<Rightarrow> string \<Rightarrow> parallel_state" where
  "reported_job job s f =
     (LoadTargetBuildFileCallback s (job f))\<lparr>in_flight := remove1 f (in_flight s), main := Notified\<rparr>"

theorem LoadTargetBuildFileParallel_complete_witness:
  "\<exists>s. traced two_jobs (start_state ''a.gyp'' [] [] []) [''a.gyp'', ''b.gyp''] [''a.gyp'', ''b.gyp''] s \<and>
     set (target_files s) = {''a.gyp'', ''b.gyp''} \<and> dict_get (pdata s) ''b.gyp'' = Some (GDict [])"
proof -
  let ?s0 = "start_state ''a.gyp'' [] [] []"
  let ?s2 = "main_step (main_step ?s0)"
  let ?s4 = "(reported_job two_jobs ?s2 ''a.gyp'')\<lparr>main := Working\<rparr>"
  let ?s6 = "main_step (main_step ?s4)"
  let ?s8 = "(reported_job two_jobs ?s6 ''b.gyp'')\<lparr>main := Working\<rparr>"
  let ?s9 = "main_step ?s8"
  have 2: "traced two_jobs ?s0 (([] @ given_out ?s0) @ given_out (main_step ?s0)) [] ?s2"
    by (rule traced.work [OF traced.work [OF traced.start]]) code_simp+
  have "([] @ given_out ?s0) @ given_out (main_step ?s0) = [''a.gyp'']" by code_simp
  with 2 have "traced two_jobs ?s0 [''a.gyp''] [] ?s2" by simp
  then have "traced two_jobs ?s0 [''a.gyp''] ([] @ [''a.gyp'']) (reported_job two_jobs ?s2 ''a.gyp'')"
    unfolding reported_job_def by (rule traced.report) code_simp+
  then have 4: "traced two_jobs ?s0 [''a.gyp''] ([] @ [''a.gyp'']) ?s4" by (rule traced.wake) code_simp
  have 6: "traced two_jobs ?s0 (([''a.gyp''] @ given_out ?s4) @ given_out (main_step ?s4)) ([] @ [''a.gyp'']) ?s6"
    by (rule traced.work [OF traced.work [OF 4]]) code_simp+
  have "([''a.gyp''] @ given_out ?s4) @ given_out (main_step ?s4) = [''a.gyp'', ''b.gyp'']" by code_simp
  with 6 have "traced two_jobs ?s0 [''a.gyp'', ''b.gyp''] ([] @ [''a.gyp'']) ?s6" by simp
  then have "traced two_jobs ?s0 [''a.gyp'', ''b.gyp''] (([] @ [''a.gyp'']) @ [''b.gyp'']) (reported_job two_jobs ?s6 ''b.gyp'')"
    unfolding reported_job_def by (rule traced.report) code_simp+
  then have "traced two_jobs ?s0 [''a.gyp'', ''b.gyp''] (([] @ [''a.gyp'']) @ [''b.gyp'']) ?s8"
    by (rule traced.wake) code_simp
  then have 9: "traced two_jobs ?s0 ([''a.gyp'', ''b.gyp''] @ given_out ?s8) (([] @ [''a.gyp'']) @ [''b.gyp'']) ?s9"
    by (rule traced.work) code_simp
  have "given_out ?s8 = []" by code_simp
  with 9 have t: "traced two_jobs ?s0 [''a.gyp'', ''b.gyp''] [''a.gyp'', ''b.gyp''] ?s9" by simp
  have "main ?s9 = Stopped" "\<not> perror ?s9" by code_simp+
  note c = LoadTargetBuildFileParallel_complete [OF t this]
  then have files: "set (target_files ?s9) = {''a.gyp'', ''b.gyp''}" unfolding needed_two by (auto simp: two_jobs_def)
  from c have "holds_results (pdata ?s9) [] (job_data two_jobs) {''a.gyp'', ''b.gyp''}" unfolding needed_two by blast
  then have "dict_get (pdata ?s9) ''b.gyp'' = Some (GDict [])"
    by (auto simp: holds_results_def job_data_def two_jobs_def dest: spec [of _ "''b.gyp''"] split: if_splits)
  with t files show ?thesis by blast
qed

theorem LoadTargetBuildFileParallel_ends_witness:
  "(\<exists>t. pstep leaf_job (start_state ''a.gyp'' [] [] []) t) \<and>
   \<not> (\<exists>run. run 0 = start_state ''a.gyp'' [] [] [] \<and> (\<forall>i. pstep leaf_job (run i) (run (Suc i))))"
proof -
  have fin: "finite (needed leaf_job ''a.gyp'')" by (simp add: needed_leaf)
  have "main (start_state ''a.gyp'' [] [] []) \<noteq> Stopped" by (simp add: start_state_def)
  with LoadTargetBuildFileParallel_ends [OF fin, of "[]" "[]" "[]"] reached.refl show ?thesis by blast
qed

text \<open>
  A build file that an earlier call has loaded already makes the worker return \<open>False\<close>, which
  the callback takes for a failure: the program exits, with no message, where loading
  without worker processes would go on.
\<close>

theorem LoadTargetBuildFileParallel_already_loaded:
  "CallLoadTargetBuildFile dk ak AlreadyLoaded = None \<and>
   (job root = CallLoadTargetBuildFile dk ak AlreadyLoaded \<longrightarrow>
    (\<exists>s. reached job (start_state root data aux files) s \<and> call_exits s))"
proof (intro conjI impI)
  show none: "CallLoadTargetBuildFile dk ak AlreadyLoaded = None" by (simp add: CallLoadTargetBuildFile_def)
  assume "job root = CallLoadTargetBuildFile dk ak AlreadyLoaded"
  with none have job: "job root = None" by simp
  let ?s0 = "start_state root data aux files"
  let ?s1 = "main_step ?s0"
  let ?s2 = "main_step ?s1"
  let ?s3 = "(LoadTargetBuildFileCallback ?s2 (job root))\<lparr>in_flight := remove1 root (in_flight ?s2), main := Notified\<rparr>"
  let ?s4 = "?s3\<lparr>main := Working\<rparr>"
  have 1: "pstep job ?s0 ?s1" by (rule pstep.work) (simp add: start_state_def)
  have 2: "pstep job ?s1 ?s2" by (rule pstep.work) (simp add: start_state_def main_step_def)
  have 3: "pstep job ?s2 ?s3" by (rule pstep.report) (simp_all add: start_state_def main_step_def)
  have 4: "pstep job ?s3 ?s4" by (rule pstep.wake) simp
  have 5: "pstep job ?s4 (main_step ?s4)" by (rule pstep.work) simp
  have "reached job ?s0 (main_step ?s4)"
    by (rule reached.step [OF reached.step [OF reached.step [OF reached.step [OF reached.step [OF reached.refl 1] 2] 3] 4] 5])
  moreover have "call_exits (main_step ?s4)"
    by (simp add: call_exits_def main_step_def start_state_def LoadTargetBuildFileCallback_def job)
  ultimately show "\<exists>s. reached job ?s0 s \<and> call_exits s" by blast
qed

theorem LoadTargetBuildFileParallel_already_loaded_witness:
  "\<exists>s. reached (\<lambda>_. None) (start_state ''a.gyp'' [] [] [''a.gyp'']) s \<and> call_exits s"
  using LoadTargetBuildFileParallel_already_loaded [of "[]" "[]" "\<lambda>_. None" "''a.gyp''" "[]" "[]" "[''a.gyp'']"] by simp

end
