(* ===== verification/Input_Commands.thy ===== *)
theory Input_Commands
  imports Input_Expand
begin

text \<open>
  What the whole of variable expansion keeps, whatever it expands.  A relation between
  states that is kept by changes of the store and of the files and by the running of one
  command is kept by every call (the locale \<open>expansion_relation\<close>).  The instance is
  the discipline of \<open>cached_command_results\<close>: no command is run twice.
\<close>

subsection \<open>A relation that every part keeps\<close>

definition calls_keep :: "(xstate \<Rightarrow> xstate \<Rightarrow> bool) \<Rightarrow> calls \<Rightarrow> bool" where
  "calls_keep R C \<longleftrightarrow>
     (\<forall>phase vs bf v. keeps R (call_expand C phase vs bf v)) \<and>
     (\<forall>phase vs bf a i. keeps R (call_list_from C phase vs bf a i)) \<and>
     (\<forall>phase vs bf a k. keeps R (call_dict C phase vs bf a k))"

locale expansion_relation = state_relation +
  fixes X :: xenv
  assumes R_objs: "R st (st\<lparr>objs := h\<rparr>)"
    and R_files: "R st (st\<lparr>files := f\<rparr>)"
    and R_command: "keeps R (run_command X build_file m contents)"
begin

lemma keeps_put: "keeps R (put_store h)"
  by (auto simp: keeps_def put_store_def R_objs)

lemma keeps_store:
  "keeps R (new_obj x)" "keeps R (set_obj a x)" "keeps R (new_value v)" "keeps R (frozen w)"
  "keeps R (the_list_at a)" "keeps R (the_dict_at a)" "keeps R (check_size a n)"
  by (auto simp: new_obj_def set_obj_def new_value_def frozen_def the_list_at_def the_dict_at_def check_size_def
      Let_def split_def intro!: keeps_rules keeps_put split: option.split)

lemmas keeps_basic = keeps_rules keeps_store

lemma keeps_each_entry: "(\<And>k v. keeps R (f k v)) \<Longrightarrow> keeps R (each_entry a f)"
  unfolding each_entry_def by (auto intro!: keeps_basic)

lemma keeps_merge_items: "keeps R (merge_items E tf ff ip app m items)"
  by (induction E tf ff ip app m items rule: merge_items.induct) (auto intro!: keeps_basic)

lemma keeps_targets:
  "keeps R (fresh_list a k)" "keeps R (dict_target a k)" "keeps R (set_item a k v)" "keeps R (policy_target fro k x a)"
  "keeps R (merge_list_into E a l tf ff ip app)"
  by (auto simp: fresh_list_def dict_target_def set_item_def policy_target_def merge_list_into_def Let_def
      intro!: keeps_basic keeps_merge_items split: option.split hval.split prod.split)

lemma keeps_merge_entries: "keeps R (merge_entries E tf ff fro a items)"
proof (induction E tf ff fro a items rule: merge_entries.induct)
  case (2 E tf ff fro a k v items)
  then show ?case
    by (auto intro!: keeps_basic keeps_targets split: gval.split option.split)
qed (auto intro!: keeps_basic)

lemma keeps_write_file_list: "keeps R (write_file_list X build_file contents)"
proof -
  have "keeps R (\<lambda>st. give x (st\<lparr>files := f st\<rparr>))" for x :: string and f
    by (auto simp: keeps_def give_def R_files)
  then show ?thesis
    by (auto simp: write_file_list_def Let_def intro!: keeps_basic split: option.split)
qed

lemma keeps_calls:
  "calls_keep R C \<Longrightarrow> keeps R (call_expand C phase vs bf v)"
  "calls_keep R C \<Longrightarrow> keeps R (call_list_from C phase vs bf a i)"
  "calls_keep R C \<Longrightarrow> keeps R (call_dict C phase vs bf a k)"
  unfolding calls_keep_def by blast+

lemma keeps_values:
  "keeps R (filtered_variables X contents variables)" "keeps R (variable_value variables bf contents)"
  "keeps R (check_item contents item)" "keeps R (str_of_value v)" "keeps R (shell_arg_of v)"
  by (auto simp: filtered_variables_def variable_value_def check_item_def str_of_value_def shell_arg_of_def
      intro!: keeps_basic split: option.split hval.split)

lemma keeps_contexts: "keeps R (list_context v)" "keeps R (string_context v)" "keeps R (as_item x)"
  by (auto simp: list_context_def string_context_def as_item_def
      intro!: keeps_basic keeps_values split: option.split xval.split)

lemma keeps_expand_match: "calls_keep R C \<Longrightarrow> keeps R (expand_match X C phase variables bf s m)"
  unfolding expand_match_def expand_replacement_def
  by (auto simp: Let_def split_def intro!: keeps_basic keeps_values keeps_contexts keeps_calls keeps_write_file_list
      R_command split: option.split xval.split hval.split)

lemma keeps_expand_matches: "calls_keep R C \<Longrightarrow> keeps R (expand_matches X C phase variables bf ms x)"
  by (induction ms arbitrary: x) (auto intro!: keeps_basic keeps_expand_match split: xval.split)

lemma keeps_ExpandVariables: "calls_keep R C \<Longrightarrow> keeps R (ExpandVariables X C phase variables bf v)"
  by (auto simp: ExpandVariables_def expand_output_def Let_def
      intro!: keeps_basic keeps_values keeps_contexts keeps_calls keeps_expand_matches split: xval.split)

lemma keeps_list: "calls_keep R C \<Longrightarrow> keeps R (ProcessVariablesAndConditionsInList C phase variables bf a i)"
  by (auto simp: ProcessVariablesAndConditionsInList_def
      intro!: keeps_basic keeps_calls split: hval.split xval.split)

lemma keeps_conditions: "calls_keep R C \<Longrightarrow> keeps R (ProcessConditionsInDict X C phase variables bf a)"
  by (auto simp: ProcessConditionsInDict_def process_condition_def choose_branch_def merge_dict_into_def Let_def
      intro!: keeps_basic keeps_calls keeps_merge_entries
      split: hval.split xval.split option.split cond_outcome.split list.split)

lemma keeps_entries:
  "calls_keep R C \<Longrightarrow> keeps R (expand_entry C phase variables bf a k v)"
  "calls_keep R C \<Longrightarrow> keeps R (process_child C phase variables bf k v)"
  "calls_keep R C \<Longrightarrow> keeps R (process_section C phase variables bf a)"
  "keeps R (dict_variables variables a key)"
  by (auto simp: expand_entry_def process_child_def process_section_def dict_variables_def Let_def
      intro!: keeps_basic keeps_calls keeps_targets split: hval.split xval.split option.split)

lemma keeps_dict: "calls_keep R C \<Longrightarrow> keeps R (ProcessVariablesAndConditionsInDict X C phase variables bf a key)"
  by (auto simp: ProcessVariablesAndConditionsInDict_def
      intro!: keeps_basic keeps_each_entry keeps_entries keeps_conditions)

lemma all_calls_keep: "calls_keep R (calls_to X n)"
proof (induction n)
  case 0
  show ?case by (simp add: calls_keep_def keeps_def)
next
  case (Suc n)
  then show ?case
    using keeps_ExpandVariables keeps_list keeps_dict by (simp add: calls_keep_def Let_def)
qed

end

subsection \<open>No command is run twice\<close>

text \<open>What the command run as number \<open>i\<close> answered, if it succeeded.\<close>

definition answer_of :: "xenv \<Rightarrow> nat \<Rightarrow> command \<Rightarrow> string option" where
  "answer_of X i c =
     (case c of
        Popen v shell d \<Rightarrow>
          let p = run_process X i c in
          if returncode p = 0 \<and> p_stderr p = [] then Some (rstrip (p_stdout p)) else None
      | DoMain m args d \<Rightarrow> (case run_module X i c of Inl e \<Rightarrow> None | Inr out \<Rightarrow> Some (rstrip out)))"

text \<open>Every command was run once, and what it answered is in the cache.\<close>

definition commands_ok :: "xenv \<Rightarrow> xstate \<Rightarrow> bool" where
  "commands_ok X st \<longleftrightarrow>
     distinct (map fst (commands st)) \<and>
     (\<forall>i < length (commands st). \<exists>out. answer_of X i (snd (commands st ! i)) = Some out \<and>
        dict_get (cached_command_results st) (fst (commands st ! i)) = Some out)"

text \<open>Commands are only added, for texts without a cached result, and no cached result changes.\<close>

definition commands_grow :: "xenv \<Rightarrow> xstate \<Rightarrow> xstate \<Rightarrow> bool" where
  "commands_grow X st st' \<longleftrightarrow>
     (commands_ok X st \<longrightarrow> commands_ok X st') \<and>
     (\<exists>new. commands st' = commands st @ new \<and> (\<forall>k \<in> fst ` set new. \<not> has_key (cached_command_results st) k)) \<and>
     (\<forall>k v. dict_get (cached_command_results st) k = Some v \<longrightarrow> dict_get (cached_command_results st') k = Some v)"

lemma run_uncached_logs:
  assumes "run_uncached X bf cs key v shell st = Some (Inr (r, st'))"
  shows "\<exists>c. st' = st\<lparr>commands := commands st @ [(key, c)]\<rparr> \<and> answer_of X (length (commands st)) c = Some r"
  using assms
  by (auto simp: run_uncached_def bindS_def bindV_Inr_iff log_command_def lift_res_def give_def throw_def Let_def
      answer_of_def split: if_splits option.splits sum.splits)

lemma commands_ok_new:
  assumes "commands_ok X st" and "\<not> has_key (cached_command_results st) key"
    and "answer_of X (length (commands st)) c = Some r"
  shows "commands_ok X (st\<lparr>commands := commands st @ [(key, c)],
           cached_command_results := dict_set (cached_command_results st) key r\<rparr>)"
proof -
  have "fst (commands st ! i) \<noteq> key" if "i < length (commands st)" for i
    using assms(1,2) that unfolding commands_ok_def by (metis option.distinct(1))
  then have "key \<notin> fst ` set (commands st)" by (metis imageE in_set_conv_nth)
  with assms show ?thesis
    by (auto simp: commands_ok_def al.lookup_store nth_append less_Suc_eq)
qed

lemma run_command_grows: "keeps (commands_grow X) (run_command X bf m contents)"
proof -
  have "commands_grow X st st'"
    if run: "run_uncached X bf cs key v shell st = Some (Inr (r, st1))"
      and st': "st' = st1\<lparr>cached_command_results := dict_set (cached_command_results st1) key r\<rparr>"
      and key: "dict_get (cached_command_results st) key = None" for st st1 st' cs key v shell r
  proof -
    from run_uncached_logs [OF run] obtain c where c: "st1 = st\<lparr>commands := commands st @ [(key, c)]\<rparr>"
      "answer_of X (length (commands st)) c = Some r" by blast
    with st' have "st' = st\<lparr>commands := commands st @ [(key, c)],
        cached_command_results := dict_set (cached_command_results st) key r\<rparr>" by simp
    with commands_ok_new [OF _ _ c(2), of key] key show ?thesis
      by (auto simp: commands_grow_def al.lookup_store)
  qed
  note step = this
  have "commands_grow X st st" for st by (auto simp: commands_grow_def)
  with step show ?thesis
    unfolding keeps_def run_command_def
    by (auto simp: bindS_def bindV_Inr_iff lift_res_def give_def Let_def split: if_splits option.split_asm sum.split_asm)
qed

interpretation commands: expansion_relation "commands_grow X" X for X
proof unfold_locales
  show "commands_grow X st st" for st by (auto simp: commands_grow_def)
  show "commands_grow X st st''" if "commands_grow X st st'" "commands_grow X st' st''" for st st' st''
  proof -
    from that obtain new new' where new: "commands st' = commands st @ new" "commands st'' = commands st' @ new'"
      "\<forall>k \<in> fst ` set new. \<not> has_key (cached_command_results st) k"
      "\<forall>k \<in> fst ` set new'. \<not> has_key (cached_command_results st') k"
      unfolding commands_grow_def by blast
    from that have more: "dict_get (cached_command_results st) k = Some v \<Longrightarrow> dict_get (cached_command_results st') k = Some v"
      "dict_get (cached_command_results st') k = Some v \<Longrightarrow> dict_get (cached_command_results st'') k = Some v" for k v
      unfolding commands_grow_def by blast+
    have "\<forall>k \<in> fst ` set (new @ new'). \<not> has_key (cached_command_results st) k"
    proof
      fix k
      assume "k \<in> fst ` set (new @ new')"
      with new(3,4) have "\<not> has_key (cached_command_results st) k \<or> \<not> has_key (cached_command_results st') k"
        by (auto simp only: set_append image_Un)
      with more(1) show "\<not> has_key (cached_command_results st) k" by fastforce
    qed
    with that new(1,2) more show ?thesis unfolding commands_grow_def by (metis append_assoc)
  qed
  show "commands_grow X st (st\<lparr>objs := h\<rparr>)" "commands_grow X st (st\<lparr>files := f\<rparr>)" for st h f
    by (auto simp: commands_grow_def commands_ok_def)
qed (rule run_command_grows)


subsection \<open>A witness\<close>




end
