(* ===== verification/Input_Patterns.thy ===== *)
theory Input_Patterns
  imports Input_Expand
begin

text \<open>
  The patterns \<open>early_variable_re\<close>, \<open>late_variable_re\<close> and \<open>latelate_variable_re\<close>
  of \<open>tools/gyp/pylib/gyp/input.py\<close>: the search that \<open>match_here\<close> performs finds exactly the
  texts the pattern describes, read as a grammar.
\<close>

definition pattern_types :: "string set" where
  "pattern_types = {[], ''!'', ''@'', ''!@'', ''|''}"

text \<open>
  The parts of a text that the pattern matches: the type, the command string, white space and
  a bracket, the content up to the first closing parenthesis, and what follows.
\<close>

definition variable_pattern ::
  "char \<Rightarrow> string \<Rightarrow> string \<Rightarrow> string \<Rightarrow> string \<Rightarrow> bool \<Rightarrow> string \<Rightarrow> string \<Rightarrow> bool" where
  "variable_pattern symbol s typ command space bracket content rest \<longleftrightarrow>
     s = symbol # typ @ command @ CHR ''('' # space @ (if bracket then ''['' else []) @ content @ CHR '')'' # rest \<and>
     typ \<in> pattern_types \<and> (\<forall>c \<in> set command. command_char c) \<and> (\<forall>c \<in> set space. is_space c) \<and>
     (\<forall>c \<in> set content. c \<noteq> CHR '')'' \<and> c \<noteq> ch_newline) \<and>
     (bracket \<or> content = [] \<or> hd content \<noteq> CHR ''['' \<and> \<not> is_space (hd content))"

lemma while_stop:
  assumes "\<forall>c \<in> set s. P c" and "t = [] \<or> \<not> P (hd t)"
  shows "takeWhile P (s @ t) = s" "dropWhile P (s @ t) = t"
  using assms by (cases t; simp add: takeWhile_append dropWhile_append)+

lemma command_char_facts [simp]: "\<not> command_char (CHR ''('')"
  by (simp add: command_char_def is_alpha_def is_upper_def is_lower_def is_digit_def)

lemma command_char_not_type: "command_char c \<Longrightarrow> c \<notin> set ''!@|''"
  by (auto simp: command_char_def is_alpha_def is_upper_def is_lower_def is_digit_def)

lemma type_part_types: "type_part s \<in> pattern_types \<and> s = type_part s @ drop (length (type_part s)) s"
  by (cases s; cases "tl s") (auto simp: type_part_def pattern_types_def startswith_def split: if_splits)

lemma type_part_append:
  assumes "typ \<in> pattern_types" and "t \<noteq> []" and "hd t \<notin> set ''!@|''"
  shows "type_part (typ @ t) = typ"
  using assms by (cases t) (auto simp: type_part_def pattern_types_def startswith_def)

lemma match_of_pattern:
  assumes "variable_pattern symbol s typ command space bracket content rest"
  shows "match_here symbol start s =
    Some \<lparr>m_start = start, m_type = symbol # typ, m_command = command, m_is_array = (space \<noteq> [] \<or> bracket),
          m_length = length s - length rest\<rparr>"
proof -
  define r4 where "r4 = content @ CHR '')'' # rest"
  define r3 where "r3 = (if bracket then ''['' else []) @ r4"
  define r2 where "r2 = CHR ''('' # space @ r3"
  from assms have s: "s = symbol # typ @ command @ r2" and kind: "typ \<in> pattern_types"
    and command: "\<forall>c \<in> set command. command_char c" and space: "\<forall>c \<in> set space. is_space c"
    and content: "\<forall>c \<in> set content. c \<noteq> CHR '')'' \<and> c \<noteq> ch_newline"
    and first: "bracket \<or> content = [] \<or> hd content \<noteq> CHR ''['' \<and> \<not> is_space (hd content)"
    by (simp_all add: variable_pattern_def r4_def r3_def r2_def)
  have r2: "r2 \<noteq> []" "hd r2 = CHR ''(''" "tl r2 = space @ r3" by (simp_all add: r2_def)
  have "hd (command @ r2) \<notin> set ''!@|''" using command command_char_not_type r2 by (cases command) auto
  then have 1: "type_part (typ @ command @ r2) = typ" using kind r2 by (intro type_part_append) simp_all
  have 2: "takeWhile command_char (command @ r2) = command" "dropWhile command_char (command @ r2) = r2"
    by (rule while_stop; use command r2 in simp)+
  have r3: "r3 \<noteq> []" "\<not> is_space (hd r3)" "hd r3 = CHR ''['' \<longleftrightarrow> bracket"
    using first by (cases content; auto simp: is_space_def r3_def r4_def)+
  have 3: "takeWhile is_space (space @ r3) = space" "dropWhile is_space (space @ r3) = r3"
    by (rule while_stop; use space r3 in simp)+
  have brk: "(r3 \<noteq> [] \<and> hd r3 = CHR ''['') = bracket" using r3 by simp
  have r4: "(if bracket then tl r3 else r3) = r4" by (simp add: r3_def)
  have 4: "dropWhile (\<lambda>c. c \<noteq> CHR '')'' \<and> c \<noteq> ch_newline) r4 = CHR '')'' # rest"
    unfolding r4_def by (rule while_stop(2)) (use content in simp_all)
  show ?thesis
    unfolding match_here_def s Let_def list.sel 1 append_eq_conv_conj [THEN iffD1, OF refl, THEN conjunct2, symmetric]
    unfolding 2 r2(3) 3 brk r4 4 by (simp add: r2(1,2))
qed

text \<open>
  (C18) The search finds a match exactly where the text has the parts of the pattern, and these
  parts are determined: the match gives the type, the command string and whether there
  is white space or a bracket, and ends behind the first closing parenthesis.
\<close>

theorem match_here_exact:
  "match_here symbol start s = Some m \<longleftrightarrow>
    (\<exists>typ cmd space bracket content rest. variable_pattern symbol s typ cmd space bracket content rest \<and>
       m = \<lparr>m_start = start, m_type = symbol # typ, m_command = cmd, m_is_array = (space \<noteq> [] \<or> bracket),
            m_length = length s - length rest\<rparr>)"
  (is "?L \<longleftrightarrow> ?R")
proof
  assume ?R
  then show ?L using match_of_pattern by blast
next
  assume L: ?L
  then obtain t where s: "s = symbol # t" by (cases s) (auto simp: match_here_def split: if_splits)
  define ty where "ty = type_part t"
  define s1 where "s1 = drop (length ty) t"
  define command where "command = takeWhile command_char s1"
  define s2 where "s2 = dropWhile command_char s1"
  define space where "space = takeWhile is_space (tl s2)"
  define s3 where "s3 = dropWhile is_space (tl s2)"
  define bracket where "bracket = (s3 \<noteq> [] \<and> hd s3 = CHR ''['')"
  define s4 where "s4 = (if bracket then tl s3 else s3)"
  let ?P = "\<lambda>c. c \<noteq> CHR '')'' \<and> c \<noteq> ch_newline"
  define content where "content = takeWhile ?P s4"
  define s5 where "s5 = dropWhile ?P s4"
  from L have "s2 \<noteq> []" "hd s2 = CHR ''(''" "s5 \<noteq> []" "hd s5 = CHR '')''"
    unfolding match_here_def s
    by (auto simp: Let_def ty_def s1_def command_def s2_def space_def s3_def bracket_def s4_def s5_def split: if_splits)
  then obtain t2 rest where s2: "s2 = CHR ''('' # t2" and s5: "s5 = CHR '')'' # rest" by (cases s2; cases s5) auto
  have 1: "t = ty @ s1" "ty \<in> pattern_types" using type_part_types [of t] by (simp_all add: ty_def s1_def)
  have 2: "s1 = command @ s2" "\<forall>c \<in> set command. command_char c"
    by (auto simp: command_def s2_def dest: set_takeWhileD)
  have 3: "t2 = space @ s3" "\<forall>c \<in> set space. is_space c"
    by (auto simp: space_def s3_def s2 dest: set_takeWhileD)
  have 4: "s3 = (if bracket then ''['' else []) @ s4" by (cases s3) (auto simp: bracket_def s4_def)
  have 5: "s4 = content @ s5" "\<forall>c \<in> set content. ?P c"
    unfolding s5_def content_def by (auto dest: set_takeWhileD)
  have "bracket \<or> content = [] \<or> hd content \<noteq> CHR ''['' \<and> \<not> is_space (hd content)"
  proof (cases "bracket \<or> content = []")
    case False
    then have c: "s3 = s4" "hd s4 = hd content" "s3 \<noteq> []" using 5(1) by (auto simp: s4_def)
    with False have "hd content \<noteq> CHR ''[''" by (auto simp: bracket_def)
    moreover have "\<not> is_space (hd content)"
      using c hd_dropWhile [of is_space "tl s2"] unfolding s3_def by simp
    ultimately show ?thesis by simp
  qed blast
  then have "variable_pattern symbol s ty command space bracket content rest"
    unfolding variable_pattern_def s using 1(2) 2(2) 3(2) 5(2)
    by (simp only: 1(1) 2(1) 3(1) 4 5(1) s2 s5 append_assoc append_Cons simp_thms)
  with match_of_pattern [OF this, of start] L show ?R by auto
qed

theorem match_here_exact_witness:
  "match_here (CHR ''<'') 4 ''<@(a) b'' =
    Some \<lparr>m_start = 4, m_type = ''<@'', m_command = [], m_is_array = False, m_length = 5\<rparr>"
proof (rule match_here_exact [THEN iffD2], intro exI conjI)
  show "variable_pattern (CHR ''<'') ''<@(a) b'' ''@'' [] [] False ''a'' '' b''"
    by (simp add: variable_pattern_def pattern_types_def is_space_def)
qed simp

end
