(* ===== verification/Input_Templates.thy ===== *)
theory Input_Templates
  imports Input_Commands Input_Patterns
begin

text \<open>
  What \<open>ExpandVariables\<close> computes on texts that refer to variables: the references are
  replaced by the texts of the variables, and the references in these, until none is left.  A
  text is a template, a list of literal pieces and references; the matches of the pattern
  are its references, and they are replaced from the right.
\<close>

subsection \<open>Templates\<close>

datatype piece = Lit string | Ref string

fun piece_text :: "char \<Rightarrow> piece \<Rightarrow> string" where
  "piece_text symbol (Lit s) = s"
| "piece_text symbol (Ref n) = [symbol, CHR ''(''] @ n @ [CHR '')'']"

definition render :: "char \<Rightarrow> piece list \<Rightarrow> string" where
  "render symbol ps = concat (map (piece_text symbol) ps)"

fun refs :: "piece list \<Rightarrow> string set" where
  "refs [] = {}"
| "refs (Lit s # ps) = refs ps"
| "refs (Ref n # ps) = insert n (refs ps)"

fun literals_ok :: "char \<Rightarrow> piece list \<Rightarrow> bool" where
  "literals_ok symbol [] = True"
| "literals_ok symbol (Lit s # ps) = (symbol \<notin> set s \<and> literals_ok symbol ps)"
| "literals_ok symbol (Ref n # ps) = literals_ok symbol ps"

text \<open>References replaced by their bodies, once and \<open>k\<close> times.\<close>

definition substitute :: "(string \<Rightarrow> piece list) \<Rightarrow> piece list \<Rightarrow> piece list" where
  "substitute body ps = concat (map (\<lambda>p. case p of Lit s \<Rightarrow> [Lit s] | Ref n \<Rightarrow> body n) ps)"

primrec unfold_refs :: "(string \<Rightarrow> piece list) \<Rightarrow> nat \<Rightarrow> piece list \<Rightarrow> piece list" where
  "unfold_refs body 0 ps = ps"
| "unfold_refs body (Suc k) ps = unfold_refs body k (substitute body ps)"

text \<open>A name that the pattern takes as it is written, and that is not the text of an integer.\<close>

definition name_chars :: "char \<Rightarrow> string \<Rightarrow> bool" where
  "name_chars symbol n \<longleftrightarrow> n \<noteq> [] \<and> (\<forall>c \<in> set n. plain_char c \<and> \<not> is_space c \<and> c \<noteq> symbol)"

definition name_ok :: "char \<Rightarrow> string \<Rightarrow> bool" where
  "name_ok symbol n \<longleftrightarrow> name_chars symbol n \<and> \<not> IsStrCanonicalInt (GStr n)"

fun value_text :: "hval \<Rightarrow> string option" where
  "value_text (HStr s) = Some s"
| "value_text (HInt i) = Some (show_int i)"
| "value_text _ = None"

text \<open>The names \<open>N\<close> are variables whose texts are the templates \<open>body\<close>, over names in \<open>N\<close>.\<close>

definition template_variables :: "char \<Rightarrow> vars \<Rightarrow> (string \<Rightarrow> piece list) \<Rightarrow> string set \<Rightarrow> bool" where
  "template_variables symbol variables body N \<longleftrightarrow>
     (\<forall>n \<in> N. name_ok symbol n \<and> literals_ok symbol (body n) \<and> refs (body n) \<subseteq> N \<and>
        (\<exists>v. dict_get variables (KStr n) = Some v \<and> value_text v = Some (render symbol (body n))))"

subsection \<open>Texts of templates\<close>

lemma render_simps [simp]:
  "render symbol [] = []" "render symbol (p # ps) = piece_text symbol p @ render symbol ps"
  "render symbol (ps @ qs) = render symbol ps @ render symbol qs"
  by (simp_all add: render_def)

lemma refs_append [simp]: "refs (ps @ qs) = refs ps \<union> refs qs"
  by (induction ps rule: refs.induct) simp_all

lemma literals_ok_append [simp]: "literals_ok symbol (ps @ qs) \<longleftrightarrow> literals_ok symbol ps \<and> literals_ok symbol qs"
  by (induction symbol ps rule: literals_ok.induct) simp_all

lemma substitute_simps [simp]:
  "substitute body [] = []" "substitute body (Lit s # ps) = Lit s # substitute body ps"
  "substitute body (Ref n # ps) = body n @ substitute body ps"
  by (simp_all add: substitute_def)

lemma substitute_keeps:
  assumes "template_variables symbol variables body N" and "refs ps \<subseteq> N" and "literals_ok symbol ps"
  shows "refs (substitute body ps) \<subseteq> N \<and> literals_ok symbol (substitute body ps)"
  using assms(2,3)
proof (induction ps)
  case (Cons p ps)
  with assms(1) show ?case by (cases p) (auto simp: template_variables_def)
qed simp

lemma no_refs_substitute: "refs ps = {} \<Longrightarrow> substitute body ps = ps"
  by (induction ps rule: refs.induct) simp_all

lemma no_refs_unfold: "refs ps = {} \<Longrightarrow> unfold_refs body k ps = ps"
  by (induction k) (simp_all add: no_refs_substitute)

lemma symbol_iff_refs: "literals_ok symbol ps \<Longrightarrow> symbol \<in> set (render symbol ps) \<longleftrightarrow> refs ps \<noteq> {}"
  by (induction symbol ps rule: literals_ok.induct) auto

subsection \<open>The references are the matches\<close>

definition ref_match :: "char \<Rightarrow> nat \<Rightarrow> string \<Rightarrow> vmatch" where
  "ref_match symbol start n =
     \<lparr>m_start = start, m_type = [symbol], m_command = [], m_is_array = False, m_length = length n + 3\<rparr>"

fun ref_matches :: "char \<Rightarrow> nat \<Rightarrow> piece list \<Rightarrow> vmatch list" where
  "ref_matches symbol start [] = []"
| "ref_matches symbol start (Lit s # ps) = ref_matches symbol (start + length s) ps"
| "ref_matches symbol start (Ref n # ps) = ref_match symbol start n # ref_matches symbol (start + length n + 3) ps"

lemma ref_matches_append:
  "ref_matches symbol start (ps @ qs) =
    ref_matches symbol start ps @ ref_matches symbol (start + length (render symbol ps)) qs"
  by (induction symbol start ps rule: ref_matches.induct) (simp_all add: ac_simps numeral_3_eq_3)

lemma ref_matches_Nil: "ref_matches symbol start ps = [] \<longleftrightarrow> refs ps = {}"
  by (induction symbol start ps rule: ref_matches.induct) simp_all

lemma plain_char_facts: "plain_char c \<Longrightarrow> c \<notin> set ''([{)]}''"
  by (auto simp: plain_char_def is_opening_def opening_of.simps)

lemma not_symbol_no_match: "c \<noteq> symbol \<Longrightarrow> match_here symbol start (c # s) = None"
  by (simp add: match_here_def)

lemma ref_matches_here:
  assumes "name_chars symbol n"
  shows "match_here symbol start (symbol # CHR ''('' # n @ CHR '')'' # t) = Some (ref_match symbol start n)"
proof -
  obtain c cs where n: "n = c # cs" using assms by (cases n) (simp_all add: name_chars_def)
  from assms have c: "\<forall>c \<in> set n. c \<noteq> CHR '')'' \<and> c \<noteq> ch_newline"
    using plain_char_facts by (fastforce simp: name_chars_def is_space_def)
  have hd: "c \<noteq> CHR ''['' \<and> \<not> is_space c" using assms n plain_char_facts [of c] by (auto simp: name_chars_def)
  with n c have "variable_pattern symbol (symbol # CHR ''('' # n @ CHR '')'' # t) [] [] [] False n t"
    by (simp add: variable_pattern_def pattern_types_def)
  from match_of_pattern [OF this] show ?thesis by (simp add: ref_match_def)
qed

lemma find_skip:
  "symbol \<notin> set s \<Longrightarrow> find_matches symbol start (s @ t) = find_matches symbol (start + length s) t"
proof (induction s arbitrary: start)
  case (Cons c s)
  then have "c \<noteq> symbol" by auto
  with Cons show ?case by (subst find_matches.simps) (simp add: not_symbol_no_match)
qed simp

lemma find_matches_template:
  assumes "literals_ok symbol ps" and "\<forall>n \<in> refs ps. name_chars symbol n"
  shows "find_matches symbol start (render symbol ps) = ref_matches symbol start ps"
  using assms
proof (induction ps arbitrary: start)
  case Nil
  show ?case by (simp add: find_matches.simps)
next
  case (Cons p ps)
  show ?case
  proof (cases p)
    case (Lit s)
    with Cons show ?thesis by (simp add: find_skip)
  next
    case (Ref n)
    with Cons.prems have "name_chars symbol n" by simp
    note here = ref_matches_here [OF this, of start "render symbol ps"]
    show ?thesis
      using Cons Ref here by (subst find_matches.simps) (simp add: ref_match_def numeral_3_eq_3 ac_simps)
  qed
qed

subsection \<open>One reference\<close>

lemma py_slice_append:
  "py_slice (s @ t @ u) (int (length s)) (int (length s) + int (length t)) = t"
proof -
  have "slice_index (s @ t @ u) (int (length s)) = length s"
    "slice_index (s @ t @ u) (int (length s) + int (length t)) = length s + length t"
    by (simp_all add: slice_index_def nat_int_add)
  then show ?thesis by (simp add: py_slice_def)
qed

lemma symbol_plain: "expansion_symbol phase = Inr symbol \<Longrightarrow> plain_char symbol \<and> symbol \<notin> set ''|!@''"
  by (auto simp: expansion_symbol_def plain_char_def is_opening_def opening_of.simps split: if_splits)

lemma plain_balanced: "\<forall>c \<in> set s. plain_char c \<Longrightarrow> balanced s"
  by (induction s) (auto intro: balanced.intros)

lemma name_chars: "name_ok symbol n \<Longrightarrow> name_chars symbol n"
  by (simp add: name_ok_def)

lemma ref_group:
  assumes "plain_char symbol" and "\<forall>c \<in> set n. plain_char c"
  shows "FindEnclosingBracketGroup (symbol # CHR ''('' # n @ CHR '')'' # t) = (1, int (length n) + 3)"
proof -
  have "is_opening (CHR ''('')" "opening_of (CHR '')'') = Some (CHR ''('')" "\<not> is_opening (CHR '')'')"
    by (simp_all add: is_opening_def opening_of.simps)
  moreover from assms(1) have "\<not> is_opening symbol" "opening_of symbol = None" by (simp_all add: plain_char_def)
  moreover note bracket_loop_balanced [OF plain_balanced [OF assms(2)], of 1 "[CHR ''('']" "CHR '')'' # t" 2]
  ultimately show ?thesis by (simp add: FindEnclosingBracketGroup_def)
qed

lemma strip_name: "name_ok symbol n \<Longrightarrow> strip n = n"
  by (rule strip_id) (auto simp: name_ok_def name_chars_def)

lemma value_text_facts:
  assumes "value_text v = Some t"
  shows "hscalar v" "href_list h v = None" "str_of_value v st = Some (Inr (t, st))"
  using assms by (cases v; simp add: str_of_value_def bindS_step frozen_step give_def)+

lemma expand_reference:
  assumes symbol: "expansion_symbol phase = Inr symbol" and n: "name_ok symbol n"
    and call: "call_expand C phase variables bf (HStr n) st = Some (Inr (XStr n, st))"
    and v: "dict_get variables (KStr n) = Some v" "value_text v = Some t"
  shows "expand_match X C phase variables bf (pre @ piece_text symbol (Ref n) @ post) (ref_match symbol (length pre) n) st =
    Some (Inr (XStr (pre @ t @ post), st))"
proof -
  define inp where "inp = pre @ piece_text symbol (Ref n) @ post"
  note plain = symbol_plain [OF symbol]
  from plain n have "plain_char symbol" "\<forall>c \<in> set n. plain_char c" by (auto simp: name_ok_def name_chars_def)
  then have group: "FindEnclosingBracketGroup (drop (length pre) inp) = (1, int (length n) + 3)"
    by (simp add: ref_group inp_def)
  have contents: "py_slice inp (int (length pre) + 1 + 1) (int (length pre) + (int (length n) + 3) - 1) = n"
    using py_slice_append [of "pre @ [symbol, CHR ''('']" n "CHR '')'' # post"] by (simp add: ac_simps inp_def)
  have "slice_index inp (int (length pre)) = length pre"
    "slice_index inp (int (length pre) + (int (length n) + 3)) = length pre + (length n + 3)"
    by (simp_all add: slice_index_def nat_int_add inp_def)
  then have rest: "take (slice_index inp (int (length pre))) inp = pre"
    "drop (slice_index inp (int (length pre) + (int (length n) + 3))) inp = post"
    by (simp_all add: inp_def numeral_3_eq_3)
  have repl: "expand_replacement C phase variables bf n v st = Some (Inr ((), st))"
    "string_context v st = Some (Inr (t, st))"
    using value_text_facts [OF v(2)]
    by (cases v; simp add: expand_replacement_def give_def string_context_def)+
  have "variable_value variables bf n = give v" using v(1) by (simp add: variable_value_def)
  with group contents rest repl call plain show ?thesis
    unfolding expand_match_def inp_def [symmetric]
    by (auto simp: ref_match_def strip_name [OF n] bindS_step Let_def give_def simp del: piece_text.simps)
qed

subsection \<open>All references\<close>

lemma name_unexpanded:
  assumes "expansion_symbol phase = Inr symbol" and "name_ok symbol n"
  shows "ExpandVariables X C phase variables bf (HStr n) st = Some (Inr (XStr n, st))"
proof -
  have "symbol \<notin> set n" "\<not> IsStrCanonicalInt (GStr n)" using assms(2) by (auto simp: name_ok_def name_chars_def)
  then show ?thesis
    using assms(1) value_text_facts(3) [of "HStr n" n st] by (simp add: ExpandVariables_def bindS_step give_def)
qed

lemma expand_references:
  assumes symbol: "expansion_symbol phase = Inr symbol" and vars: "template_variables symbol variables body N"
    and "refs ps \<subseteq> N"
  shows "expand_matches X (calls_to X (Suc m)) phase variables bf (rev (ref_matches symbol 0 ps))
           (XStr (render symbol ps @ post)) st =
         Some (Inr (XStr (render symbol (substitute body ps) @ post), st))"
  using assms(3)
proof (induction ps arbitrary: post rule: rev_induct)
  case Nil
  show ?case by (simp add: give_def)
next
  case (snoc p ps)
  show ?case
  proof (cases p)
    case (Lit s)
    with snoc.IH [of "s @ post"] snoc.prems show ?thesis by (simp add: ref_matches_append substitute_def)
  next
    case (Ref n)
    with snoc.prems have "n \<in> N" by simp
    with vars obtain v where n: "name_ok symbol n"
      and v: "dict_get variables (KStr n) = Some v" "value_text v = Some (render symbol (body n))"
      unfolding template_variables_def by blast
    have "call_expand (calls_to X (Suc m)) phase variables bf (HStr n) st = Some (Inr (XStr n, st))"
      using name_unexpanded [OF symbol n] by (simp add: Let_def)
    note one = expand_reference [OF symbol n this v, of X "render symbol ps" post]
    have "expand_matches X (calls_to X (Suc m)) phase variables bf (rev (ref_matches symbol 0 (ps @ [p])))
        (XStr (render symbol (ps @ [p]) @ post)) st =
      expand_matches X (calls_to X (Suc m)) phase variables bf (rev (ref_matches symbol 0 ps))
        (XStr (render symbol ps @ render symbol (body n) @ post)) st"
      using Ref one by (simp add: ref_matches_append bindS_step del: calls_to.simps)
    with snoc.IH [of "render symbol (body n) @ post"] snoc.prems Ref show ?thesis
      by (simp add: substitute_def)
  qed
qed

lemma canonical_chars: "canonical_digits s \<Longrightarrow> c \<in> set s \<Longrightarrow> is_digit c \<or> c = CHR ''-''"
proof -
  have "is_digit (CHR ''0'')" by (simp add: is_digit_def)
  then show "canonical_digits s \<Longrightarrow> c \<in> set s \<Longrightarrow> is_digit c \<or> c = CHR ''-''"
    by (cases s) (auto simp: canonical_digits_def Let_def split: if_splits)
qed

lemma canonical_no_symbol:
  assumes "expansion_symbol phase = Inr symbol" and "symbol \<in> set s"
  shows "\<not> IsStrCanonicalInt (GStr s)"
proof -
  have "\<not> is_digit symbol" "symbol \<noteq> CHR ''-''" "symbol \<noteq> ch_newline"
    using assms(1) by (auto simp: expansion_symbol_def is_digit_def split: if_splits)
  with assms(2) canonical_chars [of _ symbol] show ?thesis by (auto simp: IsStrCanonicalInt_def)
qed

lemma canonical_text_twice:
  "bindS (lift_res (canonical_output (XStr t))) (\<lambda>x. lift_res (canonical_output x)) = lift_res (canonical_output (XStr t))"
  by (auto simp: canonical_output_def int_text_def split: if_splits) (cases "py_int (GStr t)"; simp add: canonical_output_def)

lemma template_expansion:
  assumes symbol: "expansion_symbol phase = Inr symbol" and vars: "template_variables symbol variables body N"
  shows "refs ps \<subseteq> N \<Longrightarrow> literals_ok symbol ps \<Longrightarrow> refs (unfold_refs body k ps) = {} \<Longrightarrow> k \<le> m \<Longrightarrow>
    ExpandVariables X (calls_to X m) phase variables bf (HStr (render symbol ps)) st =
    lift_res (canonical_output (XStr (render symbol (unfold_refs body k ps)))) st"
proof (induction k arbitrary: m ps st)
  case (0 m ps)
  then have "symbol \<notin> set (render symbol ps)" by (simp add: symbol_iff_refs)
  with symbol value_text_facts(3) [of "HStr (render symbol ps)"] show ?case
    by (auto simp: ExpandVariables_def bindS_step canonical_output_def int_text_def bindS_def lift_res_def give_def
        split: sum.splits)
next
  case (Suc k m ps)
  show ?case
  proof (cases "refs ps = {}")
    case True
    with Suc.IH [of ps m st] Suc.prems show ?thesis by (simp add: no_refs_unfold no_refs_substitute)
  next
    case False
    obtain m' where m: "m = Suc m'" "k \<le> m'" using Suc.prems(4) by (cases m) auto
    let ?s = "render symbol ps"
    from False Suc.prems(2) have in_s: "symbol \<in> set ?s" by (simp add: symbol_iff_refs)
    note not_int = canonical_no_symbol [OF symbol in_s]
    have names: "\<forall>n \<in> refs ps. name_chars symbol n"
      using vars Suc.prems(1) name_chars unfolding template_variables_def by blast
    note found = find_matches_template [OF Suc.prems(2) names, of 0]
    have "ref_matches symbol 0 ps \<noteq> []" using False by (simp add: ref_matches_Nil)
    moreover note expand_references [OF symbol vars Suc.prems(1), of X m' bf "[]" st]
    moreover have "call_expand (calls_to X m) phase variables bf (HStr (render symbol (substitute body ps))) st =
        lift_res (canonical_output (XStr (render symbol (unfold_refs body k (substitute body ps))))) st"
      using Suc.IH [of "substitute body ps" m' st] substitute_keeps [OF vars Suc.prems(1,2)] Suc.prems(3) m
      by (simp add: Let_def)
    ultimately show ?thesis
      using value_text_facts(3) [of "HStr ?s" ?s st] symbol not_int in_s found m
        canonical_text_twice [THEN fun_cong, of "render symbol (unfold_refs body k (substitute body ps))" st]
      by (simp add: ExpandVariables_def bindS_step expand_output_def bindS_def [of "call_expand c p q r s" for c p q r s]
          bindS_def [of "lift_res r" for r] del: calls_to.simps)
  qed
qed

text \<open>
  (C37) \<open>ExpandVariables\<close> computes substitution: a text that refers to variables, whose texts may
  refer to variables again, is expanded to the text without references that replacing
  every reference by the text of its variable leads to after \<open>k\<close> rounds (as an integer when
  it is the text of one), with nothing run and nothing changed.  Fuel \<open>k\<close> is enough.
\<close>

theorem ExpandVariables_substitutes:
  assumes "expansion_symbol phase = Inr symbol" and "template_variables symbol variables body N"
    and "refs ps \<subseteq> N" and "literals_ok symbol ps"
    and "refs (unfold_refs body k ps) = {}" and "k \<le> m"
  shows "ExpandVariables X (calls_to X m) phase variables build_file (HStr (render symbol ps)) st =
    lift_res (canonical_output (XStr (render symbol (unfold_refs body k ps)))) st"
  using assms(3-6) by (rule template_expansion [OF assms(1,2)])

definition sample_body :: "string \<Rightarrow> piece list" where
  "sample_body n = (if n = ''lib'' then [Lit ''lib'', Ref ''name''] else [Lit ''uv''])"

theorem ExpandVariables_substitutes_witness:
  "\<forall>X st. ExpandVariables X (calls_to X 2) PHASE_EARLY [(KStr ''lib'', HStr ''lib<(name)''), (KStr ''name'', HStr ''uv'')] ''a.gyp''
     (HStr ''out/<(lib).<(name)'') st = Some (Inr (XStr ''out/libuv.uv'', st))"
proof (intro allI)
  fix X st
  let ?vars = "[(KStr ''lib'', HStr ''lib<(name)''), (KStr ''name'', HStr ''uv'')]"
  let ?ps = "[Lit ''out/'', Ref ''lib'', Lit ''.'', Ref ''name'']"
  have plain: "plain_char c" if "c \<in> set ''libname''" for c
    using that by (auto simp: plain_char_def is_opening_def opening_of.simps)
  have names: "name_ok (CHR ''<'') ''lib''" "name_ok (CHR ''<'') ''name''"
    using plain by (simp_all add: name_ok_def name_chars_def is_space_def IsStrCanonicalInt_code canonical_digits_def is_digit_def)
  have "template_variables (CHR ''<'') ?vars sample_body {''lib'', ''name''}"
    using names by (simp add: template_variables_def sample_body_def)
  from ExpandVariables_substitutes [OF _ this, of PHASE_EARLY ?ps 2 2 X "''a.gyp''" st]
  show "ExpandVariables X (calls_to X 2) PHASE_EARLY ?vars ''a.gyp'' (HStr ''out/<(lib).<(name)'') st =
      Some (Inr (XStr ''out/libuv.uv'', st))"
    by (simp add: expansion_symbol_def sample_body_def numeral_2_eq_2 canonical_output_def IsStrCanonicalInt_code
        canonical_digits_def is_digit_def give_def)
qed

end
