(* ===== verification/Input_Expand_Errors.thy ===== *)
theory Input_Expand_Errors
  imports Input_Templates
begin

text \<open>
  What variable expansion in \<open>tools/gyp/pylib/gyp/input.py\<close> reports, and where it falls
  short: an undefined variable is named in the error, but an integer between the
  parentheses makes the interpreter fail.
\<close>

subsection \<open>The rightmost reference\<close>

lemma reference_contents:
  fixes pre post :: string
  assumes "plain_char symbol" and "name_chars symbol n" and "symbol \<notin> set ''|!@''"
  defines "inp \<equiv> pre @ piece_text symbol (Ref n) @ post"
  shows "expand_match X C phase variables bf inp (ref_match symbol (length pre) n) =
    bindS (call_expand C phase variables bf (HStr n)) (\<lambda>expanded.
      case expanded of
        XInt i \<Rightarrow> throw (AttributeError ''int object has no attribute strip'')
      | XList l \<Rightarrow> throw (AttributeError ''list object has no attribute strip'')
      | XStr s \<Rightarrow>
          bindS (variable_value variables bf (strip s)) (\<lambda>replacement.
          bindS (expand_replacement C phase variables bf (strip s) replacement) (\<lambda>_.
          bindS (string_context replacement) (\<lambda>encoded_replacement.
            give (XStr (take (slice_index inp (int (length pre))) inp @ encoded_replacement @
              drop (slice_index inp (int (length pre) + (int (length n) + 3))) inp))))))"
proof -
  have neq: "CHR ''|'' \<noteq> symbol" "CHR ''!'' \<noteq> symbol" "CHR ''@'' \<noteq> symbol" using assms(3) by auto
  have "\<forall>c \<in> set n. plain_char c" using assms(2) by (simp add: name_chars_def)
  then have group: "FindEnclosingBracketGroup (drop (length pre) inp) = (1, int (length n) + 3)"
    using ref_group [OF assms(1)] by (simp add: inp_def)
  have contents: "py_slice inp (int (length pre) + 1 + 1) (int (length pre) + (int (length n) + 3) - 1) = n"
    using py_slice_append [of "pre @ [symbol, CHR ''('']" n "CHR '')'' # post"] by (simp add: ac_simps inp_def)
  from contents have contents': "py_slice inp (2 + int (length pre)) (2 + (int (length pre) + int (length n))) = n"
    by (simp add: ac_simps)
  show ?thesis
    unfolding expand_match_def
    by (simp add: ref_match_def group contents' Let_def neq neq [symmetric] del: piece_text.simps)
qed

text \<open>An expansion of a template is decided by its rightmost reference, if that one raises.\<close>

lemma rightmost_error:
  assumes symbol: "expansion_symbol phase = Inr symbol"
    and names: "\<forall>n \<in> refs (qs @ Ref n # rs). name_chars symbol n" and rs: "refs rs = {}"
    and lits: "literals_ok symbol (qs @ Ref n # rs)"
    and err: "expand_match X C phase variables bf (render symbol (qs @ Ref n # rs))
      (ref_match symbol (length (render symbol qs)) n) st = Some (Inl e)"
  shows "ExpandVariables X C phase variables bf (HStr (render symbol (qs @ Ref n # rs))) st = Some (Inl e)"
proof -
  let ?ps = "qs @ Ref n # rs"
  have in_s: "symbol \<in> set (render symbol ?ps)" using lits by (simp add: symbol_iff_refs)
  have "rev (ref_matches symbol 0 ?ps) = ref_match symbol (length (render symbol qs)) n # rev (ref_matches symbol 0 qs)"
    using rs by (simp add: ref_matches_append ref_matches_Nil)
  then have "expand_matches X C phase variables bf (rev (ref_matches symbol 0 ?ps)) (XStr (render symbol ?ps)) st = Some (Inl e)"
    using err by (simp add: bindS_def)
  then show ?thesis
    using symbol canonical_no_symbol [OF symbol in_s] in_s find_matches_template [OF lits names, of 0]
      value_text_facts(3) [of "HStr (render symbol ?ps)" _ st]
    by (simp add: ExpandVariables_def bindS_step ref_matches_append) (simp add: bindS_def)
qed

text \<open>
  (C38) The variable of the rightmost reference, when it is not defined, is reported with its name and
  the build file; only a name that ends like a filter list (with \<open>!\<close> or \<open>/\<close>) may be undefined.
\<close>

theorem undefined_variable_reported:
  assumes "expansion_symbol phase = Inr symbol"
    and "\<forall>m \<in> refs (qs @ Ref n # rs). name_ok symbol m" and "refs rs = {}" and "literals_ok symbol (qs @ Ref n # rs)"
    and "dict_get variables (KStr n) = None" and "last n \<notin> set ''!/''"
  shows "ExpandVariables X (calls_to X (Suc k)) phase variables build_file (HStr (render symbol (qs @ Ref n # rs))) st =
    Some (Inl (GypError (''Undefined variable '' @ n @ '' in '' @ build_file)))"
proof (rule rightmost_error [OF assms(1) _ assms(3,4)])
  show "\<forall>m \<in> refs (qs @ Ref n # rs). name_chars symbol m" using assms(2) name_chars by blast
  from assms(2) have n: "name_ok symbol n" by simp
  from name_unexpanded [OF assms(1) n]
  have call: "call_expand (calls_to X (Suc k)) phase variables build_file (HStr n) st = Some (Inr (XStr n, st))"
    by (simp add: Let_def)
  note step = bindS_step [where m = "call_expand (calls_to X (Suc k)) phase variables build_file (HStr n)" and st = st, OF call]
  have "n \<noteq> []" using n by (simp add: name_ok_def name_chars_def)
  then have undef: "variable_value variables build_file (strip n) = throw (GypError (''Undefined variable '' @ n @ '' in '' @ build_file))"
    using assms(5,6) strip_name [OF n] by (simp add: variable_value_def last_char_def)
  note plain = symbol_plain [OF assms(1)]
  have render: "render symbol (qs @ Ref n # rs) = render symbol qs @ piece_text symbol (Ref n) @ render symbol rs"
    by (simp del: piece_text.simps)
  show "expand_match X (calls_to X (Suc k)) phase variables build_file (render symbol (qs @ Ref n # rs))
      (ref_match symbol (length (render symbol qs)) n) st =
    Some (Inl (GypError (''Undefined variable '' @ n @ '' in '' @ build_file)))"
    unfolding render reference_contents [OF conjunct1 [OF plain] name_chars [OF n] conjunct2 [OF plain]]
      step xval.case undef bindS_simps(2)
    by (simp add: throw_def)
qed

theorem undefined_variable_reported_witness:
  "\<forall>X st. ExpandVariables X (calls_to X 1) PHASE_LATE [] ''a.gyp'' (HStr ''x >(uv)'') st =
    Some (Inl (GypError ''Undefined variable uv in a.gyp''))"
proof (intro allI)
  fix X st
  have "plain_char c" if "c \<in> set ''uv''" for c
    using that by (auto simp: plain_char_def is_opening_def opening_of.simps)
  then have n: "name_ok (CHR ''>'') ''uv''"
    by (simp add: name_ok_def name_chars_def is_space_def IsStrCanonicalInt_code canonical_digits_def is_digit_def)
  from undefined_variable_reported [of PHASE_LATE "CHR ''>''" "[Lit ''x '']" "''uv''" "[]" "[]" X 0 "''a.gyp''" st] n
  show "ExpandVariables X (calls_to X 1) PHASE_LATE [] ''a.gyp'' (HStr ''x >(uv)'') st =
      Some (Inl (GypError ''Undefined variable uv in a.gyp''))" by (simp add: expansion_symbol_def)
qed

text \<open>
  An integer between the parentheses is expanded to an integer, which has no \<open>strip\<close>: the
  call ends with an \<open>AttributeError\<close> that names neither the variable nor the build file,
  even when a variable of this name is defined.
\<close>

theorem integer_reference_fails:
  assumes "expansion_symbol phase = Inr symbol"
  shows "ExpandVariables X (calls_to X (Suc k)) phase variables build_file
      (HStr ([symbol, CHR ''(''] @ show_int i @ [CHR '')''])) st =
    Some (Inl (AttributeError ''int object has no attribute strip''))"
proof -
  let ?n = "show_int i"
  have digits: "\<forall>c \<in> set ?n. is_digit c \<or> c = CHR ''-''"
    using show_nat_digits by (auto simp: show_int_def)
  have "\<not> is_digit symbol" "symbol \<noteq> CHR ''-''"
    using assms by (auto simp: expansion_symbol_def is_digit_def split: if_splits)
  moreover have "plain_char c" if "is_digit c" for c
  proof -
    from that have "c \<notin> set ''([{)]}''" by (auto simp: is_digit_def)
    then show ?thesis by (simp add: plain_char_def is_opening_def opening_of.simps)
  qed
  moreover have "plain_char (CHR ''-'')" by (simp add: plain_char_def is_opening_def opening_of.simps)
  moreover have "\<not> is_space (CHR ''-'')" by (simp add: is_space_def)
  ultimately have "plain_char c \<and> \<not> is_space c \<and> c \<noteq> symbol" if "is_digit c \<or> c = CHR ''-''" for c
    using that digit_not_space by metis
  with digits have n: "name_chars symbol ?n" by (auto simp: name_chars_def show_int_def)
  have "IsStrCanonicalInt (GStr ?n)" using show_int_canonical by (simp add: IsStrCanonicalInt_def)
  then have call: "call_expand (calls_to X (Suc k)) phase variables build_file (HStr ?n) st = Some (Inr (XInt i, st))"
    using assms value_text_facts(3) [of "HStr ?n" ?n st]
    by (simp add: ExpandVariables_def Let_def bindS_step int_text_def parse_show_int) (simp add: give_def)
  note step = bindS_step [where m = "call_expand (calls_to X (Suc k)) phase variables build_file (HStr ?n)" and st = st, OF call]
  have "ExpandVariables X (calls_to X (Suc k)) phase variables build_file (HStr (render symbol ([] @ Ref ?n # []))) st =
    Some (Inl (AttributeError ''int object has no attribute strip''))"
  proof (rule rightmost_error [OF assms])
    note plain = symbol_plain [OF assms]
    have render: "render symbol ([] @ Ref ?n # []) = [] @ piece_text symbol (Ref ?n) @ []" "length (render symbol []) = length ([] :: string)"
      by simp_all
    show "expand_match X (calls_to X (Suc k)) phase variables build_file (render symbol ([] @ Ref ?n # []))
        (ref_match symbol (length (render symbol [])) ?n) st =
      Some (Inl (AttributeError ''int object has no attribute strip''))"
      unfolding render reference_contents [OF conjunct1 [OF plain] n conjunct2 [OF plain]]
        step xval.case
      by (simp add: throw_def)
  qed (use n in simp_all)
  then show ?thesis by simp
qed

theorem integer_reference_fails_witness:
  "\<forall>X st. ExpandVariables X (calls_to X 1) PHASE_EARLY [(KStr ''5'', HStr ''a'')] ''a.gyp'' (HStr ''<(5)'') st =
    Some (Inl (AttributeError ''int object has no attribute strip''))"
proof (intro allI)
  fix X st
  have "show_int 5 = ''5''" by (simp add: show_int_def show_nat.simps digit_char_def char_of_def bit_iff_odd)
  with integer_reference_fails [of PHASE_EARLY "CHR ''<''" X 0 "[(KStr ''5'', HStr ''a'')]" "''a.gyp''" 5 st]
  show "ExpandVariables X (calls_to X 1) PHASE_EARLY [(KStr ''5'', HStr ''a'')] ''a.gyp'' (HStr ''<(5)'') st =
      Some (Inl (AttributeError ''int object has no attribute strip''))" by (simp add: expansion_symbol_def)
qed

end
