(* ===== verification/MSVS_Settings.thy ===== *)
theory MSVS_Settings
  imports Py_Repr
begin

text \<open>
  \<open>tools/gyp/pylib/gyp/MSVSSettings.py\<close>: the types of the settings of the Microsoft build
  tools, the functions that register a setting in the tables of validators and converters,
  and the validation and conversion of settings.  The tables themselves are in
  \<open>MSVS_Tables\<close>.  A bound method of a type object, which the tables hold, is the type it
  belongs to; a \<open>_Translate\<close> closure is the data it closes over.  A \<open>ValueError\<close> is caught
  and becomes a warning; any other exception ends the call.
\<close>

subsection \<open>Hexadecimal texts\<close>

fun show_hex :: "nat \<Rightarrow> string" where
  "show_hex n = (if n < 16 then [hex_digit n] else show_hex (n div 16) @ [hex_digit (n mod 16)])"

declare show_hex.simps [simp del]

text \<open>\<open>'0x%04x' % i\<close>: the width counts the sign.\<close>

definition show_hex4 :: "int \<Rightarrow> string" where
  "show_hex4 i =
     (let sign = (if i < 0 then ''-'' else ''''); digits = show_hex (nat \<bar>i\<bar>) in
      ''0x'' @ sign @ replicate (4 - length (sign @ digits)) (CHR ''0'') @ digits)"

subsection \<open>Macros\<close>

function replace_all :: "string \<Rightarrow> string \<Rightarrow> string \<Rightarrow> string" where
  "replace_all old new s =
     (case s of
        [] \<Rightarrow> []
      | c # cs \<Rightarrow> if old \<noteq> [] \<and> startswith s old then new @ replace_all old new (drop (length old) s)
                 else c # replace_all old new cs)"
  by pat_completeness auto

termination by (relation "measure (\<lambda>(old, new, s). length s)") (auto simp: neq_Nil_conv)

declare replace_all.simps [simp del]

definition is_slash :: "char \<Rightarrow> bool" where
  "is_slash c \<longleftrightarrow> c = CHR ''/'' \<or> c = ch_backslash"

definition slash_macros :: "string list" where
  "slash_macros = [''$(IntDir)'', ''$(OutDir)'']"

lemma length_dropWhile_drop: "length (dropWhile p (drop n s)) \<le> length s"
  using length_dropWhile_le [of p "drop n s"] by simp

text \<open>The substitution of \<open>fix_vc_macro_slashes_regex\<close>: both macros have nine characters.\<close>

function fix_slashes :: "string \<Rightarrow> string" where
  "fix_slashes s =
     (case s of
        [] \<Rightarrow> []
      | c # cs \<Rightarrow> if take 9 s \<in> set slash_macros then take 9 s @ fix_slashes (dropWhile is_slash (drop 9 s))
                 else c # fix_slashes cs)"
  by pat_completeness auto

termination by (relation "measure length") (auto simp: less_Suc_eq_le length_dropWhile_drop)

declare fix_slashes.simps [simp del]

definition FixVCMacroSlashes :: "string \<Rightarrow> string" where
  "FixVCMacroSlashes s = (if CHR ''$'' \<in> set s then fix_slashes s else s)"

definition replace_map :: "(string \<times> string) list" where
  "replace_map =
     [(''$(ConfigurationName)'', ''$(Configuration)''),
      (''$(InputDir)'', ''%(RootDir)%(Directory)''),
      (''$(InputExt)'', ''%(Extension)''),
      (''$(InputFileName)'', ''%(Filename)%(Extension)''),
      (''$(InputName)'', ''%(Filename)''),
      (''$(InputPath)'', ''%(FullPath)''),
      (''$(ParentName)'', ''$(ProjectFileName)''),
      (''$(PlatformName)'', ''$(Platform)''),
      (''$(SafeInputName)'', ''%(Filename)'')]"

fun ConvertVCMacrosToMSBuild :: "gval \<Rightarrow> gval res" where
  "ConvertVCMacrosToMSBuild (GStr s) =
     Inr (GStr (if CHR ''$'' \<in> set s
                then FixVCMacroSlashes (foldl (\<lambda>s (old, new). replace_all old new s) s replace_map) else s))"
| "ConvertVCMacrosToMSBuild (GList l) =
     (if GStr ''$'' \<in> set l then Inl (AttributeError ''list object has no attribute replace'') else Inr (GList l))"
| "ConvertVCMacrosToMSBuild (GDict d) =
     (if has_key d (KStr ''$'') then Inl (AttributeError ''dict object has no attribute replace'') else Inr (GDict d))"
| "ConvertVCMacrosToMSBuild v = Inl (TypeError (''argument of type '' @ class_name v @ '' is not iterable''))"

subsection \<open>Types of settings\<close>

datatype setting_type =
    T_string
  | T_string_list
  | T_boolean
  | T_integer nat
  | T_enumeration "string option list" "string list"

definition label_values :: "string option list \<Rightarrow> string list \<Rightarrow> string list" where
  "label_values label_list new = [the l. l \<leftarrow> label_list, l \<noteq> None] @ new"

definition expected :: "string \<Rightarrow> gval \<Rightarrow> exn" where
  "expected what value = ValueError (''expected '' @ what @ ''; got '' @ py_repr value)"

fun enumeration_label :: "string option list \<Rightarrow> gval \<Rightarrow> gval res" where
  "enumeration_label label_list value =
     bindE (py_int value) (\<lambda>index.
       if index < 0 \<or> int (length label_list) \<le> index
       then Inl (ValueError (''index value ('' @ show_int index @ '') not in expected range [0, '' @
              show_nat (length label_list) @ '')''))
       else case label_list ! nat index of
              None \<Rightarrow> Inl (ValueError (''converted value for '' @ py_str value @ '' not specified.''))
            | Some label \<Rightarrow> Inr (GStr label))"

fun ConvertToMSBuild :: "setting_type \<Rightarrow> gval \<Rightarrow> gval res" where
  "ConvertToMSBuild T_string value = ConvertVCMacrosToMSBuild value"
| "ConvertToMSBuild T_string_list value =
     (case value of
        GList l \<Rightarrow> bindE (mapE ConvertVCMacrosToMSBuild l) (\<lambda>l. Inr (GList l))
      | _ \<Rightarrow> ConvertVCMacrosToMSBuild value)"
| "ConvertToMSBuild T_boolean value =
     (if value \<noteq> GStr ''true'' \<and> value \<noteq> GStr ''false'' then Inl (expected ''bool'' value) else Inr value)"
| "ConvertToMSBuild (T_integer msbuild_base) value =
     bindE (py_int value) (\<lambda>i. Inr (GStr (if msbuild_base = 10 then show_int i else show_hex4 i)))"
| "ConvertToMSBuild (T_enumeration label_list new) value = enumeration_label label_list value"

definition valid_if :: "bool \<Rightarrow> exn \<Rightarrow> unit res" where
  "valid_if b e = (if b then Inr () else Inl e)"

fun ValidateMSVS :: "setting_type \<Rightarrow> gval \<Rightarrow> unit res" where
  "ValidateMSVS T_string value = valid_if (is_str value) (expected ''string'' value)"
| "ValidateMSVS T_string_list value = valid_if (is_str value \<or> is_list value) (expected ''string list'' value)"
| "ValidateMSVS T_boolean value =
     valid_if (value = GStr ''true'' \<or> value = GStr ''false'') (expected ''bool'' value)"
| "ValidateMSVS ty value = bindE (ConvertToMSBuild ty value) (\<lambda>_. Inr ())"

fun ValidateMSBuild :: "setting_type \<Rightarrow> gval \<Rightarrow> unit res" where
  "ValidateMSBuild T_string value = valid_if (is_str value) (expected ''string'' value)"
| "ValidateMSBuild T_string_list value = valid_if (is_str value \<or> is_list value) (expected ''string list'' value)"
| "ValidateMSBuild T_boolean value =
     valid_if (value = GStr ''true'' \<or> value = GStr ''false'') (expected ''bool'' value)"
| "ValidateMSBuild (T_integer msbuild_base) value =
     (case value of
        GStr s \<Rightarrow> valid_if (parse_int msbuild_base s \<noteq> None)
          (ValueError (''invalid literal for int() with base '' @ show_nat msbuild_base @ '': '' @ repr_str s))
      | _ \<Rightarrow> Inl (TypeError ''int() can't convert non-string with explicit base''))"
| "ValidateMSBuild (T_enumeration label_list new) value =
     (if is_list value \<or> is_dict value then Inl (TypeError ''unhashable type'')
      else valid_if (\<exists>v \<in> set (label_values label_list new). value = GStr v)
             (ValueError (''unrecognized enumerated value '' @ py_str value)))"

text \<open>The types the module instantiates.\<close>

abbreviation "boolean \<equiv> T_boolean"
abbreviation "integer \<equiv> T_integer 10"
abbreviation "string_type \<equiv> T_string"
abbreviation "file_name \<equiv> T_string"
abbreviation "folder_name \<equiv> T_string"
abbreviation "file_list \<equiv> T_string_list"
abbreviation "folder_list \<equiv> T_string_list"
abbreviation "string_list \<equiv> T_string_list"

definition labels :: "string list \<Rightarrow> setting_type" where
  "labels label_list = T_enumeration (map Some label_list) []"

definition newly_boolean :: setting_type where
  "newly_boolean = labels ['''', ''false'', ''true'']"

subsection \<open>The tables\<close>

record tool =
  msvs_name :: "char list"
  msbuild_name :: "char list"

text \<open>What a \<open>_Translate\<close> closure does: the names are those of MSBuild.\<close>

datatype translation =
    Into "char list" "char list" setting_type
  | NoTranslation
  | Flag "char list" "char list"
  | PreprocessedFile "char list"

type_synonym 'a by_tool = "(char list \<times> (char list \<times> 'a) list) list"

record settings_tables =
  msvs_validators :: "setting_type by_tool"
  msbuild_validators :: "setting_type by_tool"
  msvs_to_msbuild_converters :: "translation by_tool"
  msbuild_name_of_tool :: "(char list \<times> char list) list"

definition AddTool :: "tool \<Rightarrow> settings_tables \<Rightarrow> settings_tables" where
  "AddTool tool t =
     t\<lparr>msvs_validators := dict_set (msvs_validators t) (msvs_name tool) [],
       msbuild_validators := dict_set (msbuild_validators t) (msbuild_name tool) [],
       msvs_to_msbuild_converters := dict_set (msvs_to_msbuild_converters t) (msvs_name tool) [],
       msbuild_name_of_tool := dict_set (msbuild_name_of_tool t) (msvs_name tool) (msbuild_name tool)\<rparr>"

text \<open>\<open>table[tool][name] = v\<close>.\<close>

definition register :: "'a by_tool \<Rightarrow> char list \<Rightarrow> char list \<Rightarrow> 'a \<Rightarrow> 'a by_tool res" where
  "register table tool name v =
     (case dict_get table tool of
        None \<Rightarrow> Inl (KeyError tool)
      | Some entries \<Rightarrow> Inr (dict_set table tool (dict_set entries name v)))"

definition add_msvs :: "char list \<Rightarrow> char list \<Rightarrow> setting_type \<Rightarrow> settings_tables \<Rightarrow> settings_tables res" where
  "add_msvs tool name ty t = bindE (register (msvs_validators t) tool name ty) (\<lambda>v. Inr (t\<lparr>msvs_validators := v\<rparr>))"

definition add_msbuild :: "char list \<Rightarrow> char list \<Rightarrow> setting_type \<Rightarrow> settings_tables \<Rightarrow> settings_tables res" where
  "add_msbuild tool name ty t =
     bindE (register (msbuild_validators t) tool name ty) (\<lambda>v. Inr (t\<lparr>msbuild_validators := v\<rparr>))"

definition add_converter :: "char list \<Rightarrow> char list \<Rightarrow> translation \<Rightarrow> settings_tables \<Rightarrow> settings_tables res" where
  "add_converter tool name tr t =
     bindE (register (msvs_to_msbuild_converters t) tool name tr) (\<lambda>v. Inr (t\<lparr>msvs_to_msbuild_converters := v\<rparr>))"

definition add_MovedAndRenamed ::
  "tool \<Rightarrow> char list \<Rightarrow> char list \<Rightarrow> char list \<Rightarrow> setting_type \<Rightarrow> settings_tables \<Rightarrow> settings_tables res" where
  "add_MovedAndRenamed tool msvs_settings_name msbuild_tool_name msbuild_settings_name setting_type t =
     bindE (add_msvs (msvs_name tool) msvs_settings_name setting_type t) (\<lambda>t.
     bindE (add_msbuild msbuild_tool_name msbuild_settings_name setting_type t) (\<lambda>t.
       add_converter (msvs_name tool) msvs_settings_name (Into msbuild_tool_name msbuild_settings_name setting_type) t))"

definition add_Moved :: "tool \<Rightarrow> char list \<Rightarrow> char list \<Rightarrow> setting_type \<Rightarrow> settings_tables \<Rightarrow> settings_tables res" where
  "add_Moved tool settings_name msbuild_tool_name setting_type =
     add_MovedAndRenamed tool settings_name msbuild_tool_name settings_name setting_type"

definition add_Renamed :: "tool \<Rightarrow> char list \<Rightarrow> char list \<Rightarrow> setting_type \<Rightarrow> settings_tables \<Rightarrow> settings_tables res" where
  "add_Renamed tool msvs_setting msbuild_setting setting_type t =
     bindE (add_msvs (msvs_name tool) msvs_setting setting_type t) (\<lambda>t.
     bindE (add_msbuild (msbuild_name tool) msbuild_setting setting_type t) (\<lambda>t.
       add_converter (msvs_name tool) msvs_setting (Into (msbuild_name tool) msbuild_setting setting_type) t))"

definition add_Same :: "tool \<Rightarrow> char list \<Rightarrow> setting_type \<Rightarrow> settings_tables \<Rightarrow> settings_tables res" where
  "add_Same tool name setting_type = add_Renamed tool name name setting_type"

definition add_MSVSOnly :: "tool \<Rightarrow> char list \<Rightarrow> setting_type \<Rightarrow> settings_tables \<Rightarrow> settings_tables res" where
  "add_MSVSOnly tool name setting_type t =
     bindE (add_msvs (msvs_name tool) name setting_type t) (\<lambda>t. add_converter (msvs_name tool) name NoTranslation t)"

definition add_MSBuildOnly :: "tool \<Rightarrow> char list \<Rightarrow> setting_type \<Rightarrow> settings_tables \<Rightarrow> settings_tables res" where
  "add_MSBuildOnly tool name setting_type = add_msbuild (msbuild_name tool) name setting_type"

definition add_ConvertedToAdditionalOption ::
  "tool \<Rightarrow> char list \<Rightarrow> char list \<Rightarrow> settings_tables \<Rightarrow> settings_tables res" where
  "add_ConvertedToAdditionalOption tool name flag t =
     bindE (add_msvs (msvs_name tool) name boolean t) (\<lambda>t.
       add_converter (msvs_name tool) name (Flag (msbuild_name tool) flag) t)"

definition add_CustomGeneratePreprocessedFile :: "tool \<Rightarrow> char list \<Rightarrow> settings_tables \<Rightarrow> settings_tables res" where
  "add_CustomGeneratePreprocessedFile tool name t =
     bindE (add_msvs (msvs_name tool) name (labels [''a'', ''b'', ''c'']) t) (\<lambda>t.
     bindE (add_msbuild (msbuild_name tool) ''PreprocessToFile'' boolean t) (\<lambda>t.
     bindE (add_msbuild (msbuild_name tool) ''PreprocessSuppressLineNumbers'' boolean t) (\<lambda>t.
       add_converter (msvs_name tool) name (PreprocessedFile (msbuild_name tool)) t)))"

text \<open>The calls at the top level of the module, as data, and what each of them does.\<close>

datatype registration =
    Same tool "char list" setting_type
  | Renamed tool "char list" "char list" setting_type
  | Moved tool "char list" "char list" setting_type
  | MovedAndRenamed tool "char list" "char list" "char list" setting_type
  | MSVSOnly tool "char list" setting_type
  | MSBuildOnly tool "char list" setting_type
  | ConvertedToAdditionalOption tool "char list" "char list"
  | CustomGeneratePreprocessedFile tool "char list"

fun run_registration :: "registration \<Rightarrow> settings_tables \<Rightarrow> settings_tables res" where
  "run_registration (Same tool name ty) = add_Same tool name ty"
| "run_registration (Renamed tool name new ty) = add_Renamed tool name new ty"
| "run_registration (Moved tool name mtool ty) = add_Moved tool name mtool ty"
| "run_registration (MovedAndRenamed tool name mtool new ty) = add_MovedAndRenamed tool name mtool new ty"
| "run_registration (MSVSOnly tool name ty) = add_MSVSOnly tool name ty"
| "run_registration (MSBuildOnly tool name ty) = add_MSBuildOnly tool name ty"
| "run_registration (ConvertedToAdditionalOption tool name flag) = add_ConvertedToAdditionalOption tool name flag"
| "run_registration (CustomGeneratePreprocessedFile tool name) = add_CustomGeneratePreprocessedFile tool name"

definition run_registrations :: "registration list \<Rightarrow> settings_tables \<Rightarrow> settings_tables res" where
  "run_registrations rs t = foldE (\<lambda>t r. run_registration r t) t rs"

text \<open>
  What a registration adds to each table, keyed by tool and name; a later entry replaces an
  earlier one.
\<close>

type_synonym 'a entries = "((char list \<times> char list) \<times> 'a) list"

fun msvs_effect :: "registration \<Rightarrow> setting_type entries" where
  "msvs_effect (Same tool name ty) = [((msvs_name tool, name), ty)]"
| "msvs_effect (Renamed tool name new ty) = [((msvs_name tool, name), ty)]"
| "msvs_effect (Moved tool name mtool ty) = [((msvs_name tool, name), ty)]"
| "msvs_effect (MovedAndRenamed tool name mtool new ty) = [((msvs_name tool, name), ty)]"
| "msvs_effect (MSVSOnly tool name ty) = [((msvs_name tool, name), ty)]"
| "msvs_effect (MSBuildOnly tool name ty) = []"
| "msvs_effect (ConvertedToAdditionalOption tool name flag) = [((msvs_name tool, name), boolean)]"
| "msvs_effect (CustomGeneratePreprocessedFile tool name) = [((msvs_name tool, name), labels [''a'', ''b'', ''c''])]"

fun msbuild_effect :: "registration \<Rightarrow> setting_type entries" where
  "msbuild_effect (Same tool name ty) = [((msbuild_name tool, name), ty)]"
| "msbuild_effect (Renamed tool name new ty) = [((msbuild_name tool, new), ty)]"
| "msbuild_effect (Moved tool name mtool ty) = [((mtool, name), ty)]"
| "msbuild_effect (MovedAndRenamed tool name mtool new ty) = [((mtool, new), ty)]"
| "msbuild_effect (MSVSOnly tool name ty) = []"
| "msbuild_effect (MSBuildOnly tool name ty) = [((msbuild_name tool, name), ty)]"
| "msbuild_effect (ConvertedToAdditionalOption tool name flag) = []"
| "msbuild_effect (CustomGeneratePreprocessedFile tool name) =
     [((msbuild_name tool, ''PreprocessToFile''), boolean),
      ((msbuild_name tool, ''PreprocessSuppressLineNumbers''), boolean)]"

fun converter_effect :: "registration \<Rightarrow> translation entries" where
  "converter_effect (Same tool name ty) = [((msvs_name tool, name), Into (msbuild_name tool) name ty)]"
| "converter_effect (Renamed tool name new ty) = [((msvs_name tool, name), Into (msbuild_name tool) new ty)]"
| "converter_effect (Moved tool name mtool ty) = [((msvs_name tool, name), Into mtool name ty)]"
| "converter_effect (MovedAndRenamed tool name mtool new ty) = [((msvs_name tool, name), Into mtool new ty)]"
| "converter_effect (MSVSOnly tool name ty) = [((msvs_name tool, name), NoTranslation)]"
| "converter_effect (MSBuildOnly tool name ty) = []"
| "converter_effect (ConvertedToAdditionalOption tool name flag) =
     [((msvs_name tool, name), Flag (msbuild_name tool) flag)]"
| "converter_effect (CustomGeneratePreprocessedFile tool name) =
     [((msvs_name tool, name), PreprocessedFile (msbuild_name tool))]"

definition table_map :: "'a by_tool \<Rightarrow> char list \<times> char list \<Rightarrow> 'a option" where
  "table_map table = (\<lambda>(tool, name). case dict_get table tool of None \<Rightarrow> None | Some e \<Rightarrow> dict_get e name)"

lemma register_map:
  "register table tool name v = Inr table' \<Longrightarrow>
    table_map table' = (table_map table)((tool, name) \<mapsto> v) \<and> (\<forall>x. has_key table' x \<longleftrightarrow> has_key table x)"
  by (auto simp: register_def table_map_def al.lookup_store fun_eq_iff split: option.splits if_splits)

lemma register_total: "has_key table tool \<Longrightarrow> \<exists>table'. register table tool name v = Inr table'"
  by (auto simp: register_def)

definition same_tools :: "settings_tables \<Rightarrow> settings_tables \<Rightarrow> bool" where
  "same_tools t t' \<longleftrightarrow>
     (\<forall>x. (has_key (msvs_validators t') x \<longleftrightarrow> has_key (msvs_validators t) x) \<and>
          (has_key (msbuild_validators t') x \<longleftrightarrow> has_key (msbuild_validators t) x) \<and>
          (has_key (msvs_to_msbuild_converters t') x \<longleftrightarrow> has_key (msvs_to_msbuild_converters t) x))"

definition knows :: "settings_tables \<Rightarrow> registration \<Rightarrow> bool" where
  "knows t r \<longleftrightarrow>
     (\<forall>(k, v) \<in> set (msvs_effect r). has_key (msvs_validators t) (fst k)) \<and>
     (\<forall>(k, v) \<in> set (msbuild_effect r). has_key (msbuild_validators t) (fst k)) \<and>
     (\<forall>(k, v) \<in> set (converter_effect r). has_key (msvs_to_msbuild_converters t) (fst k))"

definition adds :: "settings_tables \<Rightarrow> registration list \<Rightarrow> settings_tables \<Rightarrow> bool" where
  "adds t rs t' \<longleftrightarrow>
     table_map (msvs_validators t') =
       table_map (msvs_validators t) ++ map_of (rev (concat (map msvs_effect rs))) \<and>
     table_map (msbuild_validators t') =
       table_map (msbuild_validators t) ++ map_of (rev (concat (map msbuild_effect rs))) \<and>
     table_map (msvs_to_msbuild_converters t') =
       table_map (msvs_to_msbuild_converters t) ++ map_of (rev (concat (map converter_effect rs))) \<and>
     same_tools t t'"

lemma add_msvs_total:
  assumes "has_key (msvs_validators t) tool"
  obtains t' where "add_msvs tool name ty t = Inr t'"
    "table_map (msvs_validators t') = (table_map (msvs_validators t))((tool, name) \<mapsto> ty)" "same_tools t t'"
    "msbuild_validators t' = msbuild_validators t" "msvs_to_msbuild_converters t' = msvs_to_msbuild_converters t"
proof -
  from register_total [OF assms, of name ty] obtain v where v: "register (msvs_validators t) tool name ty = Inr v" by blast
  then show thesis using register_map [OF v] by (intro that [of "t\<lparr>msvs_validators := v\<rparr>"]) (simp_all add: add_msvs_def same_tools_def)
qed

lemma add_msbuild_total:
  assumes "has_key (msbuild_validators t) tool"
  obtains t' where "add_msbuild tool name ty t = Inr t'"
    "table_map (msbuild_validators t') = (table_map (msbuild_validators t))((tool, name) \<mapsto> ty)" "same_tools t t'"
    "msvs_validators t' = msvs_validators t" "msvs_to_msbuild_converters t' = msvs_to_msbuild_converters t"
proof -
  from register_total [OF assms, of name ty] obtain v where v: "register (msbuild_validators t) tool name ty = Inr v" by blast
  then show thesis using register_map [OF v] by (intro that [of "t\<lparr>msbuild_validators := v\<rparr>"]) (simp_all add: add_msbuild_def same_tools_def)
qed

lemma add_converter_total:
  assumes "has_key (msvs_to_msbuild_converters t) tool"
  obtains t' where "add_converter tool name tr t = Inr t'"
    "table_map (msvs_to_msbuild_converters t') = (table_map (msvs_to_msbuild_converters t))((tool, name) \<mapsto> tr)"
    "same_tools t t'" "msbuild_validators t' = msbuild_validators t" "msvs_validators t' = msvs_validators t"
proof -
  from register_total [OF assms, of name tr] obtain v where
    v: "register (msvs_to_msbuild_converters t) tool name tr = Inr v" by blast
  then show thesis using register_map [OF v] by (intro that [of "t\<lparr>msvs_to_msbuild_converters := v\<rparr>"]) (simp_all add: add_converter_def same_tools_def)
qed

lemma same_tools_trans: "same_tools a b \<Longrightarrow> same_tools b c \<Longrightarrow> same_tools a c"
  by (simp add: same_tools_def)

lemma add_MovedAndRenamed_adds:
  assumes "has_key (msvs_validators t) (msvs_name tool)" and "has_key (msbuild_validators t) mtool"
    and "has_key (msvs_to_msbuild_converters t) (msvs_name tool)"
  shows "\<exists>t'. add_MovedAndRenamed tool name mtool new ty t = Inr t' \<and> adds t [MovedAndRenamed tool name mtool new ty] t'"
proof -
  from add_msvs_total [OF assms(1)] obtain t1 where t1: "add_msvs (msvs_name tool) name ty t = Inr t1"
    "table_map (msvs_validators t1) = (table_map (msvs_validators t))((msvs_name tool, name) \<mapsto> ty)" "same_tools t t1"
    "msbuild_validators t1 = msbuild_validators t" "msvs_to_msbuild_converters t1 = msvs_to_msbuild_converters t" .
  have "has_key (msbuild_validators t1) mtool" using assms(2) t1(4) by simp
  from add_msbuild_total [OF this] obtain t2 where t2: "add_msbuild mtool new ty t1 = Inr t2"
    "table_map (msbuild_validators t2) = (table_map (msbuild_validators t1))((mtool, new) \<mapsto> ty)" "same_tools t1 t2"
    "msvs_validators t2 = msvs_validators t1" "msvs_to_msbuild_converters t2 = msvs_to_msbuild_converters t1" .
  have "has_key (msvs_to_msbuild_converters t2) (msvs_name tool)" using assms(3) t1(5) t2(5) by simp
  from add_converter_total [OF this] obtain t3 where t3: "add_converter (msvs_name tool) name (Into mtool new ty) t2 = Inr t3"
    "table_map (msvs_to_msbuild_converters t3) =
      (table_map (msvs_to_msbuild_converters t2))((msvs_name tool, name) \<mapsto> Into mtool new ty)"
    "same_tools t2 t3" "msbuild_validators t3 = msbuild_validators t2" "msvs_validators t3 = msvs_validators t2" .
  have "same_tools t t3" using t1(3) t2(3) t3(3) same_tools_trans by blast
  with t1 t2 t3 show ?thesis by (intro exI [of _ t3]) (simp add: add_MovedAndRenamed_def adds_def)
qed

lemma add_Renamed_moves: "add_Renamed tool name new ty = add_MovedAndRenamed tool name (msbuild_name tool) new ty"
  by (rule ext) (simp add: add_Renamed_def add_MovedAndRenamed_def)

lemma run_registration_adds:
  assumes "knows t r"
  shows "\<exists>t'. run_registration r t = Inr t' \<and> adds t [r] t'"
proof (cases r)
  case (Same tool name ty)
  with assms add_MovedAndRenamed_adds [of t tool "msbuild_name tool" name name ty] show ?thesis
    by (simp add: knows_def add_Same_def add_Renamed_moves adds_def)
next
  case (Renamed tool name new ty)
  with assms add_MovedAndRenamed_adds [of t tool "msbuild_name tool" name new ty] show ?thesis
    by (simp add: knows_def add_Renamed_moves adds_def)
next
  case (Moved tool name mtool ty)
  with assms add_MovedAndRenamed_adds [of t tool mtool name name ty] show ?thesis
    by (simp add: knows_def add_Moved_def adds_def)
next
  case (MovedAndRenamed tool name mtool new ty)
  with assms add_MovedAndRenamed_adds [of t tool mtool name new ty] show ?thesis by (simp add: knows_def)
next
  case (MSVSOnly tool name ty)
  with assms have k: "has_key (msvs_validators t) (msvs_name tool)" "has_key (msvs_to_msbuild_converters t) (msvs_name tool)"
    by (simp_all add: knows_def)
  from add_msvs_total [OF k(1)] obtain t1 where t1: "add_msvs (msvs_name tool) name ty t = Inr t1"
    "table_map (msvs_validators t1) = (table_map (msvs_validators t))((msvs_name tool, name) \<mapsto> ty)" "same_tools t t1"
    "msbuild_validators t1 = msbuild_validators t" "msvs_to_msbuild_converters t1 = msvs_to_msbuild_converters t" .
  with k(2) have "has_key (msvs_to_msbuild_converters t1) (msvs_name tool)" by simp
  from add_converter_total [OF this] obtain t2 where t2: "add_converter (msvs_name tool) name NoTranslation t1 = Inr t2"
    "table_map (msvs_to_msbuild_converters t2) =
      (table_map (msvs_to_msbuild_converters t1))((msvs_name tool, name) \<mapsto> NoTranslation)"
    "same_tools t1 t2" "msbuild_validators t2 = msbuild_validators t1" "msvs_validators t2 = msvs_validators t1" .
  have "same_tools t t2" using t1(3) t2(3) same_tools_trans by blast
  with t1 t2 MSVSOnly show ?thesis by (intro exI [of _ t2]) (simp add: add_MSVSOnly_def adds_def)
next
  case (MSBuildOnly tool name ty)
  with assms have "has_key (msbuild_validators t) (msbuild_name tool)" by (simp add: knows_def)
  from add_msbuild_total [OF this] obtain t1 where t1: "add_msbuild (msbuild_name tool) name ty t = Inr t1"
    "table_map (msbuild_validators t1) = (table_map (msbuild_validators t))((msbuild_name tool, name) \<mapsto> ty)"
    "same_tools t t1"
    "msvs_validators t1 = msvs_validators t" "msvs_to_msbuild_converters t1 = msvs_to_msbuild_converters t" .
  with MSBuildOnly show ?thesis by (intro exI [of _ t1]) (simp add: add_MSBuildOnly_def adds_def)
next
  case (ConvertedToAdditionalOption tool name flag)
  with assms have k: "has_key (msvs_validators t) (msvs_name tool)" "has_key (msvs_to_msbuild_converters t) (msvs_name tool)"
    by (simp_all add: knows_def)
  from add_msvs_total [OF k(1)] obtain t1 where t1: "add_msvs (msvs_name tool) name boolean t = Inr t1"
    "table_map (msvs_validators t1) = (table_map (msvs_validators t))((msvs_name tool, name) \<mapsto> boolean)" "same_tools t t1"
    "msbuild_validators t1 = msbuild_validators t" "msvs_to_msbuild_converters t1 = msvs_to_msbuild_converters t" .
  with k(2) have "has_key (msvs_to_msbuild_converters t1) (msvs_name tool)" by simp
  from add_converter_total [OF this] obtain t2 where
    t2: "add_converter (msvs_name tool) name (Flag (msbuild_name tool) flag) t1 = Inr t2"
    "table_map (msvs_to_msbuild_converters t2) =
      (table_map (msvs_to_msbuild_converters t1))((msvs_name tool, name) \<mapsto> Flag (msbuild_name tool) flag)"
    "same_tools t1 t2" "msbuild_validators t2 = msbuild_validators t1" "msvs_validators t2 = msvs_validators t1" .
  have "same_tools t t2" using t1(3) t2(3) same_tools_trans by blast
  with t1 t2 ConvertedToAdditionalOption show ?thesis
    by (intro exI [of _ t2]) (simp add: add_ConvertedToAdditionalOption_def adds_def)
next
  case (CustomGeneratePreprocessedFile tool name)
  let ?abc = "labels [''a'', ''b'', ''c'']"
  from CustomGeneratePreprocessedFile assms have k: "has_key (msvs_validators t) (msvs_name tool)"
    "has_key (msbuild_validators t) (msbuild_name tool)" "has_key (msvs_to_msbuild_converters t) (msvs_name tool)"
    by (simp_all add: knows_def)
  from add_msvs_total [OF k(1)] obtain t1 where t1: "add_msvs (msvs_name tool) name ?abc t = Inr t1"
    "table_map (msvs_validators t1) = (table_map (msvs_validators t))((msvs_name tool, name) \<mapsto> ?abc)" "same_tools t t1"
    "msbuild_validators t1 = msbuild_validators t" "msvs_to_msbuild_converters t1 = msvs_to_msbuild_converters t" .
  with k(2) have "has_key (msbuild_validators t1) (msbuild_name tool)" by simp
  from add_msbuild_total [OF this] obtain t2 where t2: "add_msbuild (msbuild_name tool) ''PreprocessToFile'' boolean t1 = Inr t2"
    "table_map (msbuild_validators t2) =
      (table_map (msbuild_validators t1))((msbuild_name tool, ''PreprocessToFile'') \<mapsto> boolean)" "same_tools t1 t2"
    "msvs_validators t2 = msvs_validators t1" "msvs_to_msbuild_converters t2 = msvs_to_msbuild_converters t1" .
  with t1 k(2) have "has_key (msbuild_validators t2) (msbuild_name tool)" by (simp add: same_tools_def)
  from add_msbuild_total [OF this] obtain t3 where
    t3: "add_msbuild (msbuild_name tool) ''PreprocessSuppressLineNumbers'' boolean t2 = Inr t3"
    "table_map (msbuild_validators t3) =
      (table_map (msbuild_validators t2))((msbuild_name tool, ''PreprocessSuppressLineNumbers'') \<mapsto> boolean)"
    "same_tools t2 t3"
    "msvs_validators t3 = msvs_validators t2" "msvs_to_msbuild_converters t3 = msvs_to_msbuild_converters t2" .
  with t1 t2 k(3) have "has_key (msvs_to_msbuild_converters t3) (msvs_name tool)" by simp
  from add_converter_total [OF this] obtain t4 where
    t4: "add_converter (msvs_name tool) name (PreprocessedFile (msbuild_name tool)) t3 = Inr t4"
    "table_map (msvs_to_msbuild_converters t4) =
      (table_map (msvs_to_msbuild_converters t3))((msvs_name tool, name) \<mapsto> PreprocessedFile (msbuild_name tool))"
    "same_tools t3 t4" "msbuild_validators t4 = msbuild_validators t3" "msvs_validators t4 = msvs_validators t3" .
  have "same_tools t t4" using t1(3) t2(3) t3(3) t4(3) same_tools_trans by blast
  with t1 t2 t3 t4 CustomGeneratePreprocessedFile show ?thesis
    by (intro exI [of _ t4]) (simp add: add_CustomGeneratePreprocessedFile_def adds_def)
qed

lemma adds_trans: "adds t [r] t1 \<Longrightarrow> adds t1 rs t2 \<Longrightarrow> adds t (r # rs) t2"
  unfolding adds_def using same_tools_trans by auto

lemma knows_same_tools: "same_tools t t' \<Longrightarrow> knows t' r \<longleftrightarrow> knows t r"
  by (simp add: knows_def same_tools_def)

lemma run_registrations_adds: "\<forall>r \<in> set rs. knows t r \<Longrightarrow> \<exists>t'. run_registrations rs t = Inr t' \<and> adds t rs t'"
proof (induction rs arbitrary: t)
  case Nil
  show ?case by (simp add: run_registrations_def adds_def same_tools_def)
next
  case (Cons r rs)
  then have "knows t r" by simp
  from run_registration_adds [OF this] obtain t1 where t1: "run_registration r t = Inr t1" "adds t [r] t1" by blast
  then have "\<forall>r \<in> set rs. knows t1 r" using Cons.prems knows_same_tools [of t t1] by (simp add: adds_def)
  from Cons.IH [OF this] obtain t2 where "run_registrations rs t1 = Inr t2" "adds t1 rs t2" by blast
  with t1 adds_trans show ?case unfolding run_registrations_def by auto
qed

subsection \<open>Conversion and validation\<close>

type_synonym settings = "gval by_tool"

datatype warning =
    ConversionFailed "char list" "char list" exn
  | UnknownSetting "char list" "char list"
  | UnknownTool "char list"
  | IllegalValue "char list" "char list" exn

definition tool_settings :: "settings \<Rightarrow> char list \<Rightarrow> (char list \<times> gval) list" where
  "tool_settings s tool = (case dict_get s tool of None \<Rightarrow> [] | Some e \<Rightarrow> e)"

text \<open>A translation: the settings it leaves and the exception it raises, if any.\<close>

fun translate :: "translation \<Rightarrow> gval \<Rightarrow> settings \<Rightarrow> settings \<times> exn option" where
  "translate (Into tool name setting_type) value msbuild_settings =
     (let e = tool_settings msbuild_settings tool in
      case ConvertToMSBuild setting_type value of
        Inl err \<Rightarrow> (dict_set msbuild_settings tool e, Some err)
      | Inr v \<Rightarrow> (dict_set msbuild_settings tool (dict_set e name v), None))"
| "translate NoTranslation value msbuild_settings = (msbuild_settings, None)"
| "translate (Flag tool flag) value msbuild_settings =
     (if value = GStr ''true''
      then let e = tool_settings msbuild_settings tool;
               new_flags = (case dict_get e ''AdditionalOptions'' of
                              None \<Rightarrow> flag | Some v \<Rightarrow> py_str v @ '' '' @ flag)
           in (dict_set msbuild_settings tool (dict_set e ''AdditionalOptions'' (GStr new_flags)), None)
      else (msbuild_settings, None))"
| "translate (PreprocessedFile tool) value msbuild_settings =
     (let e = tool_settings msbuild_settings tool;
          put_both = (\<lambda>a b. dict_set msbuild_settings tool
            (dict_set (dict_set e ''PreprocessToFile'' (GStr a)) ''PreprocessSuppressLineNumbers'' (GStr b)))
      in if value = GStr ''0'' then (put_both ''false'' ''false'', None)
         else if value = GStr ''1'' then (put_both ''true'' ''false'', None)
         else if value = GStr ''2'' then (put_both ''true'' ''true'', None)
         else (dict_set msbuild_settings tool e,
               Some (ValueError (''value must be one of [0, 1, 2]; got '' @ py_str value))))"

definition convert_setting ::
  "settings_tables \<Rightarrow> char list \<Rightarrow> settings \<times> warning list \<Rightarrow> char list \<times> gval \<Rightarrow> (settings \<times> warning list) res" where
  "convert_setting T tool st setting =
     (let (msbuild_settings, warnings) = st; (name, value) = setting in
      case dict_get (the (dict_get (msvs_to_msbuild_converters T) tool)) name of
        None \<Rightarrow> Inr (msbuild_settings, warnings @ [UnknownSetting tool name])
      | Some tr \<Rightarrow>
          (case translate tr value msbuild_settings of
             (s, None) \<Rightarrow> Inr (s, warnings)
           | (s, Some (ValueError e)) \<Rightarrow> Inr (s, warnings @ [ConversionFailed tool name (ValueError e)])
           | (s, Some e) \<Rightarrow> Inl e))"

definition convert_tool ::
  "settings_tables \<Rightarrow> settings \<times> warning list \<Rightarrow> char list \<times> (char list \<times> gval) list \<Rightarrow> (settings \<times> warning list) res" where
  "convert_tool T st p =
     (let (tool, entries) = p in
      if has_key (msvs_to_msbuild_converters T) tool then foldE (convert_setting T tool) st entries
      else Inr (fst st, snd st @ [UnknownTool tool]))"

definition ConvertToMSBuildSettings :: "settings_tables \<Rightarrow> settings \<Rightarrow> (settings \<times> warning list) res" where
  "ConvertToMSBuildSettings T msvs_settings = foldE (convert_tool T) ([], []) msvs_settings"

definition validate_setting ::
  "(setting_type \<Rightarrow> gval \<Rightarrow> unit res) \<Rightarrow> setting_type by_tool \<Rightarrow> char list \<Rightarrow> warning list \<Rightarrow> char list \<times> gval \<Rightarrow>
    warning list res" where
  "validate_setting validate validators tool warnings setting =
     (let (name, value) = setting in
      case dict_get (the (dict_get validators tool)) name of
        None \<Rightarrow> Inr (warnings @ [UnknownSetting tool name])
      | Some ty \<Rightarrow>
          (case validate ty value of
             Inr _ \<Rightarrow> Inr warnings
           | Inl (ValueError e) \<Rightarrow> Inr (warnings @ [IllegalValue tool name (ValueError e)])
           | Inl e \<Rightarrow> Inl e))"

definition validate_tool ::
  "(setting_type \<Rightarrow> gval \<Rightarrow> unit res) \<Rightarrow> setting_type by_tool \<Rightarrow> warning list \<Rightarrow>
    char list \<times> (char list \<times> gval) list \<Rightarrow> warning list res" where
  "validate_tool validate validators warnings p =
     (let (tool, entries) = p in
      if has_key validators tool then foldE (validate_setting validate validators tool) warnings entries
      else Inr (warnings @ [UnknownTool tool]))"

definition ValidateSettings ::
  "(setting_type \<Rightarrow> gval \<Rightarrow> unit res) \<Rightarrow> setting_type by_tool \<Rightarrow> settings \<Rightarrow> warning list res" where
  "ValidateSettings validate validators settings = foldE (validate_tool validate validators) [] settings"

definition ValidateMSVSSettings :: "settings_tables \<Rightarrow> settings \<Rightarrow> warning list res" where
  "ValidateMSVSSettings T = ValidateSettings ValidateMSVS (msvs_validators T)"

definition ValidateMSBuildSettings :: "settings_tables \<Rightarrow> settings \<Rightarrow> warning list res" where
  "ValidateMSBuildSettings T = ValidateSettings ValidateMSBuild (msbuild_validators T)"

end
