(* ===== verification/MSVS_Tables.thy ===== *)
theory MSVS_Tables
  imports MSVS_Settings
begin

text \<open>
  The settings \<open>tools/gyp/pylib/gyp/MSVSSettings.py\<close> registers when it is loaded, in the
  order of the file, the tables they make, and what these tables promise: a setting that
  is legal for the older tools is converted to one that is legal for MSBuild.
\<close>

subsection \<open>Tools\<close>

definition compile_tool :: tool where
  "compile_tool = \<lparr>msvs_name = ''VCCLCompilerTool'', msbuild_name = ''ClCompile''\<rparr>"

definition link_tool :: tool where
  "link_tool = \<lparr>msvs_name = ''VCLinkerTool'', msbuild_name = ''Link''\<rparr>"

definition midl_tool :: tool where
  "midl_tool = \<lparr>msvs_name = ''VCMIDLTool'', msbuild_name = ''Midl''\<rparr>"

definition rc_tool :: tool where
  "rc_tool = \<lparr>msvs_name = ''VCResourceCompilerTool'', msbuild_name = ''ResourceCompile''\<rparr>"

definition lib_tool :: tool where
  "lib_tool = \<lparr>msvs_name = ''VCLibrarianTool'', msbuild_name = ''Lib''\<rparr>"

definition manifest_tool :: tool where
  "manifest_tool = \<lparr>msvs_name = ''VCManifestTool'', msbuild_name = ''Manifest''\<rparr>"

definition tool_tables :: settings_tables where
  "tool_tables =
     (let t = foldl (\<lambda>t tool. AddTool tool t)
                \<lparr>msvs_validators = [], msbuild_validators = [], msvs_to_msbuild_converters = [], msbuild_name_of_tool = []\<rparr>
                [compile_tool, link_tool, midl_tool, rc_tool, lib_tool, manifest_tool]
      in t\<lparr>msbuild_validators := foldl (\<lambda>d tool. dict_set d tool []) (msbuild_validators t)
             ['''', ''ProjectReference'', ''ManifestResourceCompile'']\<rparr>)"

subsection \<open>Settings\<close>

definition compile_settings :: "registration list" where
  "compile_settings =
    [Same compile_tool ''AdditionalIncludeDirectories'' folder_list,
     Same compile_tool ''AdditionalOptions'' string_list,
     Same compile_tool ''AdditionalUsingDirectories'' folder_list,
     Same compile_tool ''AssemblerListingLocation'' file_name,
     Same compile_tool ''BrowseInformationFile'' file_name,
     Same compile_tool ''BufferSecurityCheck'' boolean,
     Same compile_tool ''DisableLanguageExtensions'' boolean,
     Same compile_tool ''DisableSpecificWarnings'' string_list,
     Same compile_tool ''EnableFiberSafeOptimizations'' boolean,
     Same compile_tool ''EnablePREfast'' boolean,
     Same compile_tool ''ExpandAttributedSource'' boolean,
     Same compile_tool ''FloatingPointExceptions'' boolean,
     Same compile_tool ''ForceConformanceInForLoopScope'' boolean,
     Same compile_tool ''ForcedIncludeFiles'' file_list,
     Same compile_tool ''ForcedUsingFiles'' file_list,
     Same compile_tool ''GenerateXMLDocumentationFiles'' boolean,
     Same compile_tool ''IgnoreStandardIncludePath'' boolean,
     Same compile_tool ''MinimalRebuild'' boolean,
     Same compile_tool ''OmitDefaultLibName'' boolean,
     Same compile_tool ''OmitFramePointers'' boolean,
     Same compile_tool ''PreprocessorDefinitions'' string_list,
     Same compile_tool ''ProgramDataBaseFileName'' file_name,
     Same compile_tool ''RuntimeTypeInfo'' boolean,
     Same compile_tool ''ShowIncludes'' boolean,
     Same compile_tool ''SmallerTypeCheck'' boolean,
     Same compile_tool ''StringPooling'' boolean,
     Same compile_tool ''SuppressStartupBanner'' boolean,
     Same compile_tool ''TreatWChar_tAsBuiltInType'' boolean,
     Same compile_tool ''UndefineAllPreprocessorDefinitions'' boolean,
     Same compile_tool ''UndefinePreprocessorDefinitions'' string_list,
     Same compile_tool ''UseFullPaths'' boolean,
     Same compile_tool ''WholeProgramOptimization'' boolean,
     Same compile_tool ''XMLDocumentationFileName'' file_name,
     Same compile_tool ''AssemblerOutput'' (labels [''NoListing'', ''AssemblyCode'', ''All'',
       ''AssemblyAndMachineCode'', ''AssemblyAndSourceCode'']),
     Same compile_tool ''BasicRuntimeChecks'' (labels [''Default'', ''StackFrameRuntimeCheck'',
       ''UninitializedLocalUsageCheck'', ''EnableFastChecks'']),
     Same compile_tool ''BrowseInformation'' (labels [''false'', ''true'', ''true'']),
     Same compile_tool ''CallingConvention'' (labels [''Cdecl'', ''FastCall'', ''StdCall'']),
     Same compile_tool ''CompileAs'' (labels [''Default'', ''CompileAsC'', ''CompileAsCpp'']),
     Same compile_tool ''DebugInformationFormat'' (T_enumeration [Some '''', Some ''OldStyle'', None, Some
       ''ProgramDatabase'', Some ''EditAndContinue''] []),
     Same compile_tool ''EnableEnhancedInstructionSet'' (labels [''NotSet'', ''StreamingSIMDExtensions'',
       ''StreamingSIMDExtensions2'']),
     Same compile_tool ''ErrorReporting'' (T_enumeration [Some ''None'', Some ''Prompt'', Some ''Queue'']
       [''Send'']),
     Same compile_tool ''ExceptionHandling'' (T_enumeration [Some ''false'', Some ''Sync'', Some ''Async'']
       [''SyncCThrow'']),
     Same compile_tool ''FavorSizeOrSpeed'' (labels [''Neither'', ''Speed'', ''Size'']),
     Same compile_tool ''FloatingPointModel'' (labels [''Precise'', ''Strict'', ''Fast'']),
     Same compile_tool ''InlineFunctionExpansion'' (T_enumeration [Some ''Default'', Some
       ''OnlyExplicitInline'', Some ''AnySuitable''] [''Disabled'']),
     Same compile_tool ''Optimization'' (labels [''Disabled'', ''MinSpace'', ''MaxSpeed'', ''Full'']),
     Same compile_tool ''RuntimeLibrary'' (labels [''MultiThreaded'', ''MultiThreadedDebug'',
       ''MultiThreadedDLL'', ''MultiThreadedDebugDLL'']),
     Same compile_tool ''StructMemberAlignment'' (labels [''Default'', ''1Byte'', ''2Bytes'', ''4Bytes'',
       ''8Bytes'', ''16Bytes'']),
     Same compile_tool ''WarningLevel'' (T_enumeration [Some ''TurnOffAllWarnings'', Some ''Level1'', Some
       ''Level2'', Some ''Level3'', Some ''Level4''] [''EnableAllWarnings''])]"

definition compile_renamed_settings :: "registration list" where
  "compile_renamed_settings =
    [Renamed compile_tool ''EnableFunctionLevelLinking'' ''FunctionLevelLinking'' boolean,
     Renamed compile_tool ''EnableIntrinsicFunctions'' ''IntrinsicFunctions'' boolean,
     Renamed compile_tool ''KeepComments'' ''PreprocessKeepComments'' boolean,
     Renamed compile_tool ''ObjectFile'' ''ObjectFileName'' file_name,
     Renamed compile_tool ''OpenMP'' ''OpenMPSupport'' boolean,
     Renamed compile_tool ''PrecompiledHeaderThrough'' ''PrecompiledHeaderFile'' file_name,
     Renamed compile_tool ''PrecompiledHeaderFile'' ''PrecompiledHeaderOutputFile'' file_name,
     Renamed compile_tool ''UsePrecompiledHeader'' ''PrecompiledHeader'' (labels [''NotUsing'', ''Create'',
       ''Use'']),
     Renamed compile_tool ''WarnAsError'' ''TreatWarningAsError'' boolean,
     ConvertedToAdditionalOption compile_tool ''DefaultCharIsUnsigned'' ''/J'',
     MSVSOnly compile_tool ''Detect64BitPortabilityProblems'' boolean,
     MSVSOnly compile_tool ''UseUnicodeResponseFiles'' boolean,
     MSBuildOnly compile_tool ''BuildingInIDE'' boolean,
     MSBuildOnly compile_tool ''CompileAsManaged'' (T_enumeration [] [''false'', ''true'', ''Pure'', ''Safe'',
       ''OldSyntax'']),
     MSBuildOnly compile_tool ''CreateHotpatchableImage'' boolean,
     MSBuildOnly compile_tool ''MultiProcessorCompilation'' boolean,
     MSBuildOnly compile_tool ''PreprocessOutputPath'' string_type,
     MSBuildOnly compile_tool ''ProcessorNumber'' integer,
     MSBuildOnly compile_tool ''TrackerLogDirectory'' folder_name,
     MSBuildOnly compile_tool ''TreatSpecificWarningsAsErrors'' string_list,
     MSBuildOnly compile_tool ''UseUnicodeForAssemblerListing'' boolean,
     CustomGeneratePreprocessedFile compile_tool ''GeneratePreprocessedFile'']"

definition subsystem_enumeration :: setting_type where
  "subsystem_enumeration = (T_enumeration [Some ''NotSet'', Some ''Console'', Some ''Windows'', Some ''Native'', Some ''EFI Application'', Some ''EFI Boot Service Driver'', Some ''EFI ROM'', Some ''EFI Runtime'', Some
       ''WindowsCE''] [''POSIX''])"

definition target_machine_enumeration :: setting_type where
  "target_machine_enumeration = (T_enumeration [Some ''NotSet'', Some ''MachineX86'', None, Some ''MachineARM'', Some ''MachineEBC'',
       Some ''MachineIA64'', None, Some ''MachineMIPS'', Some ''MachineMIPS16'', Some ''MachineMIPSFPU'', Some
       ''MachineMIPSFPU16'', None, None, None, Some ''MachineSH4'', None, Some ''MachineTHUMB'', Some
       ''MachineX64''] [])"

definition link_settings :: "registration list" where
  "link_settings =
    [Same link_tool ''AdditionalDependencies'' file_list,
     Same link_tool ''AdditionalLibraryDirectories'' folder_list,
     Same link_tool ''AdditionalManifestDependencies'' file_list,
     Same link_tool ''AdditionalOptions'' string_list,
     Same link_tool ''AddModuleNamesToAssembly'' file_list,
     Same link_tool ''AllowIsolation'' boolean,
     Same link_tool ''AssemblyLinkResource'' file_list,
     Same link_tool ''BaseAddress'' string_type,
     Same link_tool ''CLRUnmanagedCodeCheck'' boolean,
     Same link_tool ''DelayLoadDLLs'' file_list,
     Same link_tool ''DelaySign'' boolean,
     Same link_tool ''EmbedManagedResourceFile'' file_list,
     Same link_tool ''EnableUAC'' boolean,
     Same link_tool ''EntryPointSymbol'' string_type,
     Same link_tool ''ForceSymbolReferences'' file_list,
     Same link_tool ''FunctionOrder'' file_name,
     Same link_tool ''GenerateDebugInformation'' boolean,
     Same link_tool ''GenerateMapFile'' boolean,
     Same link_tool ''HeapCommitSize'' string_type,
     Same link_tool ''HeapReserveSize'' string_type,
     Same link_tool ''IgnoreAllDefaultLibraries'' boolean,
     Same link_tool ''IgnoreEmbeddedIDL'' boolean,
     Same link_tool ''ImportLibrary'' file_name,
     Same link_tool ''KeyContainer'' file_name,
     Same link_tool ''KeyFile'' file_name,
     Same link_tool ''ManifestFile'' file_name,
     Same link_tool ''MapExports'' boolean,
     Same link_tool ''MapFileName'' file_name,
     Same link_tool ''MergedIDLBaseFileName'' file_name,
     Same link_tool ''MergeSections'' string_type,
     Same link_tool ''MidlCommandFile'' file_name,
     Same link_tool ''ModuleDefinitionFile'' file_name,
     Same link_tool ''OutputFile'' file_name,
     Same link_tool ''PerUserRedirection'' boolean,
     Same link_tool ''Profile'' boolean,
     Same link_tool ''ProfileGuidedDatabase'' file_name,
     Same link_tool ''ProgramDatabaseFile'' file_name,
     Same link_tool ''RegisterOutput'' boolean,
     Same link_tool ''SetChecksum'' boolean,
     Same link_tool ''StackCommitSize'' string_type,
     Same link_tool ''StackReserveSize'' string_type,
     Same link_tool ''StripPrivateSymbols'' file_name,
     Same link_tool ''SupportUnloadOfDelayLoadedDLL'' boolean,
     Same link_tool ''SuppressStartupBanner'' boolean,
     Same link_tool ''SwapRunFromCD'' boolean,
     Same link_tool ''TurnOffAssemblyGeneration'' boolean,
     Same link_tool ''TypeLibraryFile'' file_name,
     Same link_tool ''TypeLibraryResourceID'' integer,
     Same link_tool ''UACUIAccess'' boolean,
     Same link_tool ''Version'' string_type,
     Same link_tool ''EnableCOMDATFolding'' newly_boolean,
     Same link_tool ''FixedBaseAddress'' newly_boolean,
     Same link_tool ''LargeAddressAware'' newly_boolean,
     Same link_tool ''OptimizeReferences'' newly_boolean,
     Same link_tool ''RandomizedBaseAddress'' newly_boolean,
     Same link_tool ''TerminalServerAware'' newly_boolean,
     Same link_tool ''AssemblyDebug'' (labels ['''', ''true'', ''false'']),
     Same link_tool ''CLRImageType'' (labels [''Default'', ''ForceIJWImage'', ''ForcePureILImage'',
       ''ForceSafeILImage'']),
     Same link_tool ''CLRThreadAttribute'' (labels [''DefaultThreadingAttribute'', ''MTAThreadingAttribute'',
       ''STAThreadingAttribute'']),
     Same link_tool ''DataExecutionPrevention'' (labels ['''', ''false'', ''true'']),
     Same link_tool ''Driver'' (labels [''NotSet'', ''Driver'', ''UpOnly'', ''WDM'']),
     Same link_tool ''LinkTimeCodeGeneration'' (labels [''Default'', ''UseLinkTimeCodeGeneration'',
       ''PGInstrument'', ''PGOptimization'', ''PGUpdate'']),
     Same link_tool ''ShowProgress'' (T_enumeration [Some ''NotSet'', Some ''LinkVerbose'', Some
       ''LinkVerboseLib''] [''LinkVerboseICF'', ''LinkVerboseREF'', ''LinkVerboseSAFESEH'', ''LinkVerboseCLR'']),
     Same link_tool ''SubSystem'' subsystem_enumeration,
     Same link_tool ''TargetMachine'' target_machine_enumeration,
     Same link_tool ''UACExecutionLevel'' (labels [''AsInvoker'', ''HighestAvailable'',
       ''RequireAdministrator''])]"

definition link_renamed_settings :: "registration list" where
  "link_renamed_settings =
    [Renamed link_tool ''ErrorReporting'' ''LinkErrorReporting'' (T_enumeration [Some ''NoErrorReport'', Some
       ''PromptImmediately'', Some ''QueueForNextLogin''] [''SendErrorReport'']),
     Renamed link_tool ''IgnoreDefaultLibraryNames'' ''IgnoreSpecificDefaultLibraries'' file_list,
     Renamed link_tool ''ResourceOnlyDLL'' ''NoEntryPoint'' boolean,
     Renamed link_tool ''SwapRunFromNet'' ''SwapRunFromNET'' boolean,
     Moved link_tool ''GenerateManifest'' '''' boolean,
     Moved link_tool ''IgnoreImportLibrary'' '''' boolean,
     Moved link_tool ''LinkIncremental'' '''' newly_boolean,
     Moved link_tool ''LinkLibraryDependencies'' ''ProjectReference'' boolean,
     Moved link_tool ''UseLibraryDependencyInputs'' ''ProjectReference'' boolean,
     MSVSOnly link_tool ''OptimizeForWindows98'' newly_boolean,
     MSVSOnly link_tool ''UseUnicodeResponseFiles'' boolean,
     MSVSOnly link_tool ''AdditionalLibraryDirectories_excluded'' folder_list,
     MSBuildOnly link_tool ''BuildingInIDE'' boolean,
     MSBuildOnly link_tool ''ImageHasSafeExceptionHandlers'' boolean,
     MSBuildOnly link_tool ''LinkDLL'' boolean,
     MSBuildOnly link_tool ''LinkStatus'' boolean,
     MSBuildOnly link_tool ''PreventDllBinding'' boolean,
     MSBuildOnly link_tool ''SupportNobindOfDelayLoadedDLL'' boolean,
     MSBuildOnly link_tool ''TrackerLogDirectory'' folder_name,
     MSBuildOnly link_tool ''TreatLinkerWarningAsErrors'' boolean,
     MSBuildOnly link_tool ''MinimumRequiredVersion'' string_type,
     MSBuildOnly link_tool ''MSDOSStubFileName'' file_name,
     MSBuildOnly link_tool ''SectionAlignment'' integer,
     MSBuildOnly link_tool ''SpecifySectionAttributes'' string_type,
     MSBuildOnly link_tool ''ForceFileOutput'' (T_enumeration [] [''Enabled'', ''MultiplyDefinedSymbolOnly'',
       ''UndefinedSymbolOnly'']),
     MSBuildOnly link_tool ''CreateHotPatchableImage'' (T_enumeration [] [''Enabled'', ''X86Image'',
       ''X64Image'', ''ItaniumImage'']),
     MSBuildOnly link_tool ''CLRSupportLastError'' (T_enumeration [] [''Enabled'', ''Disabled'',
       ''SystemDlls''])]"

definition rc_settings :: "registration list" where
  "rc_settings =
    [Same rc_tool ''AdditionalOptions'' string_list,
     Same rc_tool ''AdditionalIncludeDirectories'' folder_list,
     Same rc_tool ''Culture'' (T_integer 16),
     Same rc_tool ''IgnoreStandardIncludePath'' boolean,
     Same rc_tool ''PreprocessorDefinitions'' string_list,
     Same rc_tool ''ResourceOutputFileName'' string_type,
     Same rc_tool ''ShowProgress'' boolean,
     Same rc_tool ''SuppressStartupBanner'' boolean,
     Same rc_tool ''UndefinePreprocessorDefinitions'' string_list,
     MSBuildOnly rc_tool ''NullTerminateStrings'' boolean,
     MSBuildOnly rc_tool ''TrackerLogDirectory'' folder_name]"

definition midl_settings :: "registration list" where
  "midl_settings =
    [Same midl_tool ''AdditionalIncludeDirectories'' folder_list,
     Same midl_tool ''AdditionalOptions'' string_list,
     Same midl_tool ''CPreprocessOptions'' string_type,
     Same midl_tool ''ErrorCheckAllocations'' boolean,
     Same midl_tool ''ErrorCheckBounds'' boolean,
     Same midl_tool ''ErrorCheckEnumRange'' boolean,
     Same midl_tool ''ErrorCheckRefPointers'' boolean,
     Same midl_tool ''ErrorCheckStubData'' boolean,
     Same midl_tool ''GenerateStublessProxies'' boolean,
     Same midl_tool ''GenerateTypeLibrary'' boolean,
     Same midl_tool ''HeaderFileName'' file_name,
     Same midl_tool ''IgnoreStandardIncludePath'' boolean,
     Same midl_tool ''InterfaceIdentifierFileName'' file_name,
     Same midl_tool ''MkTypLibCompatible'' boolean,
     Same midl_tool ''OutputDirectory'' string_type,
     Same midl_tool ''PreprocessorDefinitions'' string_list,
     Same midl_tool ''ProxyFileName'' file_name,
     Same midl_tool ''RedirectOutputAndErrors'' file_name,
     Same midl_tool ''SuppressStartupBanner'' boolean,
     Same midl_tool ''TypeLibraryName'' file_name,
     Same midl_tool ''UndefinePreprocessorDefinitions'' string_list,
     Same midl_tool ''WarnAsError'' boolean,
     Same midl_tool ''DefaultCharType'' (labels [''Unsigned'', ''Signed'', ''Ascii'']),
     Same midl_tool ''TargetEnvironment'' (labels [''NotSet'', ''Win32'', ''Itanium'', ''X64'']),
     Same midl_tool ''EnableErrorChecks'' (labels [''EnableCustom'', ''None'', ''All'']),
     Same midl_tool ''StructMemberAlignment'' (labels [''NotSet'', ''1'', ''2'', ''4'', ''8'']),
     Same midl_tool ''WarningLevel'' (labels [''0'', ''1'', ''2'', ''3'', ''4'']),
     Renamed midl_tool ''DLLDataFileName'' ''DllDataFileName'' file_name,
     Renamed midl_tool ''ValidateParameters'' ''ValidateAllParameters'' boolean,
     MSBuildOnly midl_tool ''ApplicationConfigurationMode'' boolean,
     MSBuildOnly midl_tool ''ClientStubFile'' file_name,
     MSBuildOnly midl_tool ''GenerateClientFiles'' (T_enumeration [] [''Stub'', ''None'']),
     MSBuildOnly midl_tool ''GenerateServerFiles'' (T_enumeration [] [''Stub'', ''None'']),
     MSBuildOnly midl_tool ''LocaleID'' integer,
     MSBuildOnly midl_tool ''ServerStubFile'' file_name,
     MSBuildOnly midl_tool ''SuppressCompilerWarnings'' boolean,
     MSBuildOnly midl_tool ''TrackerLogDirectory'' folder_name,
     MSBuildOnly midl_tool ''TypeLibFormat'' (T_enumeration [] [''NewFormat'', ''OldFormat''])]"

definition lib_settings :: "registration list" where
  "lib_settings =
    [Same lib_tool ''AdditionalDependencies'' file_list,
     Same lib_tool ''AdditionalLibraryDirectories'' folder_list,
     Same lib_tool ''AdditionalOptions'' string_list,
     Same lib_tool ''ExportNamedFunctions'' string_list,
     Same lib_tool ''ForceSymbolReferences'' string_type,
     Same lib_tool ''IgnoreAllDefaultLibraries'' boolean,
     Same lib_tool ''IgnoreSpecificDefaultLibraries'' file_list,
     Same lib_tool ''ModuleDefinitionFile'' file_name,
     Same lib_tool ''OutputFile'' file_name,
     Same lib_tool ''SuppressStartupBanner'' boolean,
     Same lib_tool ''UseUnicodeResponseFiles'' boolean,
     Same lib_tool ''LinkTimeCodeGeneration'' boolean,
     Moved lib_tool ''LinkLibraryDependencies'' ''ProjectReference'' boolean,
     MSVSOnly lib_tool ''AdditionalLibraryDirectories_excluded'' folder_list,
     MSBuildOnly lib_tool ''DisplayLibrary'' string_type,
     MSBuildOnly lib_tool ''ErrorReporting'' (T_enumeration [] [''PromptImmediately'', ''QueueForNextLogin'',
       ''SendErrorReport'', ''NoErrorReport'']),
     MSBuildOnly lib_tool ''MinimumRequiredVersion'' string_type,
     MSBuildOnly lib_tool ''Name'' file_name,
     MSBuildOnly lib_tool ''RemoveObjects'' file_list,
     MSBuildOnly lib_tool ''SubSystem'' subsystem_enumeration,
     MSBuildOnly lib_tool ''TargetMachine'' target_machine_enumeration,
     MSBuildOnly lib_tool ''TrackerLogDirectory'' folder_name,
     MSBuildOnly lib_tool ''TreatLibWarningAsErrors'' boolean,
     MSBuildOnly lib_tool ''Verbose'' boolean]"

definition manifest_settings :: "registration list" where
  "manifest_settings =
    [Same manifest_tool ''AdditionalManifestFiles'' file_list,
     Same manifest_tool ''AdditionalOptions'' string_list,
     Same manifest_tool ''AssemblyIdentity'' string_type,
     Same manifest_tool ''ComponentFileName'' file_name,
     Same manifest_tool ''GenerateCatalogFiles'' boolean,
     Same manifest_tool ''InputResourceManifests'' string_type,
     Same manifest_tool ''OutputManifestFile'' file_name,
     Same manifest_tool ''RegistrarScriptFile'' file_name,
     Same manifest_tool ''ReplacementsFile'' file_name,
     Same manifest_tool ''SuppressStartupBanner'' boolean,
     Same manifest_tool ''TypeLibraryFile'' file_name,
     Same manifest_tool ''UpdateFileHashes'' boolean,
     Same manifest_tool ''UpdateFileHashesSearchPath'' file_name,
     Same manifest_tool ''VerboseOutput'' boolean,
     MovedAndRenamed manifest_tool ''ManifestResourceFile'' ''ManifestResourceCompile''
       ''ResourceOutputFileName'' file_name,
     Moved manifest_tool ''EmbedManifest'' '''' boolean,
     MSVSOnly manifest_tool ''DependencyInformationFile'' file_name,
     MSVSOnly manifest_tool ''UseFAT32Workaround'' boolean,
     MSVSOnly manifest_tool ''UseUnicodeResponseFiles'' boolean,
     MSBuildOnly manifest_tool ''EnableDPIAwareness'' boolean,
     MSBuildOnly manifest_tool ''GenerateCategoryTags'' boolean,
     MSBuildOnly manifest_tool ''ManifestFromManagedAssembly'' file_name,
     MSBuildOnly manifest_tool ''OutputResourceManifests'' string_type,
     MSBuildOnly manifest_tool ''SuppressDependencyElement'' boolean,
     MSBuildOnly manifest_tool ''TrackerLogDirectory'' folder_name]"

definition registrations :: "registration list" where
  "registrations =
     compile_settings @ compile_renamed_settings @ link_settings @ link_renamed_settings @ rc_settings @
     midl_settings @ lib_settings @ manifest_settings"

definition loaded_tables :: "settings_tables res" where
  "loaded_tables = run_registrations registrations tool_tables"

subsection \<open>The entries of the tables\<close>

text \<open>
  No two registrations give one MSBuild setting two types.  Within the sections of a tool
  the names differ; across tools only the sections \<open>ProjectReference\<close> and \<open>''\<close> are shared.
\<close>

definition entries :: "(registration \<Rightarrow> 'a entries) \<Rightarrow> registration list \<Rightarrow> 'a entries" where
  "entries effect rs = concat (map effect rs)"

definition consistent :: "'a entries \<Rightarrow> bool" where
  "consistent es \<longleftrightarrow> (\<forall>k v w. (k, v) \<in> set es \<longrightarrow> (k, w) \<in> set es \<longrightarrow> v = w)"

text \<open>A number for each name, so that names are told apart by comparing numbers.\<close>

fun name_number :: "char list \<Rightarrow> nat" where
  "name_number [] = 0"
| "name_number (c # cs) = of_char c + 5 * name_number cs"

definition name_numbers :: "setting_type entries \<Rightarrow> nat list" where
  "name_numbers es = map (\<lambda>((t, n), v). name_number n) es"

text \<open>Entries of some tools, and single entries of other sections.\<close>

type_synonym cover = "char list list \<times> setting_type entries"

definition key_covers :: "cover \<Rightarrow> setting_type entries \<Rightarrow> bool" where
  "key_covers A es \<longleftrightarrow> (\<forall>(k, v) \<in> set es. if fst k \<in> set (fst A) then True else (k, v) \<in> set (snd A))"

definition compatible :: "cover \<Rightarrow> cover \<Rightarrow> bool" where
  "compatible A B \<longleftrightarrow> set (fst A) \<inter> set (fst B) = {} \<and>
     (\<forall>(k, v) \<in> set (snd A). fst k \<notin> set (fst B) \<and> (\<forall>(j, w) \<in> set (snd B). k = j \<longrightarrow> v = w)) \<and>
     (\<forall>(k, v) \<in> set (snd B). fst k \<notin> set (fst A))"

definition both :: "cover \<Rightarrow> cover \<Rightarrow> cover" where
  "both A B = (fst A @ fst B, snd A @ snd B)"

lemma distinct_consistent: "distinct (name_numbers es) \<Longrightarrow> consistent es"
proof (induction es)
  case (Cons e es)
  obtain t n v where e: "e = ((t, n), v)" by (metis prod.collapse)
  have other: "(k, w) \<notin> set es" if "snd k = n" for k w
  proof
    assume "(k, w) \<in> set es"
    then have "(\<lambda>((t, n), v). name_number n) (k, w) \<in> set (name_numbers es)"
      unfolding name_numbers_def set_map by (rule imageI)
    then have "name_number (snd k) \<in> set (name_numbers es)" by (cases k) simp
    with Cons.prems that show False by (simp add: e name_numbers_def)
  qed
  from Cons have "consistent es" by (simp add: name_numbers_def)
  then show ?case
    unfolding consistent_def
  proof (intro allI impI)
    fix k u w assume c: "\<forall>k v w. (k, v) \<in> set es \<longrightarrow> (k, w) \<in> set es \<longrightarrow> v = w"
      and u: "(k, u) \<in> set (e # es)" and w: "(k, w) \<in> set (e # es)"
    show "u = w"
    proof (cases "k = (t, n)")
      case True
      with u w other [of k] e show ?thesis by auto
    next
      case False
      with u w e have "(k, u) \<in> set es" "(k, w) \<in> set es" by auto
      with c show ?thesis by blast
    qed
  qed
qed (simp add: consistent_def)

lemma covers_append: "key_covers A xs \<Longrightarrow> key_covers B ys \<Longrightarrow> key_covers (both A B) (xs @ ys)"
  by (auto simp: key_covers_def both_def split: if_splits)

lemma consistent_append:
  assumes "consistent xs" and "consistent ys" and "key_covers A xs" and "key_covers B ys" and "compatible A B"
  shows "consistent (xs @ ys)"
proof -
  have cross: "v = w" if "(k, v) \<in> set xs" "(k, w) \<in> set ys" for k v w
  proof -
    note in_A = bspec [OF assms(3) [unfolded key_covers_def] that(1)] and in_B = bspec [OF assms(4) [unfolded key_covers_def] that(2)]
    have a: "fst k \<in> set (fst A) \<or> (k, v) \<in> set (snd A)" using in_A by (simp split: if_split_asm)
    have b: "fst k \<in> set (fst B) \<or> (k, w) \<in> set (snd B)" using in_B by (simp split: if_split_asm)
    have disj: "fst k \<notin> set (fst A) \<or> fst k \<notin> set (fst B)" using assms(5) unfolding compatible_def by blast
    show ?thesis
    proof (cases "fst k \<in> set (fst A) \<or> fst k \<in> set (fst B)")
      case True
      then show ?thesis
      proof
        assume "fst k \<in> set (fst A)"
        with b disj have "(k, w) \<in> set (snd B)" by blast
        with assms(5) have "fst k \<notin> set (fst A)" unfolding compatible_def by (auto dest: bspec)
        with \<open>fst k \<in> set (fst A)\<close> show ?thesis by simp
      next
        assume "fst k \<in> set (fst B)"
        with a disj have "(k, v) \<in> set (snd A)" by blast
        with assms(5) have "fst k \<notin> set (fst B)" unfolding compatible_def by (auto dest: bspec)
        with \<open>fst k \<in> set (fst B)\<close> show ?thesis by simp
      qed
    next
      case False
      with a b have m: "(k, v) \<in> set (snd A)" "(k, w) \<in> set (snd B)" by blast+
      from assms(5) have "\<forall>(k, v) \<in> set (snd A). \<forall>(j, w) \<in> set (snd B). k = j \<longrightarrow> v = w"
        unfolding compatible_def by auto
      from bspec [OF this m(1), simplified, rule_format, OF m(2)] show ?thesis by simp
    qed
  qed
  show ?thesis
    unfolding consistent_def
  proof (intro allI impI)
    fix k v w assume "(k, v) \<in> set (xs @ ys)" "(k, w) \<in> set (xs @ ys)"
    then consider "(k, v) \<in> set xs" "(k, w) \<in> set xs" | "(k, v) \<in> set ys" "(k, w) \<in> set ys"
      | "(k, v) \<in> set xs" "(k, w) \<in> set ys" | "(k, v) \<in> set ys" "(k, w) \<in> set xs" by auto
    then show "v = w"
    proof cases
      case 1
      with assms(1) show ?thesis unfolding consistent_def by blast
    next
      case 2
      with assms(2) show ?thesis unfolding consistent_def by blast
    qed (use cross in blast)+
  qed
qed

definition compile_cover :: cover where "compile_cover = ([msbuild_name compile_tool], [])"
definition link_cover :: cover where
  "link_cover = ([msbuild_name link_tool],
     [(('''', ''GenerateManifest''), boolean), (('''', ''IgnoreImportLibrary''), boolean),
      (('''', ''LinkIncremental''), newly_boolean),
      ((''ProjectReference'', ''LinkLibraryDependencies''), boolean),
      ((''ProjectReference'', ''UseLibraryDependencyInputs''), boolean)])"
definition rc_cover :: cover where "rc_cover = ([msbuild_name rc_tool], [])"
definition midl_cover :: cover where "midl_cover = ([msbuild_name midl_tool], [])"
definition lib_cover :: cover where
  "lib_cover = ([msbuild_name lib_tool], [((''ProjectReference'', ''LinkLibraryDependencies''), boolean)])"
definition manifest_cover :: cover where
  "manifest_cover = ([msbuild_name manifest_tool],
     [((''ManifestResourceCompile'', ''ResourceOutputFileName''), file_name), (('''', ''EmbedManifest''), boolean)])"

lemma covers_compatible:
  "compatible compile_cover link_cover"
  "compatible (both compile_cover link_cover) rc_cover"
  "compatible (both (both compile_cover link_cover) rc_cover) midl_cover"
  "compatible (both (both (both compile_cover link_cover) rc_cover) midl_cover) lib_cover"
  "compatible (both (both (both (both compile_cover link_cover) rc_cover) midl_cover) lib_cover) manifest_cover"
  by code_simp+

lemmas section_simps = entries_def compile_settings_def compile_renamed_settings_def link_settings_def
  link_renamed_settings_def rc_settings_def midl_settings_def lib_settings_def manifest_settings_def

lemmas tool_defs = compile_tool_def link_tool_def rc_tool_def midl_tool_def lib_tool_def manifest_tool_def

lemma compile_covered: "key_covers compile_cover (entries msbuild_effect (compile_settings @ compile_renamed_settings))"
  by (simp add: key_covers_def compile_cover_def section_simps)

lemma link_covered: "key_covers link_cover (entries msbuild_effect (link_settings @ link_renamed_settings))"
  by (simp add: key_covers_def link_cover_def section_simps tool_defs)

lemma other_covered:
  "key_covers rc_cover (entries msbuild_effect rc_settings)"
  "key_covers midl_cover (entries msbuild_effect midl_settings)"
  "key_covers lib_cover (entries msbuild_effect lib_settings)"
  "key_covers manifest_cover (entries msbuild_effect manifest_settings)"
  by (simp_all add: key_covers_def rc_cover_def midl_cover_def lib_cover_def manifest_cover_def section_simps tool_defs)

lemma compile_names: "distinct (name_numbers (entries msbuild_effect (compile_settings @ compile_renamed_settings)))"
  by (simp add: name_numbers_def section_simps)

lemma link_names: "distinct (name_numbers (entries msbuild_effect (link_settings @ link_renamed_settings)))"
  by (simp add: name_numbers_def section_simps)

lemma other_names:
  "distinct (name_numbers (entries msbuild_effect rc_settings))"
  "distinct (name_numbers (entries msbuild_effect midl_settings))"
  "distinct (name_numbers (entries msbuild_effect lib_settings))"
  "distinct (name_numbers (entries msbuild_effect manifest_settings))"
  by (simp_all add: name_numbers_def section_simps)

lemma entries_append: "entries f (xs @ ys) = entries f xs @ entries f ys"
  by (simp add: entries_def)

lemma msbuild_consistent: "consistent (entries msbuild_effect registrations)"
proof -
  note cons = compile_names [THEN distinct_consistent] link_names [THEN distinct_consistent]
    other_names [THEN distinct_consistent]
  note c = compile_covered link_covered other_covered
  note k = covers_compatible
  note c1 = covers_append [OF c(1,2)]
  note c2 = covers_append [OF c1 c(3)]
  note c3 = covers_append [OF c2 c(4)]
  note c4 = covers_append [OF c3 c(5)]
  note 1 = consistent_append [OF cons(1,2) c(1,2) k(1)]
  note 2 = consistent_append [OF 1 cons(3) c1 c(3) k(2)]
  note 3 = consistent_append [OF 2 cons(4) c2 c(4) k(3)]
  note 4 = consistent_append [OF 3 cons(5) c3 c(5) k(4)]
  note 5 = consistent_append [OF 4 cons(6) c4 c(6) k(5)]
  then show ?thesis unfolding registrations_def entries_append append_assoc .
qed

subsection \<open>What the tables promise\<close>

definition base_ok :: "setting_type \<Rightarrow> bool" where
  "base_ok ty = (case ty of T_integer b \<Rightarrow> b = 10 \<or> b = 16 | _ \<Rightarrow> True)"

text \<open>
  A converter of a setting is backed by validators on both sides: of the same type where the
  value is carried over.
\<close>

fun translation_ok :: "settings_tables \<Rightarrow> char list \<times> char list \<Rightarrow> translation \<Rightarrow> bool" where
  "translation_ok T k (Into mtool mname ty) \<longleftrightarrow>
     table_map (msbuild_validators T) (mtool, mname) = Some ty \<and>
     table_map (msvs_validators T) k = Some ty \<and> base_ok ty"
| "translation_ok T k NoTranslation \<longleftrightarrow> table_map (msvs_validators T) k \<noteq> None"
| "translation_ok T k (Flag mtool flag) \<longleftrightarrow>
     table_map (msbuild_validators T) (mtool, ''AdditionalOptions'') = Some string_list \<and>
     table_map (msvs_validators T) k = Some boolean"
| "translation_ok T k (PreprocessedFile mtool) \<longleftrightarrow>
     table_map (msbuild_validators T) (mtool, ''PreprocessToFile'') = Some boolean \<and>
     table_map (msbuild_validators T) (mtool, ''PreprocessSuppressLineNumbers'') = Some boolean \<and>
     table_map (msvs_validators T) k = Some (labels [''a'', ''b'', ''c''])"

definition tables_ok :: "settings_tables \<Rightarrow> bool" where
  "tables_ok T \<longleftrightarrow>
     (\<forall>k tr. table_map (msvs_to_msbuild_converters T) k = Some tr \<longrightarrow> translation_ok T k tr) \<and>
     (\<forall>k. table_map (msvs_to_msbuild_converters T) k = None \<longrightarrow> table_map (msvs_validators T) k = None) \<and>
     (\<forall>tool. has_key (msvs_to_msbuild_converters T) tool \<longleftrightarrow> has_key (msvs_validators T) tool)"

definition msvs_tools :: "char list list" where
  "msvs_tools = map msvs_name [compile_tool, link_tool, midl_tool, rc_tool, lib_tool, manifest_tool]"

definition msbuild_tools :: "char list list" where
  "msbuild_tools = map msbuild_name [compile_tool, link_tool, midl_tool, rc_tool, lib_tool, manifest_tool] @
     ['''', ''ProjectReference'', ''ManifestResourceCompile'']"

lemma tools_known:
  "list_all (has_key (msvs_validators tool_tables)) msvs_tools"
  "list_all (has_key (msvs_to_msbuild_converters tool_tables)) msvs_tools"
  "list_all (has_key (msbuild_validators tool_tables)) msbuild_tools"
  by code_simp+

text \<open>What is checked of each registration: its tools, its type, and where a flag goes.\<close>

definition registration_ok :: "registration \<Rightarrow> bool" where
  "registration_ok r \<longleftrightarrow>
     list_all (\<lambda>(k, ty). fst k \<in> set msvs_tools \<and> base_ok ty) (msvs_effect r) \<and>
     list_all (\<lambda>(k, ty). fst k \<in> set msbuild_tools) (msbuild_effect r) \<and>
     (case r of ConvertedToAdditionalOption tool n f \<Rightarrow> tool = compile_tool | _ \<Rightarrow> True)"

lemma sections_ok:
  "list_all registration_ok compile_settings" "list_all registration_ok compile_renamed_settings"
  "list_all registration_ok link_settings" "list_all registration_ok link_renamed_settings"
  "list_all registration_ok rc_settings" "list_all registration_ok midl_settings"
  "list_all registration_ok lib_settings" "list_all registration_ok manifest_settings"
  by code_simp+

lemma registrations_ok: "r \<in> set registrations \<Longrightarrow> registration_ok r"
  using sections_ok unfolding registrations_def list_all_iff set_append by blast

lemma converter_keys: "map fst (converter_effect r) = map fst (msvs_effect r)"
  by (cases r) simp_all

lemma all_known: "\<forall>r \<in> set registrations. knows tool_tables r"
proof
  fix r assume "r \<in> set registrations"
  note ok = registrations_ok [OF this, unfolded registration_ok_def list_all_iff]
  have "has_key (msvs_validators tool_tables) (fst k)" if "(k, v) \<in> set (msvs_effect r)" for k v
    using bspec [OF conjunct1 [OF ok] that] tools_known(1) by (simp add: list_all_iff)
  moreover have "has_key (msbuild_validators tool_tables) (fst k)" if "(k, v) \<in> set (msbuild_effect r)" for k v
    using bspec [OF conjunct1 [OF conjunct2 [OF ok]] that] tools_known(3) by (simp add: list_all_iff)
  moreover have "has_key (msvs_to_msbuild_converters tool_tables) (fst k)" if c: "(k, v) \<in> set (converter_effect r)" for k v
  proof -
    from c have "k \<in> set (map fst (converter_effect r))" by force
    then obtain w where "(k, w) \<in> set (msvs_effect r)" unfolding converter_keys by auto
    from bspec [OF conjunct1 [OF ok] this] tools_known(2) show ?thesis by (simp add: list_all_iff)
  qed
  ultimately show "knows tool_tables r" unfolding knows_def by blast
qed

lemma same_tools_known: "has_key (msvs_to_msbuild_converters tool_tables) t \<longleftrightarrow> has_key (msvs_validators tool_tables) t"
  by (simp add: tool_tables_def AddTool_def Let_def al.lookup_store)

lemma table_map_empty: "list_all (\<lambda>(t, e). e = []) tb \<Longrightarrow> table_map tb = Map.empty"
proof (rule ext)
  fix k assume a: "list_all (\<lambda>(t, e). e = []) tb"
  show "table_map tb k = None"
  proof (cases "dict_get tb (fst k)")
    case (Some e)
    from bspec [OF a [unfolded list_all_iff] dict_get_Some_in [OF Some]] Some show ?thesis
      by (simp add: table_map_def split_def dict_get_def)
  qed (simp add: table_map_def split_def)
qed

lemma no_entries_yet:
  "list_all (\<lambda>(t, e). e = []) (msvs_validators tool_tables)"
  "list_all (\<lambda>(t, e). e = []) (msbuild_validators tool_tables)"
  "list_all (\<lambda>(t, e). e = []) (msvs_to_msbuild_converters tool_tables)"
  by code_simp+

lemma compile_options:
  "((msbuild_name compile_tool, ''AdditionalOptions''), string_list) \<in> set (entries msbuild_effect registrations)"
proof -
  have "Same compile_tool ''AdditionalOptions'' string_list \<in> set compile_settings"
    unfolding compile_settings_def by (rule list.set_intros(2), rule list.set_intros(1))
  then have "Same compile_tool ''AdditionalOptions'' string_list \<in> set registrations" by (simp add: registrations_def)
  then show ?thesis unfolding entries_def by force
qed

text \<open>The last registration of a setting decides its validator and its converter together.\<close>

lemma last_registration:
  "(map_of (rev (entries converter_effect rs)) k = None \<and> map_of (rev (entries msvs_effect rs)) k = None) \<or>
   (\<exists>r \<in> set rs. \<exists>tr ty. converter_effect r = [(k, tr)] \<and> msvs_effect r = [(k, ty)] \<and>
      map_of (rev (entries converter_effect rs)) k = Some tr \<and> map_of (rev (entries msvs_effect rs)) k = Some ty)"
proof (induction rs rule: rev_induct)
  case (snoc r rs)
  consider "converter_effect r = []" "msvs_effect r = []"
    | j tr ty where "converter_effect r = [(j, tr)]" "msvs_effect r = [(j, ty)]" by (cases r) simp_all
  then show ?case
  proof cases
    case 1
    with snoc.IH show ?thesis by (auto simp: entries_def)
  next
    case (2 j tr ty)
    with snoc.IH show ?thesis by (cases "j = k") (auto simp: entries_def)
  qed
qed (simp add: entries_def)

lemma consistent_lookup: "consistent es \<Longrightarrow> (k, v) \<in> set es \<Longrightarrow> map_of (rev es) k = Some v"
proof -
  assume c: "consistent es" and m: "(k, v) \<in> set es"
  from imageI [OF m, of fst] have "k \<in> fst ` set (rev es)" by simp
  then have "map_of (rev es) k \<noteq> None" by (simp add: map_of_eq_None_iff)
  then obtain w where w: "map_of (rev es) k = Some w" by blast
  then have "(k, w) \<in> set es" by (auto dest: map_of_SomeD)
  with c m w show ?thesis unfolding consistent_def by blast
qed

lemma loaded_maps:
  assumes "loaded_tables = Inr T"
  shows "table_map (msvs_to_msbuild_converters T) = map_of (rev (entries converter_effect registrations))"
    and "table_map (msvs_validators T) = map_of (rev (entries msvs_effect registrations))"
    and "table_map (msbuild_validators T) = map_of (rev (entries msbuild_effect registrations))"
    and "same_tools tool_tables T"
proof -
  from run_registrations_adds [OF all_known] assms have "adds tool_tables registrations T"
    unfolding loaded_tables_def by auto
  then show "table_map (msvs_to_msbuild_converters T) = map_of (rev (entries converter_effect registrations))"
    "table_map (msvs_validators T) = map_of (rev (entries msvs_effect registrations))"
    "table_map (msbuild_validators T) = map_of (rev (entries msbuild_effect registrations))"
    "same_tools tool_tables T"
    unfolding adds_def entries_def [symmetric] no_entries_yet [THEN table_map_empty] by simp_all
qed

lemma loaded: "\<exists>T. loaded_tables = Inr T \<and> tables_ok T"
proof -
  from run_registrations_adds [OF all_known] obtain T where T: "loaded_tables = Inr T"
    unfolding loaded_tables_def by blast
  note conv = loaded_maps(1) [OF T] and msvs = loaded_maps(2) [OF T] and msb = loaded_maps(3) [OF T]
  have lookup: "table_map (msbuild_validators T) k = Some ty" if "(k, ty) \<in> set (entries msbuild_effect registrations)" for k ty
    unfolding msb by (rule consistent_lookup [OF msbuild_consistent that])
  have ok: "translation_ok T k tr" if k: "table_map (msvs_to_msbuild_converters T) k = Some tr" for k tr
  proof -
    from last_registration [of registrations k] k obtain r ty where r: "r \<in> set registrations"
      "converter_effect r = [(k, tr)]" "msvs_effect r = [(k, ty)]" "table_map (msvs_validators T) k = Some ty"
      unfolding conv msvs by auto
    have in_entries: "e \<in> set (entries msbuild_effect registrations)" if "e \<in> set (msbuild_effect r)" for e
      using r(1) that unfolding entries_def by auto
    from registrations_ok [OF r(1)] r(3) have base: "base_ok ty" by (simp add: registration_ok_def)
    show ?thesis
    proof (cases r)
      case (ConvertedToAdditionalOption tool name flag)
      with registrations_ok [OF r(1)] have "tool = compile_tool" by (simp add: registration_ok_def)
      with ConvertedToAdditionalOption r lookup [OF compile_options] show ?thesis by auto
    qed (use r base lookup in_entries in auto)
  qed
  moreover have "table_map (msvs_validators T) k = None" if "table_map (msvs_to_msbuild_converters T) k = None" for k
    using last_registration [of registrations k] that unfolding conv msvs by auto
  moreover have "has_key (msvs_to_msbuild_converters T) t \<longleftrightarrow> has_key (msvs_validators T) t" for t
    using loaded_maps(4) [OF T] same_tools_known [of t] unfolding same_tools_def by simp
  ultimately show ?thesis using T unfolding tables_ok_def by blast
qed

end
