(* ===== verification/MSVS_Convert.thy ===== *)
theory MSVS_Convert
  imports MSVS_Tables
begin

text \<open>
  The contract of the conversion in \<open>tools/gyp/pylib/gyp/MSVSSettings.py\<close>: settings that
  \<open>ValidateMSVSSettings\<close> accepts are converted by \<open>ConvertToMSBuildSettings\<close> without a
  warning to settings that \<open>ValidateMSBuildSettings\<close> accepts, up to the values that the
  validators let through and the converters do not.  The lemmas hold for every tables that
  satisfy \<open>tables_ok\<close>, which the loaded ones do.
\<close>

subsection \<open>Integers are read back\<close>

lemma read_digits_show_hex: "read_digits 16 0 (show_hex n) = Some n"
proof (induction n rule: show_hex.induct)
  case (1 n)
  then show ?case
    by (subst show_hex.simps) (auto simp: read_digits_append hex_digit_facts)
qed

lemma show_hex_not_Nil [simp]: "show_hex n \<noteq> []"
  by (subst show_hex.simps) simp

lemma show_hex_no_space: "c \<in> set (show_hex n) \<Longrightarrow> \<not> is_space c"
proof (induction n rule: show_hex.induct)
  case (1 n)
  from 1(2) show ?case
    by (subst (asm) show_hex.simps) (auto simp: hex_digit_facts dest: 1(1) split: if_splits)
qed

lemma read_digits_zeros: "read_digits 16 0 (replicate k (CHR ''0'') @ s) = read_digits 16 0 s"
proof -
  have "digit_value (CHR ''0'') = Some 0" by (simp add: digit_value_def is_digit_def char_digit_def)
  then show ?thesis by (induction k) simp_all
qed

lemma parse_show_hex4: "0 \<le> i \<Longrightarrow> parse_int 16 (show_hex4 i) = Some i"
proof -
  assume i: "0 \<le> i"
  let ?digits = "replicate (4 - length (show_hex (nat i))) (CHR ''0'') @ show_hex (nat i)"
  have s: "show_hex4 i = CHR ''0'' # CHR ''x'' # ?digits" using i by (simp add: show_hex4_def Let_def)
  have "\<forall>c \<in> set (show_hex4 i). \<not> is_space c"
    unfolding s using show_hex_no_space by (auto simp: is_space_def)
  then have "strip (show_hex4 i) = show_hex4 i" by (rule strip_no_space)
  then show ?thesis
    unfolding parse_int_def s
    using i by (simp add: read_unsigned_def startswith_def read_digits_zeros read_digits_show_hex)
qed

subsection \<open>One value\<close>

text \<open>
  What a converter asks of a value beyond what the validator checks: the items of a list are
  strings, a number that is printed in base 16 is not negative, and the choice of a
  preprocessed file is written with one digit.
\<close>

fun plain_value :: "translation \<Rightarrow> gval \<Rightarrow> bool" where
  "plain_value (Into tool name (T_string_list)) v \<longleftrightarrow> (\<forall>l. v = GList l \<longrightarrow> (\<forall>x \<in> set l. is_str x))"
| "plain_value (Into tool name (T_integer b)) v \<longleftrightarrow> b = 10 \<or> (\<forall>i. py_int v = Inr i \<longrightarrow> 0 \<le> i)"
| "plain_value (PreprocessedFile tool) v \<longleftrightarrow> v = GStr ''0'' \<or> v = GStr ''1'' \<or> v = GStr ''2''"
| "plain_value _ v \<longleftrightarrow> True"

lemma macros_of_strings: "\<forall>x \<in> set l. is_str x \<Longrightarrow> \<exists>l'. mapE ConvertVCMacrosToMSBuild l = Inr l'"
proof (induction l)
  case (Cons x l)
  then obtain s l' where "x = GStr s" "mapE ConvertVCMacrosToMSBuild l = Inr l'" by (cases x) auto
  then show ?case by simp
qed simp

lemma valid_if_Inr [simp]: "valid_if b e = Inr () \<longleftrightarrow> b"
  by (simp add: valid_if_def)

lemma enumeration_label_valid:
  "enumeration_label label_list v = Inr w \<Longrightarrow> ValidateMSBuild (T_enumeration label_list new) w = Inr ()"
proof -
  assume "enumeration_label label_list v = Inr w"
  then obtain i label where i: "\<not> i < 0" "\<not> int (length label_list) \<le> i"
    and "label_list ! nat i = Some label" "w = GStr label"
    by (auto simp: bindE_Inr_iff split: if_splits option.splits)
  moreover from i have "nat i < length label_list" by linarith
  ultimately have "nat i < length label_list" "label_list ! nat i = Some label" "w = GStr label" by blast+
  then have "Some label \<in> set label_list" using nth_mem by fastforce
  then have "label \<in> set (label_values label_list new)" unfolding label_values_def by force
  with \<open>w = GStr label\<close> show ?thesis by simp
qed

lemma convert_valid:
  assumes "ValidateMSVS ty v = Inr ()" and "plain_value (Into tool name ty) v" and "base_ok ty"
  shows "\<exists>w. ConvertToMSBuild ty v = Inr w \<and> ValidateMSBuild ty w = Inr ()"
proof (cases ty)
  case T_string
  with assms(1) show ?thesis by (cases v) simp_all
next
  case T_string_list
  with assms(1) consider s where "v = GStr s" | l where "v = GList l" by (cases v) simp_all
  then show ?thesis
  proof cases
    case 2
    with T_string_list assms(2) macros_of_strings [of l] show ?thesis by auto
  qed (simp add: T_string_list)
next
  case T_boolean
  with assms(1) show ?thesis by auto
next
  case (T_integer b)
  with assms(1) obtain i where i: "py_int v = Inr i" by (auto simp: bindE_Inr_iff)
  show ?thesis
  proof (cases "b = 10")
    case True
    with T_integer i parse_show_int show ?thesis by simp
  next
    case False
    with assms(2,3) T_integer i have "b = 16" "0 \<le> i" by (simp_all add: base_ok_def)
    with T_integer i parse_show_hex4 show ?thesis by simp
  qed
next
  case (T_enumeration label_list new)
  with assms(1) obtain w where "enumeration_label label_list v = Inr w" by (auto simp: bindE_Inr_iff simp del: enumeration_label.simps)
  with T_enumeration enumeration_label_valid show ?thesis by (simp del: enumeration_label.simps ValidateMSBuild.simps)
qed

subsection \<open>Validation without warnings\<close>

definition good_entry ::
  "(setting_type \<Rightarrow> gval \<Rightarrow> unit res) \<Rightarrow> setting_type by_tool \<Rightarrow> char list \<Rightarrow> char list \<times> gval \<Rightarrow> bool" where
  "good_entry validate vs tool p \<longleftrightarrow> (\<exists>ty. table_map vs (tool, fst p) = Some ty \<and> validate ty (snd p) = Inr ())"

definition good_tool ::
  "(setting_type \<Rightarrow> gval \<Rightarrow> unit res) \<Rightarrow> setting_type by_tool \<Rightarrow> char list \<times> (char list \<times> gval) list \<Rightarrow> bool" where
  "good_tool validate vs p \<longleftrightarrow> has_key vs (fst p) \<and> (\<forall>s \<in> set (snd p). good_entry validate vs (fst p) s)"

lemma foldE_silent:
  assumes "\<And>ws x ws'. f ws x = Inr ws' \<Longrightarrow> \<exists>zs. ws' = ws @ zs"
    and "\<And>ws x. f ws x = Inr ws \<longleftrightarrow> good x"
  shows "(\<forall>ws'. foldE f ws xs = Inr ws' \<longrightarrow> (\<exists>zs. ws' = ws @ zs)) \<and> (foldE f ws xs = Inr ws \<longleftrightarrow> (\<forall>x \<in> set xs. good x))"
proof (induction xs arbitrary: ws)
  case (Cons x xs)
  show ?case
  proof (cases "f ws x")
    case (Inl e)
    with assms(2) [of ws x] show ?thesis by auto
  next
    case (Inr ws1)
    with assms(1) obtain zs where zs: "ws1 = ws @ zs" by blast
    from Cons.IH [of ws1] have grow: "\<exists>us. ws' = ws1 @ us" if "foldE f ws1 xs = Inr ws'" for ws' using that by blast
    show ?thesis
    proof (cases "zs = []")
      case True
      with Inr zs Cons.IH [of ws] assms(2) [of ws x] show ?thesis by simp
    next
      case False
      then have "foldE f ws1 xs \<noteq> Inr ws" using grow [of ws] zs by auto
      moreover have "\<not> good x" using assms(2) [of ws x] Inr zs False by simp
      ultimately show ?thesis using Inr zs grow by auto
    qed
  qed
qed simp

lemma validate_setting_silent:
  assumes "has_key vs tool"
  shows "validate_setting validate vs tool ws p = Inr ws' \<Longrightarrow> \<exists>zs. ws' = ws @ zs"
    and "validate_setting validate vs tool ws p = Inr ws \<longleftrightarrow> good_entry validate vs tool p"
  using assms
  by (auto simp: validate_setting_def good_entry_def table_map_def split_def
      split: option.splits sum.splits exn.splits prod.splits)

lemma validate_tool_silent:
  "(\<forall>ws'. validate_tool validate vs ws p = Inr ws' \<longrightarrow> (\<exists>zs. ws' = ws @ zs)) \<and>
   (validate_tool validate vs ws p = Inr ws \<longleftrightarrow> good_tool validate vs p)"
proof (cases "has_key vs (fst p)")
  case True
  have "(\<forall>ws'. foldE (validate_setting validate vs (fst p)) ws (snd p) = Inr ws' \<longrightarrow> (\<exists>zs. ws' = ws @ zs)) \<and>
    (foldE (validate_setting validate vs (fst p)) ws (snd p) = Inr ws \<longleftrightarrow>
      (\<forall>x \<in> set (snd p). good_entry validate vs (fst p) x))"
    by (rule foldE_silent) (use validate_setting_silent [OF True] in blast)+
  with True show ?thesis by (simp add: validate_tool_def good_tool_def split_def)
qed (auto simp: validate_tool_def good_tool_def split_def)

lemma ValidateSettings_silent:
  "ValidateSettings validate vs S = Inr [] \<longleftrightarrow> (\<forall>p \<in> set S. good_tool validate vs p)"
proof -
  have "(\<forall>ws'. foldE (validate_tool validate vs) [] S = Inr ws' \<longrightarrow> (\<exists>zs. ws' = [] @ zs)) \<and>
    (foldE (validate_tool validate vs) [] S = Inr [] \<longleftrightarrow> (\<forall>p \<in> set S. good_tool validate vs p))"
    by (rule foldE_silent) (use validate_tool_silent in blast)+
  then show ?thesis by (simp add: ValidateSettings_def)
qed

subsection \<open>Conversion keeps settings legal\<close>

definition legal :: "settings_tables \<Rightarrow> settings \<Rightarrow> bool" where
  "legal T mb \<longleftrightarrow> (\<forall>p \<in> set mb. good_tool ValidateMSBuild (msbuild_validators T) p)"

lemma set_dict_set: "set (dict_set d k v) \<subseteq> insert (k, v) (set d)"
  by (induction d) (auto simp: dict_set_def)

lemma table_map_tool: "table_map tb (tool, name) = Some v \<Longrightarrow> has_key tb tool"
  by (auto simp: table_map_def split: option.splits)

lemma legal_put:
  assumes "legal T mb" and "\<forall>(name, v) \<in> set news. \<exists>ty. table_map (msbuild_validators T) (tool, name) = Some ty \<and>
      ValidateMSBuild ty v = Inr ()"
    and "has_key (msbuild_validators T) tool"
    and "set e \<subseteq> set news \<union> set (tool_settings mb tool)"
  shows "legal T (dict_set mb tool e)"
proof -
  have old: "\<forall>s \<in> set (tool_settings mb tool). good_entry ValidateMSBuild (msbuild_validators T) tool s"
  proof (cases "dict_get mb tool")
    case (Some x)
    then have "good_tool ValidateMSBuild (msbuild_validators T) (tool, x)"
      using assms(1) dict_get_Some_in [OF Some] unfolding legal_def by blast
    with Some show ?thesis by (simp add: tool_settings_def good_tool_def)
  qed (simp add: tool_settings_def)
  have new: "\<forall>s \<in> set news. good_entry ValidateMSBuild (msbuild_validators T) tool s"
    using assms(2) by (auto simp: good_entry_def)
  have "good_tool ValidateMSBuild (msbuild_validators T) (tool, e)"
    using old new assms(3,4) unfolding good_tool_def by auto
  then show ?thesis using assms(1) set_dict_set [of mb tool e] unfolding legal_def by blast
qed

lemma translate_legal:
  assumes T: "tables_ok T" and k: "table_map (msvs_to_msbuild_converters T) (tool, name) = Some tr"
    and v: "table_map (msvs_validators T) (tool, name) = Some ty" "ValidateMSVS ty v = Inr ()" "plain_value tr v"
    and mb: "legal T mb"
  shows "\<exists>mb'. translate tr v mb = (mb', None) \<and> legal T mb'"
proof -
  have ok: "translation_ok T (tool, name) tr" using T k unfolding tables_ok_def by blast
  show ?thesis
  proof (cases tr)
    case (Into mtool mname uy)
    with ok v(1) have uy: "uy = ty" "table_map (msbuild_validators T) (mtool, mname) = Some ty" "base_ok ty" by simp_all
    from convert_valid [OF v(2) _ uy(3), of mtool mname] v(3) Into uy(1) obtain w where
      w: "ConvertToMSBuild ty v = Inr w" "ValidateMSBuild ty w = Inr ()" by auto
    have "legal T (dict_set mb mtool (dict_set (tool_settings mb mtool) mname w))"
      by (rule legal_put [OF mb, of "[(mname, w)]"])
        (use uy(2) w(2) table_map_tool [OF uy(2)] set_dict_set [of "tool_settings mb mtool" mname w] in auto)
    with Into uy(1) w(1) show ?thesis by (simp add: Let_def)
  next
    case NoTranslation
    with mb show ?thesis by simp
  next
    case (Flag mtool flag)
    with ok have m: "table_map (msbuild_validators T) (mtool, ''AdditionalOptions'') = Some string_list" by simp
    have "legal T (dict_set mb mtool (dict_set (tool_settings mb mtool) ''AdditionalOptions'' (GStr s)))" for s
      by (rule legal_put [OF mb, of "[(''AdditionalOptions'', GStr s)]"])
        (use m table_map_tool [OF m] set_dict_set [of "tool_settings mb mtool" "''AdditionalOptions''" "GStr s"] in auto)
    with Flag mb show ?thesis by (simp add: Let_def)
  next
    case (PreprocessedFile mtool)
    let ?P = "''PreprocessToFile''" and ?N = "''PreprocessSuppressLineNumbers''"
    from PreprocessedFile ok have m: "table_map (msbuild_validators T) (mtool, ?P) = Some boolean"
      "table_map (msbuild_validators T) (mtool, ?N) = Some boolean" by simp_all
    have "legal T (dict_set mb mtool (dict_set (dict_set (tool_settings mb mtool) ?P (GStr a)) ?N (GStr b)))"
      if "a = ''true'' \<or> a = ''false''" "b = ''true'' \<or> b = ''false''" for a b
    proof (rule legal_put [OF mb, of "[(?P, GStr a), (?N, GStr b)]"])
      show "has_key (msbuild_validators T) mtool" by (rule table_map_tool [OF m(1)])
      show "set (dict_set (dict_set (tool_settings mb mtool) ?P (GStr a)) ?N (GStr b)) \<subseteq>
          set [(?P, GStr a), (?N, GStr b)] \<union> set (tool_settings mb mtool)"
        using set_dict_set [of "dict_set (tool_settings mb mtool) ?P (GStr a)" ?N "GStr b"]
          set_dict_set [of "tool_settings mb mtool" ?P "GStr a"] by auto
    qed (use m that in auto)
    with PreprocessedFile v(3) show ?thesis by (auto simp: Let_def)
  qed
qed

lemma convert_tool_legal:
  assumes T: "tables_ok T" and p: "good_tool ValidateMSVS (msvs_validators T) p"
    and plain: "\<forall>(name, v) \<in> set (snd p). \<forall>tr. table_map (msvs_to_msbuild_converters T) (fst p, name) = Some tr \<longrightarrow>
      plain_value tr v"
    and mb: "legal T mb"
  shows "\<exists>mb'. convert_tool T (mb, ws) p = Inr (mb', ws) \<and> legal T mb'"
proof -
  have h: "has_key (msvs_to_msbuild_converters T) (fst p)"
    using T p unfolding tables_ok_def good_tool_def by blast
  have loop: "\<exists>mb'. foldE (convert_setting T (fst p)) (mb, ws) es = Inr (mb', ws) \<and> legal T mb'"
    if "set es \<subseteq> set (snd p)" "legal T mb" for es mb
    using that
  proof (induction es arbitrary: mb)
    case (Cons s es)
    obtain name v where s: "s = (name, v)" by (cases s)
    from Cons.prems(1) s have m: "(name, v) \<in> set (snd p)" by simp
    with p obtain ty where ty: "table_map (msvs_validators T) (fst p, name) = Some ty" "ValidateMSVS ty v = Inr ()"
      unfolding good_tool_def good_entry_def by fastforce
    with T obtain tr where tr: "table_map (msvs_to_msbuild_converters T) (fst p, name) = Some tr"
      unfolding tables_ok_def by fastforce
    with plain m have "plain_value tr v" by blast
    from translate_legal [OF T tr ty this Cons.prems(2)] obtain mb1 where
      mb1: "translate tr v mb = (mb1, None)" "legal T mb1" by blast
    have "dict_get (the (dict_get (msvs_to_msbuild_converters T) (fst p))) name = Some tr"
      using tr h by (auto simp: table_map_def split: option.splits)
    with s mb1(1) have "convert_setting T (fst p) (mb, ws) s = Inr (mb1, ws)" by (simp add: convert_setting_def)
    with Cons.IH [of mb1] Cons.prems(1) mb1(2) show ?case by simp
  qed simp
  from loop [OF subset_refl mb] h show ?thesis by (simp add: convert_tool_def split_def)
qed

lemma convert_all_legal:
  assumes "tables_ok T" and "\<forall>p \<in> set S. good_tool ValidateMSVS (msvs_validators T) p"
    and "\<forall>(tool, e) \<in> set S. \<forall>(name, v) \<in> set e. \<forall>tr.
      table_map (msvs_to_msbuild_converters T) (tool, name) = Some tr \<longrightarrow> plain_value tr v"
    and "legal T mb"
  shows "\<exists>mb'. foldE (convert_tool T) (mb, ws) S = Inr (mb', ws) \<and> legal T mb'"
  using assms(2-4)
proof (induction S arbitrary: mb)
  case (Cons p S)
  from Cons.prems(2) have "\<forall>(name, v) \<in> set (snd p). \<forall>tr.
      table_map (msvs_to_msbuild_converters T) (fst p, name) = Some tr \<longrightarrow> plain_value tr v"
    by (auto simp: split_def)
  from convert_tool_legal [OF assms(1) _ this Cons.prems(3)] Cons.prems(1) obtain mb1 where
    mb1: "convert_tool T (mb, ws) p = Inr (mb1, ws)" "legal T mb1" by auto
  with Cons.IH [of mb1] Cons.prems show ?case by simp
qed simp

text \<open>
  (C26) The tables load, and with them every set of settings that validates for the older tools
  without a warning, and whose values are plain, is converted without a warning to settings
  that validate for MSBuild without a warning.
\<close>

theorem ConvertToMSBuildSettings_legal:
  "\<exists>T. loaded_tables = Inr T \<and>
     (\<forall>S. ValidateMSVSSettings T S = Inr [] \<and>
          (\<forall>(tool, e) \<in> set S. \<forall>(name, v) \<in> set e. \<forall>tr.
             table_map (msvs_to_msbuild_converters T) (tool, name) = Some tr \<longrightarrow> plain_value tr v) \<longrightarrow>
          (\<exists>mb. ConvertToMSBuildSettings T S = Inr (mb, []) \<and> ValidateMSBuildSettings T mb = Inr []))"
proof -
  from loaded obtain T where T: "loaded_tables = Inr T" "tables_ok T" by blast
  have "\<exists>mb. ConvertToMSBuildSettings T S = Inr (mb, []) \<and> ValidateMSBuildSettings T mb = Inr []"
    if "ValidateMSVSSettings T S = Inr []"
      "\<forall>(tool, e) \<in> set S. \<forall>(name, v) \<in> set e. \<forall>tr.
         table_map (msvs_to_msbuild_converters T) (tool, name) = Some tr \<longrightarrow> plain_value tr v" for S
  proof -
    have "\<forall>p \<in> set S. good_tool ValidateMSVS (msvs_validators T) p"
      using that(1) by (simp add: ValidateMSVSSettings_def ValidateSettings_silent)
    from convert_all_legal [OF T(2) this that(2), of "[]" "[]"] show ?thesis
      by (auto simp: ConvertToMSBuildSettings_def ValidateMSBuildSettings_def ValidateSettings_silent legal_def)
  qed
  with T(1) show ?thesis by blast
qed

lemma last_section:
  assumes "map_of (rev (entries effect manifest_settings)) k = Some v"
  shows "map_of (rev (entries effect registrations)) k = Some v"
proof -
  define A where "A = compile_settings @ compile_renamed_settings @ link_settings @ link_renamed_settings @
    rc_settings @ midl_settings @ lib_settings"
  have "entries effect registrations = entries effect A @ entries effect manifest_settings"
    by (simp add: registrations_def A_def entries_append)
  with assms show ?thesis by simp
qed

theorem ConvertToMSBuildSettings_legal_witness:
  "\<exists>T mb. loaded_tables = Inr T \<and>
     ConvertToMSBuildSettings T [(''VCManifestTool'', [(''EmbedManifest'', GStr ''true'')])] = Inr (mb, []) \<and>
     ValidateMSBuildSettings T mb = Inr []"
proof -
  let ?k = "(''VCManifestTool'', ''EmbedManifest'')"
  let ?S = "[(fst ?k, [(snd ?k, GStr ''true'')])]"
  from ConvertToMSBuildSettings_legal obtain T where T: "loaded_tables = Inr T"
    and legal: "\<forall>S. ValidateMSVSSettings T S = Inr [] \<and>
          (\<forall>(tool, e) \<in> set S. \<forall>(name, v) \<in> set e. \<forall>tr.
             table_map (msvs_to_msbuild_converters T) (tool, name) = Some tr \<longrightarrow> plain_value tr v) \<longrightarrow>
          (\<exists>mb. ConvertToMSBuildSettings T S = Inr (mb, []) \<and> ValidateMSBuildSettings T mb = Inr [])" by blast
  have "map_of (rev (entries msvs_effect manifest_settings)) ?k = Some boolean" by code_simp
  moreover have "map_of (rev (entries converter_effect manifest_settings)) ?k =
    Some (Into '''' ''EmbedManifest'' boolean)" by code_simp
  ultimately have m: "table_map (msvs_validators T) ?k = Some boolean"
    "table_map (msvs_to_msbuild_converters T) ?k = Some (Into '''' ''EmbedManifest'' boolean)"
    using loaded_maps [OF T] last_section by simp_all
  from m(1) table_map_tool [of "msvs_validators T" "fst ?k" "snd ?k" boolean] have "ValidateMSVSSettings T ?S = Inr []"
    by (simp add: ValidateMSVSSettings_def ValidateSettings_silent good_tool_def good_entry_def)
  with legal m(2) have "\<exists>mb. ConvertToMSBuildSettings T ?S = Inr (mb, []) \<and> ValidateMSBuildSettings T mb = Inr []" by simp
  with T show ?thesis by auto
qed

subsection \<open>Where the conversion falls short\<close>

text \<open>
  A culture below zero passes the validation of the older tools and is converted to a text that
  MSBuild's validator rejects: the sign follows the prefix \<open>0x\<close>.
\<close>

theorem negative_culture_rejected:
  "ValidateMSVS (T_integer 16) (GStr ''-5'') = Inr () \<and>
   ConvertToMSBuild (T_integer 16) (GStr ''-5'') = Inr (GStr ''0x-005'') \<and>
   (\<exists>e. ValidateMSBuild (T_integer 16) (GStr ''0x-005'') = Inl (ValueError e))"
proof -
  have "py_int (GStr ''-5'') = Inr (- 5)"
    by (simp add: parse_int_def strip_def is_space_def read_unsigned_def digit_value_def is_digit_def char_digit_def)
  moreover have "show_hex4 (- 5) = ''0x-005''"
    by (simp add: show_hex4_def show_hex.simps hex_digit_def digit_char_def Let_def char_of_eq_iff numeral_2_eq_2)
  moreover have "parse_int 16 ''0x-005'' = None"
    by (simp add: parse_int_def strip_def is_space_def read_unsigned_def digit_value_def is_digit_def startswith_def
        less_eq_char_def)
  ultimately show ?thesis by (simp add: valid_if_def)
qed

text \<open>
  Two settings of the compiler are converted to \<open>AdditionalOptions\<close>: the setting of the same
  name and the flag of \<open>DefaultCharIsUnsigned\<close>, which is appended.  The settings are
  converted in the order in which the dictionary yields them, and when the flag
  comes first it is overwritten.
\<close>

theorem additional_option_lost:
  assumes "ConvertToMSBuild T_string_list v = Inr w" and "is_str v"
  shows "let options = Into tool ''AdditionalOptions'' T_string_list; char = Flag tool flag in
    dict_get (tool_settings (fst (translate char (GStr ''true'') (fst (translate options v mb)))) tool)
      ''AdditionalOptions'' = Some (GStr (py_str w @ '' '' @ flag)) \<and>
    dict_get (tool_settings (fst (translate options v (fst (translate char (GStr ''true'') mb)))) tool)
      ''AdditionalOptions'' = Some w"
  using assms by (simp add: tool_settings_def al.lookup_store Let_def del: ConvertToMSBuild.simps)

theorem additional_option_lost_witness:
  "dict_get (tool_settings (fst (translate (Into ''ClCompile'' ''AdditionalOptions'' T_string_list) (GStr ''/MP'')
      (fst (translate (Flag ''ClCompile'' ''/J'') (GStr ''true'') [])))) ''ClCompile'') ''AdditionalOptions'' =
    Some (GStr ''/MP'')"
proof -
  have "ConvertToMSBuild T_string_list (GStr ''/MP'') = Inr (GStr ''/MP'')" by code_simp
  from additional_option_lost [OF this, of "''ClCompile''" "''/J''" "[]"] show ?thesis by (simp add: Let_def)
qed

end
