(* ===== verification/Test_Expr.thy ===== *)
theory Test_Expr
  imports Gyp_Value
begin

text \<open>
  The expression language of the test runner's status files, \<open>tools/test.py\<close>: the
  outcome sets (\<open>ListSet\<close>, \<open>Everything\<close>, \<open>Nothing\<close>), the expression classes with their
  \<open>Evaluate\<close> and \<open>GetOutcomes\<close> methods, the tokenizer and the recursive-descent
  parser.  A class that lacks the method called raises \<open>AttributeError\<close>, and an
  operator a method does not expect fails its \<open>assert\<close>.

  An outcome name may be defined by another expression, and definitions may be
  circular, so evaluation carries fuel, spent when a definition is entered; \<open>None\<close>
  is out of fuel.  The parser carries fuel too; enough fuel is proved to exist for
  both.  A scanner or tokenizer object is the list of what is left to read.
\<close>

subsection \<open>Outcome sets\<close>

datatype oset = ListSet "string list" | Everything | Nothing

fun Intersect :: "oset \<Rightarrow> oset \<Rightarrow> oset" where
  "Intersect (ListSet a) (ListSet b) = ListSet (filter (\<lambda>x. x \<in> set b) a)"
| "Intersect (ListSet a) Everything = ListSet a"
| "Intersect (ListSet a) Nothing = Nothing"
| "Intersect Everything that = that"
| "Intersect Nothing that = Nothing"

fun Union_set :: "oset \<Rightarrow> oset \<Rightarrow> oset" where
  "Union_set (ListSet a) (ListSet b) = ListSet (a @ filter (\<lambda>x. x \<notin> set a) b)"
| "Union_set (ListSet a) Everything = Everything"
| "Union_set (ListSet a) Nothing = ListSet a"
| "Union_set Everything that = Everything"
| "Union_set Nothing that = that"

fun IsEmpty :: "oset \<Rightarrow> bool" where
  "IsEmpty (ListSet a) = (length a = 0)"
| "IsEmpty Everything = False"
| "IsEmpty Nothing = True"

text \<open>The set an outcome set stands for; the operations are the set operations.\<close>

fun denotes :: "oset \<Rightarrow> string set" where
  "denotes (ListSet a) = set a"
| "denotes Everything = UNIV"
| "denotes Nothing = {}"

lemma denotes_ops [simp]:
  "denotes (Intersect a b) = denotes a \<inter> denotes b"
  "denotes (Union_set a b) = denotes a \<union> denotes b"
  "IsEmpty a \<longleftrightarrow> denotes a = {}"
proof -
  show "denotes (Intersect a b) = denotes a \<inter> denotes b" by (cases a; cases b) auto
  show "denotes (Union_set a b) = denotes a \<union> denotes b" by (cases a; cases b) auto
  show "IsEmpty a \<longleftrightarrow> denotes a = {}" by (cases a) auto
qed

subsection \<open>Expressions and their evaluation\<close>

datatype expr = Constant bool | Variable string | Outcome string | Operation expr string expr

abbreviation no_attribute :: "string \<Rightarrow> 'a eval" where
  "no_attribute s \<equiv> Some (Inl (AttributeError s))"

fun Evaluate :: "nat \<Rightarrow> (string \<times> string) list \<Rightarrow> (string \<times> expr) list \<Rightarrow> expr \<Rightarrow> bool eval"
  and GetOutcomes :: "nat \<Rightarrow> (string \<times> string) list \<Rightarrow> (string \<times> expr) list \<Rightarrow> expr \<Rightarrow> oset eval" where
  "Evaluate fuel env defs (Constant v) = Some (Inr v)"
| "Evaluate fuel env defs (Variable name) = no_attribute ''Evaluate''"
| "Evaluate fuel env defs (Outcome name) = no_attribute ''Evaluate''"
| "Evaluate fuel env defs (Operation left op right) =
     (if op = ''||'' \<or> op = '',''
      then bindV (Evaluate fuel env defs left) (\<lambda>l.
             if l then Some (Inr True) else Evaluate fuel env defs right)
      else if op = ''if'' then Some (Inr False)
      else if op = ''==''
      then bindV (GetOutcomes fuel env defs left) (\<lambda>l.
           bindV (GetOutcomes fuel env defs right) (\<lambda>r.
             Some (Inr (\<not> IsEmpty (Intersect l r)))))
      else if op = ''&&''
      then bindV (Evaluate fuel env defs left) (\<lambda>l.
             if l then Evaluate fuel env defs right else Some (Inr False))
      else Some (Inl AssertionError))"
| "GetOutcomes fuel env defs (Constant v) = no_attribute ''GetOutcomes''"
| "GetOutcomes fuel env defs (Variable name) =
     Some (Inr (case dict_get env name of Some v \<Rightarrow> ListSet [v] | None \<Rightarrow> Nothing))"
| "GetOutcomes fuel env defs (Outcome name) =
     (case dict_get defs name of
        None \<Rightarrow> Some (Inr (ListSet [name]))
      | Some e \<Rightarrow> (case fuel of 0 \<Rightarrow> None | Suc n \<Rightarrow> GetOutcomes n env defs e))"
| "GetOutcomes fuel env defs (Operation left op right) =
     (if op = ''||'' \<or> op = '',''
      then bindV (GetOutcomes fuel env defs left) (\<lambda>l.
           bindV (GetOutcomes fuel env defs right) (\<lambda>r. Some (Inr (Union_set l r))))
      else if op = ''if''
      then bindV (Evaluate fuel env defs right) (\<lambda>r.
             if r then GetOutcomes fuel env defs left else Some (Inr Nothing))
      else if op = ''&&''
      then bindV (GetOutcomes fuel env defs left) (\<lambda>l.
           bindV (GetOutcomes fuel env defs right) (\<lambda>r. Some (Inr (Intersect l r))))
      else Some (Inl AssertionError))"

subsection \<open>Conditions and outcome expressions\<close>

text \<open>
  The two kinds of expression: a condition is evaluated to a truth value, an
  outcome expression to a set of outcomes.  \<open>if\<close> in a condition is never evaluated.
\<close>

fun condition :: "expr \<Rightarrow> bool"
  and outcome :: "expr \<Rightarrow> bool" where
  "condition (Constant v) = True"
| "condition (Variable n) = False"
| "condition (Outcome n) = False"
| "condition (Operation l op r) =
     (if op \<in> {''||'', '','', ''&&''} then condition l \<and> condition r
      else if op = ''=='' then outcome l \<and> outcome r else op = ''if'')"
| "outcome (Constant v) = False"
| "outcome (Variable n) = True"
| "outcome (Outcome n) = True"
| "outcome (Operation l op r) =
     (if op \<in> {''||'', '','', ''&&''} then outcome l \<and> outcome r
      else op = ''if'' \<and> outcome l \<and> condition r)"

text \<open>Names an expression refers to, and definitions that do not refer to each other in a circle.\<close>

fun outcome_names :: "expr \<Rightarrow> string set" where
  "outcome_names (Constant v) = {}"
| "outcome_names (Variable n) = {}"
| "outcome_names (Outcome n) = {n}"
| "outcome_names (Operation l op r) = outcome_names l \<union> outcome_names r"

definition defs_ok :: "(string \<Rightarrow> nat) \<Rightarrow> (string \<times> expr) list \<Rightarrow> bool" where
  "defs_ok rank defs \<longleftrightarrow>
     (\<forall>n e. dict_get defs n = Some e \<longrightarrow>
        outcome e \<and> (\<forall>m \<in> outcome_names e. has_key defs m \<longrightarrow> rank m < rank n))"

text \<open>What an expression means, without regard to how it is computed.\<close>

inductive means :: "(string \<times> string) list \<Rightarrow> (string \<times> expr) list \<Rightarrow> expr \<Rightarrow> string set \<Rightarrow> bool"
  and holds :: "(string \<times> string) list \<Rightarrow> (string \<times> expr) list \<Rightarrow> expr \<Rightarrow> bool \<Rightarrow> bool"
  for env defs where
  var: "means env defs (Variable n) (case dict_get env n of Some v \<Rightarrow> {v} | None \<Rightarrow> {})"
| name: "dict_get defs n = None \<Longrightarrow> means env defs (Outcome n) {n}"
| defined: "dict_get defs n = Some e \<Longrightarrow> means env defs e s \<Longrightarrow> means env defs (Outcome n) s"
| union: "op \<in> {''||'', '',''} \<Longrightarrow> means env defs l s \<Longrightarrow> means env defs r t \<Longrightarrow>
    means env defs (Operation l op r) (s \<union> t)"
| inter: "means env defs l s \<Longrightarrow> means env defs r t \<Longrightarrow> means env defs (Operation l ''&&'' r) (s \<inter> t)"
| guarded: "holds env defs r b \<Longrightarrow> means env defs l s \<Longrightarrow>
    means env defs (Operation l ''if'' r) (if b then s else {})"
| const: "holds env defs (Constant v) v"
| disj: "op \<in> {''||'', '',''} \<Longrightarrow> holds env defs l a \<Longrightarrow> holds env defs r b \<Longrightarrow>
    holds env defs (Operation l op r) (a \<or> b)"
| conj: "holds env defs l a \<Longrightarrow> holds env defs r b \<Longrightarrow> holds env defs (Operation l ''&&'' r) (a \<and> b)"
| meet: "means env defs l s \<Longrightarrow> means env defs r t \<Longrightarrow>
    holds env defs (Operation l ''=='' r) (s \<inter> t \<noteq> {})"
| never: "holds env defs (Operation l ''if'' r) False"

text \<open>
  One level of definitions: an expression evaluates when the definitions it names
  do, with one unit of fuel less.
\<close>

lemma eval_level:
  assumes "\<forall>n \<in> outcome_names e. \<forall>e'. dict_get defs n = Some e' \<longrightarrow>
      (\<exists>f s. fuel = Suc f \<and> GetOutcomes f env defs e' = Some (Inr s) \<and> means env defs e' (denotes s))"
  shows "(condition e \<longrightarrow> (\<exists>b. Evaluate fuel env defs e = Some (Inr b) \<and> holds env defs e b)) \<and>
    (outcome e \<longrightarrow> (\<exists>s. GetOutcomes fuel env defs e = Some (Inr s) \<and> means env defs e (denotes s)))"
  using assms
proof (induction e)
  case (Constant v)
  show ?case by (auto intro: means_holds.intros)
next
  case (Variable n)
  have "denotes (case dict_get env n of Some v \<Rightarrow> ListSet [v] | None \<Rightarrow> Nothing) =
      (case dict_get env n of Some v \<Rightarrow> {v} | None \<Rightarrow> {})" by (simp split: option.splits)
  with var [of env defs n] show ?case by simp
next
  case (Outcome n)
  show ?case
  proof (cases "dict_get defs n")
    case None
    then show ?thesis using name [of defs n env] by simp
  next
    case (Some e')
    with Outcome.prems show ?thesis by (auto intro: defined)
  qed
next
  case (Operation l op r)
  from Operation.prems have l: "\<forall>n \<in> outcome_names l. \<forall>e'. dict_get defs n = Some e' \<longrightarrow>
      (\<exists>f s. fuel = Suc f \<and> GetOutcomes f env defs e' = Some (Inr s) \<and> means env defs e' (denotes s))"
    and r: "\<forall>n \<in> outcome_names r. \<forall>e'. dict_get defs n = Some e' \<longrightarrow>
      (\<exists>f s. fuel = Suc f \<and> GetOutcomes f env defs e' = Some (Inr s) \<and> means env defs e' (denotes s))"
    by (simp_all add: ball_Un)
  note IH = Operation.IH(1) [OF l] Operation.IH(2) [OF r]
  have conds: "\<exists>b. Evaluate fuel env defs (Operation l op r) = Some (Inr b) \<and> holds env defs (Operation l op r) b"
    if "condition (Operation l op r)"
  proof -
    from that have "(op = ''||'' \<or> op = '','') \<and> condition l \<and> condition r \<or> op = ''if'' \<or>
        op = ''=='' \<and> outcome l \<and> outcome r \<or> op = ''&&'' \<and> condition l \<and> condition r"
      by (simp split: if_splits) argo
    then consider (either) "op = ''||'' \<or> op = '',''" "condition l" "condition r"
      | (cond) "op = ''if''" | (equal) "op = ''==''" "outcome l" "outcome r"
      | (both) "op = ''&&''" "condition l" "condition r"
      by blast
    then show ?thesis
    proof cases
      case either
      with IH obtain a b where "Evaluate fuel env defs l = Some (Inr a)" "holds env defs l a"
        "Evaluate fuel env defs r = Some (Inr b)" "holds env defs r b" by auto
      with either(1) disj [of op env defs l a r b] show ?thesis by (cases a) auto
    next
      case cond
      then show ?thesis by (auto intro: never)
    next
      case equal
      with IH obtain s t where "GetOutcomes fuel env defs l = Some (Inr s)" "means env defs l (denotes s)"
        "GetOutcomes fuel env defs r = Some (Inr t)" "means env defs r (denotes t)" by auto
      with equal(1) meet [of env defs l "denotes s" r "denotes t"] show ?thesis by simp
    next
      case both
      with IH obtain a b where "Evaluate fuel env defs l = Some (Inr a)" "holds env defs l a"
        "Evaluate fuel env defs r = Some (Inr b)" "holds env defs r b" by auto
      with both(1) conj [of env defs l a r b] show ?thesis by (cases a) auto
    qed
  qed
  have outs: "\<exists>s. GetOutcomes fuel env defs (Operation l op r) = Some (Inr s) \<and>
      means env defs (Operation l op r) (denotes s)" if "outcome (Operation l op r)"
  proof (cases "op = ''if''")
    case True
    with that IH obtain s b where "GetOutcomes fuel env defs l = Some (Inr s)" "means env defs l (denotes s)"
      "Evaluate fuel env defs r = Some (Inr b)" "holds env defs r b" by auto
    with True guarded [of env defs r b l "denotes s"] show ?thesis by (cases b) auto
  next
    case False
    with that have op: "op \<in> {''||'', '','', ''&&''}" and lr: "outcome l" "outcome r" by (auto split: if_splits)
    with IH obtain s t where "GetOutcomes fuel env defs l = Some (Inr s)" "means env defs l (denotes s)"
      "GetOutcomes fuel env defs r = Some (Inr t)" "means env defs r (denotes t)" by auto
    with op union [of op env defs l "denotes s" r "denotes t"] inter [of env defs l "denotes s" r "denotes t"]
    show ?thesis by auto
  qed
  from conds outs show ?case by blast
qed

lemma eval_total:
  assumes "defs_ok rank defs" and "\<And>n. n \<in> outcome_names e \<Longrightarrow> has_key defs n \<Longrightarrow> rank n < fuel"
  shows "(condition e \<longrightarrow> (\<exists>b. Evaluate fuel env defs e = Some (Inr b) \<and> holds env defs e b)) \<and>
    (outcome e \<longrightarrow> (\<exists>s. GetOutcomes fuel env defs e = Some (Inr s) \<and> means env defs e (denotes s)))"
  using assms(2)
proof (induction fuel arbitrary: e)
  case 0
  show ?case by (rule eval_level) (use 0 in fastforce)
next
  case (Suc f)
  show ?case
  proof (rule eval_level, intro ballI allI impI)
    fix n e' assume n: "n \<in> outcome_names e" and d: "dict_get defs n = Some e'"
    with assms(1) have e': "outcome e'" "\<And>m. m \<in> outcome_names e' \<Longrightarrow> has_key defs m \<Longrightarrow> rank m < rank n"
      by (auto simp: defs_ok_def)
    have "rank n < Suc f" by (rule Suc.prems) (use n d in simp_all)
    with e'(2) have "\<And>m. m \<in> outcome_names e' \<Longrightarrow> has_key defs m \<Longrightarrow> rank m < f" by fastforce
    from Suc.IH [OF this] e'(1)
    show "\<exists>g s. Suc f = Suc g \<and> GetOutcomes g env defs e' = Some (Inr s) \<and> means env defs e' (denotes s)" by simp
  qed
qed

text \<open>
  An expression has one meaning: the relations are functional, so an evaluation is
  the meaning and not one of several.
\<close>

inductive_cases means_VariableE: "means env defs (Variable n) s"
inductive_cases means_OutcomeE: "means env defs (Outcome n) s"
inductive_cases means_OperationE: "means env defs (Operation l op r) s"
inductive_cases holds_ConstantE: "holds env defs (Constant v) b"
inductive_cases holds_OperationE: "holds env defs (Operation l op r) b"

lemma means_unique:
  "means env defs e s \<Longrightarrow> (\<And>t. means env defs e t \<Longrightarrow> s = t)"
  "holds env defs e a \<Longrightarrow> (\<And>b. holds env defs e b \<Longrightarrow> a = b)"
proof (induction rule: means_holds.inducts)
  case (union op l s r t)
  show ?case
    using union.prems union.hyps union.IH by (elim means_OperationE) fastforce+
next
  case (disj op l a r b)
  show ?case
    using disj.prems disj.hyps disj.IH by (elim holds_OperationE) fastforce+
next
  case (inter l s r t)
  show ?case using inter.prems inter.IH by (elim means_OperationE) fastforce+
next
  case (guarded r b l s)
  show ?case using guarded.prems guarded.IH by (elim means_OperationE) fastforce+
next
  case (conj l a r b)
  show ?case using conj.prems conj.IH by (elim holds_OperationE) fastforce+
next
  case (meet l s r t)
  show ?case using meet.prems meet.IH by (elim holds_OperationE) fastforce+
next
  case (var n)
  then show ?case by (rule means_VariableE) simp
next
  case (name n)
  show ?case by (rule means_OutcomeE [OF name.prems]) (use name in simp_all)
next
  case (defined n e s)
  from defined.prems have "means env defs e t" by (rule means_OutcomeE) (simp_all add: defined(1))
  then show ?case by (rule defined(3))
next
  case (const v)
  show ?case by (rule holds_ConstantE [OF const.prems]) simp
next
  case (never l r)
  show ?case by (rule holds_OperationE [OF never.prems]) simp_all
qed

subsection \<open>Tokenizer\<close>

definition is_word_char :: "char \<Rightarrow> bool" where
  "is_word_char c \<longleftrightarrow> is_alpha c \<or> is_digit c \<or> c = CHR ''_''"

definition IsAlpha :: "string \<Rightarrow> bool" where
  "IsAlpha s \<longleftrightarrow> (\<forall>c \<in> set s. is_word_char c)"

text \<open>The tokenizer's state is the text not read yet; \<open>Current(2)\<close> may be shorter at the end.\<close>

definition SkipSpaces :: "string \<Rightarrow> string" where
  "SkipSpaces s = dropWhile is_space s"

definition Current :: "nat \<Rightarrow> string \<Rightarrow> string" where
  "Current n s = take n s"

definition Advance :: "nat \<Rightarrow> string \<Rightarrow> string" where
  "Advance n s = drop n s"

function Tokenize :: "string \<Rightarrow> string list \<Rightarrow> string list option" where
  "Tokenize [] tokens = Some tokens"
| "Tokenize (x # xs) tokens =
     (let s = SkipSpaces (x # xs) in
      if s = [] then None
      else if Current 1 s \<in> {''('', '')'', ''$'', '',''} then Tokenize (Advance 1 s) (tokens @ [Current 1 s])
      else if IsAlpha (Current 1 s)
      then Tokenize (dropWhile is_word_char s) (tokens @ [takeWhile is_word_char s])
      else if Current 2 s \<in> {''&&'', ''||'', ''==''} then Tokenize (Advance 2 s) (tokens @ [Current 2 s])
      else None)"
  by pat_completeness auto

lemma SkipSpaces_length: "length (SkipSpaces s) \<le> length s"
  by (simp add: SkipSpaces_def length_dropWhile_le)

lemma tokenize_word_shrinks:
  "SkipSpaces s \<noteq> [] \<Longrightarrow> IsAlpha (Current 1 (SkipSpaces s)) \<Longrightarrow>
    length (dropWhile is_word_char (SkipSpaces s)) < length s"
  using SkipSpaces_length [of s]
  by (cases "SkipSpaces s")
    (auto simp: IsAlpha_def Current_def intro: le_less_trans [OF length_dropWhile_le])

termination Tokenize
proof (relation "measure (\<lambda>(s, t). length s)", goal_cases)
  case (2 x xs tokens s)
  with SkipSpaces_length [of "x # xs"] show ?case by (cases s) (auto simp: Advance_def)
next
  case (3 x xs tokens s)
  with tokenize_word_shrinks [of "x # xs"] show ?case by simp
next
  case (4 x xs tokens s)
  with SkipSpaces_length [of "x # xs"] show ?case by (cases s) (auto simp: Advance_def)
qed simp

subsection \<open>Parser\<close>

text \<open>
  Each parsing function returns the expression, or \<open>None\<close>, with the tokens left;
  reading the current token when none is left raises \<open>IndexError\<close>.
\<close>

type_synonym parse = "(expr option \<times> string list) eval"

abbreviation (input) no_expr :: "string list \<Rightarrow> parse" where
  "no_expr scan \<equiv> Some (Inr (None, scan))"

abbreviation (input) an_expr :: "expr \<Rightarrow> string list \<Rightarrow> parse" where
  "an_expr e scan \<equiv> Some (Inr (Some e, scan))"

text \<open>\<open>if not left: return None\<close>, and otherwise go on with it.\<close>

definition bindP :: "parse \<Rightarrow> (expr \<Rightarrow> string list \<Rightarrow> parse) \<Rightarrow> parse" where
  "bindP p k = bindV p (\<lambda>(r, scan). case r of None \<Rightarrow> Some (Inr (None, scan)) | Some e \<Rightarrow> k e scan)"

lemma bindP_simps [simp]:
  "bindP None k = None"
  "bindP (Some (Inl x)) k = Some (Inl x)"
  "bindP (no_expr scan) k = no_expr scan"
  "bindP (an_expr e scan) k = k e scan"
  by (simp_all add: bindP_def)

definition BINARIES :: "string list" where
  "BINARIES = [''=='']"

definition LOGICALS :: "string list" where
  "LOGICALS = [''&&'', ''||'', '','']"

function (sequential) ParseAtomicExpression :: "nat \<Rightarrow> string list \<Rightarrow> parse"
  and ParseOperatorExpression :: "nat \<Rightarrow> string list \<Rightarrow> parse"
  and OperatorLoop :: "nat \<Rightarrow> expr \<Rightarrow> string list \<Rightarrow> parse"
  and ParseConditionalExpression :: "nat \<Rightarrow> string list \<Rightarrow> parse"
  and ConditionalLoop :: "nat \<Rightarrow> expr \<Rightarrow> string list \<Rightarrow> parse"
  and ParseLogicalExpression :: "nat \<Rightarrow> string list \<Rightarrow> parse"
  and LogicalLoop :: "nat \<Rightarrow> expr \<Rightarrow> string list \<Rightarrow> parse" where
  "ParseAtomicExpression 0 scan = None"
| "ParseAtomicExpression (Suc n) [] = Some (Inl IndexError)"
| "ParseAtomicExpression (Suc n) (cur # scan) =
     (if cur = ''true'' then an_expr (Constant True) scan
      else if cur = ''false'' then an_expr (Constant False) scan
      else if IsAlpha cur then an_expr (Outcome (lower cur)) scan
      else if cur = ''$''
      then (case scan of
              [] \<Rightarrow> Some (Inl IndexError)
            | name # scan' \<Rightarrow> if \<not> IsAlpha name then no_expr scan
                             else an_expr (Variable (lower name)) scan')
      else if cur = ''(''
      then bindP (ParseLogicalExpression n scan) (\<lambda>result scan.
             case scan of
               [] \<Rightarrow> Some (Inl IndexError)
             | cur # scan' \<Rightarrow> if cur \<noteq> '')'' then no_expr scan else an_expr result scan')
      else no_expr (cur # scan))"
| "ParseOperatorExpression 0 scan = None"
| "ParseOperatorExpression (Suc n) scan =
     bindP (ParseAtomicExpression n scan) (\<lambda>left scan. OperatorLoop n left scan)"
| "OperatorLoop 0 left scan = None"
| "OperatorLoop (Suc n) left [] = an_expr left []"
| "OperatorLoop (Suc n) left (op # scan) =
     (if op \<in> set BINARIES
      then bindP (ParseOperatorExpression n scan) (\<lambda>right scan.
             OperatorLoop n (Operation left op right) scan)
      else an_expr left (op # scan))"
| "ParseConditionalExpression 0 scan = None"
| "ParseConditionalExpression (Suc n) scan =
     bindP (ParseOperatorExpression n scan) (\<lambda>left scan. ConditionalLoop n left scan)"
| "ConditionalLoop 0 left scan = None"
| "ConditionalLoop (Suc n) left [] = an_expr left []"
| "ConditionalLoop (Suc n) left (op # scan) =
     (if op = ''if''
      then bindP (ParseOperatorExpression n scan) (\<lambda>right scan.
             ConditionalLoop n (Operation left ''if'' right) scan)
      else an_expr left (op # scan))"
| "ParseLogicalExpression 0 scan = None"
| "ParseLogicalExpression (Suc n) scan =
     bindP (ParseConditionalExpression n scan) (\<lambda>left scan. LogicalLoop n left scan)"
| "LogicalLoop 0 left scan = None"
| "LogicalLoop (Suc n) left [] = an_expr left []"
| "LogicalLoop (Suc n) left (op # scan) =
     (if op \<in> set LOGICALS
      then bindP (ParseConditionalExpression n scan) (\<lambda>right scan.
             LogicalLoop n (Operation left op right) scan)
      else an_expr left (op # scan))"

  by pat_completeness auto

termination
  by (relation "measure (case_sum (case_sum fst (case_sum fst fst)) (case_sum (case_sum fst fst) (case_sum fst fst)))")
    simp_all

text \<open>
  \<open>ParseCondition\<close> reports a malformed expression on the console and returns \<open>None\<close>.
  The fuel is the one proved enough below.
\<close>

definition parse_fuel :: "string list \<Rightarrow> nat" where
  "parse_fuel tokens = 4 * length tokens + 4"

definition ParseCondition :: "string \<Rightarrow> expr option eval" where
  "ParseCondition expr =
     (case Tokenize expr [] of
        None \<Rightarrow> Some (Inr None)
      | Some [] \<Rightarrow> Some (Inr None)
      | Some tokens \<Rightarrow> bindV (ParseLogicalExpression (parse_fuel tokens) tokens) (\<lambda>(ast, scan).
          Some (Inr (if scan \<noteq> [] then None else ast))))"

subsection \<open>The parser always answers\<close>

text \<open>
  A call that answers leaves at most \<open>k\<close> tokens when it finds an expression; with
  the fuel of \<open>parse_fuel\<close> every call answers.
\<close>

definition answers :: "nat \<Rightarrow> parse \<Rightarrow> bool" where
  "answers k p \<longleftrightarrow> p \<noteq> None \<and> (\<forall>e scan. p = an_expr e scan \<longrightarrow> length scan \<le> k)"

lemma answers_simps [simp]:
  "answers k (Some (Inl x))"
  "answers k (no_expr scan)"
  "answers k (an_expr e scan) \<longleftrightarrow> length scan \<le> k"
  by (auto simp: answers_def)

lemma answers_bindP:
  assumes "answers j p" and "\<And>e scan. length scan \<le> j \<Longrightarrow> answers k (f e scan)"
  shows "answers k (bindP p f)"
proof (cases p)
  case None
  with assms(1) show ?thesis by (simp add: answers_def)
next
  case (Some r)
  then show ?thesis
  proof (cases r)
    case (Inr er)
    obtain q scan where "er = (q, scan)" by (cases er)
    with Some Inr assms show ?thesis by (cases q) auto
  qed simp
qed

lemma answers_mono: "answers j p \<Longrightarrow> j \<le> k \<Longrightarrow> answers k p"
  by (fastforce simp: answers_def)

lemma parsers_answer:
  "4 * length scan + 1 \<le> n \<Longrightarrow> answers (length scan - 1) (ParseAtomicExpression n scan)"
  "4 * length scan + 2 \<le> n \<Longrightarrow> answers (length scan - 1) (ParseOperatorExpression n scan)"
  "4 * length scan + 1 \<le> n \<Longrightarrow> answers (length scan) (OperatorLoop n e scan)"
  "4 * length scan + 3 \<le> n \<Longrightarrow> answers (length scan - 1) (ParseConditionalExpression n scan)"
  "4 * length scan + 1 \<le> n \<Longrightarrow> answers (length scan) (ConditionalLoop n e scan)"
  "4 * length scan + 4 \<le> n \<Longrightarrow> answers (length scan - 1) (ParseLogicalExpression n scan)"
  "4 * length scan + 1 \<le> n \<Longrightarrow> answers (length scan) (LogicalLoop n e scan)"
proof (induction n arbitrary: scan e)
  case (Suc n)
  note IH = Suc.IH
  {
    case 1
    show ?case
    proof (cases scan)
      case (Cons cur rest)
      with 1 have "answers (length rest - 1) (ParseLogicalExpression n rest)" by (intro IH(6)) simp
      then have "answers (length rest) (bindP (ParseLogicalExpression n rest) (\<lambda>result scan.
             case scan of
               [] \<Rightarrow> Some (Inl IndexError)
             | cur # scan' \<Rightarrow> if cur \<noteq> '')'' then no_expr scan else an_expr result scan'))"
        by (rule answers_bindP) (auto split: list.splits)
      with Cons show ?thesis by (auto split: list.splits)
    qed simp
  next
    case 2
    then have "answers (length scan - 1) (ParseAtomicExpression n scan)" by (intro IH(1)) simp
    then show ?case unfolding ParseOperatorExpression.simps
      by (rule answers_bindP) (rule answers_mono [OF IH(3)], use 2 in simp_all)
  next
    case 4
    then have "answers (length scan - 1) (ParseOperatorExpression n scan)" by (intro IH(2)) simp
    then show ?case unfolding ParseConditionalExpression.simps
      by (rule answers_bindP) (rule answers_mono [OF IH(5)], use 4 in simp_all)
  next
    case 6
    then have "answers (length scan - 1) (ParseConditionalExpression n scan)" by (intro IH(4)) simp
    then show ?case unfolding ParseLogicalExpression.simps
      by (rule answers_bindP) (rule answers_mono [OF IH(7)], use 6 in simp_all)
  next
    case 3
    show ?case
    proof (cases scan)
      case (Cons op rest)
      with 3 have "answers (length rest - 1) (ParseOperatorExpression n rest)" by (intro IH(2)) simp
      then have "answers (length scan) (bindP (ParseOperatorExpression n rest) (\<lambda>right scan.
             OperatorLoop n (Operation e op right) scan))"
        by (rule answers_bindP) (rule answers_mono [OF IH(3)], use 3 Cons in simp_all)
      with Cons show ?thesis by simp
    qed simp
  next
    case 5
    show ?case
    proof (cases scan)
      case (Cons op rest)
      with 5 have "answers (length rest - 1) (ParseOperatorExpression n rest)" by (intro IH(2)) simp
      then have "answers (length scan) (bindP (ParseOperatorExpression n rest) (\<lambda>right scan.
             ConditionalLoop n (Operation e ''if'' right) scan))"
        by (rule answers_bindP) (rule answers_mono [OF IH(5)], use 5 Cons in simp_all)
      with Cons show ?thesis by simp
    qed simp
  next
    case 7
    show ?case
    proof (cases scan)
      case (Cons op rest)
      with 7 have "answers (length rest - 1) (ParseConditionalExpression n rest)" by (intro IH(4)) simp
      then have "answers (length scan) (bindP (ParseConditionalExpression n rest) (\<lambda>right scan.
             LogicalLoop n (Operation e op right) scan))"
        by (rule answers_bindP) (rule answers_mono [OF IH(7)], use 7 Cons in simp_all)
      with Cons show ?thesis by simp
    qed simp
  }
qed simp_all

text \<open>
  Parsing a condition always ends: with the fuel the model gives, every text has an
  answer, which is an expression, a report of a malformed expression or an exception.
\<close>

theorem ParseCondition_answers: "\<exists>r. ParseCondition s = Some r"
proof (cases "Tokenize s []")
  case None
  then show ?thesis by (simp add: ParseCondition_def)
next
  case (Some ts)
  have "answers (length ts - 1) (ParseLogicalExpression (parse_fuel ts) ts)"
    by (rule parsers_answer) (simp add: parse_fuel_def)
  then obtain r where "ParseLogicalExpression (parse_fuel ts) ts = Some r" by (auto simp: answers_def)
  with Some show ?thesis
    by (cases ts; cases r) (auto simp: ParseCondition_def split: prod.splits)
qed

text \<open>
  A text that ends where an operand is due is not reported as malformed: the
  scanner reads past its last token and the interpreter raises \<open>IndexError\<close>.
\<close>

theorem ParseCondition_past_end: "ParseCondition ''a &&'' = Some (Inl IndexError)"
  by code_simp

subsection \<open>Printing and parsing\<close>

text \<open>An expression as text: fully parenthesised, its tokens separated by spaces.\<close>

fun unparse :: "expr \<Rightarrow> string list" where
  "unparse (Constant v) = [if v then ''true'' else ''false'']"
| "unparse (Variable n) = [''$'', n]"
| "unparse (Outcome n) = [n]"
| "unparse (Operation l op r) = [''(''] @ unparse l @ [op] @ unparse r @ ['')'']"

text \<open>
  Expressions whose printed form has one reading: lower-case names, no outcome named
  as a constant is, and the five operators.  The parser builds others too: it reads
  \<open>TRUE\<close> as the outcome \<open>true\<close>, which prints as the constant.
\<close>

definition is_name :: "string \<Rightarrow> bool" where
  "is_name n \<longleftrightarrow> n \<noteq> [] \<and> IsAlpha n \<and> (\<forall>c \<in> set n. \<not> is_upper c)"

fun parsable :: "expr \<Rightarrow> bool" where
  "parsable (Constant v) = True"
| "parsable (Variable n) = is_name n"
| "parsable (Outcome n) = (is_name n \<and> n \<notin> {''true'', ''false''})"
| "parsable (Operation l op r) = (parsable l \<and> op \<in> {''=='', ''if'', ''&&'', ''||'', '',''} \<and> parsable r)"

lemma not_alpha [simp]:
  "\<not> IsAlpha ''$''" "\<not> IsAlpha ''(''" "\<not> IsAlpha '')''" "\<not> IsAlpha '',''" "\<not> IsAlpha ''&&''"
  "\<not> IsAlpha ''||''" "\<not> IsAlpha ''==''" "IsAlpha ''true''" "IsAlpha ''false''" "IsAlpha ''if''"
  by code_simp+

lemma is_nameD [simp]:
  "is_name n \<Longrightarrow> IsAlpha n" "is_name n \<Longrightarrow> lower n = n" "is_name n \<Longrightarrow> n \<noteq> []"
  "is_name n \<Longrightarrow> n \<noteq> ''$''" "is_name n \<Longrightarrow> n \<noteq> ''(''"
  by (auto simp: is_name_def lower_id)

text \<open>A loop stops at a closing parenthesis, which is no operator.\<close>

lemma loops_stop [simp]:
  "0 < n \<Longrightarrow> OperatorLoop n e ('')'' # scan) = an_expr e ('')'' # scan)"
  "0 < n \<Longrightarrow> ConditionalLoop n e ('')'' # scan) = an_expr e ('')'' # scan)"
  "0 < n \<Longrightarrow> LogicalLoop n e ('')'' # scan) = an_expr e ('')'' # scan)"
  by (cases n; simp add: BINARIES_def LOGICALS_def)+

lemma parse_unparse:
  "parsable e \<Longrightarrow> 4 * length (unparse e) + 1 \<le> n \<Longrightarrow>
    ParseAtomicExpression n (unparse e @ scan) = an_expr e scan"
proof (induction e arbitrary: n scan)
  case (Constant v)
  then show ?case by (cases n) auto
next
  case (Variable x)
  then show ?case by (cases n) auto
next
  case (Outcome x)
  then show ?case by (cases n) auto
next
  case (Operation l op r)
  from Operation.prems(2) have "9 \<le> n" by simp
  then obtain m where n: "n = Suc (Suc (Suc (Suc (Suc (Suc (Suc (Suc (Suc m))))))))"
    using le_Suc_ex [of 9 n] by (auto simp: eval_nat_numeral)
  have l: "ParseAtomicExpression k (unparse l @ scan') = an_expr l scan'" if "n - 4 \<le> k" for k scan'
    by (rule Operation.IH(1)) (use Operation.prems that in simp_all)
  have r: "ParseAtomicExpression k (unparse r @ scan') = an_expr r scan'" if "n - 6 \<le> k" for k scan'
    by (rule Operation.IH(2)) (use Operation.prems that in simp_all)
  show ?case
    using Operation.prems(1) by (auto simp: n l r BINARIES_def LOGICALS_def)
qed

text \<open>The tokenizer reads a token up to a space or the end of the text.\<close>

definition is_token :: "string \<Rightarrow> bool" where
  "is_token t \<longleftrightarrow> t \<in> {''('', '')'', ''$'', '','', ''&&'', ''||'', ''==''} \<or> (t \<noteq> [] \<and> IsAlpha t)"

lemma word_char_not_space: "is_word_char c \<Longrightarrow> \<not> is_space c"
  by (auto simp: is_word_char_def is_space_def is_alpha_def is_upper_def is_lower_def is_digit_def)

lemma space_not_word_char [simp]: "\<not> is_word_char (CHR '' '')"
  by code_simp

lemma word_char_not_punct: "is_word_char c \<Longrightarrow> [c] \<notin> {''('', '')'', ''$'', '',''}"
  by (auto simp: is_word_char_def is_alpha_def is_upper_def is_lower_def is_digit_def)

lemma is_token_hd: "is_token t \<Longrightarrow> t \<noteq> [] \<and> \<not> is_space (hd t)"
  by (cases t) (auto simp: is_token_def IsAlpha_def is_space_def dest: word_char_not_space)

declare Tokenize.simps(2) [simp del]

lemma Tokenize_skip:
  assumes "\<not> is_space c"
  shows "Tokenize (CHR '' '' # c # s) ts = Tokenize (c # s) ts"
  using assms by (simp add: Tokenize.simps(2) SkipSpaces_def is_space_def Let_def)

lemma Tokenize_token:
  assumes t: "is_token t" and rest: "rest = [] \<or> hd rest = CHR '' ''"
  shows "Tokenize (t @ rest) ts = Tokenize rest (ts @ [t])"
proof -
  obtain c cs where tc: "t = c # cs" and c: "\<not> is_space c"
    using is_token_hd [OF t] by (cases t) auto
  have skip: "SkipSpaces (c # cs @ rest) = c # cs @ rest" by (simp add: SkipSpaces_def c)
  have step: "Tokenize (t @ rest) ts =
      (if Current 1 (t @ rest) \<in> {''('', '')'', ''$'', '',''}
       then Tokenize (Advance 1 (t @ rest)) (ts @ [Current 1 (t @ rest)])
       else if IsAlpha (Current 1 (t @ rest))
       then Tokenize (dropWhile is_word_char (t @ rest)) (ts @ [takeWhile is_word_char (t @ rest)])
       else if Current 2 (t @ rest) \<in> {''&&'', ''||'', ''==''}
       then Tokenize (Advance 2 (t @ rest)) (ts @ [Current 2 (t @ rest)]) else None)"
    by (simp only: tc append_Cons Tokenize.simps(2) skip Let_def list.distinct if_False)
  show ?thesis
  proof (cases "IsAlpha t")
    case True
    then have all: "\<forall>x \<in> set t. is_word_char x" by (simp add: IsAlpha_def)
    have split: "takeWhile is_word_char (t @ rest) = t" "dropWhile is_word_char (t @ rest) = rest"
      using all rest by (cases rest; simp)+
    have w: "is_word_char c" using all tc by simp
    have "Current 1 (t @ rest) = [c]" by (simp add: tc Current_def)
    with w word_char_not_punct [OF w] show ?thesis
      by (simp only: step split) (simp add: IsAlpha_def)
  next
    case False
    with t consider "t = ''(''" | "t = '')''" | "t = ''$''" | "t = '',''" | "t = ''&&''" | "t = ''||''" | "t = ''==''"
      by (auto simp: is_token_def)
    moreover have "\<not> IsAlpha ''&''" "\<not> IsAlpha ''|''" "\<not> IsAlpha ''=''" by code_simp+
    ultimately show ?thesis
      unfolding step by cases (simp_all add: Current_def Advance_def)
  qed
qed

lemma Tokenize_join:
  "\<forall>t \<in> set ts. is_token t \<Longrightarrow> Tokenize (join_with '' '' ts) acc = Some (acc @ ts)"
proof (induction ts arbitrary: acc)
  case (Cons t ts)
  show ?case
  proof (cases ts)
    case Nil
    with Cons.prems Tokenize_token [of t "[]" acc] show ?thesis by simp
  next
    case (Cons u us)
    with Cons.prems have "is_token u" by simp
    obtain c s where s: "join_with '' '' ts = c # s" and c: "\<not> is_space c"
      using is_token_hd [OF \<open>is_token u\<close>] Cons by (cases u; cases us) auto
    have "Tokenize (join_with '' '' (t # ts)) acc = Tokenize (t @ CHR '' '' # c # s) acc"
      using Cons s by simp
    also have "\<dots> = Tokenize (CHR '' '' # c # s) (acc @ [t])"
      by (rule Tokenize_token) (use Cons.prems in simp_all)
    also have "\<dots> = Tokenize (join_with '' '' ts) (acc @ [t])"
      unfolding s by (rule Tokenize_skip [OF c])
    also have "\<dots> = Some ((acc @ [t]) @ ts)" by (rule Cons.IH) (use Cons.prems in simp)
    finally show ?thesis by simp
  qed
qed simp

lemma op_is_token: "op \<in> {''=='', ''if'', ''&&'', ''||'', '',''} \<Longrightarrow> is_token op"
  by (elim insertE emptyE; simp add: is_token_def)

lemma unparse_tokens: "parsable e \<Longrightarrow> \<forall>t \<in> set (unparse e). is_token t"
proof (induction e)
  case (Operation l op r)
  have "is_token ''(''" "is_token '')''" by (simp_all add: is_token_def)
  with Operation op_is_token [of op] show ?case by (simp add: ball_Un)
qed (simp_all add: is_token_def)

lemma ParseCondition_round_trip_any:
  assumes "parsable e"
  shows "ParseCondition (join_with '' '' (unparse e)) = Some (Inr (Some e))"
proof -
  let ?ts = "unparse e"
  have ne: "?ts \<noteq> []" by (cases e) simp_all
  obtain m where m: "parse_fuel ?ts = Suc (Suc (Suc (Suc m)))"
    by (simp add: parse_fuel_def)
  have "ParseAtomicExpression (Suc m) (?ts @ []) = an_expr e []"
    by (rule parse_unparse [OF assms]) (use m in \<open>simp add: parse_fuel_def\<close>)
  then have "ParseLogicalExpression (parse_fuel ?ts) ?ts = an_expr e []" by (simp add: m)
  then show ?thesis
    using Tokenize_join [OF unparse_tokens [OF assms], of "[]"] ne
    by (cases ?ts) (simp_all add: ParseCondition_def)
qed

text \<open>
  (C10) Parsing the printed form of an expression, in which every operation has its
  parentheses, gives the expression back: the five operators, the two kinds of name and
  the constants are read as they were meant, whatever their nesting.  The names are of
  lower-case letters, digits and underscores as \<open>IsAlpha\<close> takes them, and no outcome is
  called \<open>true\<close> or \<open>false\<close> (\<open>parsable\<close>).
\<close>

theorem ParseCondition_round_trip:
  assumes "parsable e"
  shows "ParseCondition (join_with '' '' (unparse e)) = Some (Inr (Some e))"
  by (rule ParseCondition_round_trip_any [OF assms])

theorem ParseCondition_round_trip_witness:
  "ParseCondition ''( ( fail , timeout ) if ( $ mode == debug ) )'' =
     Some (Inr (Some (Operation (Operation (Outcome ''fail'') '','' (Outcome ''timeout'')) ''if''
       (Operation (Variable ''mode'') ''=='' (Outcome ''debug'')))))"
proof -
  let ?e = "Operation (Operation (Outcome ''fail'') '','' (Outcome ''timeout'')) ''if''
       (Operation (Variable ''mode'') ''=='' (Outcome ''debug''))"
  have "parsable ?e" by code_simp
  from ParseCondition_round_trip [OF this] show ?thesis by simp
qed

text \<open>
  (C16) A well-typed expression over definitions that are not circular evaluates, and to
  what it means: with more fuel than the rank of the names it uses, a condition has
  the truth value and an outcome expression the set of outcomes that the meaning
  relations give it, and no other.
\<close>

theorem evaluation_exact:
  assumes "defs_ok rank defs" and "\<forall>n \<in> outcome_names e. has_key defs n \<longrightarrow> rank n < fuel"
  shows "(condition e \<longrightarrow> (\<exists>b. Evaluate fuel env defs e = Some (Inr b) \<and> (\<forall>a. holds env defs e a \<longleftrightarrow> a = b)))
    \<and> (outcome e \<longrightarrow> (\<exists>s. GetOutcomes fuel env defs e = Some (Inr s) \<and>
         (\<forall>t. means env defs e t \<longleftrightarrow> t = denotes s)))"
proof -
  have "rank n < fuel" if "n \<in> outcome_names e" "has_key defs n" for n using assms(2) that by blast
  then have "(condition e \<longrightarrow> (\<exists>b. Evaluate fuel env defs e = Some (Inr b) \<and> holds env defs e b)) \<and>
    (outcome e \<longrightarrow> (\<exists>s. GetOutcomes fuel env defs e = Some (Inr s) \<and> means env defs e (denotes s)))"
    by (rule eval_total [OF assms(1)])
  then show ?thesis using means_unique [of env defs e] by blast
qed

theorem evaluation_exact_witness:
  "GetOutcomes 1 [(''mode'', ''debug'')] [(''bad'', Operation (Outcome ''fail'') '','' (Outcome ''crash''))]
      (Operation (Outcome ''bad'') ''if'' (Operation (Variable ''mode'') ''=='' (Outcome ''debug'')))
    = Some (Inr (ListSet [''fail'', ''crash''])) \<and>
   means [(''mode'', ''debug'')] [(''bad'', Operation (Outcome ''fail'') '','' (Outcome ''crash''))]
      (Operation (Outcome ''bad'') ''if'' (Operation (Variable ''mode'') ''=='' (Outcome ''debug'')))
      {''fail'', ''crash''}"
proof -
  let ?d = "[(''bad'', Operation (Outcome ''fail'') '','' (Outcome ''crash''))]"
  let ?e = "Operation (Outcome ''bad'') ''if'' (Operation (Variable ''mode'') ''=='' (Outcome ''debug''))"
  let ?env = "[(''mode'', ''debug'')]"
  have "defs_ok (\<lambda>_. 0) ?d" by (auto simp: defs_ok_def split: if_splits)
  moreover have "\<forall>n \<in> outcome_names ?e. has_key ?d n \<longrightarrow> (\<lambda>_. 0) n < (1 :: nat)" by simp
  moreover have "outcome ?e" by simp
  moreover have "GetOutcomes 1 ?env ?d ?e = Some (Inr (ListSet [''fail'', ''crash'']))" by code_simp
  ultimately show ?thesis using evaluation_exact [of "\<lambda>_. 0" ?d ?e 1 ?env] by simp
qed

end
