(* ===== verification/Test_Config.thy ===== *)
theory Test_Config
  imports Test_Expr Input_Filters
begin

text \<open>
  The status files and the selection of tests of \<open>tools/test.py\<close>: path patterns,
  rules and sections, the reader \<open>ReadConfigurationInto\<close> (with \<open>ReadLinesFrom\<close> of
  \<open>deps/v8/tools/utils.py\<close>), \<open>Configuration.ClassifyTests\<close>, the suite walk of
  \<open>LiteralTestSuite\<close>, the option checks and the report.

  The four line patterns are translated by hand: a deterministic left-to-right
  match gives their groups, since what follows a repeated class cannot start with
  a character of it or is white space either may take.  The patterns of test paths
  are user input; the engine that compiles them is the parameter \<open>re\<close>.
  A rule is known by its position among the enabled rules, which stands for the
  object identity by which the code keeps its set of unused rules; a set of
  outcomes is a list without repetitions.
\<close>

subsection \<open>Loops over fallible evaluations\<close>

fun filterV :: "('a \<Rightarrow> bool eval) \<Rightarrow> 'a list \<Rightarrow> 'a list eval" where
  "filterV p [] = Some (Inr [])"
| "filterV p (x # xs) = bindV (p x) (\<lambda>b. bindV (filterV p xs) (\<lambda>ys. Some (Inr (if b then x # ys else ys))))"

lemma filterV_InrD:
  "filterV p xs = Some (Inr ys) \<Longrightarrow>
    ys = filter (\<lambda>x. p x = Some (Inr True)) xs \<and> (\<forall>x \<in> set xs. \<exists>b. p x = Some (Inr b))"
  by (induction xs arbitrary: ys) (auto simp: bindV_Inr_iff split: if_splits)

subsection \<open>Patterns and paths\<close>

definition pattern_source :: "string \<Rightarrow> string" where
  "pattern_source pattern = ''^'' @ replace_char (CHR ''*'') ''.*'' pattern @ ''$''"

definition Pattern_match :: "re_engine \<Rightarrow> string \<Rightarrow> string \<Rightarrow> bool res" where
  "Pattern_match re pattern str = bindE (re (pattern_source pattern)) (\<lambda>compiled. Inr (compiled str))"

definition SplitPath :: "string \<Rightarrow> string list" where
  "SplitPath s = filter (\<lambda>c. 0 < length c) (map strip (split_on (CHR ''/'') s))"

fun contains_loop :: "re_engine \<Rightarrow> (string \<times> string) list \<Rightarrow> bool res" where
  "contains_loop re [] = Inr True"
| "contains_loop re ((p, f) # rest) =
     bindE (Pattern_match re p f) (\<lambda>m. if \<not> m then Inr False else contains_loop re rest)"

definition Contains :: "re_engine \<Rightarrow> string list \<Rightarrow> string list \<Rightarrow> bool res" where
  "Contains re path file =
     (if length path > length file then Inr False else contains_loop re (zip path file))"

definition CarCdr :: "'a list \<Rightarrow> 'a option \<times> 'a list" where
  "CarCdr path = (case path of [] \<Rightarrow> (None, []) | x # xs \<Rightarrow> (Some x, xs))"

text \<open>A pattern path covers a test when each of its components matches the test's.\<close>

definition component_matches :: "re_engine \<Rightarrow> string \<Rightarrow> string \<Rightarrow> bool" where
  "component_matches re p f \<longleftrightarrow> (\<exists>m. re (pattern_source p) = Inr m \<and> m f)"

definition covers :: "re_engine \<Rightarrow> string list \<Rightarrow> string list \<Rightarrow> bool" where
  "covers re path file \<longleftrightarrow>
     length path \<le> length file \<and> (\<forall>i < length path. component_matches re (path ! i) (file ! i))"

lemma contains_loop_Inr:
  "contains_loop re pfs = Inr b \<Longrightarrow> b \<longleftrightarrow> (\<forall>(p, f) \<in> set pfs. component_matches re p f)"
proof (induction pfs arbitrary: b)
  case (Cons pf rest)
  obtain p f where pf: "pf = (p, f)" by (cases pf)
  with Cons.prems obtain m where m: "Pattern_match re p f = Inr m"
    and b: "(if \<not> m then Inr False else contains_loop re rest) = Inr b" by (auto simp: bindE_Inr_iff)
  from m have "m \<longleftrightarrow> component_matches re p f"
    by (auto simp: Pattern_match_def component_matches_def bindE_Inr_iff)
  with b Cons.IH [of b] pf show ?case by (cases m) auto
qed simp

lemma Contains_Inr: "Contains re path file = Inr b \<Longrightarrow> b \<longleftrightarrow> covers re path file"
proof (cases "length path > length file")
  case False
  assume "Contains re path file = Inr b"
  with False contains_loop_Inr [of re "zip path file" b]
  have "b \<longleftrightarrow> (\<forall>(p, f) \<in> set (zip path file). component_matches re p f)" by (simp add: Contains_def)
  with False show ?thesis by (auto simp: covers_def set_zip)
qed (auto simp: Contains_def covers_def)

subsection \<open>Rules, sections and tests\<close>

record rule =
  raw_path :: string
  rule_path :: "string list"
  rule_value :: expr

record status_section =
  scondition :: "expr option"
  rules :: "rule list"

record test_case =
  test_path :: "string list"
  test_mode :: string
  outcomes :: "string list"

abbreviation SKIP :: string where "SKIP \<equiv> ''skip''"
abbreviation FAIL :: string where "FAIL \<equiv> ''fail''"
abbreviation PASS :: string where "PASS \<equiv> ''pass''"
abbreviation OKAY :: string where "OKAY \<equiv> ''okay''"
abbreviation TIMEOUT :: string where "TIMEOUT \<equiv> ''timeout''"
abbreviation CRASH :: string where "CRASH \<equiv> ''crash''"
abbreviation SLOW :: string where "SLOW \<equiv> ''slow''"

definition AddRule :: "status_section \<Rightarrow> rule \<Rightarrow> status_section" where
  "AddRule s r = s\<lparr>rules := rules s @ [r]\<rparr>"

definition Rule_GetOutcomes ::
  "nat \<Rightarrow> (string \<times> string) list \<Rightarrow> (string \<times> expr) list \<Rightarrow> rule \<Rightarrow> string list eval" where
  "Rule_GetOutcomes fuel env defs r =
     bindV (GetOutcomes fuel env defs (rule_value r)) (\<lambda>s.
       case s of ListSet elms \<Rightarrow> Some (Inr elms) | _ \<Rightarrow> Some (Inl AssertionError))"

text \<open>A section whose header did not parse has the condition \<open>None\<close>, which has no \<open>Evaluate\<close>.\<close>

definition section_enabled ::
  "nat \<Rightarrow> (string \<times> string) list \<Rightarrow> (string \<times> expr) list \<Rightarrow> status_section \<Rightarrow> bool eval" where
  "section_enabled fuel env defs s =
     (case scondition s of
        None \<Rightarrow> no_attribute ''Evaluate''
      | Some c \<Rightarrow> Evaluate fuel env defs c)"

subsection \<open>Classifying tests\<close>

definition set_union :: "string list \<Rightarrow> string list \<Rightarrow> string list" where
  "set_union a b = foldl (\<lambda>s x. if x \<in> set s then s else s @ [x]) a b"

record classification =
  classified :: "test_case list"
  unused_rules :: "nat list"
  all_outcomes :: "string list"

definition classify_case ::
  "nat \<Rightarrow> re_engine \<Rightarrow> (string \<times> string) list \<Rightarrow> (string \<times> expr) list \<Rightarrow> rule list \<Rightarrow>
    classification \<Rightarrow> test_case \<Rightarrow> classification eval" where
  "classify_case fuel re env defs all_rules st tcase =
     bindV (filterV (\<lambda>i. Some (Contains re (rule_path (all_rules ! i)) (test_path tcase)))
              [0..<length all_rules]) (\<lambda>matches.
     bindV (foldV (\<lambda>(outs, unused) i.
              bindV (Rule_GetOutcomes fuel env defs (all_rules ! i)) (\<lambda>elms.
                Some (Inr (set_union outs elms, remove1 i unused))))
              ([], unused_rules st) matches) (\<lambda>(outs, unused).
       let outs = (if outs = [] then [PASS] else outs) in
       Some (Inr \<lparr>classified = classified st @ [tcase\<lparr>outcomes := outs\<rparr>],
                  unused_rules = unused,
                  all_outcomes = set_union (all_outcomes st) outs\<rparr>)))"

definition ClassifyTests ::
  "nat \<Rightarrow> re_engine \<Rightarrow> status_section list \<Rightarrow> (string \<times> expr) list \<Rightarrow> test_case list \<Rightarrow>
    (string \<times> string) list \<Rightarrow> classification eval" where
  "ClassifyTests fuel re sections defs cases env =
     bindV (filterV (section_enabled fuel env defs) sections) (\<lambda>sections.
       let all_rules = concat (map rules sections) in
       foldV (classify_case fuel re env defs all_rules)
         \<lparr>classified = [], unused_rules = [0..<length all_rules], all_outcomes = []\<rparr> cases)"

lemma set_set_union [simp]: "set (set_union a b) = set a \<union> set b"
  unfolding set_union_def by (induction b arbitrary: a) auto

lemma distinct_set_union: "distinct a \<Longrightarrow> distinct (set_union a b)"
  unfolding set_union_def by (induction b arbitrary: a) auto

text \<open>What a test is expected to do: the outcomes of every rule that covers it, or to pass.\<close>

definition rule_outcomes ::
  "nat \<Rightarrow> (string \<times> string) list \<Rightarrow> (string \<times> expr) list \<Rightarrow> rule \<Rightarrow> string set" where
  "rule_outcomes fuel env defs r =
     (case GetOutcomes fuel env defs (rule_value r) of Some (Inr s) \<Rightarrow> denotes s | _ \<Rightarrow> {})"

definition expected_outcomes ::
  "nat \<Rightarrow> re_engine \<Rightarrow> (string \<times> string) list \<Rightarrow> (string \<times> expr) list \<Rightarrow> rule list \<Rightarrow> string list \<Rightarrow> string set" where
  "expected_outcomes fuel re env defs rs path =
     (let os = \<Union>{rule_outcomes fuel env defs r |r. r \<in> set rs \<and> covers re (rule_path r) path} in
      if os = {} then {PASS} else os)"

lemma expected_outcomes_eq:
  "os = \<Union>{rule_outcomes fuel env defs r |r. r \<in> set rs \<and> covers re (rule_path r) path} \<Longrightarrow>
    expected_outcomes fuel re env defs rs path = (if os = {} then {PASS} else os)"
  unfolding expected_outcomes_def Let_def by (rule arg_cong2 [where f = "\<lambda>a b. if a = {} then {PASS} else b"]) simp_all

lemma Rule_GetOutcomes_Inr:
  "Rule_GetOutcomes fuel env defs r = Some (Inr elms) \<Longrightarrow> rule_outcomes fuel env defs r = set elms"
proof -
  assume "Rule_GetOutcomes fuel env defs r = Some (Inr elms)"
  then obtain s where s: "GetOutcomes fuel env defs (rule_value r) = Some (Inr s)"
    and e: "(case s of ListSet elms \<Rightarrow> Some (Inr elms) | _ \<Rightarrow> Some (Inl AssertionError)) = Some (Inr elms)"
    by (auto simp: Rule_GetOutcomes_def bindV_Inr_iff)
  from e have "s = ListSet elms" by (cases s) simp_all
  with s show ?thesis by (simp add: rule_outcomes_def)
qed

lemma outcome_loop:
  assumes "foldV (\<lambda>(outs, unused) i.
              bindV (Rule_GetOutcomes fuel env defs (rs ! i)) (\<lambda>elms.
                Some (Inr (set_union outs elms, remove1 i unused)))) (outs, unused) is = Some (Inr (outs', unused'))"
    and "distinct unused"
  shows "set outs' = set outs \<union> (\<Union>i \<in> set is. rule_outcomes fuel env defs (rs ! i)) \<and>
    set unused' = set unused - set is \<and> distinct unused'"
  using assms
proof (induction "is" arbitrary: outs unused)
  case (Cons i "is")
  then obtain elms where e: "Rule_GetOutcomes fuel env defs (rs ! i) = Some (Inr elms)"
    and rest: "foldV (\<lambda>(outs, unused) i.
              bindV (Rule_GetOutcomes fuel env defs (rs ! i)) (\<lambda>elms.
                Some (Inr (set_union outs elms, remove1 i unused)))) (set_union outs elms, remove1 i unused) is
          = Some (Inr (outs', unused'))"
    by (auto simp: bindV_Inr_iff)
  from Cons.IH [OF rest] Cons.prems(2) Rule_GetOutcomes_Inr [OF e] show ?case by auto
qed simp

lemma classify_case_Inr:
  assumes "classify_case fuel re env defs rs st c = Some (Inr st')" and "distinct (unused_rules st)"
  shows "\<exists>outs. classified st' = classified st @ [c\<lparr>outcomes := outs\<rparr>] \<and>
      set outs = expected_outcomes fuel re env defs rs (test_path c) \<and>
      set (all_outcomes st') = set (all_outcomes st) \<union> set outs"
    and "set (unused_rules st') =
      set (unused_rules st) - {i. i < length rs \<and> covers re (rule_path (rs ! i)) (test_path c)}"
    and "distinct (unused_rules st')"
proof -
  let ?p = "\<lambda>i. Some (Contains re (rule_path (rs ! i)) (test_path c))"
  from assms(1) obtain ms outs unused where
    m: "filterV ?p [0..<length rs] = Some (Inr ms)"
    and l: "foldV (\<lambda>(outs, unused) i.
              bindV (Rule_GetOutcomes fuel env defs (rs ! i)) (\<lambda>elms.
                Some (Inr (set_union outs elms, remove1 i unused)))) ([], unused_rules st) ms
          = Some (Inr (outs, unused))"
    and st': "st' = \<lparr>classified = classified st @ [c\<lparr>outcomes := if outs = [] then [PASS] else outs\<rparr>],
                  unused_rules = unused,
                  all_outcomes = set_union (all_outcomes st) (if outs = [] then [PASS] else outs)\<rparr>"
    by (auto simp: classify_case_def bindV_Inr_iff Let_def)
  have "Contains re (rule_path (rs ! i)) (test_path c) = Inr (covers re (rule_path (rs ! i)) (test_path c))"
    if "i < length rs" for i
  proof -
    have "i \<in> set [0..<length rs]" using that by simp
    with filterV_InrD [OF m] obtain b where "Contains re (rule_path (rs ! i)) (test_path c) = Inr b" by blast
    with Contains_Inr [OF this] show ?thesis by simp
  qed
  with filterV_InrD [OF m] have ms: "set ms = {i. i < length rs \<and> covers re (rule_path (rs ! i)) (test_path c)}"
    by auto
  note loop = outcome_loop [OF l assms(2)]
  have "(\<Union>i \<in> set ms. rule_outcomes fuel env defs (rs ! i)) =
      \<Union>{rule_outcomes fuel env defs r |r. r \<in> set rs \<and> covers re (rule_path r) (test_path c)}"
    unfolding ms by (auto simp: in_set_conv_nth)
  with loop have "set outs = \<Union>{rule_outcomes fuel env defs r |r. r \<in> set rs \<and> covers re (rule_path r) (test_path c)}"
    by simp
  from expected_outcomes_eq [OF this]
  have "set (if outs = [] then [PASS] else outs) = expected_outcomes fuel re env defs rs (test_path c)" by simp
  with st' show "\<exists>outs. classified st' = classified st @ [c\<lparr>outcomes := outs\<rparr>] \<and>
      set outs = expected_outcomes fuel re env defs rs (test_path c) \<and>
      set (all_outcomes st') = set (all_outcomes st) \<union> set outs" by auto
  from loop ms st' show "set (unused_rules st') =
      set (unused_rules st) - {i. i < length rs \<and> covers re (rule_path (rs ! i)) (test_path c)}"
    and "distinct (unused_rules st')" by simp_all
qed

lemma classify_cases_Inr:
  assumes "foldV (classify_case fuel re env defs rs) st cs = Some (Inr st')" and "distinct (unused_rules st)"
  shows "\<exists>res. classified st' = classified st @ res \<and>
      list_all2 (\<lambda>c d. \<exists>outs. d = c\<lparr>outcomes := outs\<rparr> \<and>
        set outs = expected_outcomes fuel re env defs rs (test_path c)) cs res \<and>
      set (all_outcomes st') = set (all_outcomes st) \<union> (\<Union>d \<in> set res. set (outcomes d))"
    and "set (unused_rules st') = set (unused_rules st) -
      {i. i < length rs \<and> (\<exists>c \<in> set cs. covers re (rule_path (rs ! i)) (test_path c))}"
  using assms
proof (induction cs arbitrary: st)
  case Nil
  { case 1 then show ?case by simp }
  { case 2 then show ?case by simp }
next
  case (Cons c cs)
  {
    case 1
    then obtain s where s: "classify_case fuel re env defs rs st c = Some (Inr s)"
      and r: "foldV (classify_case fuel re env defs rs) s cs = Some (Inr st')" by (auto simp: bindV_Inr_iff)
    obtain outs where o: "classified s = classified st @ [c\<lparr>outcomes := outs\<rparr>]"
      "set outs = expected_outcomes fuel re env defs rs (test_path c)"
      "set (all_outcomes s) = set (all_outcomes st) \<union> set outs"
      using classify_case_Inr(1) [OF s 1(2)] by blast
    obtain res where res: "classified st' = classified s @ res"
      "list_all2 (\<lambda>c d. \<exists>outs. d = c\<lparr>outcomes := outs\<rparr> \<and>
        set outs = expected_outcomes fuel re env defs rs (test_path c)) cs res"
      "set (all_outcomes st') = set (all_outcomes s) \<union> (\<Union>d \<in> set res. set (outcomes d))"
      using Cons.IH(1) [OF r classify_case_Inr(3) [OF s 1(2)]] by blast
    with o show ?case by (intro exI [of _ "c\<lparr>outcomes := outs\<rparr> # res"]) auto
  next
    case 2
    then obtain s where s: "classify_case fuel re env defs rs st c = Some (Inr s)"
      and r: "foldV (classify_case fuel re env defs rs) s cs = Some (Inr st')" by (auto simp: bindV_Inr_iff)
    from Cons.IH(2) [OF r classify_case_Inr(3) [OF s 2(2)]] classify_case_Inr(2) [OF s 2(2)]
    show ?case by auto
  }
qed

definition enabled_rules ::
  "nat \<Rightarrow> (string \<times> string) list \<Rightarrow> (string \<times> expr) list \<Rightarrow> status_section list \<Rightarrow> rule list" where
  "enabled_rules fuel env defs sections =
     concat (map rules (filter (\<lambda>s. section_enabled fuel env defs s = Some (Inr True)) sections))"

text \<open>
  (C17) A classification that succeeds: each test comes back, in order, with the outcomes of exactly the
  rules of the enabled sections whose path covers it, or \<open>pass\<close> when these give
  none; the rules reported unused are those that cover no test; the outcomes
  reported are those of the tests.
\<close>

theorem ClassifyTests_exact:
  assumes "ClassifyTests fuel re sections defs cases env = Some (Inr c)"
  shows "list_all2 (\<lambda>t d. \<exists>outs. d = t\<lparr>outcomes := outs\<rparr> \<and>
           set outs = expected_outcomes fuel re env defs (enabled_rules fuel env defs sections) (test_path t))
           cases (classified c)
    \<and> set (unused_rules c) =
        {i. i < length (enabled_rules fuel env defs sections) \<and>
          (\<forall>t \<in> set cases. \<not> covers re (rule_path (enabled_rules fuel env defs sections ! i)) (test_path t))}
    \<and> set (all_outcomes c) = (\<Union>d \<in> set (classified c). set (outcomes d))"
proof -
  let ?rs = "enabled_rules fuel env defs sections"
  let ?st = "\<lparr>classified = [], unused_rules = [0..<length ?rs], all_outcomes = []\<rparr>"
  from assms obtain ss where "filterV (section_enabled fuel env defs) sections = Some (Inr ss)"
    and fold: "foldV (classify_case fuel re env defs (concat (map rules ss)))
      \<lparr>classified = [], unused_rules = [0..<length (concat (map rules ss))], all_outcomes = []\<rparr> cases = Some (Inr c)"
    by (auto simp: ClassifyTests_def bindV_Inr_iff Let_def)
  with filterV_InrD have rs: "concat (map rules ss) = ?rs" by (force simp: enabled_rules_def)
  note fold = fold [unfolded rs]
  from classify_cases_Inr(1) [OF fold] classify_cases_Inr(2) [OF fold] show ?thesis by auto
qed

text \<open>An engine for patterns without special characters: they match themselves.\<close>

definition literal_re :: re_engine where
  "literal_re p = Inr (\<lambda>s. p = ''^'' @ s @ ''$'')"

theorem ClassifyTests_exact_witness:
  "\<exists>c. ClassifyTests 0 literal_re
      [\<lparr>scondition = Some (Constant True),
        rules = [\<lparr>raw_path = ''simple/a'', rule_path = [''simple'', ''a''], rule_value = Outcome ''fail''\<rparr>,
                 \<lparr>raw_path = ''gc'', rule_path = [''gc''], rule_value = Outcome ''skip''\<rparr>]\<rparr>] []
      [\<lparr>test_path = [''simple'', ''a''], test_mode = ''debug'', outcomes = []\<rparr>,
       \<lparr>test_path = [''simple'', ''b''], test_mode = ''debug'', outcomes = []\<rparr>] [] = Some (Inr c)
    \<and> map outcomes (classified c) = [[''fail''], [''pass'']] \<and> set (unused_rules c) = {1}
    \<and> set (all_outcomes c) = {''fail'', ''pass''}"
proof -
  let ?s = "[\<lparr>scondition = Some (Constant True),
        rules = [\<lparr>raw_path = ''simple/a'', rule_path = [''simple'', ''a''], rule_value = Outcome ''fail''\<rparr>,
                 \<lparr>raw_path = ''gc'', rule_path = [''gc''], rule_value = Outcome ''skip''\<rparr>]\<rparr>]"
  let ?t = "[\<lparr>test_path = [''simple'', ''a''], test_mode = ''debug'', outcomes = []\<rparr>,
       \<lparr>test_path = [''simple'', ''b''], test_mode = ''debug'', outcomes = []\<rparr>]"
  let ?c = "\<lparr>classified = [\<lparr>test_path = [''simple'', ''a''], test_mode = ''debug'', outcomes = [''fail'']\<rparr>,
       \<lparr>test_path = [''simple'', ''b''], test_mode = ''debug'', outcomes = [''pass'']\<rparr>],
      unused_rules = [1], all_outcomes = [''fail'', ''pass'']\<rparr>"
  have run: "ClassifyTests 0 literal_re ?s [] ?t [] = Some (Inr ?c)" by code_simp
  from ClassifyTests_exact [OF run]
  have "set (all_outcomes ?c) = (\<Union>d \<in> set (classified ?c). set (outcomes d))" by blast
  with run show ?thesis by (intro exI [of _ ?c]) simp
qed

text \<open>
  A rule whose value is guarded by a condition that does not hold contributes the
  object \<open>Nothing\<close>, which is not a \<open>ListSet\<close>: instead of expecting the test to
  pass, the classification fails its assertion.
\<close>

theorem ClassifyTests_guarded_rule_asserts:
  "ClassifyTests 0 literal_re
      [\<lparr>scondition = Some (Constant True),
        rules = [\<lparr>raw_path = ''a'', rule_path = [''a''],
          rule_value = Operation (Outcome ''fail'') ''if'' (Constant False)\<rparr>]\<rparr>] []
      [\<lparr>test_path = [''a''], test_mode = ''debug'', outcomes = []\<rparr>] [] = Some (Inl AssertionError)"
  by code_simp

subsection \<open>Reading a status file\<close>

text \<open>\<open>ReadLinesFrom\<close> on the lines of the file: comments and empty lines are dropped.\<close>

definition ReadLinesFrom :: "string list \<Rightarrow> string list" where
  "ReadLinesFrom file_lines =
     filter (\<lambda>l. length l \<noteq> 0) (map (\<lambda>l. strip (takeWhile (\<lambda>c. c \<noteq> CHR ''#'') l)) file_lines)"

text \<open>The groups of \<open>HEADER_PATTERN\<close>, \<open>RULE_PATTERN\<close>, \<open>DEF_PATTERN\<close> and \<open>PREFIX_PATTERN\<close>.\<close>

definition header_match :: "string \<Rightarrow> string option" where
  "header_match line =
     (case line of
        [] \<Rightarrow> None
      | c # r \<Rightarrow>
          let g = takeWhile (\<lambda>x. x \<noteq> CHR '']'') r in
          if c = CHR ''['' \<and> g \<noteq> [] \<and> length g < length r then Some g else None)"

definition rule_match :: "string \<Rightarrow> (string \<times> string) option" where
  "rule_match line =
     (let s = dropWhile is_space line;
          g = takeWhile (\<lambda>x. x \<noteq> CHR '':'' \<and> x \<noteq> CHR '' '') s;
          r = dropWhile is_space (drop (length g) s)
      in case r of
           c # v \<Rightarrow> if c = CHR '':'' then Some (g, takeWhile (\<lambda>x. x \<noteq> ch_newline) v) else None
         | [] \<Rightarrow> None)"

text \<open>\<open>(.*)$\<close>: the rest of the line, before a final line end if there is one.\<close>

definition to_line_end :: "string \<Rightarrow> string option" where
  "to_line_end s =
     (let g = takeWhile (\<lambda>x. x \<noteq> ch_newline) s; r = drop (length g) s in
      if r = [] \<or> r = [ch_newline] then Some g else None)"

definition def_match :: "string \<Rightarrow> (string \<times> string) option" where
  "def_match line =
     (if \<not> startswith line ''def'' then None
      else
        let s = dropWhile is_space (drop 3 line);
            name = takeWhile is_word_char s;
            r = dropWhile is_space (drop (length name) s)
        in case r of
             c # v \<Rightarrow> if name \<noteq> [] \<and> c = CHR ''='' then map_option (Pair name) (to_line_end v) else None
           | [] \<Rightarrow> None)"

definition is_prefix_char :: "char \<Rightarrow> bool" where
  "is_prefix_char c \<longleftrightarrow> is_word_char c \<or> c \<in> set ''.-/''"

definition prefix_match :: "string \<Rightarrow> string option" where
  "prefix_match line =
     (let s = dropWhile is_space line; r = drop 6 s; g = dropWhile is_space r in
      if startswith s ''prefix'' \<and> length g < length r \<and> takeWhile is_prefix_char g \<noteq> []
      then (case to_line_end g of
              Some w \<Rightarrow> if w = takeWhile is_prefix_char g then Some w else None
            | None \<Rightarrow> None)
      else None)"

record read_state =
  rs_sections :: "status_section list"
  rs_defs :: "(string \<times> expr) list"
  rs_prefix :: "string list"

text \<open>The current section is the last one appended.\<close>

definition add_rule_to_current :: "status_section list \<Rightarrow> rule \<Rightarrow> status_section list" where
  "add_rule_to_current ss r = butlast ss @ [AddRule (last ss) r]"

fun read_loop :: "read_state \<Rightarrow> string list \<Rightarrow> (bool \<times> read_state) eval" where
  "read_loop st [] = Some (Inr (True, st))"
| "read_loop st (line # ls) =
     (case header_match line of
        Some g \<Rightarrow>
          bindV (ParseCondition (strip g)) (\<lambda>condition.
            read_loop (st\<lparr>rs_sections := rs_sections st @ [\<lparr>scondition = condition, rules = []\<rparr>]\<rparr>) ls)
      | None \<Rightarrow>
          (case rule_match line of
             Some (raw, v) \<Rightarrow>
               bindV (ParseCondition (strip v)) (\<lambda>value.
                 case value of
                   None \<Rightarrow> Some (Inr (False, st))
                 | Some value \<Rightarrow>
                     read_loop (st\<lparr>rs_sections := add_rule_to_current (rs_sections st)
                       \<lparr>raw_path = raw, rule_path = rs_prefix st @ SplitPath (strip raw), rule_value = value\<rparr>\<rparr>) ls)
           | None \<Rightarrow>
               (case def_match line of
                  Some (name, v) \<Rightarrow>
                    bindV (ParseCondition (strip v)) (\<lambda>value.
                      case value of
                        None \<Rightarrow> Some (Inr (False, st))
                      | Some value \<Rightarrow> read_loop (st\<lparr>rs_defs := dict_set (rs_defs st) (lower name) value\<rparr>) ls)
                | None \<Rightarrow>
                    (case prefix_match line of
                       Some p \<Rightarrow> read_loop (st\<lparr>rs_prefix := SplitPath (strip p)\<rparr>) ls
                     | None \<Rightarrow> Some (Inr (False, st))))))"

definition ReadConfigurationInto ::
  "string list \<Rightarrow> status_section list \<Rightarrow> (string \<times> expr) list \<Rightarrow>
    (bool \<times> status_section list \<times> (string \<times> expr) list) eval" where
  "ReadConfigurationInto file_lines sections defs =
     bindV (read_loop \<lparr>rs_sections = sections @ [\<lparr>scondition = Some (Constant True), rules = []\<rparr>],
                       rs_defs = defs, rs_prefix = []\<rparr> (ReadLinesFrom file_lines)) (\<lambda>(ok, st).
       Some (Inr (ok, rs_sections st, rs_defs st)))"

subsection \<open>Status files read back\<close>

text \<open>The lines of a status file, what each stands for, and how each is written.\<close>

datatype status_line =
    Header expr
  | RuleLine "string list" expr
  | DefLine string expr
  | PrefixLine "string list"

abbreviation expr_text :: "expr \<Rightarrow> string" where
  "expr_text e \<equiv> join_with '' '' (unparse e)"

fun write_line :: "status_line \<Rightarrow> string" where
  "write_line (Header e) = ''['' @ expr_text e @ '']''"
| "write_line (RuleLine p e) = join_with ''/'' p @ '': '' @ expr_text e"
| "write_line (DefLine n e) = ''def '' @ n @ '' = '' @ expr_text e"
| "write_line (PrefixLine p) = ''prefix '' @ join_with ''/'' p"

fun apply_line :: "read_state \<Rightarrow> status_line \<Rightarrow> read_state" where
  "apply_line st (Header e) =
     st\<lparr>rs_sections := rs_sections st @ [\<lparr>scondition = Some e, rules = []\<rparr>]\<rparr>"
| "apply_line st (RuleLine p e) =
     st\<lparr>rs_sections := add_rule_to_current (rs_sections st)
       \<lparr>raw_path = join_with ''/'' p, rule_path = rs_prefix st @ p, rule_value = e\<rparr>\<rparr>"
| "apply_line st (DefLine n e) = st\<lparr>rs_defs := dict_set (rs_defs st) n e\<rparr>"
| "apply_line st (PrefixLine p) = st\<lparr>rs_prefix := p\<rparr>"

definition path_chars :: "string \<Rightarrow> bool" where
  "path_chars s \<longleftrightarrow> s \<noteq> [] \<and> (\<forall>c \<in> set s. is_word_char c \<or> c \<in> set ''.-'')"

fun line_ok :: "status_line \<Rightarrow> bool" where
  "line_ok (Header e) = parsable e"
| "line_ok (RuleLine p e) = (p \<noteq> [] \<and> (\<forall>s \<in> set p. path_chars s) \<and> parsable e)"
| "line_ok (DefLine n e) = (is_name n \<and> parsable e)"
| "line_ok (PrefixLine p) = (p \<noteq> [] \<and> (\<forall>s \<in> set p. path_chars s))"

lemma char_facts [simp]:
  "\<not> is_space (CHR ''['')" "\<not> is_space (CHR ''d'')" "\<not> is_space (CHR ''p'')" "\<not> is_space (CHR '':'')"
  "\<not> is_space (CHR ''='')" "is_space (CHR '' '')" "\<not> is_space (CHR '']'')" "is_space ch_newline"
  "\<not> is_space (CHR ''/'')" "\<not> is_space (CHR ''.'')" "\<not> is_space (CHR ''-'')"
  "\<not> is_word_char (CHR '':'')" "\<not> is_word_char (CHR ''#'')" "\<not> is_word_char (CHR '']'')"
  "\<not> is_word_char (CHR ''['')" "\<not> is_word_char ch_newline" "\<not> is_word_char (CHR ''/'')"
  by code_simp+

lemma in_join: "c \<in> set (join_with sep ws) \<Longrightarrow> c \<in> set sep \<or> (\<exists>w \<in> set ws. c \<in> set w)"
  by (induction sep ws rule: join_with.induct) auto

lemma hd_join: "ws \<noteq> [] \<Longrightarrow> hd ws \<noteq> [] \<Longrightarrow> hd (join_with sep ws) = hd (hd ws) \<and> join_with sep ws \<noteq> []"
  by (cases "(sep, ws)" rule: join_with.cases) auto

lemma last_join: "ws \<noteq> [] \<Longrightarrow> last ws \<noteq> [] \<Longrightarrow> last (join_with sep ws) = last (last ws) \<and> join_with sep ws \<noteq> []"
  by (induction sep ws rule: join_with.induct) auto

lemma token_char: "is_token t \<Longrightarrow> c \<in> set t \<Longrightarrow> is_word_char c \<or> c \<in> set ''()$,&|=''"
  unfolding is_token_def IsAlpha_def by (elim disjE insertE emptyE conjE) simp_all

lemma token_char_not_space: "is_token t \<Longrightarrow> c \<in> set t \<Longrightarrow> \<not> is_space c"
  using token_char [of t c] by (auto simp: is_space_def dest: word_char_not_space)

lemma expr_text_char:
  "parsable e \<Longrightarrow> c \<in> set (expr_text e) \<Longrightarrow> c = CHR '' '' \<or> is_word_char c \<or> c \<in> set ''()$,&|=''"
  using in_join [of c "'' ''" "unparse e"] unparse_tokens [of e] token_char by fastforce

lemma expr_text_ends:
  assumes "parsable e"
  shows "expr_text e \<noteq> []" "\<not> is_space (hd (expr_text e))" "\<not> is_space (last (expr_text e))"
proof -
  have ne: "unparse e \<noteq> []" by (cases e) simp_all
  have tok: "t \<noteq> [] \<and> \<not> is_space (hd t) \<and> \<not> is_space (last t)" if "t \<in> set (unparse e)" for t
    using unparse_tokens [OF assms] that is_token_hd token_char_not_space [of t "last t"] by simp
  have h: "hd (unparse e) \<in> set (unparse e)" and l: "last (unparse e) \<in> set (unparse e)" using ne by simp_all
  from hd_join [OF ne, of "'' ''"] last_join [OF ne, of "'' ''"] tok [OF h] tok [OF l]
  show "expr_text e \<noteq> []" "\<not> is_space (hd (expr_text e))" "\<not> is_space (last (expr_text e))" by simp_all
qed

lemma strip_pad: "s \<noteq> [] \<Longrightarrow> \<not> is_space (hd s) \<Longrightarrow> \<not> is_space (last s) \<Longrightarrow> strip (CHR '' '' # s) = s"
  using strip_id [of s] by (simp add: strip_def)

lemma strip_newline: "s \<noteq> [] \<Longrightarrow> \<not> is_space (hd s) \<Longrightarrow> \<not> is_space (last s) \<Longrightarrow> strip (s @ [ch_newline]) = s"
  using strip_id [of s] by (cases s) (auto simp: strip_def)

lemma path_chars_char: "path_chars s \<Longrightarrow> c \<in> set s \<Longrightarrow> is_prefix_char c \<and> c \<noteq> CHR ''/'' \<and> \<not> is_space c"
  by (auto simp: path_chars_def is_prefix_char_def dest: word_char_not_space)

lemma path_text:
  assumes "p \<noteq> []" and "\<forall>s \<in> set p. path_chars s"
  shows "\<forall>c \<in> set (join_with ''/'' p). is_prefix_char c \<and> \<not> is_space c"
    and "join_with ''/'' p \<noteq> []"
    and "SplitPath (strip (join_with ''/'' p)) = p"
proof -
  show chars: "\<forall>c \<in> set (join_with ''/'' p). is_prefix_char c \<and> \<not> is_space c"
    using in_join [of _ "''/''" p] assms(2) path_chars_char by (fastforce simp: is_prefix_char_def)
  from assms have "hd p \<noteq> []" by (simp add: path_chars_def)
  with hd_join [OF assms(1), of "''/''"] show ne: "join_with ''/'' p \<noteq> []" by simp
  have comps: "s \<noteq> [] \<and> strip s = s" if "s \<in> set p" for s
    using assms(2) that strip_id [of s] path_chars_char [of s "hd s"] path_chars_char [of s "last s"]
    by (auto simp: path_chars_def)
  have "strip (join_with ''/'' p) = join_with ''/'' p" using chars ne by (intro strip_id) simp
  moreover have "split_on (CHR ''/'') (join_with ''/'' p) = p"
    using assms path_chars_char by (intro split_on_join_with) auto
  moreover have "map strip p = p" using comps by (intro map_idI) simp
  moreover have "filter (\<lambda>c. 0 < length c) p = p" using comps by (intro filter_True) simp
  ultimately show "SplitPath (strip (join_with ''/'' p)) = p" by (simp add: SplitPath_def)
qed

lemma takeWhile_all_stop: "\<forall>x \<in> set s. P x \<Longrightarrow> \<not> P c \<Longrightarrow> takeWhile P (s @ c # r) = s"
  by (induction s) auto

lemma to_line_end_all:
  assumes "\<forall>x \<in> set s. x \<noteq> ch_newline"
  shows "to_line_end s = Some s"
proof -
  have "takeWhile (\<lambda>x. x \<noteq> ch_newline) s = s" using assms by (simp add: takeWhile_eq_all_conv)
  then show ?thesis unfolding to_line_end_def Let_def by (simp only:) simp
qed

lemma prefix_char_facts:
  "is_prefix_char c \<Longrightarrow> c \<noteq> CHR '':'' \<and> c \<noteq> CHR ''['' \<and> c \<noteq> CHR ''#'' \<and> c \<noteq> ch_newline"
  by (auto simp: is_prefix_char_def)

lemma header_written:
  assumes "parsable e"
  shows "header_match (write_line (Header e)) = Some (expr_text e)"
proof -
  have "\<forall>x \<in> set (expr_text e). x \<noteq> CHR '']''" using expr_text_char [OF assms, of "CHR '']''"] by auto
  from takeWhile_all_stop [OF this, of "CHR '']''" "[]"] expr_text_ends(1) [OF assms]
  show ?thesis by (simp add: header_match_def Let_def)
qed

lemma rule_written:
  assumes "line_ok (RuleLine p e)"
  shows "header_match (write_line (RuleLine p e)) = None"
    and "rule_match (write_line (RuleLine p e)) = Some (join_with ''/'' p, CHR '' '' # expr_text e)"
proof -
  let ?p = "join_with ''/'' p"
  from assms have chars: "\<forall>c \<in> set ?p. is_prefix_char c \<and> \<not> is_space c" and ne: "?p \<noteq> []"
    using path_text(1,2) [of p] by simp_all
  obtain x xs where x: "?p = x # xs" using ne by (cases ?p) auto
  with chars have nb: "x \<noteq> CHR ''[''" "\<not> is_space x" using prefix_char_facts [of x] by auto
  show "header_match (write_line (RuleLine p e)) = None"
    using x nb by (simp add: header_match_def Let_def)
  have "\<forall>c \<in> set ?p. c \<noteq> CHR '':'' \<and> c \<noteq> CHR '' ''"
    using chars prefix_char_facts by fastforce
  from takeWhile_all_stop [OF this, of "CHR '':''" "CHR '' '' # expr_text e"]
  have g: "takeWhile (\<lambda>x. x \<noteq> CHR '':'' \<and> x \<noteq> CHR '' '') (?p @ '': '' @ expr_text e) = ?p" by simp
  have d: "dropWhile is_space (?p @ '': '' @ expr_text e) = ?p @ '': '' @ expr_text e"
    using x nb by simp
  have "takeWhile (\<lambda>x. x \<noteq> ch_newline) (CHR '' '' # expr_text e) = CHR '' '' # expr_text e"
    using expr_text_char [of e ch_newline] assms by (subst takeWhile_eq_all_conv) auto
  with g d show "rule_match (write_line (RuleLine p e)) = Some (?p, CHR '' '' # expr_text e)"
    by (simp add: rule_match_def Let_def)
qed

lemma def_written:
  assumes "line_ok (DefLine n e)"
  shows "header_match (write_line (DefLine n e)) = None" "rule_match (write_line (DefLine n e)) = None"
    and "def_match (write_line (DefLine n e)) = Some (n, CHR '' '' # expr_text e)"
proof -
  from assms have all: "\<forall>c \<in> set n. is_word_char c" and "n \<noteq> []" by (simp_all add: is_name_def IsAlpha_def)
  then obtain x xs where n: "n = x # xs" and x: "is_word_char x" by (cases n) auto
  have sp: "\<not> is_space x" "x \<noteq> CHR '':''" using word_char_not_space [OF x] x by auto
  show "header_match (write_line (DefLine n e)) = None" by (simp add: header_match_def Let_def)
  show "rule_match (write_line (DefLine n e)) = None"
    using n sp by (simp add: rule_match_def Let_def)
  have name: "takeWhile is_word_char (n @ '' = '' @ expr_text e) = n"
    using takeWhile_all_stop [OF all, of "CHR '' ''" "''= '' @ expr_text e"] by simp
  have tail: "to_line_end (CHR '' '' # expr_text e) = Some (CHR '' '' # expr_text e)"
    using expr_text_char [of e ch_newline] assms by (intro to_line_end_all) auto
  have drop: "dropWhile is_space (drop 3 (write_line (DefLine n e))) = n @ '' = '' @ expr_text e"
    using n sp by (simp add: eval_nat_numeral)
  show "def_match (write_line (DefLine n e)) = Some (n, CHR '' '' # expr_text e)"
    unfolding def_match_def Let_def drop name using \<open>n \<noteq> []\<close> tail by simp
qed

lemma prefix_written:
  assumes "line_ok (PrefixLine p)"
  shows "header_match (write_line (PrefixLine p)) = None" "rule_match (write_line (PrefixLine p)) = None"
    and "def_match (write_line (PrefixLine p)) = None"
    and "prefix_match (write_line (PrefixLine p)) = Some (join_with ''/'' p)"
proof -
  let ?p = "join_with ''/'' p"
  from assms have chars: "\<forall>c \<in> set ?p. is_prefix_char c \<and> \<not> is_space c" and ne: "?p \<noteq> []"
    using path_text(1,2) [of p] by simp_all
  obtain x xs where x: "?p = x # xs" using ne by (cases ?p) auto
  with chars have nb: "x \<noteq> CHR '':''" "\<not> is_space x" using prefix_char_facts [of x] by auto
  show "header_match (write_line (PrefixLine p)) = None" by (simp add: header_match_def Let_def)
  show "rule_match (write_line (PrefixLine p)) = None" using x nb by (simp add: rule_match_def Let_def)
  show "def_match (write_line (PrefixLine p)) = None" by (simp add: def_match_def)
  have all: "takeWhile is_prefix_char ?p = ?p" using chars by (subst takeWhile_eq_all_conv) simp
  have e: "to_line_end ?p = Some ?p" using chars prefix_char_facts by (intro to_line_end_all) fastforce
  have d: "dropWhile is_space (drop 6 (write_line (PrefixLine p))) = ?p"
    using x nb by (simp add: eval_nat_numeral)
  have w: "dropWhile is_space (write_line (PrefixLine p)) = write_line (PrefixLine p)" by simp
  show "prefix_match (write_line (PrefixLine p)) = Some ?p"
    unfolding prefix_match_def Let_def w d all e using ne by simp
qed

lemma read_written_line:
  assumes "line_ok l"
  shows "read_loop st (write_line l # ls) = read_loop (apply_line st l) ls"
proof (cases l)
  case (Header e)
  with assms have e: "parsable e" by simp
  have "strip (expr_text e) = expr_text e" using expr_text_ends [OF e] by (intro strip_id) simp
  with Header header_written [OF e] ParseCondition_round_trip_any [OF e] show ?thesis by simp
next
  case (RuleLine p e)
  with assms have ok: "line_ok (RuleLine p e)" and e: "parsable e" by simp_all
  with RuleLine rule_written [OF ok] ParseCondition_round_trip_any [OF e] strip_pad [OF expr_text_ends [OF e]]
    path_text(3) [of p] show ?thesis by simp
next
  case (DefLine n e)
  with assms have ok: "line_ok (DefLine n e)" and e: "parsable e" and n: "is_name n" by simp_all
  with DefLine def_written [OF ok] ParseCondition_round_trip_any [OF e] strip_pad [OF expr_text_ends [OF e]]
  show ?thesis by simp
next
  case (PrefixLine p)
  with assms have ok: "line_ok (PrefixLine p)" by simp
  with PrefixLine prefix_written [OF ok] path_text(3) [of p] show ?thesis by simp
qed

lemma read_written: "\<forall>l \<in> set ls. line_ok l \<Longrightarrow>
    read_loop st (map write_line ls) = Some (Inr (True, foldl apply_line st ls))"
  by (induction ls arbitrary: st) (simp_all add: read_written_line del: read_loop.simps(2))

lemma written_char: "line_ok l \<Longrightarrow> c \<in> set (write_line l) \<Longrightarrow> c \<noteq> CHR ''#''"
proof (cases l)
  case (RuleLine p e)
  assume "line_ok l" "c \<in> set (write_line l)"
  with RuleLine path_text(1) [of p] prefix_char_facts [of c] expr_text_char [of e c] show ?thesis by auto
next
  case (PrefixLine p)
  assume "line_ok l" "c \<in> set (write_line l)"
  with PrefixLine path_text(1) [of p] prefix_char_facts [of c] show ?thesis by auto
next
  case (Header e)
  assume "line_ok l" "c \<in> set (write_line l)"
  with Header expr_text_char [of e c] show ?thesis by auto
next
  case (DefLine n e)
  assume "line_ok l" "c \<in> set (write_line l)"
  with DefLine expr_text_char [of e c] show ?thesis by (auto simp: is_name_def IsAlpha_def)
qed

lemma written_ends: "line_ok l \<Longrightarrow>
    write_line l \<noteq> [] \<and> \<not> is_space (hd (write_line l)) \<and> \<not> is_space (last (write_line l))"
proof (cases l)
  case (RuleLine p e)
  assume "line_ok l"
  with RuleLine path_text(1,2) [of p] expr_text_ends [of e] show ?thesis by simp
next
  case (PrefixLine p)
  assume "line_ok l"
  with PrefixLine path_text(1,2) [of p] show ?thesis by simp
qed (simp_all add: expr_text_ends)

lemma ReadLines_written:
  "\<forall>l \<in> set ls. line_ok l \<Longrightarrow> ReadLinesFrom (map (\<lambda>l. write_line l @ [ch_newline]) ls) = map write_line ls"
proof (induction ls)
  case (Cons l ls)
  have "takeWhile (\<lambda>c. c \<noteq> CHR ''#'') (write_line l @ [ch_newline]) = write_line l @ [ch_newline]"
    using written_char [of l] Cons.prems by (subst takeWhile_eq_all_conv) auto
  with Cons strip_newline [of "write_line l"] written_ends [of l] show ?case
    by (simp add: ReadLinesFrom_def)
qed (simp add: ReadLinesFrom_def)

text \<open>
  Reading a status file that was written line by line gives its meaning: every
  header opens a section, every rule goes to the section opened last under the
  prefix in force, every definition is stored under its name, and the reader
  accepts the file.
\<close>

theorem ReadConfigurationInto_written:
  assumes "\<forall>l \<in> set ls. line_ok l"
  shows "ReadConfigurationInto (map (\<lambda>l. write_line l @ [ch_newline]) ls) sections defs =
    (let st = foldl apply_line \<lparr>rs_sections = sections @ [\<lparr>scondition = Some (Constant True), rules = []\<rparr>],
                 rs_defs = defs, rs_prefix = []\<rparr> ls
     in Some (Inr (True, rs_sections st, rs_defs st)))"
  by (simp add: ReadConfigurationInto_def ReadLines_written [OF assms] read_written [OF assms] Let_def)

theorem ReadConfigurationInto_written_witness:
  "ReadConfigurationInto [''prefix simple'' @ [ch_newline], ''test-a: ( fail , pass )'' @ [ch_newline]] [] [] =
     Some (Inr (True, [\<lparr>scondition = Some (Constant True), rules =
       [\<lparr>raw_path = ''test-a'', rule_path = [''simple'', ''test-a''],
         rule_value = Operation (Outcome ''fail'') '','' (Outcome ''pass'')\<rparr>]\<rparr>], []))"
proof -
  let ?ls = "[PrefixLine [''simple''], RuleLine [''test-a''] (Operation (Outcome ''fail'') '','' (Outcome ''pass''))]"
  have "\<forall>l \<in> set ?ls. line_ok l" by code_simp
  from ReadConfigurationInto_written [OF this, of "[]" "[]"] show ?thesis
    by (simp add: add_rule_to_current_def AddRule_def)
qed

text \<open>
  A header that does not parse is accepted, and the section it opens has no
  condition: the failure shows only when the tests are classified, as an
  \<open>AttributeError\<close>.
\<close>

theorem bad_header_accepted:
  "ReadConfigurationInto [''[&]''] [] [] =
     Some (Inr (True, [\<lparr>scondition = Some (Constant True), rules = []\<rparr>, \<lparr>scondition = None, rules = []\<rparr>], []))
   \<and> ClassifyTests 0 re [\<lparr>scondition = Some (Constant True), rules = []\<rparr>, \<lparr>scondition = None, rules = []\<rparr>]
       [] cases env = Some (Inl (AttributeError ''Evaluate''))"
proof
  show "ReadConfigurationInto [''[&]''] [] [] =
     Some (Inr (True, [\<lparr>scondition = Some (Constant True), rules = []\<rparr>, \<lparr>scondition = None, rules = []\<rparr>], []))"
    by code_simp
qed (simp add: ClassifyTests_def section_enabled_def)

end
