(* ===== verification/Test_Runner.thy ===== *)
theory Test_Runner
  imports Test_Config "HOL-Library.Multiset"
begin

text \<open>
  Running the tests in \<open>tools/test.py\<close>: the verdict on a test's output
  (\<open>TestOutput\<close>), the parallel runner (\<open>ProgressIndicator.Run\<close> and \<open>RunSingle\<close>) and
  what the progress indicators print.

  The runner is a state machine.  A thread of \<open>RunSingle\<close> is where its code is
  between two accesses to shared state (\<open>pc\<close>); \<open>step\<close> lets one thread make its
  next access, and a schedule is any interleaving of such steps.  The lock is part
  of the state.  What a test does when run is the event of the step: it returns an
  output, raises \<open>IOError\<close> or raises something else.  The verdict on the output may
  raise as well, between \<open>acquire\<close> and \<open>release\<close>: the class of a test decides what a
  failure is, and that of \<open>test/message/testcfg.py\<close> opens a file.  An exception of the
  main thread, number 0, sets \<open>terminate\<close>; one of another thread ends that thread only;
  a lock that the thread holds stays locked.  Printing is taken not to fail, and \<open>join\<close> to wait for the thread; an
  asynchronous \<open>KeyboardInterrupt\<close> is left out.
\<close>

unbundle bit_operations_syntax

subsection \<open>The verdict on an output\<close>

record command_output =
  exit_code :: int
  timed_out :: bool
  stdout :: string
  stderr :: string

text \<open>
  The class of a test decides whether it is negative and which outputs are
  failures, or raises an exception; \<open>windows\<close> is \<open>utils.IsWindows()\<close>.
\<close>

record test_class =
  windows :: bool
  IsNegative :: "test_case \<Rightarrow> bool"
  IsFailureOutput :: "test_case \<Rightarrow> command_output \<Rightarrow> bool res"

text \<open>The methods of the base class \<open>TestCase\<close>.\<close>

definition base_test_class :: test_class where
  "base_test_class =
     \<lparr>windows = False, IsNegative = (\<lambda>_. False), IsFailureOutput = (\<lambda>_ out. Inr (exit_code out \<noteq> 0))\<rparr>"

definition SIGABRT :: int where "SIGABRT = 6"

definition HasCrashed :: "test_class \<Rightarrow> command_output \<Rightarrow> bool" where
  "HasCrashed cls out =
     (if windows cls
      then (0x80000000 AND exit_code out) \<noteq> 0 \<and> (0x3FFFFF00 AND exit_code out) = 0
      else if timed_out out then False
      else exit_code out < 0 \<and> exit_code out \<noteq> - SIGABRT)"

definition HasTimedOut :: "command_output \<Rightarrow> bool" where
  "HasTimedOut out = timed_out out"

definition HasFailed :: "test_class \<Rightarrow> test_case \<Rightarrow> command_output \<Rightarrow> bool res" where
  "HasFailed cls t out =
     bindE (IsFailureOutput cls t out) (\<lambda>execution_failed.
       Inr (if IsNegative cls t then \<not> execution_failed else execution_failed))"

definition outcome_of :: "test_class \<Rightarrow> test_case \<Rightarrow> command_output \<Rightarrow> string res" where
  "outcome_of cls t out =
     (if HasCrashed cls out then Inr CRASH else if HasTimedOut out then Inr TIMEOUT
      else bindE (HasFailed cls t out) (\<lambda>failed. Inr (if failed then FAIL else PASS)))"

definition UnexpectedOutput :: "test_class \<Rightarrow> test_case \<Rightarrow> command_output \<Rightarrow> bool res" where
  "UnexpectedOutput cls t out = bindE (outcome_of cls t out) (\<lambda>outcome. Inr (outcome \<notin> set (outcomes t)))"

definition HasPreciousOutput :: "test_class \<Rightarrow> bool \<Rightarrow> test_case \<Rightarrow> command_output \<Rightarrow> bool res" where
  "HasPreciousOutput cls store t out = bindE (UnexpectedOutput cls t out) (\<lambda>u. Inr (u \<and> store))"

subsection \<open>The runner's state\<close>

text \<open>A thread that died of an exception may have held the lock.\<close>

datatype pc =
    Loop
  | Fetching
  | Fetched test_case
  | Announcing test_case
  | Running test_case
  | Finished test_case command_output
  | Ready test_case command_output
  | Recording test_case command_output
  | Counting test_case command_output
  | Reporting test_case command_output
  | Ended "test_case option"
  | Died test_case bool

record progress =
  queue :: "test_case list"
  succeeded :: nat
  remaining :: int
  total :: int
  failed :: "(test_case \<times> command_output) list"
  crashed :: nat
  terminate :: bool
  lock :: "nat option"
  threads :: "pc list"
  announced :: "test_case list"
  reported :: "(test_case \<times> command_output) list"

datatype event = Tick | Returns command_output | RaisesIOError | RaisesOther

text \<open>\<open>ProgressIndicator.__init__\<close> and the threads \<open>Run(tasks)\<close> starts, the main thread first.\<close>

definition init_progress :: "test_case list \<Rightarrow> nat \<Rightarrow> progress" where
  "init_progress cases tasks =
     \<lparr>queue = cases, succeeded = 0, remaining = int (length cases), total = int (length cases),
      failed = [], crashed = 0, terminate = False, lock = None,
      threads = replicate (Suc (tasks - 1)) Loop, announced = [], reported = []\<rparr>"

definition goto :: "progress \<Rightarrow> nat \<Rightarrow> pc \<Rightarrow> progress" where
  "goto s i p = s\<lparr>threads := (threads s)[i := p]\<rparr>"

definition acquire :: "progress \<Rightarrow> nat \<Rightarrow> pc \<Rightarrow> progress option" where
  "acquire s i p = (if lock s = None then Some (goto (s\<lparr>lock := Some i\<rparr>) i p) else None)"

definition die :: "progress \<Rightarrow> nat \<Rightarrow> test_case \<Rightarrow> bool \<Rightarrow> progress" where
  "die s i t locked = goto (if i = 0 then s\<lparr>terminate := True\<rparr> else s) i (Died t locked)"

definition record_output :: "test_class \<Rightarrow> progress \<Rightarrow> test_case \<Rightarrow> command_output \<Rightarrow> progress res" where
  "record_output cls s t out =
     bindE (UnexpectedOutput cls t out) (\<lambda>unexpected. Inr
       (if unexpected
        then s\<lparr>failed := failed s @ [(t, out)], crashed := crashed s + (if HasCrashed cls out then 1 else 0)\<rparr>
        else s\<lparr>succeeded := succeeded s + 1\<rparr>))"

text \<open>The next step of thread \<open>i\<close>, or \<open>None\<close> when it has ended or waits for the lock.\<close>

definition step :: "test_class \<Rightarrow> progress \<Rightarrow> nat \<Rightarrow> event \<Rightarrow> progress option" where
  "step cls s i ev =
     (if i \<ge> length (threads s) then None else
      case threads s ! i of
        Loop \<Rightarrow> Some (goto s i (if terminate s then Ended None else Fetching))
      | Fetching \<Rightarrow>
          (case queue s of
             [] \<Rightarrow> Some (goto s i (Ended None))
           | t # q \<Rightarrow> Some (goto (s\<lparr>queue := q\<rparr>) i (Fetched t)))
      | Fetched t \<Rightarrow> acquire s i (Announcing t)
      | Announcing t \<Rightarrow> Some (goto (s\<lparr>announced := announced s @ [t], lock := None\<rparr>) i (Running t))
      | Running t \<Rightarrow>
          (case ev of
             Tick \<Rightarrow> None
           | Returns out \<Rightarrow> Some (goto s i (Finished t out))
           | RaisesIOError \<Rightarrow> Some (if terminate s then goto s i (Ended (Some t)) else die s i t False)
           | RaisesOther \<Rightarrow> Some (die s i t False))
      | Finished t out \<Rightarrow> Some (goto s i (if terminate s then Ended (Some t) else Ready t out))
      | Ready t out \<Rightarrow> acquire s i (Recording t out)
      | Recording t out \<Rightarrow>
          (case record_output cls s t out of
             Inl e \<Rightarrow> Some (die s i t True)
           | Inr s \<Rightarrow> Some (goto s i (Counting t out)))
      | Counting t out \<Rightarrow> Some (goto (s\<lparr>remaining := remaining s - 1\<rparr>) i (Reporting t out))
      | Reporting t out \<Rightarrow> Some (goto (s\<lparr>reported := reported s @ [(t, out)], lock := None\<rparr>) i Loop)
      | Ended r \<Rightarrow> None
      | Died t locked \<Rightarrow> None)"

inductive runs :: "test_class \<Rightarrow> progress \<Rightarrow> nat \<Rightarrow> progress \<Rightarrow> bool" for cls s where
  start: "runs cls s 0 s"
| more: "runs cls s n u \<Longrightarrow> step cls u i ev = Some v \<Longrightarrow> runs cls s (Suc n) v"

fun ended :: "pc \<Rightarrow> bool" where
  "ended (Ended r) = True"
| "ended (Died t locked) = True"
| "ended _ = False"

definition finished :: "progress \<Rightarrow> bool" where
  "finished s \<longleftrightarrow> (\<forall>p \<in> set (threads s). ended p)"

text \<open>What \<open>Run\<close> does once its threads have ended: \<open>None\<close> when the main thread's exception is raised again.\<close>

definition Run_result :: "progress \<Rightarrow> bool option" where
  "Run_result s = (case hd (threads s) of Died t locked \<Rightarrow> None | _ \<Rightarrow> Some (failed s = []))"

subsection \<open>Mutual exclusion\<close>

fun holds_lock :: "pc \<Rightarrow> bool" where
  "holds_lock (Announcing t) = True"
| "holds_lock (Recording t out) = True"
| "holds_lock (Counting t out) = True"
| "holds_lock (Reporting t out) = True"
| "holds_lock (Died t locked) = locked"
| "holds_lock _ = False"

definition lock_inv :: "progress \<Rightarrow> bool" where
  "lock_inv s \<longleftrightarrow> (\<forall>i < length (threads s). holds_lock (threads s ! i) \<longleftrightarrow> lock s = Some i) \<and>
     (\<forall>i. lock s = Some i \<longrightarrow> i < length (threads s))"

lemma die_simps [simp]:
  "threads (die s i t h) = (threads s)[i := Died t h]" "queue (die s i t h) = queue s" "lock (die s i t h) = lock s"
  "failed (die s i t h) = failed s" "succeeded (die s i t h) = succeeded s" "crashed (die s i t h) = crashed s"
  "remaining (die s i t h) = remaining s" "total (die s i t h) = total s" "reported (die s i t h) = reported s"
  by (simp_all add: die_def goto_def)

lemmas step_unfold = step_def goto_def acquire_def

text \<open>The three ways in which the verdict on an output goes.\<close>

lemma step_recording [consumes 2, case_names raised unexpected expected]:
  assumes "threads s ! i = Recording t out" and "step cls s i ev = Some v"
  obtains e where "UnexpectedOutput cls t out = Inl e" "v = die s i t True"
  | "UnexpectedOutput cls t out = Inr True"
    "v = goto (s\<lparr>failed := failed s @ [(t, out)], crashed := crashed s + (if HasCrashed cls out then 1 else 0)\<rparr>) i
      (Counting t out)"
  | "UnexpectedOutput cls t out = Inr False" "v = goto (s\<lparr>succeeded := succeeded s + 1\<rparr>) i (Counting t out)"
proof (cases "UnexpectedOutput cls t out")
  case (Inl e)
  with assms that(1) show ?thesis by (auto simp: step_def record_output_def split: if_splits)
next
  case (Inr u)
  with assms that(2,3) show ?thesis by (cases u) (auto simp: step_def record_output_def split: if_splits)
qed

lemma step_lock_inv:
  assumes "step cls s i ev = Some v" and "lock_inv s"
  shows "lock_inv v"
proof -
  from assms(1) have i: "i < length (threads s)" by (auto simp: step_def split: if_splits)
  have self: "holds_lock (threads s ! i) \<longleftrightarrow> lock s = Some i" using assms(2) i by (simp add: lock_inv_def)
  show ?thesis
  proof (cases "threads s ! i")
    case (Recording t out)
    from this assms(1) show ?thesis
      by (cases rule: step_recording) (use Recording assms(2) i self in \<open>auto simp: goto_def lock_inv_def nth_list_update\<close>)
  qed (use assms i self in
      \<open>auto simp: step_unfold lock_inv_def nth_list_update split: if_splits list.splits event.splits\<close>)
qed

subsection \<open>No test is lost or run twice\<close>

fun held :: "pc \<Rightarrow> test_case list" where
  "held (Fetched t) = [t]"
| "held (Announcing t) = [t]"
| "held (Running t) = [t]"
| "held (Finished t out) = [t]"
| "held (Ready t out) = [t]"
| "held (Recording t out) = [t]"
| "held (Counting t out) = [t]"
| "held (Reporting t out) = [t]"
| "held (Ended r) = (case r of None \<Rightarrow> [] | Some t \<Rightarrow> [t])"
| "held (Died t locked) = [t]"
| "held _ = []"

definition held_by_threads :: "progress \<Rightarrow> test_case multiset" where
  "held_by_threads s = mset (concat (map held (threads s)))"

definition conserved :: "test_case list \<Rightarrow> progress \<Rightarrow> bool" where
  "conserved cases s \<longleftrightarrow> mset cases = mset (queue s) + held_by_threads s + mset (map fst (reported s))"

lemma held_split:
  "i < length ps \<Longrightarrow> \<exists>M. \<forall>p. mset (concat (map held (ps[i := p]))) = mset (held p) + M"
proof (induction ps arbitrary: i)
  case (Cons q ps)
  show ?case
  proof (cases i)
    case (Suc j)
    with Cons.prems Cons.IH [of j] obtain M where
      "\<forall>p. mset (concat (map held (ps[j := p]))) = mset (held p) + M" by auto
    with Suc show ?thesis by (intro exI [of _ "mset (held q) + M"]) (simp add: ac_simps)
  qed auto
qed simp

lemma step_conserved:
  assumes "step cls s i ev = Some v" and "conserved cases s"
  shows "conserved cases v"
proof -
  from assms(1) have i: "i < length (threads s)" by (auto simp: step_def split: if_splits)
  from held_split [OF this] obtain M where
    upd: "\<And>p. mset (concat (map held ((threads s)[i := p]))) = mset (held p) + M" by blast
  have now: "mset (concat (map held (threads s))) = mset (held (threads s ! i)) + M"
    using upd [of "threads s ! i"] by simp
  show ?thesis
  proof (cases "threads s ! i")
    case (Recording t out)
    from this assms(1) show ?thesis
      by (cases rule: step_recording)
        (use Recording assms(2) upd now in \<open>auto simp: goto_def conserved_def held_by_threads_def simp del: mset_concat\<close>)
  qed (use assms i in
      \<open>auto simp: step_unfold conserved_def held_by_threads_def upd now simp del: mset_concat
        split: if_splits list.splits event.splits option.splits\<close>)
qed

subsection \<open>The counters\<close>

text \<open>The output a thread has recorded and not reported yet, and whether it is already counted.\<close>

fun late_output :: "pc \<Rightarrow> (test_case \<times> command_output) list" where
  "late_output (Counting t out) = [(t, out)]"
| "late_output (Reporting t out) = [(t, out)]"
| "late_output _ = []"

fun late_count :: "pc \<Rightarrow> int" where
  "late_count (Reporting t out) = 1"
| "late_count _ = 0"

definition recorded :: "progress \<Rightarrow> (test_case \<times> command_output) list" where
  "recorded s = reported s @ (case lock s of None \<Rightarrow> [] | Some i \<Rightarrow> late_output (threads s ! i))"

definition counts_inv :: "test_class \<Rightarrow> progress \<Rightarrow> bool" where
  "counts_inv cls s \<longleftrightarrow>
     failed s = filter (\<lambda>(t, out). UnexpectedOutput cls t out = Inr True) (recorded s) \<and>
     succeeded s = length (filter (\<lambda>(t, out). UnexpectedOutput cls t out = Inr False) (recorded s)) \<and>
     succeeded s + length (failed s) = length (recorded s) \<and>
     crashed s = length (filter (\<lambda>(t, out). HasCrashed cls out) (failed s)) \<and>
     remaining s = total s - int (length (reported s)) -
       (case lock s of None \<Rightarrow> 0 | Some i \<Rightarrow> late_count (threads s ! i))"

lemma step_counts_inv:
  assumes "step cls s i ev = Some v" and "lock_inv s" and "counts_inv cls s"
  shows "counts_inv cls v"
proof -
  from assms(1) have i: "i < length (threads s)" by (auto simp: step_def split: if_splits)
  have self: "holds_lock (threads s ! i) \<longleftrightarrow> lock s = Some i" using assms(2) i by (simp add: lock_inv_def)
  show ?thesis
  proof (cases "threads s ! i")
    case (Recording t out)
    from this assms(1) show ?thesis
      by (cases rule: step_recording)
        (use Recording assms(3) i self in \<open>auto simp: goto_def counts_inv_def recorded_def nth_list_update\<close>)
  qed (cases "lock s"; use assms i self in
      \<open>auto simp: step_unfold counts_inv_def recorded_def nth_list_update split: if_splits list.splits event.splits\<close>)+
qed

lemma step_total: "step cls s i ev = Some v \<Longrightarrow> total v = total s \<and> length (threads v) = length (threads s)"
proof (cases "threads s ! i")
  case (Recording t out)
  assume "step cls s i ev = Some v"
  with Recording show ?thesis by (cases rule: step_recording) (auto simp: goto_def die_def)
qed (auto simp: step_unfold die_def split: if_splits list.splits event.splits)

lemma init_inv:
  "lock_inv (init_progress cases tasks)" "counts_inv cls (init_progress cases tasks)"
  "conserved cases (init_progress cases tasks)"
proof -
  have "concat (map held (replicate n Loop)) = []" for n by (induction n) simp_all
  then show "conserved cases (init_progress cases tasks)"
    by (simp add: conserved_def held_by_threads_def init_progress_def)
  show "lock_inv (init_progress cases tasks)"
    by (simp add: lock_inv_def init_progress_def nth_Cons' del: replicate_Suc)
  show "counts_inv cls (init_progress cases tasks)"
    by (simp add: counts_inv_def recorded_def init_progress_def)
qed

lemma runs_inv:
  assumes "runs cls (init_progress cases tasks) n s"
  shows "lock_inv s \<and> counts_inv cls s \<and> conserved cases s \<and> total s = int (length cases) \<and>
    length (threads s) = Suc (tasks - 1)"
  using assms
proof induction
  case start
  show ?case using init_inv(1,3) [of cases tasks] init_inv(2) [of cls cases tasks] by (simp add: init_progress_def)
next
  case (more n u i ev v)
  then show ?case using step_lock_inv step_counts_inv step_conserved step_total by fastforce
qed

subsection \<open>Every run ends\<close>

fun rank :: "pc \<Rightarrow> nat" where
  "rank (Ended r) = 0"
| "rank (Died t locked) = 0"
| "rank Fetching = 1"
| "rank Loop = 2"
| "rank (Reporting t out) = 3"
| "rank (Counting t out) = 4"
| "rank (Recording t out) = 5"
| "rank (Ready t out) = 6"
| "rank (Finished t out) = 7"
| "rank (Running t) = 8"
| "rank (Announcing t) = 9"
| "rank (Fetched t) = 10"

definition work :: "progress \<Rightarrow> nat" where
  "work s = 10 * length (queue s) + sum_list (map rank (threads s))"

lemma rank_split:
  "i < length ps \<Longrightarrow> \<exists>m. \<forall>p. sum_list (map rank (ps[i := p])) = rank p + m"
proof (induction ps arbitrary: i)
  case (Cons q ps)
  show ?case
  proof (cases i)
    case (Suc j)
    with Cons.prems Cons.IH [of j] obtain m where
      "\<forall>p. sum_list (map rank (ps[j := p])) = rank p + m" by auto
    with Suc show ?thesis by (intro exI [of _ "rank q + m"]) simp
  qed auto
qed simp

lemma step_work:
  assumes "step cls s i ev = Some v"
  shows "work v < work s"
proof -
  from assms have i: "i < length (threads s)" by (auto simp: step_def split: if_splits)
  from rank_split [OF this] obtain m where
    upd: "\<And>p. sum_list (map rank ((threads s)[i := p])) = rank p + m" by blast
  have now: "sum_list (map rank (threads s)) = rank (threads s ! i) + m"
    using upd [of "threads s ! i"] by simp
  show ?thesis
  proof (cases "threads s ! i")
    case (Recording t out)
    from this assms show ?thesis
      by (cases rule: step_recording) (use Recording upd now in \<open>auto simp: goto_def work_def\<close>)
  qed (use assms i in \<open>auto simp: step_unfold work_def upd now split: if_splits list.splits event.splits\<close>)
qed

lemma runs_work: "runs cls s n v \<Longrightarrow> n + work v \<le> work s"
  by (induction rule: runs.induct) (auto dest: step_work)

lemma progress_possible:
  assumes "lock_inv s" and "\<not> finished s"
  shows "(\<exists>i ev v. step cls s i ev = Some v) \<or>
    (\<exists>i t. i < length (threads s) \<and> threads s ! i = Died t True \<and> lock s = Some i)"
proof (cases "lock s")
  case (Some i)
  with assms(1) have i: "i < length (threads s)" "holds_lock (threads s ! i)" by (auto simp: lock_inv_def)
  show ?thesis
  proof (cases "\<exists>t. threads s ! i = Died t True")
    case True
    with i Some show ?thesis by blast
  next
    case False
    with i have "\<exists>v. step cls s i Tick = Some v"
      by (cases "threads s ! i") (auto simp: step_def split: sum.split)
    then show ?thesis by blast
  qed
next
  case None
  from assms(2) obtain i where i: "i < length (threads s)" "\<not> ended (threads s ! i)"
    by (auto simp: finished_def in_set_conv_nth)
  with None have "\<exists>v. step cls s i RaisesOther = Some v"
    by (cases "threads s ! i") (auto simp: step_def acquire_def split: list.splits sum.split)
  then show ?thesis by blast
qed

text \<open>
  (C6) The accounting of the runner, at every moment of every interleaving: at most one
  thread is in a section guarded by the lock; every test is in the queue, with one
  thread or reported, exactly as often as it was given; and the counters are those
  of the outputs recorded so far.
\<close>

theorem RunSingle_accounting:
  assumes "runs cls (init_progress cases tasks) n s"
  shows "(\<forall>i j. i < length (threads s) \<longrightarrow> j < length (threads s) \<longrightarrow>
        holds_lock (threads s ! i) \<longrightarrow> holds_lock (threads s ! j) \<longrightarrow> i = j)
    \<and> mset cases = mset (queue s) + held_by_threads s + mset (map fst (reported s))
    \<and> failed s = filter (\<lambda>(t, out). UnexpectedOutput cls t out = Inr True) (recorded s)
    \<and> succeeded s + length (failed s) = length (recorded s)
    \<and> crashed s = length (filter (\<lambda>(t, out). HasCrashed cls out) (failed s))
    \<and> (lock s = None \<longrightarrow> remaining s = int (length cases) - int (succeeded s) - int (length (failed s)))"
proof -
  from runs_inv [OF assms] have inv: "lock_inv s" "counts_inv cls s" "conserved cases s" "total s = int (length cases)"
    by simp_all
  have "i = j" if "i < length (threads s)" "j < length (threads s)" "holds_lock (threads s ! i)"
    "holds_lock (threads s ! j)" for i j using inv(1) that by (simp add: lock_inv_def)
  moreover from inv(3) have "mset cases = mset (queue s) + held_by_threads s + mset (map fst (reported s))"
    by (simp add: conserved_def)
  moreover have "remaining s = int (length cases) - int (succeeded s) - int (length (failed s))" if "lock s = None"
  proof -
    from inv(2,4) that have "succeeded s + length (failed s) = length (reported s)"
      and "remaining s = int (length cases) - int (length (reported s))"
      by (auto simp: counts_inv_def recorded_def)
    then show ?thesis by linarith
  qed
  ultimately show ?thesis using inv(2) unfolding counts_inv_def by blast
qed

definition sample_case :: "string \<Rightarrow> test_case" where
  "sample_case n = \<lparr>test_path = [n], test_mode = ''release'', outcomes = [PASS]\<rparr>"

definition sample_output :: "int \<Rightarrow> command_output" where
  "sample_output code = \<lparr>exit_code = code, timed_out = False, stdout = [], stderr = []\<rparr>"

text \<open>A schedule run from a state, for examples.\<close>

fun run_schedule :: "test_class \<Rightarrow> progress \<Rightarrow> (nat \<times> event) list \<Rightarrow> progress option" where
  "run_schedule cls s [] = Some s"
| "run_schedule cls s ((i, ev) # sched) =
     (case step cls s i ev of None \<Rightarrow> None | Some v \<Rightarrow> run_schedule cls v sched)"

lemma run_schedule_runs:
  "runs cls s n u \<Longrightarrow> run_schedule cls u sched = Some v \<Longrightarrow> runs cls s (n + length sched) v"
proof (induction sched arbitrary: n u)
  case (Cons e sched)
  obtain i ev where e: "e = (i, ev)" by (cases e)
  with Cons.prems(2) obtain w where w: "step cls u i ev = Some w" "run_schedule cls w sched = Some v"
    by (auto split: option.splits)
  from Cons.IH [OF runs.more [OF Cons.prems(1) w(1)] w(2)] show ?case by simp
qed simp

lemma run_schedule_runs0: "run_schedule cls s sched = Some v \<Longrightarrow> runs cls s (length sched) v"
  using run_schedule_runs [OF runs.start, of cls s sched v] by simp

definition one_test :: "nat \<Rightarrow> event \<Rightarrow> (nat \<times> event) list" where
  "one_test i ev = [(i, Tick), (i, Tick), (i, Tick), (i, Tick), (i, ev), (i, Tick), (i, Tick), (i, Tick), (i, Tick), (i, Tick)]"

theorem RunSingle_accounting_witness:
  "\<exists>s n. runs base_test_class (init_progress [sample_case ''a'', sample_case ''b''] 2) n s \<and>
     queue s = [] \<and> reported s = [(sample_case ''a'', sample_output 1)] \<and>
     mset [sample_case ''a'', sample_case ''b''] =
       mset (queue s) + held_by_threads s + mset (map fst (reported s)) \<and>
     remaining s = 2 - int (succeeded s) - int (length (failed s))"
proof -
  let ?s0 = "init_progress [sample_case ''a'', sample_case ''b''] 2"
  let ?sched = "one_test 0 (Returns (sample_output 1)) @ [(1, Tick), (1, Tick)]"
  define s where "s = the (run_schedule base_test_class ?s0 ?sched)"
  have "run_schedule base_test_class ?s0 ?sched \<noteq> None" by code_simp
  then have run: "run_schedule base_test_class ?s0 ?sched = Some s" by (simp add: s_def)
  have q: "queue s = []" unfolding s_def by code_simp
  have rep: "reported s = [(sample_case ''a'', sample_output 1)]" unfolding s_def by code_simp
  have lk: "lock s = None" unfolding s_def by code_simp
  note facts = q rep lk
  note r = run_schedule_runs0 [OF run]
  from RunSingle_accounting [OF r] r facts show ?thesis by auto
qed

text \<open>A thread dies with the lock only of a verdict that raises, on an output of one of the tests.\<close>

definition verdict_inv :: "test_class \<Rightarrow> test_case list \<Rightarrow> progress \<Rightarrow> bool" where
  "verdict_inv cls cases s \<longleftrightarrow>
     (\<forall>t. Died t True \<in> set (threads s) \<longrightarrow> t \<in> set cases \<and> (\<exists>out. isl (UnexpectedOutput cls t out)))"

lemma step_verdict_inv:
  assumes "step cls s i ev = Some v" and "conserved cases s" and "verdict_inv cls cases s"
  shows "verdict_inv cls cases v"
proof -
  from assms(1) have i: "i < length (threads s)" by (auto simp: step_def split: if_splits)
  show ?thesis
    unfolding verdict_inv_def
  proof (intro allI impI)
    fix t assume "Died t True \<in> set (threads v)"
    then obtain j where j: "j < length (threads v)" "threads v ! j = Died t True" by (auto simp: in_set_conv_nth)
    show "t \<in> set cases \<and> (\<exists>out. isl (UnexpectedOutput cls t out))"
    proof (cases "threads s ! j = Died t True")
      case True
      moreover have "j < length (threads s)" using j step_total [OF assms(1)] by simp
      ultimately show ?thesis using assms(3) unfolding verdict_inv_def by (metis nth_mem)
    next
      case False
      have "\<exists>out. threads s ! i = Recording t out \<and> isl (UnexpectedOutput cls t out)"
      proof (cases "threads s ! i")
        case (Recording t' out)
        from this assms(1) show ?thesis
          by (cases rule: step_recording)
            (use Recording False i j in \<open>auto simp: goto_def die_def nth_list_update split: if_splits\<close>)
      qed (use assms(1) i j False in
          \<open>auto simp: step_unfold die_def nth_list_update split: if_splits list.splits event.splits\<close>)
      then obtain out where out: "threads s ! i = Recording t out" "isl (UnexpectedOutput cls t out)" by blast
      moreover have "t \<in># held_by_threads s"
        using nth_mem [OF i] out(1) unfolding held_by_threads_def by force
      then have "t \<in># mset cases" using assms(2) unfolding conserved_def by simp
      ultimately show ?thesis using out(2) by auto
    qed
  qed
qed

lemma runs_verdict_inv: "runs cls (init_progress cases tasks) n s \<Longrightarrow> verdict_inv cls cases s"
proof (induction rule: runs.induct)
  case start
  show ?case by (auto simp: verdict_inv_def init_progress_def)
next
  case (more n u i ev v)
  then show ?case using step_verdict_inv runs_inv by blast
qed

text \<open>
  (C14) Every run comes to a stop: it makes at most ten steps per test and two per thread.
  When no thread can go on and yet not all have ended, one has died with the lock held,
  of a verdict on one of the tests that raised an exception; so that, when no verdict
  raises, no interleaving deadlocks on the lock.
\<close>

theorem Run_terminates:
  assumes "runs cls (init_progress cases tasks) n s"
  shows "n \<le> 10 * length cases + 2 * Suc (tasks - 1)
    \<and> (finished s \<or> (\<exists>i ev v. step cls s i ev = Some v) \<or>
        (\<exists>i t. i < length (threads s) \<and> threads s ! i = Died t True \<and> lock s = Some i \<and>
           t \<in> set cases \<and> (\<exists>out. isl (UnexpectedOutput cls t out))))"
proof -
  have "work (init_progress cases tasks) = 10 * length cases + 2 * Suc (tasks - 1)"
    by (simp add: work_def init_progress_def sum_list_replicate)
  then have "n \<le> 10 * length cases + 2 * Suc (tasks - 1)" using runs_work [OF assms] by simp
  moreover have "finished s \<or> (\<exists>i ev v. step cls s i ev = Some v) \<or>
      (\<exists>i t. i < length (threads s) \<and> threads s ! i = Died t True \<and> lock s = Some i)"
    using progress_possible [of s cls] runs_inv [OF assms] by blast
  moreover have "t \<in> set cases \<and> (\<exists>out. isl (UnexpectedOutput cls t out))"
    if "i < length (threads s)" "threads s ! i = Died t True" for i t
    using runs_verdict_inv [OF assms] nth_mem [OF that(1)] that(2) unfolding verdict_inv_def by simp
  ultimately show ?thesis by blast
qed

theorem Run_terminates_witness:
  "\<exists>s n. runs base_test_class (init_progress [sample_case ''a''] 1) n s \<and> n \<le> 12 \<and>
     (\<exists>i ev v. step base_test_class s i ev = Some v)"
proof -
  let ?s0 = "init_progress [sample_case ''a''] 1"
  let ?sched = "[(0, Tick), (0, Tick)]"
  define s where "s = the (run_schedule base_test_class ?s0 ?sched)"
  have "run_schedule base_test_class ?s0 ?sched \<noteq> None" by code_simp
  then have run: "run_schedule base_test_class ?s0 ?sched = Some s" by (simp add: s_def)
  have nf: "\<not> finished s" unfolding s_def by code_simp
  have ok: "\<not> isl (UnexpectedOutput base_test_class t out)" for t out
    by (simp add: UnexpectedOutput_def outcome_of_def HasFailed_def base_test_class_def)
  note r = run_schedule_runs0 [OF run]
  from Run_terminates [OF r] r nf ok show ?thesis by (intro exI [of _ s] exI) auto
qed

text \<open>
  The deadlock: the second thread's verdict raises while it holds the lock, and the main
  thread waits for the lock for ever.
\<close>

definition raising_class :: test_class where
  "raising_class = base_test_class\<lparr>IsFailureOutput := (\<lambda>_ _. Inl (ValueError ''incomplete format''))\<rparr>"

theorem Run_deadlocks:
  "\<exists>s n. runs raising_class (init_progress [sample_case ''a'', sample_case ''b''] 2) n s \<and>
     \<not> finished s \<and> (\<forall>i ev. step raising_class s i ev = None)"
proof -
  let ?s0 = "init_progress [sample_case ''a'', sample_case ''b''] 2"
  let ?sched = "map (\<lambda>_. (1, Tick)) [0..<4] @ [(1, Returns (sample_output 0)), (1, Tick), (1, Tick), (1, Tick)] @
    [(0, Tick), (0, Tick)]"
  define s where "s = the (run_schedule raising_class ?s0 ?sched)"
  have "run_schedule raising_class ?s0 ?sched \<noteq> None" by code_simp
  then have run: "run_schedule raising_class ?s0 ?sched = Some s" by (simp add: s_def)
  have nf: "\<not> finished s" unfolding s_def by code_simp
  have th: "threads s = [Fetched (sample_case ''b''), Died (sample_case ''a'') True]" unfolding s_def by code_simp
  have lk: "lock s = Some 1" unfolding s_def by code_simp
  have "step raising_class s i ev = None" for i ev
  proof (cases i)
    case (Suc j)
    then show ?thesis using th by (cases j) (simp_all add: step_def)
  qed (simp add: step_def th acquire_def lk)
  with run_schedule_runs0 [OF run] nf show ?thesis by blast
qed

subsection \<open>What a finished run means\<close>

text \<open>Only the main thread's exception stops the others, and threads end when the queue is empty.\<close>

definition stop_inv :: "progress \<Rightarrow> bool" where
  "stop_inv s \<longleftrightarrow> threads s \<noteq> [] \<and> (terminate s \<longrightarrow> (\<exists>t locked. threads s ! 0 = Died t locked)) \<and>
     (\<not> terminate s \<longrightarrow> (\<forall>j < length (threads s).
        (threads s ! j = Ended None \<longrightarrow> queue s = []) \<and> (\<forall>t. threads s ! j \<noteq> Ended (Some t))))"

lemma step_stop_inv:
  assumes "step cls s i ev = Some v" and "stop_inv s"
  shows "stop_inv v"
proof -
  from assms(1) have i: "i < length (threads s)" by (auto simp: step_def split: if_splits)
  have pos: "0 < length (threads s)" using i by linarith
  show ?thesis
  proof (cases "threads s ! i")
    case (Running t)
    with assms i pos show ?thesis
      by (cases ev; cases "i = 0") (auto simp: step_def goto_def die_def stop_inv_def nth_list_update split: if_splits)
  next
    case (Recording t out)
    from this assms(1) show ?thesis
      by (cases rule: step_recording; cases "i = 0")
        (use Recording assms(2) i pos in \<open>auto simp: goto_def die_def stop_inv_def nth_list_update\<close>)
  next
    case Fetching
    with assms i pos show ?thesis
      by (cases "queue s"; cases "i = 0") (auto simp: step_def goto_def stop_inv_def nth_list_update split: if_splits)
  qed (cases "i = 0"; use assms i pos in \<open>auto simp: step_unfold stop_inv_def nth_list_update split: if_splits\<close>)+
qed

lemma runs_stop_inv: "runs cls (init_progress cases tasks) n s \<Longrightarrow> stop_inv s"
proof (induction rule: runs.induct)
  case start
  show ?case by (simp add: stop_inv_def init_progress_def nth_Cons')
next
  case (more n u i ev v)
  then show ?case by (blast intro: step_stop_inv)
qed

lemma filter_covers:
  assumes "length (filter P xs) + length (filter Q xs) = length xs" and "\<And>x. P x \<Longrightarrow> \<not> Q x"
  shows "\<forall>x \<in> set xs. P x \<or> Q x"
  using assms(1)
proof (induction xs)
  case (Cons x xs)
  have "length (filter P ys) + length (filter Q ys) \<le> length ys" for ys
    using assms(2) by (induction ys) auto
  from this [of xs] Cons show ?case using assms(2) by (cases "P x"; cases "Q x") auto
qed simp

lemma runs_complete:
  assumes "runs cls (init_progress cases tasks) n s" and "finished s"
    and "\<forall>t locked. Died t locked \<notin> set (threads s)"
  shows "mset (map fst (reported s)) = mset cases \<and> remaining s = 0 \<and>
    Run_result s = Some (\<forall>(t, out) \<in> set (reported s). UnexpectedOutput cls t out = Inr False)"
proof -
  from runs_inv [OF assms(1)] have inv: "lock_inv s" "counts_inv cls s" "conserved cases s"
    "total s = int (length cases)" "threads s \<noteq> []" by auto
  from runs_stop_inv [OF assms(1)] have stop: "stop_inv s" .
  have first: "threads s ! 0 \<in> set (threads s)" using inv(5) by simp
  have running: "\<not> terminate s"
  proof
    assume "terminate s"
    with stop obtain t locked where "threads s ! 0 = Died t locked" by (auto simp: stop_inv_def)
    with first assms(3) show False by metis
  qed
  have ended: "p = Ended None" if "p \<in> set (threads s)" for p
  proof -
    from assms(2) that have "ended p" by (simp add: finished_def)
    moreover have "p \<noteq> Died t locked" for t locked using assms(3) that by blast
    ultimately obtain r where "p = Ended r" by (cases p) auto
    with stop running that show ?thesis by (cases r) (auto simp: stop_inv_def in_set_conv_nth)
  qed
  have "hd (threads s) = Ended None" by (rule ended [OF hd_in_set [OF inv(5)]])
  with hd_in_set [OF inv(5)] have in_threads: "Ended None \<in> set (threads s)" by simp
  with stop running in_threads have q: "queue s = []" by (auto simp: stop_inv_def in_set_conv_nth)
  have "\<not> holds_lock (threads s ! i)" if "i < length (threads s)" for i
    using ended [OF nth_mem [OF that]] by simp
  with inv(1) have lk: "lock s = None" unfolding lock_inv_def by (metis not_None_eq)
  have "held p = []" if "p \<in> set (threads s)" for p using ended [OF that] by simp
  then have "concat (map held (threads s)) = []" by (simp add: concat_eq_Nil_conv)
  with inv(3) q have all: "mset (map fst (reported s)) = mset cases"
    by (simp add: conserved_def held_by_threads_def)
  then have len: "length (reported s) = length cases" by (metis length_map size_mset)
  have "failed s = [] \<longleftrightarrow> (\<forall>(t, out) \<in> set (reported s). UnexpectedOutput cls t out = Inr False)"
  proof -
    have "failed s = [] \<longleftrightarrow> (\<forall>(t, out) \<in> set (reported s). UnexpectedOutput cls t out \<noteq> Inr True)"
      using inv(2) lk by (auto simp: counts_inv_def recorded_def filter_empty_conv)
    moreover have "\<forall>x \<in> set (reported s). (\<lambda>(t, out). UnexpectedOutput cls t out = Inr True) x \<or>
        (\<lambda>(t, out). UnexpectedOutput cls t out = Inr False) x"
      by (rule filter_covers) (use inv(2) lk in \<open>auto simp: counts_inv_def recorded_def\<close>)
    ultimately show ?thesis by fastforce
  qed
  with \<open>hd (threads s) = Ended None\<close> show ?thesis
    using all len inv(2,4) lk by (simp add: Run_result_def counts_inv_def)
qed

text \<open>
  (C15) A run that ends with no exception reports every test exactly once, counts none as
  remaining, and returns success exactly when every test did what was expected of it.
\<close>

theorem Run_complete:
  assumes "runs cls (init_progress cases tasks) n s" and "finished s"
    and "\<forall>t locked. Died t locked \<notin> set (threads s)"
  shows "mset (map fst (reported s)) = mset cases \<and> remaining s = 0 \<and>
    Run_result s = Some (\<forall>(t, out) \<in> set (reported s). UnexpectedOutput cls t out = Inr False)"
  by (rule runs_complete [OF assms])

theorem Run_complete_witness:
  "\<exists>s n. runs base_test_class (init_progress [sample_case ''a''] 1) n s \<and> remaining s = 0 \<and> Run_result s = Some False"
proof -
  let ?s0 = "init_progress [sample_case ''a''] 1"
  let ?sched = "one_test 0 (Returns (sample_output 1)) @ [(0, Tick), (0, Tick)]"
  define s where "s = the (run_schedule base_test_class ?s0 ?sched)"
  have "run_schedule base_test_class ?s0 ?sched \<noteq> None" by code_simp
  then have run: "run_schedule base_test_class ?s0 ?sched = Some s" by (simp add: s_def)
  have fin: "finished s" unfolding s_def by code_simp
  have th: "threads s = [Ended None]" unfolding s_def by code_simp
  have nd: "\<forall>t locked. Died t locked \<notin> set (threads s)" by (simp add: th)
  have un: "(\<forall>(t, out) \<in> set (reported s). UnexpectedOutput base_test_class t out = Inr False) = False" unfolding s_def by code_simp
  note r = run_schedule_runs0 [OF run]
  from Run_complete [OF r fin nd] r un show ?thesis by (intro exI [of _ s] exI) auto
qed

text \<open>
  An exception in a thread other than the main one is not noticed: the test it ran
  is never reported, and the run still returns success.
\<close>

theorem Run_worker_exception_unnoticed:
  "\<exists>s n. runs base_test_class (init_progress [sample_case ''a'', sample_case ''b''] 2) n s \<and> finished s \<and>
     map fst (reported s) = [sample_case ''a''] \<and> Run_result s = Some True"
proof -
  let ?s0 = "init_progress [sample_case ''a'', sample_case ''b''] 2"
  let ?sched = "one_test 0 (Returns (sample_output 0)) @
    [(1, Tick), (1, Tick), (1, Tick), (1, Tick), (1, RaisesOther), (0, Tick), (0, Tick)]"
  define s where "s = the (run_schedule base_test_class ?s0 ?sched)"
  have "run_schedule base_test_class ?s0 ?sched \<noteq> None" by code_simp
  then have run: "run_schedule base_test_class ?s0 ?sched = Some s" by (simp add: s_def)
  have "finished s" unfolding s_def by code_simp
  moreover have "map fst (reported s) = [sample_case ''a'']" unfolding s_def by code_simp
  moreover have "Run_result s = Some True" unfolding s_def by code_simp
  moreover note run_schedule_runs0 [OF run]
  ultimately show ?thesis by (intro exI conjI)
qed

end
