(* ===== verification/Test_Main.thy ===== *)
theory Test_Main
  imports Test_Runner Complex_Main
begin

text \<open>
  What surrounds the runner in \<open>tools/test.py\<close>: waiting for a test process, what the
  progress indicators print for an output, the command wrappers, the options, the
  walk over the suites, the report, and \<open>Main\<close> from the listing of the tests to
  the exit code.

  The operating system is a parameter: \<open>clock k\<close> is the time and \<open>poll k\<close> the exit
  code the process shows the \<open>k\<close>-th time \<open>RunProcess\<close> looks; the tests a suite lists
  and the output a test gives are parameters too.
\<close>

subsection \<open>Waiting for a process\<close>

definition INITIAL_SLEEP_TIME :: rat where "INITIAL_SLEEP_TIME = 1 / 10000"
definition MAX_SLEEP_TIME :: rat where "MAX_SLEEP_TIME = 1 / 10"
definition SLEEP_TIME_FACTOR :: rat where "SLEEP_TIME_FACTOR = 5 / 4"

definition next_sleep :: "rat \<Rightarrow> rat" where
  "next_sleep t = (let t = t * SLEEP_TIME_FACTOR in if t > MAX_SLEEP_TIME then MAX_SLEEP_TIME else t)"

text \<open>The loop of \<open>RunProcess\<close>: the exit code, whether it timed out, and the pauses made.\<close>

partial_function (option) wait_loop ::
  "(nat \<Rightarrow> rat) \<Rightarrow> (nat \<Rightarrow> int option) \<Rightarrow> int \<Rightarrow> rat option \<Rightarrow> rat \<Rightarrow> nat \<Rightarrow> (int \<times> bool \<times> rat list) option" where
  "wait_loop clock poll killed end_time sleep_time k =
     (if (case end_time of None \<Rightarrow> False | Some e \<Rightarrow> clock k \<ge> e) then Some (killed, True, [])
      else
        case poll k of
          Some code \<Rightarrow> Some (code, False, [sleep_time])
        | None \<Rightarrow>
            Option.bind (wait_loop clock poll killed end_time (next_sleep sleep_time) (Suc k))
              (\<lambda>(code, timed, pauses). Some (code, timed, sleep_time # pauses)))"

definition RunProcess ::
  "(nat \<Rightarrow> rat) \<Rightarrow> (nat \<Rightarrow> int option) \<Rightarrow> int \<Rightarrow> rat \<Rightarrow> rat option \<Rightarrow> (int \<times> bool \<times> rat list) option" where
  "RunProcess clock poll killed start timeout =
     wait_loop clock poll killed (map_option (\<lambda>t. start + t) timeout) INITIAL_SLEEP_TIME 0"

text \<open>The moment at which the loop stops looking.\<close>

definition stops_at :: "(nat \<Rightarrow> rat) \<Rightarrow> (nat \<Rightarrow> int option) \<Rightarrow> rat option \<Rightarrow> nat \<Rightarrow> bool" where
  "stops_at clock poll end_time k \<longleftrightarrow> poll k \<noteq> None \<or> (\<exists>e. end_time = Some e \<and> clock k \<ge> e)"

lemma next_sleep_bounds: "0 < t \<Longrightarrow> 0 < next_sleep t \<and> next_sleep t \<le> MAX_SLEEP_TIME"
  by (simp add: next_sleep_def Let_def SLEEP_TIME_FACTOR_def MAX_SLEEP_TIME_def)

lemma wait_loop_stops:
  assumes "stops_at clock poll end_time (k + n)" and "\<forall>j < n. \<not> stops_at clock poll end_time (k + j)"
    and "0 < t" "t \<le> MAX_SLEEP_TIME"
  shows "\<exists>pauses. wait_loop clock poll killed end_time t k =
      (if \<exists>e. end_time = Some e \<and> clock (k + n) \<ge> e then Some (killed, True, pauses)
       else Some (the (poll (k + n)), False, pauses)) \<and> (\<forall>p \<in> set pauses. 0 < p \<and> p \<le> MAX_SLEEP_TIME)"
  using assms
proof (induction n arbitrary: k t)
  case 0
  then show ?case
    by (subst wait_loop.simps) (auto simp: stops_at_def split: option.splits)
next
  case (Suc n)
  have "\<not> stops_at clock poll end_time k" using Suc.prems(2) by force
  then have here: "poll k = None" "\<not> (\<exists>e. end_time = Some e \<and> clock k \<ge> e)" by (auto simp: stops_at_def)
  have "\<forall>j < n. \<not> stops_at clock poll end_time (Suc k + j)" using Suc.prems(2) by auto
  then obtain pauses where p: "wait_loop clock poll killed end_time (next_sleep t) (Suc k) =
      (if \<exists>e. end_time = Some e \<and> clock (Suc k + n) \<ge> e then Some (killed, True, pauses)
       else Some (the (poll (Suc k + n)), False, pauses))" "\<forall>p \<in> set pauses. 0 < p \<and> p \<le> MAX_SLEEP_TIME"
    using Suc.IH [of "Suc k" "next_sleep t"] Suc.prems next_sleep_bounds [of t] by auto
  from here have "\<not> (case end_time of None \<Rightarrow> False | Some e \<Rightarrow> clock k \<ge> e)" by (auto split: option.splits)
  with here p Suc.prems(3,4) show ?case
    by (subst wait_loop.simps) (intro exI [of _ "t # pauses"], auto)
qed

text \<open>
  \<open>RunProcess\<close> returns when the process exits or, with a timeout, when the clock
  passes the end: the first such moment decides the exit code and whether the test
  timed out, and every pause is positive and at most a tenth of a second.
\<close>

theorem RunProcess_returns:
  assumes "stops_at clock poll (map_option (\<lambda>t. start + t) timeout) m"
  shows "\<exists>n pauses. n \<le> m \<and> (\<forall>j < n. poll j = None) \<and>
    stops_at clock poll (map_option (\<lambda>t. start + t) timeout) n \<and>
    RunProcess clock poll killed start timeout =
      (if \<exists>t. timeout = Some t \<and> clock n \<ge> start + t then Some (killed, True, pauses)
       else Some (the (poll n), False, pauses)) \<and>
    (\<forall>p \<in> set pauses. 0 < p \<and> p \<le> MAX_SLEEP_TIME)"
proof -
  let ?stops = "stops_at clock poll (map_option (\<lambda>t. start + t) timeout)"
  define n where "n = (LEAST k. ?stops k)"
  have n: "?stops n" and least: "\<forall>j < n. \<not> ?stops j" and "n \<le> m"
    unfolding n_def using assms by (auto intro: LeastI Least_le dest: not_less_Least)
  have init: "0 < INITIAL_SLEEP_TIME" "INITIAL_SLEEP_TIME \<le> MAX_SLEEP_TIME"
    by (simp_all add: INITIAL_SLEEP_TIME_def MAX_SLEEP_TIME_def)
  have "?stops (0 + n)" "\<forall>j < n. \<not> ?stops (0 + j)" using n least by simp_all
  from wait_loop_stops [OF this init, of killed, unfolded add_0] obtain pauses where
    "wait_loop clock poll killed (map_option (\<lambda>t. start + t) timeout) INITIAL_SLEEP_TIME 0 =
      (if \<exists>e. map_option (\<lambda>t. start + t) timeout = Some e \<and> clock n \<ge> e then Some (killed, True, pauses)
       else Some (the (poll n), False, pauses))" "\<forall>p \<in> set pauses. 0 < p \<and> p \<le> MAX_SLEEP_TIME"
    by blast
  moreover have "\<forall>j < n. poll j = None" using least by (auto simp: stops_at_def)
  ultimately show ?thesis using \<open>n \<le> m\<close> n
    by (intro exI [of _ n] exI [of _ pauses]) (cases timeout; simp add: RunProcess_def)
qed

theorem RunProcess_returns_witness:
  "\<exists>pauses. RunProcess (\<lambda>k. of_nat k) (\<lambda>k. None) (- 15) 0 (Some 3) = Some (- 15, True, pauses)"
proof -
  have "stops_at (\<lambda>k. of_nat k) (\<lambda>k. None) (map_option (\<lambda>t. 0 + t) (Some 3)) 3" by (simp add: stops_at_def)
  from RunProcess_returns [OF this, of "- 15"] obtain n pauses where
    n: "stops_at (\<lambda>k. of_nat k) (\<lambda>k. None) (map_option (\<lambda>t. 0 + t) (Some 3)) n"
    and r: "RunProcess (\<lambda>k. of_nat k) (\<lambda>k. None) (- 15) 0 (Some 3) =
      (if \<exists>t. Some 3 = Some t \<and> (of_nat n :: rat) \<ge> 0 + t then Some (- 15, True, pauses)
       else Some (the None, False, pauses))" by blast
  from n have "(of_nat n :: rat) \<ge> 0 + 3" by (simp add: stops_at_def)
  with r show ?thesis by (intro exI [of _ pauses]) simp
qed

subsection \<open>What is printed\<close>

definition EscapeCommand :: "string list \<Rightarrow> string" where
  "EscapeCommand command =
     join_with '' '' (map (\<lambda>part. if CHR '' '' \<in> set part then [ch_dquote] @ part @ [ch_dquote] else part) command)"

text \<open>\<open>s[:i]\<close>; a negative index counts from the end.\<close>

definition take_slice :: "string \<Rightarrow> int \<Rightarrow> string" where
  "take_slice s i = (if 0 \<le> i then take (nat i) s else take (length s - nat (- i)) s)"

definition Truncate :: "string \<Rightarrow> nat \<Rightarrow> string" where
  "Truncate str len =
     (if len \<noteq> 0 \<and> int (length str) > int len - 3 then take_slice str (int len - 3) @ ''...'' else str)"

definition PrintFailureHeader :: "bool \<Rightarrow> string \<Rightarrow> string list \<Rightarrow> string list" where
  "PrintFailureHeader negative label path =
     [''=== '' @ label @ '' '' @ (if negative then ''[negative] '' else []) @ ''==='',
      ''Path: '' @ join_with ''/'' path]"

definition dots_char :: "test_class \<Rightarrow> test_case \<Rightarrow> command_output \<Rightarrow> char res" where
  "dots_char cls t out =
     bindE (UnexpectedOutput cls t out) (\<lambda>unexpected. Inr
       (if unexpected
        then if HasCrashed cls out then CHR ''C'' else if HasTimedOut out then CHR ''T'' else CHR ''F''
        else CHR ''.''))"

definition Dots_HasRun :: "test_class \<Rightarrow> progress \<Rightarrow> test_case \<Rightarrow> command_output \<Rightarrow> string res" where
  "Dots_HasRun cls s t out =
     (let total = succeeded s + length (failed s) in
      bindE (dots_char cls t out) (\<lambda>c.
        Inr ((if total > 1 \<and> total mod 50 = 1 then [ch_newline] else []) @ [c])))"

definition Verbose_HasRun :: "test_class \<Rightarrow> string \<Rightarrow> test_case \<Rightarrow> command_output \<Rightarrow> string res" where
  "Verbose_HasRun cls label t out =
     bindE (UnexpectedOutput cls t out) (\<lambda>unexpected. Inr
       (''Done running '' @ label @ '': '' @
        (if unexpected then if HasCrashed cls out then ''CRASH'' else ''FAIL'' else ''pass'')))"

definition Tap_HasRun ::
  "test_class \<Rightarrow> nat \<Rightarrow> string list \<Rightarrow> test_case \<Rightarrow> command_output \<Rightarrow> (string list \<times> nat) res" where
  "Tap_HasRun cls done_count command t out =
     (case command of
        _ # file # _ \<Rightarrow>
          (let n = done_count + 1; name = basename file in
           bindE (UnexpectedOutput cls t out) (\<lambda>unexpected.
           if unexpected
           then Inr ([''not ok '' @ show_nat n @ '' - '' @ name] @
                  map (\<lambda>l. ''#'' @ l) (split_on ch_newline (stderr out)) @
                  map (\<lambda>l. ''#'' @ l) (split_on ch_newline (stdout out)), n)
           else Inr ([''ok '' @ show_nat n @ '' - '' @ name], n)))
      | _ \<Rightarrow> Inl IndexError)"

text \<open>What one failed test contributes to the final summary.\<close>

definition failure_details ::
  "test_class \<Rightarrow> (test_case \<Rightarrow> string) \<Rightarrow> (test_case \<Rightarrow> string list) \<Rightarrow> test_case \<times> command_output \<Rightarrow> string list" where
  "failure_details cls label command_of f =
     (let (t, out) = f in
      PrintFailureHeader (IsNegative cls t) (label t) (test_path t) @
      (if stderr out \<noteq> [] then [''--- stderr ---'', strip (stderr out)] else []) @
      (if stdout out \<noteq> [] then [''--- stdout ---'', strip (stdout out)] else []) @
      [''Command: '' @ EscapeCommand (command_of t)] @
      (if HasCrashed cls out then [''--- CRASHED ---''] else []) @
      (if HasTimedOut out then [''--- TIMEOUT ---''] else []))"

definition Simple_Done ::
  "test_class \<Rightarrow> (test_case \<Rightarrow> string) \<Rightarrow> (test_case \<Rightarrow> string list) \<Rightarrow> progress \<Rightarrow> string list" where
  "Simple_Done cls label command_of s =
     [[]] @ concat (map (failure_details cls label command_of) (failed s)) @
     (if length (failed s) = 0 then [''==='', ''=== All tests succeeded'', ''==='']
      else [[], ''==='', ''=== '' @ show_nat (length (failed s)) @ '' tests failed''] @
        (if crashed s > 0 then [''=== '' @ show_nat (crashed s) @ '' tests CRASHED''] else []) @ [''===''])"

definition Compact_HasRun ::
  "test_class \<Rightarrow> (string \<Rightarrow> string) \<Rightarrow> (string \<Rightarrow> string) \<Rightarrow> (test_case \<Rightarrow> string) \<Rightarrow> (test_case \<Rightarrow> string list) \<Rightarrow>
    test_case \<Rightarrow> command_output \<Rightarrow> string list res" where
  "Compact_HasRun cls stdout_template stderr_template label command_of t out =
     bindE (UnexpectedOutput cls t out) (\<lambda>unexpected. Inr
      (if \<not> unexpected then []
      else
        PrintFailureHeader (IsNegative cls t) (label t) (test_path t) @
        (let so = strip (stdout out) in if length so \<noteq> 0 then [stdout_template so] else []) @
        (let se = strip (stderr out) in if length se \<noteq> 0 then [stderr_template se] else []) @
        [''Command: '' @ EscapeCommand (command_of t)] @
        (if HasCrashed cls out then [''--- CRASHED ---''] else []) @
        (if HasTimedOut out then [''--- TIMEOUT ---''] else [])))"

text \<open>The percentage of \<open>PrintProgress\<close>; without tests the division by \<open>total\<close> fails.\<close>

definition progress_percent :: "progress \<Rightarrow> int res" where
  "progress_percent s =
     (if total s = 0 then Inl (ValueError ''ZeroDivisionError'')
      else Inr (((total s - remaining s) * 100) div total s))"

lemma late_count_nonneg: "0 \<le> late_count p"
  by (cases p) simp_all

lemma reported_and_held_bound:
  assumes "conserved cases s" and "i < length (threads s)"
  shows "length (reported s) + length (held (threads s ! i)) \<le> length cases"
proof -
  from held_split [OF assms(2)] obtain M where
    "mset (concat (map held ((threads s)[i := threads s ! i]))) = mset (held (threads s ! i)) + M" by blast
  then have "held_by_threads s = mset (held (threads s ! i)) + M" by (simp add: held_by_threads_def)
  with assms(1) have "mset cases = mset (queue s) + (mset (held (threads s ! i)) + M) + mset (map fst (reported s))"
    by (simp add: conserved_def)
  from arg_cong [OF this, of size] show ?thesis by simp
qed

lemma remaining_nonneg:
  assumes "runs cls (init_progress cases tasks) n s"
  shows "0 \<le> remaining s"
proof -
  from runs_inv [OF assms] have inv: "lock_inv s" "counts_inv cls s" "conserved cases s"
    "total s = int (length cases)" by simp_all
  show ?thesis
  proof (cases "lock s")
    case None
    from inv(3) have "length (reported s) \<le> length cases"
      unfolding conserved_def by (metis size_mset size_union length_map le_add2)
    with None inv(2,4) show ?thesis by (simp add: counts_inv_def)
  next
    case (Some i)
    with inv(1) have i: "i < length (threads s)" by (simp add: lock_inv_def)
    have "late_count (threads s ! i) \<le> int (length (held (threads s ! i)))" by (cases "threads s ! i") simp_all
    with reported_and_held_bound [OF inv(3) i] Some inv(2,4) show ?thesis by (simp add: counts_inv_def)
  qed
qed

lemma Truncate_length: "length (Truncate s 78) \<le> 78"
  by (simp add: Truncate_def take_slice_def)

text \<open>
  The percentage shown is between 0 and 100 at every moment of every run that has
  tests, and is 100 when nothing remains; a status line never exceeds 78 characters.
\<close>

theorem PrintProgress_bounds:
  assumes "runs cls (init_progress cases tasks) n s" and "cases \<noteq> []"
  shows "\<exists>p. progress_percent s = Inr p \<and> 0 \<le> p \<and> p \<le> 100 \<and> (remaining s = 0 \<longrightarrow> p = 100)
    \<and> length (Truncate line 78) \<le> 78"
proof -
  from runs_inv [OF assms(1)] have inv: "lock_inv s" "counts_inv cls s" "conserved cases s"
    "total s = int (length cases)" by simp_all
  have pos: "0 < total s" using inv(4) assms(2) by simp
  have late: "0 \<le> (case lock s of None \<Rightarrow> 0 | Some i \<Rightarrow> late_count (threads s ! i))"
    by (auto split: option.splits intro: late_count_nonneg)
  have rem: "remaining s = total s - int (length (reported s)) -
      (case lock s of None \<Rightarrow> 0 | Some i \<Rightarrow> late_count (threads s ! i))"
    using inv(2) unfolding counts_inv_def by blast
  have "0 \<le> remaining s" by (rule remaining_nonneg [OF assms(1)])
  moreover have "remaining s \<le> total s" using rem late by linarith
  ultimately have "0 \<le> (total s - remaining s) * 100" "(total s - remaining s) * 100 \<le> total s * 100"
    by simp_all
  then have "0 \<le> (total s - remaining s) * 100 div total s" "(total s - remaining s) * 100 div total s \<le> 100"
    using pos zdiv_mono1 [of "(total s - remaining s) * 100" "total s * 100" "total s"]
    by (simp_all add: pos_imp_zdiv_nonneg_iff)
  with pos Truncate_length [of line] show ?thesis by (simp add: progress_percent_def)
qed

theorem PrintProgress_bounds_witness:
  "\<exists>s n p. runs base_test_class (init_progress [sample_case ''a''] 1) n s \<and> remaining s = 0 \<and>
     progress_percent s = Inr p \<and> p = 100"
proof -
  let ?s0 = "init_progress [sample_case ''a''] 1"
  let ?sched = "one_test 0 (Returns (sample_output 0))"
  define s where "s = the (run_schedule base_test_class ?s0 ?sched)"
  have "run_schedule base_test_class ?s0 ?sched \<noteq> None" by code_simp
  then have run: "run_schedule base_test_class ?s0 ?sched = Some s" by (simp add: s_def)
  have rem: "remaining s = 0" unfolding s_def by code_simp
  note r = run_schedule_runs0 [OF run]
  from PrintProgress_bounds [OF r, of "[]"] rem obtain p where "progress_percent s = Inr p" "p = 100" by auto
  with r rem show ?thesis by blast
qed

subsection \<open>Commands and options\<close>

text \<open>\<open>str.split()\<close> at white space.\<close>

fun words_loop :: "string \<Rightarrow> string \<Rightarrow> string list" where
  "words_loop acc [] = (if acc = [] then [] else [acc])"
| "words_loop acc (c # s) =
     (if is_space c then (if acc = [] then words_loop [] s else acc # words_loop [] s)
      else words_loop (acc @ [c]) s)"

definition split_words :: "string \<Rightarrow> string list" where
  "split_words s = words_loop [] s"

text \<open>\<open>urllib.unquote\<close>.\<close>

definition hex_value :: "char \<Rightarrow> nat option" where
  "hex_value c =
     (if is_digit c then Some (of_char c - 48)
      else if c \<in> set ''abcdef'' then Some (of_char c - 87)
      else if c \<in> set ''ABCDEF'' then Some (of_char c - 55) else None)"

fun unquote :: "string \<Rightarrow> string" where
  "unquote (p # a # b # s) =
     (if p = CHR 0x25
      then (case (hex_value a, hex_value b) of
              (Some x, Some y) \<Rightarrow> char_of (16 * x + y) # unquote s
            | _ \<Rightarrow> p # unquote (a # b # s))
      else p # unquote (a # b # s))"
| "unquote s = s"

definition GetSpecialCommandProcessor :: "string option \<Rightarrow> string list \<Rightarrow> string list" where
  "GetSpecialCommandProcessor value args =
     (case value of
        None \<Rightarrow> args
      | Some v \<Rightarrow>
          if v = [] \<or> CHR ''@'' \<notin> set v then args
          else split_words (unquote (takeWhile (\<lambda>c. c \<noteq> CHR ''@'') v)) @ args @
               split_words (unquote (tl (dropWhile (\<lambda>c. c \<noteq> CHR ''@'') v))))"

definition wrap_http1 :: "(string list \<Rightarrow> string list) \<Rightarrow> string list \<Rightarrow> string list" where
  "wrap_http1 processor args = processor (take 1 args @ [''--use-http1''] @ drop 1 args)"

definition FLAGS :: "string \<Rightarrow> string list res" where
  "FLAGS mode =
     (if mode = ''debug'' then Inr [''--enable-slow-asserts'', ''--debug-code'', ''--verify-heap'']
      else if mode = ''release'' then Inr [] else Inl (KeyError mode))"

definition TIMEOUT_SCALEFACTOR :: "string \<Rightarrow> int res" where
  "TIMEOUT_SCALEFACTOR mode =
     (if mode = ''debug'' then Inr 4 else if mode = ''release'' then Inr 1 else Inl (KeyError mode))"

text \<open>The name of the executable on a POSIX host.\<close>

definition GetVm :: "string \<Rightarrow> string" where
  "GetVm mode = (if mode = ''debug'' then ''out/Debug/node'' else ''out/Release/node'')"

definition GetVmFlags :: "string list \<Rightarrow> string \<Rightarrow> string list res" where
  "GetVmFlags variant_flags mode = bindE (FLAGS mode) (\<lambda>f. Inr (variant_flags @ f))"

definition GetVmCommand :: "string list \<Rightarrow> string \<Rightarrow> string list res" where
  "GetVmCommand variant_flags mode = bindE (GetVmFlags variant_flags mode) (\<lambda>f. Inr ([GetVm mode] @ f))"

definition GetTimeout :: "int \<Rightarrow> string \<Rightarrow> int res" where
  "GetTimeout timeout mode = bindE (TIMEOUT_SCALEFACTOR mode) (\<lambda>f. Inr (timeout * f))"

definition GuessOS :: "string \<Rightarrow> string option" where
  "GuessOS system =
     (if system = ''Linux'' then Some ''linux''
      else if system = ''Darwin'' then Some ''macos''
      else if \<exists>k \<in> {0..<length system}. startswith (drop k system) ''CYGWIN'' then Some ''cygwin''
      else if system = ''Windows'' \<or> system = ''Microsoft'' then Some ''win32''
      else if system = ''FreeBSD'' then Some ''freebsd''
      else if system = ''OpenBSD'' then Some ''openbsd''
      else if system = ''SunOS'' then Some ''solaris''
      else if system = ''NetBSD'' then Some ''netbsd''
      else None)"

definition GuessArchitecture :: "string \<Rightarrow> string option" where
  "GuessArchitecture machine =
     (let m = lower machine in
      if startswith m ''arm'' then Some ''arm''
      else if m = [] \<or>
        (\<exists>w \<in> {''x86'', ''i386'', ''i486'', ''i586'', ''i686''}. m = w \<or> m = w @ [ch_newline])
      then Some ''ia32''
      else if m = ''i86pc'' \<or> m = ''x86_64'' \<or> m = ''amd64'' then Some ''ia32''
      else None)"

record options =
  opt_mode :: "string list"
  opt_simulator :: string
  opt_arch :: "string option"
  opt_scons_flags :: "string list"
  opt_snapshot :: bool

text \<open>
  \<open>ProcessOptions\<close>, given the comma-separated \<open>--mode\<close>: whether the options are
  accepted, and the options as changed so far.
\<close>

definition with_scons_flag :: "options \<Rightarrow> string \<Rightarrow> options" where
  "with_scons_flag o' f = o'\<lparr>opt_scons_flags := opt_scons_flags o' @ [f]\<rparr>"

definition ProcessOptions :: "string option \<Rightarrow> string \<Rightarrow> options \<Rightarrow> (bool \<times> options) res" where
  "ProcessOptions ARCH_GUESS mode o' =
     (let o1 = o'\<lparr>opt_mode := split_on (CHR '','') mode\<rparr> in
      if \<exists>m \<in> set (opt_mode o1). m \<notin> {''debug'', ''release''} then Inr (False, o1)
      else
        bindE (if opt_simulator o1 \<noteq> ''none''
               then if opt_arch o1 = Some (opt_simulator o1) then Inr (Some o1)
                    else if opt_arch o1 = Some ''none'' then Inr (Some (o1\<lparr>opt_arch := Some (opt_simulator o1)\<rparr>))
                    else Inr None
               else Inr (Some (if opt_arch o1 = Some ''none'' then o1\<lparr>opt_arch := ARCH_GUESS\<rparr> else o1)))
          (\<lambda>r. case r of
             None \<Rightarrow> Inr (False, o1)
           | Some o2 \<Rightarrow>
               bindE (if opt_simulator o1 \<noteq> ''none'' then Inr (with_scons_flag o2 (''simulator='' @ opt_simulator o2))
                      else case opt_arch o2 of
                             None \<Rightarrow> Inl (TypeError ''cannot concatenate str and NoneType'')
                           | Some a \<Rightarrow> Inr (with_scons_flag o2 (''arch='' @ a)))
                 (\<lambda>o3. Inr (True, if opt_snapshot o3 then with_scons_flag o3 ''snapshot=on'' else o3))))"

subsection \<open>Suites, report and the main program\<close>

text \<open>
  A suite is its name and the tests its configuration lists for a path; the one
  variant of \<open>VARIANT_FLAGS\<close> adds no flags.
\<close>

type_synonym suite = "string \<times> (string list \<Rightarrow> string list \<Rightarrow> string \<Rightarrow> test_case list)"

definition ListTests ::
  "re_engine \<Rightarrow> suite list \<Rightarrow> string list \<Rightarrow> string list \<Rightarrow> string \<Rightarrow> test_case list res" where
  "ListTests re tests current_path path mode =
     (let (name, rest) = CarCdr path in
      foldE (\<lambda>result (test_name, listing).
          bindE (case name of None \<Rightarrow> Inr True | Some p \<Rightarrow> Pattern_match re p test_name) (\<lambda>m.
            Inr (if m then result @ listing (current_path @ [test_name]) path mode else result)))
        [] tests)"

definition IsFlaky :: "string list \<Rightarrow> bool" where
  "IsFlaky o' \<longleftrightarrow> PASS \<in> set o' \<and> FAIL \<in> set o' \<and> CRASH \<notin> set o' \<and> OKAY \<notin> set o'"

definition IsFailOk :: "string list \<Rightarrow> bool" where
  "IsFailOk o' \<longleftrightarrow> length o' = 2 \<and> FAIL \<in> set o' \<and> OKAY \<in> set o'"

record report =
  rep_total :: nat
  rep_skipped :: nat
  rep_nocrash :: nat
  rep_pass :: nat
  rep_fail_ok :: nat
  rep_fail :: nat

definition PrintReport :: "test_case list \<Rightarrow> report" where
  "PrintReport cases =
     (let unskipped = filter (\<lambda>c. SKIP \<notin> set (outcomes c)) cases in
      \<lparr>rep_total = length cases,
       rep_skipped = length cases - length unskipped,
       rep_nocrash = length (filter (\<lambda>t. IsFlaky (outcomes t)) unskipped),
       rep_pass = length (filter (\<lambda>t. outcomes t = [PASS]) unskipped),
       rep_fail_ok = length (filter (\<lambda>t. IsFailOk (outcomes t)) unskipped),
       rep_fail = length (filter (\<lambda>t. outcomes t = [FAIL]) unskipped)\<rparr>)"

definition main_env :: "string \<Rightarrow> string \<Rightarrow> string \<Rightarrow> string \<Rightarrow> (string \<times> string) list" where
  "main_env mode system arch simulator =
     [(''mode'', mode), (''system'', system), (''arch'', arch), (''simulator'', simulator)]"

text \<open>The tests of one path in one mode, classified; none when the executable does not exist.\<close>

definition classify_path ::
  "nat \<Rightarrow> re_engine \<Rightarrow> suite list \<Rightarrow> (string \<Rightarrow> bool) \<Rightarrow> status_section list \<Rightarrow> (string \<times> expr) list \<Rightarrow>
    (string \<Rightarrow> (string \<times> string) list) \<Rightarrow> test_case list \<Rightarrow> string list \<times> string \<Rightarrow> test_case list eval" where
  "classify_path fuel re tests exists sections defs env all_cases pm =
     (let (path, mode) = pm in
      if \<not> exists (GetVm mode) then Some (Inr all_cases)
      else bindV (Some (ListTests re tests [] path mode)) (\<lambda>test_list.
           bindV (ClassifyTests fuel re sections defs test_list (env mode)) (\<lambda>c.
             Some (Inr (all_cases @ classified c)))))"

definition Main_cases ::
  "nat \<Rightarrow> re_engine \<Rightarrow> suite list \<Rightarrow> (string \<Rightarrow> bool) \<Rightarrow> status_section list \<Rightarrow> (string \<times> expr) list \<Rightarrow>
    (string \<Rightarrow> (string \<times> string) list) \<Rightarrow> string list list \<Rightarrow> string list \<Rightarrow> test_case list eval" where
  "Main_cases fuel re tests exists sections defs env paths modes =
     foldV (classify_path fuel re tests exists sections defs env) [] (List.product paths modes)"

definition DoSkip :: "test_case \<Rightarrow> bool" where
  "DoSkip c \<longleftrightarrow> SKIP \<in> set (outcomes c) \<or> SLOW \<in> set (outcomes c)"

definition cases_to_run :: "test_case list \<Rightarrow> test_case list" where
  "cases_to_run all_cases = filter (\<lambda>c. \<not> DoSkip c) all_cases"

text \<open>The exit code, given how \<open>Run\<close> ended; \<open>None\<close> when its exception ends the program.\<close>

definition Main_exit :: "test_case list \<Rightarrow> bool option \<Rightarrow> int option" where
  "Main_exit all_cases run =
     (if length (cases_to_run all_cases) = 0 then Some 0
      else map_option (\<lambda>ok. if ok then 0 else 1) run)"

lemma filter_disjoint_count:
  assumes "\<And>x. x \<in> set xs \<Longrightarrow> P x \<Longrightarrow> \<not> Q x"
  shows "length (filter P xs) + length (filter Q xs) = length (filter (\<lambda>x. P x \<or> Q x) xs)"
  using assms by (induction xs) auto

lemma outcome_classes_disjoint:
  "\<not> (IsFlaky os \<and> os = [PASS])" "\<not> (IsFlaky os \<and> IsFailOk os)" "\<not> (IsFlaky os \<and> os = [FAIL])"
  "\<not> (IsFailOk os \<and> os = [PASS])" "\<not> (IsFailOk os \<and> os = [FAIL])" "\<not> (os = [PASS] \<and> os = [FAIL])"
  by (auto simp: IsFlaky_def IsFailOk_def)

text \<open>
  The report counts no test twice: the skipped tests and the four classes it
  names are disjoint, and the tests in none of them are those with other outcomes.
\<close>

theorem PrintReport_partition:
  "rep_total (PrintReport cases) =
     rep_skipped (PrintReport cases) + rep_nocrash (PrintReport cases) + rep_pass (PrintReport cases) +
     rep_fail_ok (PrintReport cases) + rep_fail (PrintReport cases) +
     length (filter (\<lambda>c. SKIP \<notin> set (outcomes c) \<and> \<not> IsFlaky (outcomes c) \<and> outcomes c \<noteq> [PASS] \<and>
       \<not> IsFailOk (outcomes c) \<and> outcomes c \<noteq> [FAIL]) cases)"
proof -
  let ?u = "filter (\<lambda>c. SKIP \<notin> set (outcomes c)) cases"
  let ?fl = "\<lambda>t. IsFlaky (outcomes t)" and ?pa = "\<lambda>t. outcomes t = [PASS]"
    and ?fo = "\<lambda>t. IsFailOk (outcomes t)" and ?fa = "\<lambda>t. outcomes t = [FAIL]"
  have 1: "length (filter ?fl ?u) + length (filter ?pa ?u) = length (filter (\<lambda>t. ?fl t \<or> ?pa t) ?u)"
    by (rule filter_disjoint_count) (use outcome_classes_disjoint in blast)
  have 2: "length (filter (\<lambda>t. ?fl t \<or> ?pa t) ?u) + length (filter ?fo ?u) =
      length (filter (\<lambda>t. (?fl t \<or> ?pa t) \<or> ?fo t) ?u)"
    by (rule filter_disjoint_count) (use outcome_classes_disjoint in blast)
  have 3: "length (filter (\<lambda>t. (?fl t \<or> ?pa t) \<or> ?fo t) ?u) + length (filter ?fa ?u) =
      length (filter (\<lambda>t. ((?fl t \<or> ?pa t) \<or> ?fo t) \<or> ?fa t) ?u)"
    by (rule filter_disjoint_count) (use outcome_classes_disjoint in blast)
  have 4: "length (filter (\<lambda>t. ((?fl t \<or> ?pa t) \<or> ?fo t) \<or> ?fa t) ?u) +
      length (filter (\<lambda>t. \<not> (((?fl t \<or> ?pa t) \<or> ?fo t) \<or> ?fa t)) ?u) = length ?u"
    by (rule sum_length_filter_compl)
  have 5: "filter (\<lambda>t. \<not> (((?fl t \<or> ?pa t) \<or> ?fo t) \<or> ?fa t)) ?u =
      filter (\<lambda>c. SKIP \<notin> set (outcomes c) \<and> \<not> IsFlaky (outcomes c) \<and> outcomes c \<noteq> [PASS] \<and>
       \<not> IsFailOk (outcomes c) \<and> outcomes c \<noteq> [FAIL]) cases"
    unfolding filter_filter by (rule filter_cong [OF refl]) blast
  have 6: "length ?u \<le> length cases" by (rule length_filter_le)
  show ?thesis
    unfolding PrintReport_def Let_def report.simps using 1 2 3 4 [unfolded 5] 6 by linarith
qed

text \<open>
  The exit code of the program, when no exception ends the run: the tests run are
  those classified without \<open>skip\<close> or \<open>slow\<close>, each once, and the code is 0 exactly
  when each of them did what its status file expects.
\<close>

theorem Main_exit_code:
  assumes "runs cls (init_progress (cases_to_run all_cases) tasks) n s" and "finished s"
    and "\<forall>t locked. Died t locked \<notin> set (threads s)"
  shows "mset (map fst (reported s)) = {#c \<in># mset all_cases. \<not> DoSkip c#} \<and>
    Main_exit all_cases (Run_result s) =
      Some (if \<forall>(t, out) \<in> set (reported s). (\<exists>outcome \<in> set (outcomes t). outcome_of cls t out = Inr outcome) then 0 else 1)"
proof -
  from runs_complete [OF assms] have c: "mset (map fst (reported s)) = mset (cases_to_run all_cases)"
    "Run_result s = Some (\<forall>(t, out) \<in> set (reported s). UnexpectedOutput cls t out = Inr False)" by simp_all
  have "reported s = []" if "cases_to_run all_cases = []" using c(1) that by simp
  moreover have "UnexpectedOutput cls t out = Inr False \<longleftrightarrow>
      (\<exists>outcome \<in> set (outcomes t). outcome_of cls t out = Inr outcome)" for t out
    by (cases "outcome_of cls t out") (auto simp: UnexpectedOutput_def)
  ultimately show ?thesis using c by (auto simp: Main_exit_def cases_to_run_def)
qed

theorem Main_exit_code_witness:
  "\<exists>s n. runs base_test_class (init_progress (cases_to_run [sample_case ''a'']) 1) n s \<and>
     Main_exit [sample_case ''a''] (Run_result s) = Some 1"
proof -
  let ?s0 = "init_progress (cases_to_run [sample_case ''a'']) 1"
  let ?sched = "one_test 0 (Returns (sample_output 1)) @ [(0, Tick), (0, Tick)]"
  define s where "s = the (run_schedule base_test_class ?s0 ?sched)"
  have "run_schedule base_test_class ?s0 ?sched \<noteq> None" by code_simp
  then have run: "run_schedule base_test_class ?s0 ?sched = Some s" by (simp add: s_def)
  have fin: "finished s" unfolding s_def by code_simp
  have th: "threads s = [Ended None]" unfolding s_def by code_simp
  have nd: "\<forall>t locked. Died t locked \<notin> set (threads s)" by (simp add: th)
  have un: "(\<forall>(t, out) \<in> set (reported s). \<exists>outcome \<in> set (outcomes t). outcome_of base_test_class t out = Inr outcome) = False"
    unfolding s_def by code_simp
  note r = run_schedule_runs0 [OF run]
  from Main_exit_code [OF r fin nd] r un show ?thesis by (intro exI [of _ s] exI) simp
qed

text \<open>
  \<open>ProcessOptions\<close> accepts the options exactly when every mode is \<open>debug\<close> or
  \<open>release\<close> and a given simulator agrees with a given architecture; accepted
  options name an architecture that is no longer \<open>none\<close>, and the flags handed to
  scons say which simulator or architecture was chosen.
\<close>

theorem ProcessOptions_spec:
  assumes "ARCH_GUESS = Some guess" and "opt_arch o' = Some arch"
  shows "\<exists>ok o2. ProcessOptions ARCH_GUESS mode o' = Inr (ok, o2) \<and>
    (ok \<longleftrightarrow> (\<forall>m \<in> set (split_on (CHR '','') mode). m \<in> {''debug'', ''release''}) \<and>
       (opt_simulator o' = ''none'' \<or> arch = ''none'' \<or> arch = opt_simulator o')) \<and>
    (ok \<longrightarrow> opt_arch o2 = Some (if arch \<noteq> ''none'' then arch
         else if opt_simulator o' \<noteq> ''none'' then opt_simulator o' else guess) \<and>
       opt_scons_flags o2 = opt_scons_flags o' @
         [if opt_simulator o' \<noteq> ''none'' then ''simulator='' @ opt_simulator o'
          else ''arch='' @ (if arch \<noteq> ''none'' then arch else guess)] @
         (if opt_snapshot o' then [''snapshot=on''] else []))"
proof (cases "\<exists>m \<in> set (split_on (CHR '','') mode). m \<notin> {''debug'', ''release''}")
  case True
  then show ?thesis by (auto simp: ProcessOptions_def Let_def)
next
  case False
  then have modes: "\<forall>m \<in> set (split_on (CHR '','') mode). m \<in> {''debug'', ''release''}" by blast
  show ?thesis
  proof (cases "opt_simulator o' = ''none''")
    case True
    with modes assms show ?thesis
      by (cases "arch = ''none''") (auto simp: ProcessOptions_def Let_def with_scons_flag_def)
  next
    case sim: False
    with modes assms show ?thesis
      by (cases "arch = ''none''"; cases "arch = opt_simulator o'")
        (auto simp: ProcessOptions_def Let_def with_scons_flag_def)
  qed
qed

theorem ProcessOptions_spec_witness:
  "ProcessOptions (Some ''ia32'') ''debug,release''
      \<lparr>opt_mode = [], opt_simulator = ''arm'', opt_arch = Some ''none'', opt_scons_flags = [], opt_snapshot = True\<rparr> =
    Inr (True, \<lparr>opt_mode = [''debug'', ''release''], opt_simulator = ''arm'', opt_arch = Some ''arm'',
      opt_scons_flags = [''simulator=arm'', ''snapshot=on''], opt_snapshot = True\<rparr>)
   \<and> (\<exists>ok o2. ProcessOptions (Some ''ia32'') ''debug''
      \<lparr>opt_mode = [], opt_simulator = ''arm'', opt_arch = Some ''x64'', opt_scons_flags = [], opt_snapshot = True\<rparr> =
      Inr (ok, o2) \<and> \<not> ok)"
proof
  show "ProcessOptions (Some ''ia32'') ''debug,release''
      \<lparr>opt_mode = [], opt_simulator = ''arm'', opt_arch = Some ''none'', opt_scons_flags = [], opt_snapshot = True\<rparr> =
    Inr (True, \<lparr>opt_mode = [''debug'', ''release''], opt_simulator = ''arm'', opt_arch = Some ''arm'',
      opt_scons_flags = [''simulator=arm'', ''snapshot=on''], opt_snapshot = True\<rparr>)" by code_simp
  let ?o = "\<lparr>opt_mode = [], opt_simulator = ''arm'', opt_arch = Some ''x64'', opt_scons_flags = [], opt_snapshot = True\<rparr>"
  show "\<exists>ok o2. ProcessOptions (Some ''ia32'') ''debug'' ?o = Inr (ok, o2) \<and> \<not> ok"
    using ProcessOptions_spec [of "Some ''ia32''" "''ia32''" ?o "''x64''" "''debug''"] by auto
qed

end
