(* ===== verification/Ninja_Syntax.thy ===== *)
theory Ninja_Syntax
  imports Gyp_Value
begin

text \<open>
  The Ninja file writer \<open>tools/gyp/pylib/gyp/ninja_syntax.py\<close>.  A method of \<open>Writer\<close>
  is the text it appends to the output.  Beside it stands what the manual of Ninja
  says of reading it: a \<open>$\<close> before a line end joins the next line, without its
  indentation; in a path \<open>$\<close> quotes a space, a colon or itself, and an unquoted space,
  colon or bar or the line's end ends the path.
  \<open>textwrap.wrap\<close>, used for comments only, is a parameter.
\<close>

subsection \<open>Escaping\<close>

text \<open>\<open>s.replace(ab, r)\<close> for a pattern of two characters.\<close>

fun replace_pair :: "char \<Rightarrow> char \<Rightarrow> string \<Rightarrow> string \<Rightarrow> string" where
  "replace_pair a b r (x # y # s) =
     (if x = a \<and> y = b then r @ replace_pair a b r s else x # replace_pair a b r (y # s))"
| "replace_pair a b r s = s"

definition escape_path :: "string \<Rightarrow> string" where
  "escape_path word =
     replace_char (CHR '':'') ''$:''
       (replace_char (CHR '' '') ''$ '' (replace_pair (CHR ''$'') (CHR '' '') ''$$ '' word))"

definition escape :: "string \<Rightarrow> string res" where
  "escape s = (if ch_newline \<in> set s then Inl AssertionError else Inr (replace_char (CHR ''$'') ''$$'' s))"

subsection \<open>Wrapping a line\<close>

text \<open>
  \<open>s.rfind(' ', 0, end)\<close> and \<open>s.find(' ', start)\<close>, \<open>None\<close> for \<open>-1\<close>; a negative bound
  counts from the end of the string.
\<close>

definition slice_bound :: "string \<Rightarrow> int \<Rightarrow> nat" where
  "slice_bound s i = (if i < 0 then nat (i + int (length s)) else nat i)"

fun rfind_space :: "string \<Rightarrow> nat \<Rightarrow> nat option" where
  "rfind_space s 0 = None"
| "rfind_space s (Suc e) = (if e < length s \<and> s ! e = CHR '' '' then Some e else rfind_space s e)"

definition find_space :: "string \<Rightarrow> nat \<Rightarrow> nat option" where
  "find_space s start =
     (let k = start + length (takeWhile (\<lambda>c. c \<noteq> CHR '' '') (drop start s)) in
      if k < length s then Some k else None)"

fun dollars_down :: "string \<Rightarrow> nat \<Rightarrow> nat" where
  "dollars_down s 0 = 0"
| "dollars_down s (Suc k) = (if s ! Suc k = CHR ''$'' then Suc (dollars_down s k) else 0)"

text \<open>The loop stops at index 0 without looking at it.\<close>

definition count_dollars_before_index :: "string \<Rightarrow> nat \<Rightarrow> nat" where
  "count_dollars_before_index s i = dollars_down s (i - 1)"

lemma rfind_space_Some: "rfind_space s e = Some k \<Longrightarrow> k < e \<and> k < length s \<and> s ! k = CHR '' ''"
  by (induction e) (auto split: if_splits)

lemma find_space_Some: "find_space s start = Some k \<Longrightarrow> start \<le> k \<and> k < length s \<and> s ! k = CHR '' ''"
  using nth_length_takeWhile [of "\<lambda>c. c \<noteq> CHR '' ''" "drop start s"]
  by (auto simp: find_space_def Let_def nth_drop split: if_splits)

function break_before :: "string \<Rightarrow> nat \<Rightarrow> nat option" where
  "break_before text e =
     (case rfind_space text e of
        None \<Rightarrow> None
      | Some k \<Rightarrow> if count_dollars_before_index text k mod 2 = 0 then Some k else break_before text k)"
  by pat_completeness auto

termination
  by (relation "measure snd") (auto dest: rfind_space_Some)

function break_after :: "string \<Rightarrow> nat \<Rightarrow> nat option" where
  "break_after text start =
     (case find_space text start of
        None \<Rightarrow> None
      | Some k \<Rightarrow> if count_dollars_before_index text k mod 2 = 0 then Some k else break_after text (Suc k))"
  by pat_completeness auto

termination
  by (relation "measure (\<lambda>(t, k). length t - k)") (auto dest!: find_space_Some)

declare break_before.simps [simp del] break_after.simps [simp del]

lemma break_before_Some: "break_before s e = Some k \<Longrightarrow> k < length s \<and> s ! k = CHR '' ''"
proof (induction s e rule: break_before.induct)
  case (1 s e)
  show ?case
  proof (cases "rfind_space s e")
    case None
    with "1.prems" show ?thesis by (simp add: break_before.simps [of s e])
  next
    case (Some j)
    with "1.prems" "1.IH" [OF Some] rfind_space_Some [OF Some] show ?thesis
      by (auto simp: break_before.simps [of s e] split: if_splits)
  qed
qed

lemma break_after_Some: "break_after s e = Some k \<Longrightarrow> k < length s \<and> s ! k = CHR '' ''"
proof (induction s e rule: break_after.induct)
  case (1 s e)
  show ?case
  proof (cases "find_space s e")
    case None
    with "1.prems" show ?thesis by (simp add: break_after.simps [of s e])
  next
    case (Some j)
    with "1.prems" "1.IH" [OF Some] find_space_Some [OF Some] show ?thesis
      by (auto simp: break_after.simps [of s e] split: if_splits)
  qed
qed

definition line_break :: "int \<Rightarrow> string \<Rightarrow> string \<Rightarrow> nat option" where
  "line_break width leading_space text =
     (let available_space = width - int (length leading_space) - 2 in
      case break_before text (slice_bound text available_space) of
        Some k \<Rightarrow> Some k
      | None \<Rightarrow> break_after text (slice_bound text available_space))"

lemma line_break_Some: "line_break width l text = Some k \<Longrightarrow> k < length text \<and> text ! k = CHR '' ''"
  by (auto simp: line_break_def Let_def split: option.splits dest: break_before_Some break_after_Some)

function line_loop :: "int \<Rightarrow> nat \<Rightarrow> string \<Rightarrow> string \<Rightarrow> string" where
  "line_loop width indent leading_space text =
     (if int (length leading_space + length text) > width
      then (case line_break width leading_space text of
              None \<Rightarrow> leading_space @ text @ [ch_newline]
            | Some space \<Rightarrow>
                leading_space @ take space text @ '' $'' @ [ch_newline] @
                line_loop width indent (concat (replicate (indent + 2) ''  '')) (drop (space + 1) text))
      else leading_space @ text @ [ch_newline])"
  by pat_completeness auto

termination
  by (relation "measure (\<lambda>(w, i, l, t). length t)") (auto dest!: line_break_Some)

declare line_loop.simps [simp del]

definition line :: "int \<Rightarrow> string \<Rightarrow> nat \<Rightarrow> string" where
  "line width text indent = line_loop width indent (concat (replicate indent ''  '')) text"

subsection \<open>The writer\<close>

datatype nval = NNone | NStr string | NList "string list"

definition as_nlist :: "nval \<Rightarrow> string list" where
  "as_nlist v = (case v of NNone \<Rightarrow> [] | NStr s \<Rightarrow> [s] | NList l \<Rightarrow> l)"

fun ntruthy :: "nval \<Rightarrow> bool" where
  "ntruthy NNone = False"
| "ntruthy (NStr s) = (s \<noteq> [])"
| "ntruthy (NList l) = (l \<noteq> [])"

definition newline :: string where
  "newline = [ch_newline]"

definition comment :: "(string \<Rightarrow> int \<Rightarrow> string list) \<Rightarrow> int \<Rightarrow> string \<Rightarrow> string" where
  "comment wrap width txt = concat (map (\<lambda>l. ''# '' @ l @ [ch_newline]) (wrap txt (width - 2)))"

definition variable :: "int \<Rightarrow> string \<Rightarrow> nval \<Rightarrow> nat \<Rightarrow> string" where
  "variable width key value indent =
     (case value of
        NNone \<Rightarrow> []
      | NStr s \<Rightarrow> line width (key @ '' = '' @ s) indent
      | NList l \<Rightarrow> line width (key @ '' = '' @ join_with '' '' (filter (\<lambda>s. s \<noteq> []) l)) indent)"

record rule_args =
  ra_description :: nval
  ra_depfile :: nval
  ra_generator :: bool
  ra_restat :: bool
  ra_rspfile :: nval
  ra_rspfile_content :: nval

definition write_rule :: "int \<Rightarrow> string \<Rightarrow> nval \<Rightarrow> rule_args \<Rightarrow> string" where
  "write_rule width name command a =
     line width (''rule '' @ name) 0 @
     variable width ''command'' command 1 @
     (if ntruthy (ra_description a) then variable width ''description'' (ra_description a) 1 else []) @
     (if ntruthy (ra_depfile a) then variable width ''depfile'' (ra_depfile a) 1 else []) @
     (if ra_generator a then variable width ''generator'' (NStr ''1'') 1 else []) @
     (if ra_restat a then variable width ''restat'' (NStr ''1'') 1 else []) @
     (if ntruthy (ra_rspfile a) then variable width ''rspfile'' (ra_rspfile a) 1 else []) @
     (if ntruthy (ra_rspfile_content a) then variable width ''rspfile_content'' (ra_rspfile_content a) 1 else [])"

definition build_inputs :: "nval \<Rightarrow> nval \<Rightarrow> nval \<Rightarrow> string list" where
  "build_inputs inputs implicit order_only =
     map escape_path (as_nlist inputs) @
     (if ntruthy implicit then ''|'' # map escape_path (as_nlist implicit) else []) @
     (if ntruthy order_only then ''||'' # map escape_path (as_nlist order_only) else [])"

definition build ::
  "int \<Rightarrow> nval \<Rightarrow> string \<Rightarrow> nval \<Rightarrow> nval \<Rightarrow> nval \<Rightarrow> (string \<times> nval) list \<Rightarrow> string \<times> string list" where
  "build width outputs rl inputs implicit order_only variables =
     (line width (''build '' @ join_with '' '' (map escape_path (as_nlist outputs)) @ '': '' @ rl @ '' '' @
        join_with '' '' (build_inputs inputs implicit order_only)) 0 @
      concat (map (\<lambda>(key, val). variable width key val 1) variables),
      as_nlist outputs)"

definition write_include :: "int \<Rightarrow> string \<Rightarrow> string" where
  "write_include width path = line width (''include '' @ path) 0"

definition subninja :: "int \<Rightarrow> string \<Rightarrow> string" where
  "subninja width path = line width (''subninja '' @ path) 0"

definition write_default :: "int \<Rightarrow> nval \<Rightarrow> string" where
  "write_default width paths = line width (''default '' @ join_with '' '' (as_nlist paths)) 0"

subsection \<open>Lines read back\<close>

text \<open>How Ninja joins lines: \<open>$\<close> and a line end vanish with the indentation that follows.\<close>

function unfold_lines :: "string \<Rightarrow> string" where
  "unfold_lines [] = []"
| "unfold_lines [c] = [c]"
| "unfold_lines (c # d # s) =
     (if c = CHR ''$'' \<and> d = ch_newline then unfold_lines (dropWhile (\<lambda>x. x = CHR '' '') s)
      else if c = CHR ''$'' then c # d # unfold_lines s
      else c # unfold_lines (d # s))"
  by pat_completeness auto

termination
  by (relation "measure length") (auto intro: le_less_trans [OF length_dropWhile_le])

lemma unfold_lines_plain [simp]: "c \<noteq> CHR ''$'' \<Longrightarrow> unfold_lines (c # s) = c # unfold_lines s"
  by (cases s) simp_all

lemma unfold_join:
  "ch_newline \<notin> set u \<Longrightarrow>
    unfold_lines (u @ CHR '' '' # CHR ''$'' # ch_newline # r) =
      u @ CHR '' '' # unfold_lines (dropWhile (\<lambda>x. x = CHR '' '') r)"
proof (induction u rule: unfold_lines.induct)
  case (2 c)
  then show ?case by (cases "c = CHR ''$''") simp_all
next
  case (3 c d s)
  then have "d \<noteq> ch_newline" by auto
  with 3 show ?case by (cases "c = CHR ''$''") simp_all
qed simp

lemma unfold_last:
  "ch_newline \<notin> set u \<Longrightarrow> u = [] \<or> last u \<noteq> CHR ''$'' \<Longrightarrow> unfold_lines (u @ [ch_newline]) = u @ [ch_newline]"
proof (induction u rule: unfold_lines.induct)
  case (3 c d s)
  then show ?case by (cases "c = CHR ''$''") (auto split: if_splits)
qed simp_all

lemma unfold_spaces: "\<forall>c \<in> set l. c = CHR '' '' \<Longrightarrow> unfold_lines (l @ s) = l @ unfold_lines s"
  by (induction l) simp_all

definition single_spaced :: "string \<Rightarrow> bool" where
  "single_spaced s \<longleftrightarrow> (\<forall>k. Suc k < length s \<longrightarrow> \<not> (s ! k = CHR '' '' \<and> s ! Suc k = CHR '' ''))"

definition line_text :: "string \<Rightarrow> bool" where
  "line_text s \<longleftrightarrow> single_spaced s \<and> ch_newline \<notin> set s \<and> (s = [] \<or> last s \<noteq> CHR ''$'')"

lemma line_text_after_break:
  assumes "line_text s" and "k < length s" and "s ! k = CHR '' ''"
  shows "line_text (drop (k + 1) s)"
    and "drop (k + 1) s = [] \<or> hd (drop (k + 1) s) \<noteq> CHR '' ''"
proof -
  have "single_spaced (drop (k + 1) s)"
    using assms(1) by (auto simp: line_text_def single_spaced_def)
  moreover have "drop (k + 1) s = [] \<or> last (drop (k + 1) s) = last s"
    by (cases "k + 1 < length s") (simp_all add: last_drop)
  ultimately show "line_text (drop (k + 1) s)"
    using assms(1) by (auto simp: line_text_def dest: in_set_dropD)
  show "drop (k + 1) s = [] \<or> hd (drop (k + 1) s) \<noteq> CHR '' ''"
    using assms by (auto simp: line_text_def single_spaced_def hd_drop_conv_nth)
qed

lemma spaces_replicate: "\<forall>c \<in> set (concat (replicate n ''  '')). c = CHR '' ''"
  by auto

text \<open>What the loop writes after the indentation of the first line.\<close>

lemma line_loop_body:
  "\<exists>body. line_loop w i l t = l @ body \<and> (t \<noteq> [] \<longrightarrow> hd t \<noteq> CHR '' '' \<longrightarrow> body \<noteq> [] \<and> hd body \<noteq> CHR '' '')
    \<and> (t = [] \<longrightarrow> body = [ch_newline])"
proof -
  have whole: ?thesis if "line_loop w i l t = l @ t @ [ch_newline]"
    using that by (intro exI [of _ "t @ [ch_newline]"]) simp
  show ?thesis
  proof (cases "int (length l + length t) > w")
    case False
    then show ?thesis by (intro whole) (simp add: line_loop.simps [of w i l t])
  next
    case wide: True
    show ?thesis
    proof (cases "line_break w l t")
      case None
      with wide show ?thesis by (intro whole) (simp add: line_loop.simps [of w i l t])
    next
      case (Some k)
      let ?r = "'' $'' @ [ch_newline] @ line_loop w i (concat (replicate (i + 2) ''  '')) (drop (k + 1) t)"
      from line_break_Some [OF Some] have k: "k < length t" "t ! k = CHR '' ''" by simp_all
      have "line_loop w i l t = l @ take k t @ ?r"
        using wide Some by (simp add: line_loop.simps [of w i l t])
      moreover have "hd (take k t @ ?r) = hd t \<and> take k t @ ?r \<noteq> []" if "hd t \<noteq> CHR '' ''"
        using k that by (cases t; cases k) auto
      ultimately show ?thesis using k by (intro exI [of _ "take k t @ ?r"]) auto
    qed
  qed
qed

lemma line_loop_unfolds:
  "line_text t \<Longrightarrow> \<forall>c \<in> set l. c = CHR '' '' \<Longrightarrow> unfold_lines (line_loop w i l t) = l @ t @ [ch_newline]"
proof (induction w i l t rule: line_loop.induct)
  case (1 w i l t)
  have fits: "unfold_lines (l @ t @ [ch_newline]) = l @ t @ [ch_newline]"
    using "1.prems" by (simp add: unfold_spaces unfold_last line_text_def)
  show ?case
  proof (cases "int (length l + length t) > w")
    case False
    with fits show ?thesis by (simp add: line_loop.simps [of w i l t])
  next
    case wide: True
    show ?thesis
    proof (cases "line_break w l t")
      case None
      with wide fits show ?thesis by (simp add: line_loop.simps [of w i l t])
    next
      case (Some k)
      let ?t = "drop (k + 1) t"
      define l2 where "l2 = concat (replicate (i + 2) ''  '')"
      have spaces: "\<forall>c \<in> set l2. c = CHR '' ''" unfolding l2_def by (rule spaces_replicate)
      from line_break_Some [OF Some] have k: "k < length t" "t ! k = CHR '' ''" by simp_all
      note after = line_text_after_break [OF "1.prems"(1) k]
      have IH: "unfold_lines (line_loop w i l2 ?t) = l2 @ ?t @ [ch_newline]"
        unfolding l2_def by (rule "1.IH" [OF wide Some after(1) spaces_replicate])
      obtain body where body: "line_loop w i l2 ?t = l2 @ body"
        and hdb: "?t \<noteq> [] \<longrightarrow> hd ?t \<noteq> CHR '' '' \<longrightarrow> body \<noteq> [] \<and> hd body \<noteq> CHR '' ''"
          "?t = [] \<longrightarrow> body = [ch_newline]"
        using line_loop_body [of w i l2 ?t] by blast
      have b: "unfold_lines body = ?t @ [ch_newline]"
        using IH [unfolded body] unfold_spaces [OF spaces, of body] by simp
      have "body \<noteq> [] \<and> hd body \<noteq> CHR '' ''" using hdb after(2) by (cases "?t = []") auto
      then have "dropWhile (\<lambda>x. x = CHR '' '') (l2 @ body) = body"
        using spaces by (cases body) (auto simp: dropWhile_append2)
      moreover have "ch_newline \<notin> set (take k t)" using "1.prems"(1) by (auto simp: line_text_def dest: in_set_takeD)
      ultimately have tail: "unfold_lines (take k t @ CHR '' '' # CHR ''$'' # ch_newline # line_loop w i l2 ?t) =
          take k t @ CHR '' '' # ?t @ [ch_newline]"
        unfolding body using unfold_join [of "take k t" "l2 @ body"] b by simp
      have whole: "take k t @ CHR '' '' # ?t = t" using k by (metis Suc_eq_plus1 id_take_nth_drop)
      have "line_loop w i l t = l @ take k t @ CHR '' '' # CHR ''$'' # ch_newline # line_loop w i l2 ?t"
        unfolding l2_def line_loop.simps [of w i l t] using wide Some by simp
      then have "unfold_lines (line_loop w i l t) = l @ take k t @ CHR '' '' # ?t @ [ch_newline]"
        by (simp only: unfold_spaces [OF "1.prems"(2)] tail)
      also have "\<dots> = l @ t @ [ch_newline]" using arg_cong [OF whole, of "\<lambda>x. x @ [ch_newline]"] by simp
      finally show ?thesis .
    qed
  qed
qed

text \<open>
  (C28) Wrapping does not change a line: joined as Ninja joins them, the lines written are
  the indented text, for every width and indentation, as long as the text is on one
  line, does not end in \<open>$\<close> and has no two spaces in a row.
\<close>

theorem line_reads_back:
  assumes "line_text s"
  shows "unfold_lines (line width s indent) = concat (replicate indent ''  '') @ s @ [ch_newline]"
  unfolding line_def by (rule line_loop_unfolds [OF assms spaces_replicate])

theorem line_reads_back_witness:
  "line 12 ''command = cc -c $in'' 1 \<noteq> ''  command = cc -c $in'' @ [ch_newline] \<and>
   unfold_lines (line 12 ''command = cc -c $in'' 1) = ''  command = cc -c $in'' @ [ch_newline]"
proof
  show "line 12 ''command = cc -c $in'' 1 \<noteq> ''  command = cc -c $in'' @ [ch_newline]" by code_simp
  have "single_spaced ''command = cc -c $in''"
    by (auto simp: single_spaced_def less_Suc_eq eval_nat_numeral)
  then have "line_text ''command = cc -c $in''" by (simp add: line_text_def)
  from line_reads_back [OF this, of 12 1]
  show "unfold_lines (line 12 ''command = cc -c $in'' 1) = ''  command = cc -c $in'' @ [ch_newline]" by simp
qed

text \<open>The count of dollar signs misses one at the start of the text.\<close>

theorem count_dollars_misses_first:
  "count_dollars_before_index ''$ a'' 1 = 0 \<and> count_dollars_before_index ''b$ a'' 2 = 1"
  by code_simp

subsection \<open>Build statements read back\<close>

text \<open>
  How Ninja reads the line of a build statement: paths, colons and bars, up to the end
  of the line.  A reference to a variable is not read.
\<close>

datatype ntoken = NPath string | NColon | NBar | NBars

definition path_end :: "string \<Rightarrow> ntoken list" where
  "path_end acc = (if acc = [] then [] else [NPath acc])"

fun lex_line :: "string \<Rightarrow> string \<Rightarrow> ntoken list option" where
  "lex_line acc [] = Some (path_end acc)"
| "lex_line acc (c # s) =
     (if c = ch_newline then Some (path_end acc)
      else if c = CHR '' '' then map_option (\<lambda>ts. path_end acc @ ts) (lex_line [] s)
      else if c = CHR '':'' then map_option (\<lambda>ts. path_end acc @ NColon # ts) (lex_line [] s)
      else if c = CHR ''|''
      then (case s of
              [] \<Rightarrow> Some (path_end acc @ [NBar])
            | d # r \<Rightarrow>
                if d = CHR ''|'' then map_option (\<lambda>ts. path_end acc @ NBars # ts) (lex_line [] r)
                else map_option (\<lambda>ts. path_end acc @ NBar # ts) (lex_line [] (d # r)))
      else if c = CHR ''$''
      then (case s of
              [] \<Rightarrow> None
            | d # r \<Rightarrow> if d \<in> {CHR '' '', CHR '':'', CHR ''$''} then lex_line (acc @ [d]) r else None)
      else lex_line (acc @ [c]) s)"

fun leading_paths :: "ntoken list \<Rightarrow> string list \<times> ntoken list" where
  "leading_paths (NPath w # ts) = (w # fst (leading_paths ts), snd (leading_paths ts))"
| "leading_paths ts = ([], ts)"

text \<open>The outputs, the rule, the inputs, the implicit inputs and the order-only ones.\<close>

definition parse_build ::
  "ntoken list \<Rightarrow> (string list \<times> string \<times> string list \<times> string list \<times> string list) option" where
  "parse_build ts =
     (let (outs, ts1) = leading_paths ts in
      case ts1 of
        NColon # NPath rl # ts2 \<Rightarrow>
          (let (ins, ts3) = leading_paths ts2;
               (imps, ts4) = (case ts3 of NBar # ts \<Rightarrow> leading_paths ts | _ \<Rightarrow> ([], ts3));
               (orders, ts5) = (case ts4 of NBars # ts \<Rightarrow> leading_paths ts | _ \<Rightarrow> ([], ts4))
           in if ts5 = [] then Some (outs, rl, ins, imps, orders) else None)
      | _ \<Rightarrow> None)"

definition read_build ::
  "string \<Rightarrow> (string list \<times> string \<times> string list \<times> string list \<times> string list) option" where
  "read_build txt =
     (let l = unfold_lines txt in
      if startswith l ''build '' then Option.bind (lex_line [] (drop 6 l)) parse_build else None)"

text \<open>
  Paths a build statement can carry: \<open>$\<close> stands only before a space, so that it starts no
  variable; there is no bar and no line end, which the writer does not quote; and the
  path neither is empty nor ends in a space.
\<close>

fun plain_path :: "string \<Rightarrow> bool" where
  "plain_path [] = True"
| "plain_path [c] = (c \<notin> {CHR ''$'', CHR '' '', CHR ''|'', ch_newline})"
| "plain_path (c # d # s) =
     (if c = CHR ''$'' then d = CHR '' '' \<and> s \<noteq> [] \<and> plain_path s
      else c \<noteq> CHR ''|'' \<and> c \<noteq> ch_newline \<and> plain_path (d # s))"

definition build_path :: "string \<Rightarrow> bool" where
  "build_path w \<longleftrightarrow> w \<noteq> [] \<and> plain_path w"

definition rule_name :: "string \<Rightarrow> bool" where
  "rule_name w \<longleftrightarrow> w \<noteq> [] \<and> set w \<inter> {CHR ''$'', CHR '' '', CHR '':'', CHR ''|'', ch_newline} = {}"

lemma lex_line_plain:
  "c \<notin> {CHR ''$'', CHR '' '', CHR '':'', CHR ''|'', ch_newline} \<Longrightarrow> lex_line acc (c # s) = lex_line (acc @ [c]) s"
  by simp

lemma escape_path_simps:
  "escape_path [] = []"
  "escape_path (CHR ''$'' # CHR '' '' # s) = ''$$$ '' @ escape_path s"
  "c \<noteq> CHR ''$'' \<Longrightarrow> escape_path (c # s) =
     (if c = CHR '' '' then ''$ '' else if c = CHR '':'' then ''$:'' else [c]) @ escape_path s"
proof -
  show "escape_path [] = []" by (simp add: escape_path_def)
  show "escape_path (CHR ''$'' # CHR '' '' # s) = ''$$$ '' @ escape_path s" by (simp add: escape_path_def)
  assume "c \<noteq> CHR ''$''"
  then have "replace_pair (CHR ''$'') (CHR '' '') ''$$ '' (c # s) =
      c # replace_pair (CHR ''$'') (CHR '' '') ''$$ '' s" by (cases s) simp_all
  then show "escape_path (c # s) =
     (if c = CHR '' '' then ''$ '' else if c = CHR '':'' then ''$:'' else [c]) @ escape_path s"
    by (simp add: escape_path_def)
qed

lemma lex_escaped: "plain_path w \<Longrightarrow> lex_line acc (escape_path w @ s) = lex_line (acc @ w) s"
proof (induction w arbitrary: acc rule: plain_path.induct)
  case 1
  show ?case by (simp add: escape_path_simps)
next
  case (2 c)
  then show ?case by (simp add: escape_path_simps)
next
  case (3 c d w)
  show ?case
  proof (cases "c = CHR ''$''")
    case True
    with 3 show ?thesis by (simp add: escape_path_simps)
  next
    case False
    with 3 show ?thesis by (simp add: escape_path_simps(3) [of c] del: escape_path_simps)
  qed
qed

text \<open>How the writer writes a token, and the tokens of a statement.\<close>

fun token_text :: "ntoken \<Rightarrow> string" where
  "token_text (NPath w) = escape_path w"
| "token_text NColon = '':''"
| "token_text NBar = ''|''"
| "token_text NBars = ''||''"

fun token_ok :: "ntoken \<Rightarrow> bool" where
  "token_ok (NPath w) = build_path w"
| "token_ok t = (t \<noteq> NColon)"

lemma map_option_append_Nil [simp]: "map_option ((@) []) x = x"
  by (cases x) simp_all

lemma map_option_append_single [simp]: "map_option ((@) [t]) x = map_option (Cons t) x"
  by (cases x) simp_all

lemma lex_token:
  "token_ok t \<Longrightarrow> c \<in> {CHR '' '', CHR '':'', ch_newline} \<Longrightarrow>
    lex_line [] (token_text t @ c # s) = map_option (Cons t) (lex_line [] (c # s))"
  by (cases t) (auto simp: lex_escaped build_path_def path_end_def option.map_comp comp_def)

lemma lex_joined:
  assumes "\<forall>t \<in> set ts. token_ok t" and "c \<in> {CHR '' '', CHR '':'', ch_newline}"
  shows "lex_line [] (join_with '' '' (map token_text ts) @ c # s) = map_option (append ts) (lex_line [] (c # s))"
  using assms(1)
proof (induction ts)
  case (Cons t ts)
  then have t: "token_ok t" by simp
  show ?case
  proof (cases ts)
    case Nil
    have "append [t] = Cons t" by (rule ext) simp
    with Nil lex_token [OF t assms(2)] show ?thesis by simp
  next
    case (Cons u us)
    have "lex_line [] (join_with '' '' (map token_text (t # ts)) @ c # s) =
        map_option (Cons t) (lex_line [] (join_with '' '' (map token_text ts) @ c # s))"
      using Cons lex_token [OF t, of "CHR '' ''"] by (simp add: path_end_def)
    with Cons.IH Cons.prems show ?thesis by (simp add: option.map_comp comp_def)
  qed
qed (simp add: option.map_ident)

lemma rule_name_escape: "set w \<inter> {CHR ''$'', CHR '' '', CHR '':''} = {} \<Longrightarrow> escape_path w = w"
  by (induction w) (auto simp: escape_path_simps)

lemma rule_name_path: "rule_name w \<Longrightarrow> build_path w"
proof -
  have "set w \<inter> {CHR ''$'', CHR '' '', CHR '':'', CHR ''|'', ch_newline} = {} \<Longrightarrow> plain_path w"
    by (induction w rule: plain_path.induct) auto
  then show "rule_name w \<Longrightarrow> build_path w" by (simp add: rule_name_def build_path_def)
qed

lemma leading_paths_map: "leading_paths (map NPath ws @ ts) = (ws @ fst (leading_paths ts), snd (leading_paths ts))"
  by (induction ws) simp_all

definition input_tokens :: "string list \<Rightarrow> string list \<Rightarrow> string list \<Rightarrow> ntoken list" where
  "input_tokens ins imps orders =
     map NPath ins @ (if imps \<noteq> [] then NBar # map NPath imps else []) @
     (if orders \<noteq> [] then NBars # map NPath orders else [])"

lemma parse_tokens:
  "parse_build (map NPath outs @ NColon # NPath rl # input_tokens ins imps orders) = Some (outs, rl, ins, imps, orders)"
  using leading_paths_map [of imps "[]"] leading_paths_map [of orders "[]"] leading_paths_map [of ins "[]"]
  by (simp add: parse_build_def input_tokens_def leading_paths_map)

subsection \<open>The line of a build statement\<close>

lemma single_spaced_append:
  assumes "single_spaced a" and "single_spaced b" and "a = [] \<or> b = [] \<or> last a \<noteq> CHR '' '' \<or> hd b \<noteq> CHR '' ''"
  shows "single_spaced (a @ b)"
  unfolding single_spaced_def
proof (intro allI impI notI)
  fix k assume k: "Suc k < length (a @ b)" and two: "(a @ b) ! k = CHR '' '' \<and> (a @ b) ! Suc k = CHR '' ''"
  show False
  proof (cases "Suc k < length a")
    case True
    with two have "a ! k = CHR '' '' \<and> a ! Suc k = CHR '' ''" by (simp add: nth_append)
    with True assms(1) show ?thesis unfolding single_spaced_def by blast
  next
    case False
    show ?thesis
    proof (cases "k < length a")
      case True
      with False have l: "length a = Suc k" by simp
      then have "last a = a ! k" by (subst last_conv_nth) auto
      with two k l assms(3) show ?thesis by (auto simp: nth_append hd_conv_nth)
    next
      case far: False
      then obtain j where "k = length a + j" using le_Suc_ex not_less by blast
      with two k have "b ! j = CHR '' '' \<and> b ! Suc j = CHR '' '' \<and> Suc j < length b" by (simp add: nth_append)
      with assms(2) show ?thesis unfolding single_spaced_def by blast
    qed
  qed
qed

lemma single_spaced_simps [simp]: "single_spaced []" "single_spaced [c]"
  by (simp_all add: single_spaced_def)

lemma single_spaced_Cons: "single_spaced s \<Longrightarrow> c \<noteq> CHR '' '' \<or> s = [] \<or> hd s \<noteq> CHR '' '' \<Longrightarrow> single_spaced (c # s)"
  using single_spaced_append [of "[c]" s] by simp

text \<open>Texts that may follow and precede one space: no space at either end, and no \<open>$\<close> at the end.\<close>

definition word_text :: "string \<Rightarrow> bool" where
  "word_text s \<longleftrightarrow> s \<noteq> [] \<and> single_spaced s \<and> ch_newline \<notin> set s \<and> hd s \<noteq> CHR '' '' \<and>
     last s \<noteq> CHR '' '' \<and> last s \<noteq> CHR ''$''"

lemma word_text_join: "word_text a \<Longrightarrow> word_text b \<Longrightarrow> word_text (a @ CHR '' '' # b)"
  by (auto simp: word_text_def intro!: single_spaced_append single_spaced_Cons)

lemma escape_word: "plain_path w \<Longrightarrow> w \<noteq> [] \<Longrightarrow> word_text (escape_path w)"
proof (induction w rule: plain_path.induct)
  case (2 c)
  then show ?case by (auto simp: escape_path_simps word_text_def intro!: single_spaced_Cons)
next
  case (3 c d w)
  show ?case
  proof (cases "c = CHR ''$''")
    case True
    with 3 have "word_text (escape_path w)" by simp
    with True 3(3) show ?thesis
      by (auto simp: escape_path_simps word_text_def intro!: single_spaced_Cons)
  next
    case False
    with 3 have "word_text (escape_path (d # w))" by simp
    with False 3(3) show ?thesis
      by (auto simp: escape_path_simps(3) [of c] word_text_def intro!: single_spaced_Cons)
  qed
qed simp

lemma token_word: "token_ok t \<Longrightarrow> word_text (token_text t)"
proof (cases t)
  case (NPath w)
  then show "token_ok t \<Longrightarrow> word_text (token_text t)" by (simp add: build_path_def escape_word)
next
  case NBars
  have "single_spaced ''||''" by (rule single_spaced_Cons) simp_all
  with NBars show ?thesis by (simp add: word_text_def)
qed (simp_all add: word_text_def)

lemma words_word: "\<forall>t \<in> set ts. token_ok t \<Longrightarrow> ts \<noteq> [] \<Longrightarrow> word_text (join_with '' '' (map token_text ts))"
proof (induction ts)
  case (Cons t ts)
  show ?case
  proof (cases ts)
    case Nil
    with Cons.prems show ?thesis by (simp add: token_word)
  next
    case (Cons u us)
    with Cons.IH Cons.prems have "word_text (join_with '' '' (map token_text ts))" by simp
    with Cons Cons.prems show ?thesis by (simp add: token_word word_text_join)
  qed
qed simp

lemma word_line: "word_text s \<Longrightarrow> line_text s" "word_text s \<Longrightarrow> line_text (s @ '' '')"
  by (auto simp: word_text_def line_text_def intro!: single_spaced_append)

text \<open>What is written ends a line that what follows does not change.\<close>

lemma line_loop_end: "line_text t \<Longrightarrow> \<forall>c \<in> set l. c = CHR '' '' \<Longrightarrow>
    \<exists>x. line_loop w i l t = x @ [ch_newline] \<and> (x = [] \<or> last x \<noteq> CHR ''$'')"
proof (induction w i l t rule: line_loop.induct)
  case (1 w i l t)
  have fits: "l @ t = [] \<or> last (l @ t) \<noteq> CHR ''$''"
  proof (cases "t = []")
    case True
    have "l \<noteq> [] \<Longrightarrow> last l = CHR '' ''" using "1.prems"(2) last_in_set by blast
    with True show ?thesis by auto
  next
    case False
    with "1.prems"(1) show ?thesis by (simp add: line_text_def)
  qed
  show ?case
  proof (cases "int (length l + length t) > w")
    case False
    with fits show ?thesis by (intro exI [of _ "l @ t"]) (simp add: line_loop.simps [of w i l t])
  next
    case wide: True
    show ?thesis
    proof (cases "line_break w l t")
      case None
      with wide fits show ?thesis by (intro exI [of _ "l @ t"]) (simp add: line_loop.simps [of w i l t])
    next
      case (Some k)
      define l2 where "l2 = concat (replicate (i + 2) ''  '')"
      from line_break_Some [OF Some] have k: "k < length t" "t ! k = CHR '' ''" by simp_all
      obtain x where x: "line_loop w i l2 (drop (k + 1) t) = x @ [ch_newline]" "x = [] \<or> last x \<noteq> CHR ''$''"
        using "1.IH" [OF wide Some line_text_after_break(1) [OF "1.prems"(1) k] spaces_replicate]
        unfolding l2_def by blast
      have "line_loop w i l t = (l @ take k t @ '' $'' @ [ch_newline] @ x) @ [ch_newline]"
        unfolding line_loop.simps [of w i l t] using wide Some x(1) by (simp add: l2_def)
      with x(2) show ?thesis by (intro exI [of _ "l @ take k t @ '' $'' @ [ch_newline] @ x"]) auto
    qed
  qed
qed

lemma unfold_append:
  "x = [] \<or> last x \<noteq> CHR ''$'' \<Longrightarrow> unfold_lines (x @ ch_newline # r) = unfold_lines (x @ [ch_newline]) @ unfold_lines r"
proof (induction x rule: unfold_lines.induct)
  case (3 c d s)
  let ?sp = "\<lambda>x. x = CHR '' ''"
  show ?case
  proof (cases "c = CHR ''$'' \<and> d = ch_newline")
    case True
    have drop: "dropWhile ?sp (s @ ch_newline # q) = dropWhile ?sp s @ ch_newline # q" for q
      by (induction s) simp_all
    have "dropWhile ?sp s = [] \<or> last (dropWhile ?sp s) = last s" by (induction s) auto
    moreover have "s = [] \<or> last s \<noteq> CHR ''$''" using "3.prems" True by (auto split: if_splits)
    ultimately have "dropWhile ?sp s = [] \<or> last (dropWhile ?sp s) \<noteq> CHR ''$''" by auto
    from "3.IH"(1) [OF True this] show ?thesis using True by (simp add: drop)
  next
    case False
    with 3 show ?thesis by (cases "c = CHR ''$''") (auto split: if_splits)
  qed
qed simp_all

lemma line_then: "line_text t \<Longrightarrow> unfold_lines (line w t 0 @ r) = t @ ch_newline # unfold_lines r"
proof -
  assume t: "line_text t"
  then obtain x where x: "line w t 0 = x @ [ch_newline]" "x = [] \<or> last x \<noteq> CHR ''$''"
    using line_loop_end [of t "[]" w 0] by (auto simp: line_def)
  have "unfold_lines (line w t 0) = t @ [ch_newline]"
    unfolding line_def using line_loop_unfolds [OF t, of "[]" w 0] by simp
  with unfold_append [OF x(2), of r] x(1) show "unfold_lines (line w t 0 @ r) = t @ ch_newline # unfold_lines r" by simp
qed

lemma ntruthy_list: "\<forall>w \<in> set (as_nlist v). w \<noteq> [] \<Longrightarrow> ntruthy v \<longleftrightarrow> as_nlist v \<noteq> []"
  by (cases v) (auto simp: as_nlist_def)

lemma build_inputs_tokens:
  assumes "\<forall>w \<in> set (as_nlist implicit) \<union> set (as_nlist order_only). w \<noteq> []"
  shows "build_inputs inputs implicit order_only =
    map token_text (input_tokens (as_nlist inputs) (as_nlist implicit) (as_nlist order_only))"
proof -
  have "ntruthy implicit \<longleftrightarrow> as_nlist implicit \<noteq> []" "ntruthy order_only \<longleftrightarrow> as_nlist order_only \<noteq> []"
    using assms by (auto intro!: ntruthy_list)
  then show ?thesis by (simp add: build_inputs_def input_tokens_def comp_def)
qed

lemma build_line_text:
  assumes "\<forall>t \<in> set (map NPath outs @ its). token_ok t" and "rule_name rl"
  shows "line_text (''build '' @ join_with '' '' (map escape_path outs) @ '': '' @ rl @ '' '' @
    join_with '' '' (map token_text its))"
proof -
  let ?o = "join_with '' '' (map escape_path outs)" and ?i = "join_with '' '' (map token_text its)"
  have "word_text (?o @ '':'')"
  proof (cases "outs = []")
    case False
    have "word_text (join_with '' '' (map token_text (map NPath outs)))" using assms(1) False by (intro words_word) auto
    then have "word_text ?o" by (simp add: comp_def)
    then show ?thesis by (auto simp: word_text_def intro!: single_spaced_append)
  qed (simp add: word_text_def)
  moreover have "single_spaced ''build''" by (intro single_spaced_Cons) simp_all
  then have "word_text ''build''" by (simp add: word_text_def)
  moreover have "word_text rl"
    using escape_word [of rl] rule_name_path [OF assms(2)] rule_name_escape [of rl] assms(2)
    by (auto simp: build_path_def rule_name_def)
  ultimately have h: "word_text (''build'' @ CHR '' '' # (?o @ '':'') @ CHR '' '' # rl)" by (intro word_text_join)
  show ?thesis
  proof (cases "its = []")
    case True
    with word_line(2) [OF h] show ?thesis by simp
  next
    case False
    have "word_text ?i" using assms(1) False by (intro words_word) auto
    with word_line(1) [OF word_text_join [OF h this]] show ?thesis by simp
  qed
qed

lemma lex_build_line:
  assumes "\<forall>t \<in> set (map NPath outs @ its). token_ok t" and "rule_name rl"
  shows "lex_line [] (join_with '' '' (map escape_path outs) @ '': '' @ rl @ '' '' @
      join_with '' '' (map token_text its) @ ch_newline # r) = Some (map NPath outs @ NColon # NPath rl # its)"
proof -
  have rl: "token_ok (NPath rl)" "token_text (NPath rl) = rl"
    using rule_name_path [OF assms(2)] rule_name_escape [of rl] assms(2) by (auto simp: rule_name_def)
  have its: "lex_line [] (join_with '' '' (map token_text its) @ ch_newline # r) = Some its"
    using lex_joined [of its ch_newline r] assms(1) by (simp add: path_end_def)
  have rule: "lex_line [] (rl @ CHR '' '' # s) = map_option (Cons (NPath rl)) (lex_line [] s)" for s
    using lex_token [OF rl(1), of "CHR '' ''" s] rl(2) by (simp add: path_end_def)
  have "\<forall>t \<in> set (map NPath outs). token_ok t" using assms(1) by auto
  from lex_joined [OF this, of "CHR '':''"] rule its show ?thesis by (simp add: path_end_def comp_def)
qed

text \<open>
  (C29) A build statement is read back as it was given, whatever the width its line is
  wrapped at and the variables that follow it: the outputs, the rule, the inputs, the
  implicit and the order-only inputs, with their spaces and colons.  The paths are not
  empty, do not end in a space, have no \<open>|\<close> and no line end, and a \<open>$\<close> of theirs stands
  before a space (\<open>build_path\<close>); the rule's name has none of these characters.
\<close>

theorem build_reads_back:
  assumes "\<forall>w \<in> set (as_nlist outputs @ as_nlist inputs @ as_nlist implicit @ as_nlist order_only). build_path w"
    and "rule_name rl"
  shows "read_build (fst (build width outputs rl inputs implicit order_only variables)) =
    Some (as_nlist outputs, rl, as_nlist inputs, as_nlist implicit, as_nlist order_only)"
proof -
  let ?its = "input_tokens (as_nlist inputs) (as_nlist implicit) (as_nlist order_only)"
  let ?t = "''build '' @ join_with '' '' (map escape_path (as_nlist outputs)) @ '': '' @ rl @ '' '' @
    join_with '' '' (map token_text ?its)"
  have ok: "\<forall>t \<in> set (map NPath (as_nlist outputs) @ ?its). token_ok t"
    using assms(1) by (auto simp: input_tokens_def)
  have "build_inputs inputs implicit order_only = map token_text ?its"
    using assms(1) by (intro build_inputs_tokens) (auto simp: build_path_def)
  then obtain r where "fst (build width outputs rl inputs implicit order_only variables) = line width ?t 0 @ r"
    by (simp add: build_def)
  then have "unfold_lines (fst (build width outputs rl inputs implicit order_only variables)) =
      ?t @ ch_newline # unfold_lines r"
    using line_then [OF build_line_text [OF ok assms(2)]] by simp
  with lex_build_line [OF ok assms(2)] show ?thesis by (simp add: read_build_def parse_tokens)
qed

theorem build_reads_back_witness:
  "read_build (fst (build 20 (NStr ''a b'') ''cc'' (NList [''c:d'', ''e'']) NNone (NStr ''f'') [(''v'', NStr ''1'')])) =
   Some ([''a b''], ''cc'', [''c:d'', ''e''], [], [''f''])"
proof -
  have "\<forall>w \<in> set (as_nlist (NStr ''a b'') @ as_nlist (NList [''c:d'', ''e'']) @ as_nlist NNone @ as_nlist (NStr ''f'')).
      build_path w"
    by (simp add: as_nlist_def build_path_def)
  moreover have "rule_name ''cc''" by (simp add: rule_name_def)
  ultimately show ?thesis by (subst build_reads_back) (simp_all add: as_nlist_def)
qed

text \<open>A bar in a path is not quoted: the statement that is read has an implicit input instead.\<close>

theorem build_bar_not_quoted:
  "read_build (fst (build 78 (NStr ''o'') ''cc'' (NStr ''a|b'') NNone NNone [])) = Some ([''o''], ''cc'', [''a''], [''b''], [])"
  by code_simp

text \<open>How Ninja evaluates text without variables: \<open>$$\<close> is a dollar sign.\<close>

fun eval_plain :: "string \<Rightarrow> string option" where
  "eval_plain [] = Some []"
| "eval_plain [c] = (if c = CHR ''$'' then None else Some [c])"
| "eval_plain (c # d # s) =
     (if c = CHR ''$'' then (if d = CHR ''$'' then map_option (Cons d) (eval_plain s) else None)
      else map_option (Cons c) (eval_plain (d # s)))"

lemma eval_plain_Cons: "c \<noteq> CHR ''$'' \<Longrightarrow> eval_plain (c # s) = map_option (Cons c) (eval_plain s)"
  by (cases s) simp_all

lemma eval_escaped: "eval_plain (replace_char (CHR ''$'') ''$$'' s) = Some s"
  by (induction s) (simp_all add: eval_plain_Cons)

text \<open>An escaped string evaluates to the string itself; a string with a line end is refused.\<close>

theorem escape_evaluates:
  "(case escape s of Inr t \<Rightarrow> ch_newline \<notin> set s \<and> eval_plain t = Some s
    | Inl e \<Rightarrow> ch_newline \<in> set s \<and> e = AssertionError)"
  by (simp add: escape_def eval_escaped)

end
