(* ===== verification/Easy_Xml.thy ===== *)
theory Easy_Xml
  imports Gyp_Value
begin

text \<open>
  \<open>tools/gyp/pylib/gyp/easy_xml.py\<close>: an XML document from nested lists, the escaping
  of text and attributes, and writing a file only when it changes.
\<close>

subsection \<open>Specifications\<close>

text \<open>
  What the callers give: a \<open>str\<close>, a \<open>unicode\<close> object, a list (or a tuple, which is
  indexed the same way), a dictionary, or an object of another class, which cannot be
  indexed and is no text.  A \<open>unicode\<close> object has ASCII characters here, and so have the
  byte strings of a document with one: Python 2 then joins the two freely.
\<close>

datatype xspec =
    XStr string
  | XUni string
  | XList "xspec list"
  | XDict "(gkey \<times> xspec) list"
  | XOther string

text \<open>\<open>isinstance(x, str)\<close>.\<close>

fun is_xstr :: "xspec \<Rightarrow> bool" where
  "is_xstr (XStr s) = True"
| "is_xstr _ = False"

text \<open>The characters of a string of either kind, which is what \<open>re.sub\<close> accepts.\<close>

fun text_of :: "xspec \<Rightarrow> string res" where
  "text_of (XStr s) = Inr s"
| "text_of (XUni s) = Inr s"
| "text_of _ = Inl (TypeError ''expected string or buffer'')"

subsection \<open>Escaping\<close>

definition xml_escape_map :: "char \<Rightarrow> string option" where
  "xml_escape_map c =
     (if c = ch_dquote then Some ''&quot;'' else if c = ch_squote then Some ''&apos;''
      else if c = CHR ''<'' then Some ''&lt;'' else if c = CHR ''>'' then Some ''&gt;''
      else if c = CHR ''&'' then Some ''&amp;'' else if c = ch_newline then Some ''&#xA;''
      else if c = ch_return then Some ''&#xD;'' else None)"

definition xml_replace :: "bool \<Rightarrow> char \<Rightarrow> string" where
  "xml_replace attr c =
     (case xml_escape_map c of
        None \<Rightarrow> [c]
      | Some r \<Rightarrow> if attr \<and> c = ch_squote then [c] else r)"

definition XmlEscape :: "bool \<Rightarrow> string \<Rightarrow> string" where
  "XmlEscape attr value = concat (map (xml_replace attr) value)"

subsection \<open>Building the document\<close>

definition escape_val :: "bool \<Rightarrow> xspec \<Rightarrow> string res" where
  "escape_val attr v = bindE (text_of v) (\<lambda>s. Inr (XmlEscape attr s))"

definition attr_part :: "gkey \<times> xspec \<Rightarrow> string res" where
  "attr_part kv =
     (let (at, val) = kv in
      bindE (escape_val True val) (\<lambda>v.
        Inr ('' '' @ (case at of KStr s \<Rightarrow> s | KInt i \<Rightarrow> show_int i) @ ''='' @ [ch_dquote] @ v @ [ch_dquote])))"

definition sorted_items :: "(gkey \<times> xspec) list \<Rightarrow> (gkey \<times> xspec) list" where
  "sorted_items d = sort_key fst d"

definition split_attrs :: "xspec list \<Rightarrow> (gkey \<times> xspec) list \<times> xspec list" where
  "split_attrs rest =
     (case rest of
        XDict d # r \<Rightarrow> (d, r)
      | _ \<Rightarrow> ([], rest))"

definition name_error :: exn where
  "name_error = ValueError ''The first item of an EasyXml specification should be a string.''"

lemma split_attrs_sub: "x \<in> set (snd (split_attrs rest)) \<Longrightarrow> x \<in> set rest"
  by (auto simp: split_attrs_def split: list.splits xspec.splits)

lemma spec_size: "x \<in> set (snd (split_attrs rest)) \<Longrightarrow> size x < Suc (Suc (size_list size rest))"
proof -
  assume "x \<in> set (snd (split_attrs rest))"
  then have "x \<in> set rest" by (rule split_attrs_sub)
  then have "size x \<le> size_list size rest" by (simp add: size_list_estimation')
  then show ?thesis by simp
qed

text \<open>
  \<open>specification[0]\<close> decides how the call goes.  A \<open>str\<close> given as the whole
  specification is indexed too: its first character is the name of the element and
  each other character is a text node.  A character of a \<open>unicode\<close> object is no
  \<open>str\<close>.  A dictionary is looked up with the key 0, and cannot be sliced.
\<close>

function ConstructContentList :: "bool \<Rightarrow> nat \<Rightarrow> xspec \<Rightarrow> string list res" where
  "ConstructContentList pretty level (XList []) = Inl IndexError"
| "ConstructContentList pretty level (XList (name # items)) =
     (let indentation = (if pretty then concat (replicate level ''  '') else []);
          new_line = (if pretty then [ch_newline] else []) in
      case name of
        XStr n \<Rightarrow>
          bindE (mapE attr_part (sorted_items (fst (split_attrs items)))) (\<lambda>attrs.
            if snd (split_attrs items) \<noteq> []
            then
              let multi_line = (\<not> (\<forall>x \<in> set (snd (split_attrs items)). is_xstr x)) in
              bindE (mapE (\<lambda>child_spec.
                       if is_xstr child_spec
                       then bindE (escape_val False child_spec) (\<lambda>t. Inr [t])
                       else ConstructContentList pretty (level + 1) child_spec) (snd (split_attrs items)))
                (\<lambda>children.
                  Inr ([indentation @ ''<'' @ n] @ attrs @ [''>''] @
                       (if multi_line \<and> new_line \<noteq> [] then [new_line] else []) @
                       concat children @
                       (if multi_line \<and> indentation \<noteq> [] then [indentation] else []) @
                       [''</'' @ n @ ''>'' @ new_line]))
            else Inr ([indentation @ ''<'' @ n] @ attrs @ [''/>'' @ new_line]))
      | _ \<Rightarrow> Inl name_error)"
| "ConstructContentList pretty level (XStr []) = Inl IndexError"
| "ConstructContentList pretty level (XStr (c # rest)) =
     (let indentation = (if pretty then concat (replicate level ''  '') else []);
          new_line = (if pretty then [ch_newline] else []) in
      if rest \<noteq> []
      then Inr ([indentation @ ''<'' @ [c]] @ [''>''] @ map (\<lambda>x. XmlEscape False [x]) rest @
                [''</'' @ [c] @ ''>'' @ new_line])
      else Inr [indentation @ ''<'' @ [c], ''/>'' @ new_line])"
| "ConstructContentList pretty level (XUni []) = Inl IndexError"
| "ConstructContentList pretty level (XUni (c # rest)) = Inl name_error"
| "ConstructContentList pretty level (XDict d) =
     (case dict_get d (KInt 0) of
        None \<Rightarrow> Inl (KeyError ''0'')
      | Some name \<Rightarrow> if is_xstr name then Inl (TypeError ''unhashable type'') else Inl name_error)"
| "ConstructContentList pretty level (XOther c) =
     Inl (TypeError (c @ '' object has no attribute __getitem__''))"
  by pat_completeness auto

termination
  by (relation "measure (\<lambda>(p, l, v). size v)") (auto dest: spec_size)

definition XmlToString :: "xspec \<Rightarrow> string \<Rightarrow> bool \<Rightarrow> string res" where
  "XmlToString content encoding pretty =
     bindE (ConstructContentList pretty 0 content) (\<lambda>parts.
       Inr (''<?xml version='' @ [ch_dquote] @ ''1.0'' @ [ch_dquote] @ '' encoding='' @ [ch_dquote] @ encoding @
            [ch_dquote] @ ''?>'' @ (if pretty then [ch_newline] else []) @ concat parts))"

text \<open>
  \<open>WriteXmlIfChanged\<close> on a file's content (\<open>None\<close> when it cannot be read): the new
  content, or \<open>None\<close> when the file is left alone.  On a POSIX host \<open>win32\<close> asks for
  carriage returns.
\<close>

definition WriteXmlIfChanged ::
  "xspec \<Rightarrow> string \<Rightarrow> bool \<Rightarrow> bool \<Rightarrow> string option \<Rightarrow> string option res" where
  "WriteXmlIfChanged content encoding pretty win32 existing =
     bindE (XmlToString content encoding pretty) (\<lambda>s.
       let xml_string = (if win32 then replace_char ch_newline [ch_return, ch_newline] s else s) in
       Inr (if existing \<noteq> Some xml_string then Some xml_string else None))"

subsection \<open>Escaped text read back\<close>

text \<open>How a reader of XML resolves the entities.\<close>

definition entities :: "(string \<times> char) list" where
  "entities = [(''quot;'', ch_dquote), (''apos;'', ch_squote), (''lt;'', CHR ''<''), (''gt;'', CHR ''>''),
     (''amp;'', CHR ''&''), (''#xA;'', ch_newline), (''#xD;'', ch_return)]"

fun resolve_entities :: "nat \<Rightarrow> string \<Rightarrow> string" where
  "resolve_entities 0 s = []"
| "resolve_entities (Suc n) [] = []"
| "resolve_entities (Suc n) (c # s) =
     (if c = CHR ''&''
      then (case find (\<lambda>(e, x). startswith s e) entities of
              Some (e, x) \<Rightarrow> x # resolve_entities n (drop (length e) s)
            | None \<Rightarrow> c # resolve_entities n s)
      else c # resolve_entities n s)"

lemma xml_escape_map_simps:
  "xml_escape_map ch_dquote = Some ''&quot;''" "xml_escape_map ch_squote = Some ''&apos;''"
  "xml_escape_map (CHR ''<'') = Some ''&lt;''" "xml_escape_map (CHR ''>'') = Some ''&gt;''"
  "xml_escape_map (CHR ''&'') = Some ''&amp;''" "xml_escape_map ch_newline = Some ''&#xA;''"
  "xml_escape_map ch_return = Some ''&#xD;''"
  by code_simp+

definition xml_specials :: "char list" where
  "xml_specials = [ch_dquote, ch_squote, CHR ''<'', CHR ''>'', CHR ''&'', ch_newline, ch_return]"

lemma xml_escape_map_other: "c \<notin> set xml_specials \<Longrightarrow> xml_escape_map c = None"
  by (simp add: xml_escape_map_def xml_specials_def)

lemma xml_specials_cases:
  assumes "\<And>c. c \<notin> set xml_specials \<Longrightarrow> P c"
    and "P ch_dquote" "P ch_squote" "P (CHR ''<'')" "P (CHR ''>'')" "P (CHR ''&'')" "P ch_newline" "P ch_return"
  shows "P c"
proof (cases "c \<in> set xml_specials")
  case True
  then show ?thesis unfolding xml_specials_def list.set by (elim insertE emptyE) (simp_all only: assms(2-8))
qed (rule assms(1))

lemma resolve_replace: "resolve_entities (Suc n) (xml_replace attr c @ s) = c # resolve_entities n s"
proof (rule xml_specials_cases [of _ c])
  fix c assume "c \<notin> set xml_specials"
  moreover from this have "c \<noteq> CHR ''&''" by (auto simp: xml_specials_def)
  ultimately show "resolve_entities (Suc n) (xml_replace attr c @ s) = c # resolve_entities n s"
    by (simp add: xml_replace_def xml_escape_map_other)
qed (simp_all add: xml_replace_def xml_escape_map_simps entities_def)

lemma xml_replace_no_markup: "set (xml_replace attr c) \<inter> {CHR ''<'', CHR ''>'', ch_dquote} = {}"
proof (rule xml_specials_cases [of _ c])
  fix c assume "c \<notin> set xml_specials"
  then show "set (xml_replace attr c) \<inter> {CHR ''<'', CHR ''>'', ch_dquote} = {}"
    by (simp add: xml_replace_def xml_escape_map_other) (auto simp: xml_specials_def)
qed (simp_all add: xml_replace_def xml_escape_map_simps)

lemma resolve_escaped: "length v < n \<Longrightarrow> resolve_entities n (XmlEscape attr v) = v"
proof (induction v arbitrary: n)
  case Nil
  then show ?case by (cases n) (simp_all add: XmlEscape_def)
next
  case (Cons c v)
  then obtain m where "n = Suc m" "length v < m" by (cases n) auto
  with Cons.IH show ?case using resolve_replace [of m attr c "XmlEscape attr v"] by (simp add: XmlEscape_def)
qed

lemma XmlEscape_no_markup: "set (XmlEscape attr v) \<inter> {CHR ''<'', CHR ''>'', ch_dquote} = {}"
  unfolding XmlEscape_def using xml_replace_no_markup [of attr] by (induction v) (simp_all add: Int_Un_distrib2)

text \<open>
  Escaping is faithful: resolving the entities of an escaped text or attribute value
  gives the value back, and what is written contains no markup character.
\<close>

theorem XmlEscape_round_trip:
  "resolve_entities (Suc (length v)) (XmlEscape attr v) = v \<and>
   set (XmlEscape attr v) \<inter> {CHR ''<'', CHR ''>'', ch_dquote} = {}"
  using XmlEscape_no_markup by (simp add: resolve_escaped)

subsection \<open>The structure of the document\<close>

text \<open>The tags of a text, in order, each without its angle brackets.\<close>

function tags :: "string \<Rightarrow> string list" where
  "tags s =
     (case dropWhile (\<lambda>c. c \<noteq> CHR ''<'') s of
        [] \<Rightarrow> []
      | _ # r \<Rightarrow> takeWhile (\<lambda>c. c \<noteq> CHR ''>'') r # tags (dropWhile (\<lambda>c. c \<noteq> CHR ''>'') r))"
  by pat_completeness auto

termination
proof (relation "measure length", goal_cases)
  case (2 s x r)
  have "length (dropWhile (\<lambda>c. c \<noteq> CHR ''>'') r) \<le> length r" by (rule length_dropWhile_le)
  also have "\<dots> < length (dropWhile (\<lambda>c. c \<noteq> CHR ''<'') s)" using 2 by simp
  also have "\<dots> \<le> length s" by (rule length_dropWhile_le)
  finally show ?case by simp
qed simp

declare tags.simps [simp del]

lemma tags_text: "CHR ''<'' \<notin> set t \<Longrightarrow> tags (t @ s) = tags s"
proof -
  assume "CHR ''<'' \<notin> set t"
  then have "dropWhile (\<lambda>c. c \<noteq> CHR ''<'') (t @ s) = dropWhile (\<lambda>c. c \<noteq> CHR ''<'') s"
    by (intro dropWhile_append2) auto
  then show ?thesis by (simp add: tags.simps [of "t @ s"] tags.simps [of s])
qed

lemma tags_tag: "CHR ''>'' \<notin> set x \<Longrightarrow> tags (CHR ''<'' # x @ CHR ''>'' # s) = x # tags s"
proof -
  assume x: "CHR ''>'' \<notin> set x"
  then have t: "takeWhile (\<lambda>c. c \<noteq> CHR ''>'') (x @ CHR ''>'' # s) = x"
    and d: "dropWhile (\<lambda>c. c \<noteq> CHR ''>'') (x @ CHR ''>'' # s) = CHR ''>'' # s"
    by (induction x) auto
  have "tags (CHR ''<'' # x @ CHR ''>'' # s) = x # tags (CHR ''>'' # s)"
    by (subst tags.simps) (simp add: t d)
  with tags_text [of "''>''" s] show ?thesis by simp
qed

text \<open>The tags a specification stands for: opening and closing ones, properly nested.\<close>

definition tag_safe :: "string \<Rightarrow> bool" where
  "tag_safe s \<longleftrightarrow> CHR ''<'' \<notin> set s \<and> CHR ''>'' \<notin> set s"

fun attr_name :: "gkey \<Rightarrow> string" where
  "attr_name (KStr s) = s"
| "attr_name (KInt i) = show_int i"

text \<open>Names of elements and attributes without angle brackets, at every depth.\<close>

function names_safe :: "xspec \<Rightarrow> bool" where
  "names_safe (XList []) = True"
| "names_safe (XList (name # items)) =
     ((\<forall>n. name = XStr n \<longrightarrow> tag_safe n) \<and> (\<forall>k \<in> fst ` set (fst (split_attrs items)). tag_safe (attr_name k)) \<and>
      (\<forall>x \<in> set (snd (split_attrs items)). is_xstr x \<or> names_safe x))"
| "names_safe (XStr s) = tag_safe (take 1 s)"
| "names_safe (XUni s) = True"
| "names_safe (XDict d) = True"
| "names_safe (XOther c) = True"
  by pat_completeness auto

termination
proof (relation "measure size", goal_cases)
  case (2 name items x)
  with spec_size [of x items] show ?case by simp
qed simp

fun attr_text :: "gkey \<times> xspec \<Rightarrow> string" where
  "attr_text (k, v) =
     '' '' @ attr_name k @ ''='' @ [ch_dquote] @
     (case v of XStr s \<Rightarrow> XmlEscape True s | XUni s \<Rightarrow> XmlEscape True s | _ \<Rightarrow> []) @ [ch_dquote]"

text \<open>Text nodes have no tags; a string that is the whole specification has those of its element.\<close>

function spec_tags :: "xspec \<Rightarrow> string list" where
  "spec_tags (XList []) = []"
| "spec_tags (XList (name # items)) =
     (let n = (case name of XStr n \<Rightarrow> n | _ \<Rightarrow> []);
          open_tag = n @ concat (map attr_text (sorted_items (fst (split_attrs items)))) in
      if snd (split_attrs items) = [] then [open_tag @ ''/'']
      else [open_tag] @
           concat (map (\<lambda>x. if is_xstr x then [] else spec_tags x) (snd (split_attrs items))) @ [''/'' @ n])"
| "spec_tags (XStr s) = (if length s = 1 then [s @ ''/''] else [take 1 s, ''/'' @ take 1 s])"
| "spec_tags (XUni s) = []"
| "spec_tags (XDict d) = []"
| "spec_tags (XOther c) = []"
  by pat_completeness auto

termination
proof (relation "measure size", goal_cases)
  case (2 name items x xa xb)
  with spec_size [of xb items] show ?case by simp
qed simp

lemma attr_part_Inr: "attr_part kv = Inr t \<Longrightarrow> t = attr_text kv"
  by (cases kv; cases "fst kv"; cases "snd kv") (auto simp: attr_part_def escape_val_def)

lemma mapE_Inr_map: "mapE f xs = Inr ys \<Longrightarrow> list_all2 (\<lambda>x y. f x = Inr y) xs ys"
  by (induction xs arbitrary: ys) (auto simp: bindE_Inr_iff)

lemma attrs_Inr: "mapE attr_part d = Inr ts \<Longrightarrow> ts = map attr_text d"
  by (induction d arbitrary: ts) (auto simp: bindE_Inr_iff dest: attr_part_Inr)

lemma attr_text_safe: "tag_safe (attr_name (fst kv)) \<Longrightarrow> tag_safe (attr_text kv)"
  using XmlEscape_no_markup [of True] by (cases kv) (auto simp: tag_safe_def split: xspec.splits)

lemma tag_safe_append [simp]: "tag_safe (a @ b) \<longleftrightarrow> tag_safe a \<and> tag_safe b"
  by (auto simp: tag_safe_def)

lemma tag_safe_concat: "(\<And>x. x \<in> set xs \<Longrightarrow> tag_safe x) \<Longrightarrow> tag_safe (concat xs)"
  by (induction xs) (simp_all add: tag_safe_def)

definition indent_of :: "bool \<Rightarrow> nat \<Rightarrow> string" where
  "indent_of pretty level = (if pretty then concat (replicate level ''  '') else [])"

lemma indent_no_tag: "CHR ''<'' \<notin> set (indent_of pretty level)"
  by (auto simp: indent_of_def)

text \<open>What an element contributes, once its children are known to contribute their tags.\<close>

lemma element_tags:
  assumes "tag_safe n" and "tag_safe attrs" and "CHR ''<'' \<notin> set before" and "CHR ''<'' \<notin> set after"
    and "\<And>s. tags (inner @ s) = ts @ tags s"
  shows "tags (indent_of p l @ ''<'' @ n @ attrs @ ''>'' @ before @ inner @ after @ ''</'' @ n @ ''>'' @ s) =
    [n @ attrs] @ ts @ [''/'' @ n] @ tags s"
proof -
  have "CHR ''>'' \<notin> set (n @ attrs)" "CHR ''>'' \<notin> set (''/'' @ n)" using assms(1,2) by (auto simp: tag_safe_def)
  with tags_text [OF indent_no_tag, of p l] tags_tag [of "n @ attrs"] tags_tag [of "''/'' @ n"]
    tags_text [OF assms(3)] tags_text [OF assms(4)] assms(5)
  show ?thesis by simp
qed

lemma children_tags:
  assumes "list_all2 (\<lambda>c parts. \<forall>s. tags (concat parts @ s) = f c @ tags s) cs pss"
  shows "tags (concat (concat pss) @ s) = concat (map f cs) @ tags s"
  using assms by (induction rule: list_all2_induct) simp_all

lemma list_all2_mono_in:
  "list_all2 P xs ys \<Longrightarrow> (\<And>x y. x \<in> set xs \<Longrightarrow> P x y \<Longrightarrow> Q x y) \<Longrightarrow> list_all2 Q xs ys"
  by (induction rule: list_all2_induct) auto

lemma content_tags:
  "names_safe spec \<Longrightarrow> ConstructContentList pretty level spec = Inr parts \<Longrightarrow>
    tags (concat parts @ s) = spec_tags spec @ tags s"
proof (induction pretty level spec arbitrary: parts s rule: ConstructContentList.induct)
  case (2 pretty level name items)
  let ?d = "fst (split_attrs items)" and ?cs = "snd (split_attrs items)"
  let ?child = "\<lambda>c. if is_xstr c then bindE (escape_val False c) (\<lambda>t. Inr [t])
      else ConstructContentList pretty (level + 1) c"
  let ?nl = "if pretty then [ch_newline] else []"
  let ?tags = "\<lambda>c. if is_xstr c then [] else spec_tags c"
  obtain n where n: "name = XStr n" using "2.prems"(2) by (cases name) (simp_all add: Let_def)
  from "2.prems"(2) n obtain attrs where a: "mapE attr_part (sorted_items ?d) = Inr attrs"
    by (auto simp: Let_def bindE_Inr_iff)
  then have attrs: "attrs = map attr_text (sorted_items ?d)" by (rule attrs_Inr)
  have n_ok: "tag_safe n" using "2.prems"(1) n by simp
  have "tag_safe (attr_text kv)" if "kv \<in> set (sorted_items ?d)" for kv
    using "2.prems"(1) that by (intro attr_text_safe) (auto simp: sorted_items_def)
  then have a_ok: "tag_safe (concat attrs)" unfolding attrs by (intro tag_safe_concat) auto
  have nl: "CHR ''<'' \<notin> set ?nl" by simp
  show ?case
  proof (cases "?cs = []")
    case True
    with "2.prems"(2) n a have parts: "concat parts = indent_of pretty level @ ''<'' @ n @ concat attrs @ ''/>'' @ ?nl"
      by (auto simp: Let_def indent_of_def)
    have "CHR ''>'' \<notin> set (n @ concat attrs @ ''/'')" using n_ok a_ok by (auto simp: tag_safe_def)
    from tags_tag [OF this] tags_text [OF indent_no_tag, of pretty level] tags_text [OF nl]
    show ?thesis by (simp add: parts n True attrs Let_def)
  next
    case False
    let ?multi = "\<not> (\<forall>x \<in> set ?cs. is_xstr x)"
    from "2.prems"(2) n a False obtain children where c: "mapE ?child ?cs = Inr children"
      and parts: "parts = [indent_of pretty level @ ''<'' @ n] @ attrs @ [''>''] @
                       (if ?multi \<and> ?nl \<noteq> [] then [?nl] else []) @ concat children @
                       (if ?multi \<and> indent_of pretty level \<noteq> [] then [indent_of pretty level] else []) @
                       [''</'' @ n @ ''>'' @ ?nl]"
      by (auto simp: Let_def bindE_Inr_iff indent_of_def)
    have "list_all2 (\<lambda>c parts. \<forall>s. tags (concat parts @ s) = ?tags c @ tags s) ?cs children"
    proof (rule list_all2_mono_in [OF mapE_Inr_map [OF c]], intro allI)
      fix x ps s assume x: "x \<in> set ?cs" and ps: "?child x = Inr ps"
      show "tags (concat ps @ s) = ?tags x @ tags s"
      proof (cases "is_xstr x")
        case True
        then obtain t where t: "x = XStr t" by (cases x) simp_all
        with ps have "ps = [XmlEscape False t]" by (simp add: escape_val_def)
        moreover have "CHR ''<'' \<notin> set (XmlEscape False t)" using XmlEscape_no_markup [of False t] by blast
        ultimately show ?thesis using t tags_text by simp
      next
        case False
        with ps have "ConstructContentList pretty (level + 1) x = Inr ps" by simp
        moreover have "names_safe x" using "2.prems"(1) x False by auto
        ultimately show ?thesis using "2.IH" [OF refl refl n a \<open>?cs \<noteq> []\<close> refl x False] False by simp
      qed
    qed
    note inner = children_tags [OF this]
    have "tags (concat parts @ s) = [n @ concat attrs] @ concat (map ?tags ?cs) @ [''/'' @ n] @ tags (?nl @ s)"
      using element_tags [OF n_ok a_ok _ _ inner, of
          "concat (if ?multi \<and> ?nl \<noteq> [] then [?nl] else [])"
          "concat (if ?multi \<and> indent_of pretty level \<noteq> [] then [indent_of pretty level] else [])"
          pretty level "?nl @ s"] nl indent_no_tag [of pretty level]
      by (simp add: parts)
    then show ?thesis using tags_text [OF nl, of s] n False by (simp add: attrs Let_def)
  qed
next
  case (4 pretty level c rest)
  let ?nl = "if pretty then [ch_newline] else []"
  let ?inner = "concat (map (\<lambda>x. XmlEscape False [x]) rest)"
  have c: "tag_safe [c]" using "4.prems"(1) by simp
  have nl: "CHR ''<'' \<notin> set ?nl" by simp
  have "CHR ''<'' \<notin> set (XmlEscape False v)" for v using XmlEscape_no_markup [of False v] by auto
  then have "CHR ''<'' \<notin> set ?inner" by simp
  then have inner: "tags (?inner @ s) = [] @ tags s" for s by (simp add: tags_text)
  show ?case
  proof (cases "rest = []")
    case True
    with "4.prems"(2) have parts: "concat parts = indent_of pretty level @ ''<'' @ [c] @ ''/>'' @ ?nl"
      by (auto simp: Let_def indent_of_def)
    have "CHR ''>'' \<notin> set ([c] @ ''/'')" using c by (auto simp: tag_safe_def)
    from tags_tag [OF this] tags_text [OF indent_no_tag, of pretty level] tags_text [OF nl]
    show ?thesis by (simp add: parts True)
  next
    case False
    with "4.prems"(2) have parts: "concat parts =
        indent_of pretty level @ ''<'' @ [c] @ [] @ ''>'' @ [] @ ?inner @ [] @ ''</'' @ [c] @ ''>'' @ ?nl"
      by (auto simp: Let_def indent_of_def)
    have "tag_safe []" by (simp add: tag_safe_def)
    from element_tags [OF c this _ _ inner, of "[]" "[]" pretty level "?nl @ s"] tags_text [OF nl, of s] False
    show ?thesis by (simp add: parts)
  qed
next
  case (7 pretty level d)
  then show ?case by (auto split: option.splits if_splits)
qed simp_all

definition xml_header :: "string \<Rightarrow> string" where
  "xml_header encoding =
     ''?xml version='' @ [ch_dquote] @ ''1.0'' @ [ch_dquote] @ '' encoding='' @ [ch_dquote] @ encoding @ [ch_dquote] @ ''?''"

text \<open>
  (C30) When a document is made, and the names of its elements and attributes and its
  encoding have no angle brackets (\<open>names_safe\<close>, \<open>tag_safe\<close>), it has exactly the tags of
  its specification after the XML declaration, each element opened and closed around its
  children's, whatever text and attribute values it contains and whether or not it is
  laid out for reading.
\<close>

theorem XmlToString_structure:
  assumes "XmlToString content encoding pretty = Inr s" and "names_safe content" and "tag_safe encoding"
  shows "tags s = xml_header encoding # spec_tags content"
proof -
  let ?nl = "if pretty then [ch_newline] else []"
  from assms(1) obtain parts where p: "ConstructContentList pretty 0 content = Inr parts"
    and s: "s = CHR ''<'' # xml_header encoding @ CHR ''>'' # ?nl @ concat parts"
    by (auto simp: XmlToString_def bindE_Inr_iff xml_header_def)
  have "CHR ''>'' \<notin> set (xml_header encoding)" using assms(3) by (auto simp: xml_header_def tag_safe_def)
  moreover have "CHR ''<'' \<notin> set ?nl" by simp
  moreover have "tags (concat parts @ []) = spec_tags content @ tags []"
    by (rule content_tags [OF assms(2) p])
  moreover have "tags [] = []" by (simp add: tags.simps)
  ultimately show ?thesis unfolding s by (simp add: tags_tag tags_text)
qed

theorem XmlToString_structure_witness:
  "\<exists>s. XmlToString (XList [XStr ''a'', XDict [(KStr ''x'', XStr ''<1>'')], XStr ''t<'', XList [XStr ''b'']]) ''utf-8'' True
      = Inr s \<and> tags s = [xml_header ''utf-8'', ''a x='' @ [ch_dquote] @ ''&lt;1&gt;'' @ [ch_dquote], ''b/'', ''/a'']"
proof -
  let ?c = "XList [XStr ''a'', XDict [(KStr ''x'', XStr ''<1>'')], XStr ''t<'', XList [XStr ''b'']]"
  have "\<not> isl (XmlToString ?c ''utf-8'' True)" by code_simp
  then obtain s where s: "XmlToString ?c ''utf-8'' True = Inr s" by (cases "XmlToString ?c ''utf-8'' True") auto
  have ok: "names_safe ?c" by (simp add: split_attrs_def tag_safe_def)
  have enc: "tag_safe ''utf-8''" by (simp add: tag_safe_def)
  have "spec_tags ?c = [''a x='' @ [ch_dquote] @ ''&lt;1&gt;'' @ [ch_dquote], ''b/'', ''/a'']" by code_simp
  with XmlToString_structure [OF s ok enc] s show ?thesis by auto
qed

text \<open>
  The file ends up with the document's text whether or not it is written, and a second
  call with the same specification leaves it alone.
\<close>

theorem WriteXmlIfChanged_settles:
  assumes "WriteXmlIfChanged content encoding pretty win32 existing = Inr w"
  shows "\<exists>text. (case w of Some t \<Rightarrow> t = text \<and> existing \<noteq> Some text | None \<Rightarrow> existing = Some text) \<and>
    (if win32 then text = replace_char ch_newline [ch_return, ch_newline] (projr (XmlToString content encoding pretty))
     else XmlToString content encoding pretty = Inr text) \<and>
    WriteXmlIfChanged content encoding pretty win32 (Some text) = Inr None"
proof -
  from assms obtain s where s: "XmlToString content encoding pretty = Inr s"
    by (auto simp: WriteXmlIfChanged_def bindE_Inr_iff)
  with assms show ?thesis
    by (intro exI [of _ "if win32 then replace_char ch_newline [ch_return, ch_newline] s else s"])
      (auto simp: WriteXmlIfChanged_def Let_def)
qed

theorem WriteXmlIfChanged_settles_witness:
  "\<exists>t. WriteXmlIfChanged (XList [XStr ''a'']) ''utf-8'' False False None = Inr (Some t) \<and>
     WriteXmlIfChanged (XList [XStr ''a'']) ''utf-8'' False False (Some t) = Inr None"
proof -
  have "\<exists>w. WriteXmlIfChanged (XList [XStr ''a'']) ''utf-8'' False False None = Inr w"
    by (simp add: WriteXmlIfChanged_def XmlToString_def split_attrs_def sorted_items_def)
  then obtain w where w: "WriteXmlIfChanged (XList [XStr ''a'']) ''utf-8'' False False None = Inr w" by blast
  from WriteXmlIfChanged_settles [OF w] w show ?thesis by (cases w) auto
qed

end
