(* ===== verification/Spec2Isabelle.thy ===== *)
theory Spec2Isabelle
  imports Input_Pipeline Input_Parallel
    Input_Templates Input_Expand_Errors MSVS_Convert Test_Main Ninja_Syntax Easy_Xml
begin

text \<open>
  This development verifies the Python programs that build and test the runtime: the
  build-file processor GYP (\<open>tools/gyp/pylib/gyp\<close>) and the test runner (\<open>tools/test.py\<close>,
  with \<open>deps/v8/tools/utils.py\<close>).

  \<^bold>\<open>The parts and how they interact.\<close>  GYP loads build files (nested Python dictionaries and
  lists), merges included files and defaults into them, resolves the targets they
  name, sorts the targets by dependency, propagates settings along the dependency graph,
  filters lists, sets up configurations, validates, and hands the targets to a generator
  which writes build files, with the ninja writer or as XML.  The test runner reads
  status files, classifies the test cases by the rules in them, runs the cases on a pool of
  threads and reports.

  \<^bold>\<open>Theories and sources.\<close>
  \<^item> \<open>Py_Prelude\<close>, \<open>Py_Path\<close>: what the code uses of the language and of \<open>os.path\<close> (strings,
    results with exceptions, POSIX paths), and the lemma collections.
  \<^item> \<open>Gyp_Value\<close>: the values of build files (\<open>gval\<close>), dictionaries as association lists, the
    locale of lookup tables and its interpretation on them.
  \<^item> \<open>Gyp_Common\<close>, \<open>Gyp_Topo\<close>: \<open>common.py\<close> (qualified names, relative paths, shell quoting,
    write on difference, memoisation, duplicates; graph searches and the topological sort).
  \<^item> \<open>Input_Base\<close>, \<open>Input_Merge\<close>: \<open>input.py\<close>, the module's globals as the record \<open>gyp_env\<close>,
    path sections, \<open>MergeLists\<close> and \<open>MergeDicts\<close>.
  \<^item> \<open>Input_Load\<close>: \<open>CheckNode\<close>, \<open>GetIncludedBuildFiles\<close>, \<open>ProcessToolsetsInDict\<close> and the steps of
    \<open>LoadTargetBuildFile\<close>; \<open>Input_Include\<close>: \<open>CheckedEval\<close> and \<open>LoadOneBuildFile\<close> with the merging
    of included files; \<open>Input_Parallel\<close>: \<open>LoadTargetBuildFileParallel\<close> as a state machine
    of the main loop, its condition variable and the callbacks of the workers.
  \<^item> \<open>Input_Vars\<close>: bracket groups, canonical integers and the tables of variables.
  \<^item> \<open>Py_Repr\<close>, \<open>Py_Shlex\<close>: \<open>repr\<close>, \<open>str\<close>, \<open>int\<close> and \<open>shlex.split\<close> of the library;
    \<open>Input_Store\<close>: the objects that expansion shares and changes, as a store, and the merge
    in place; \<open>Input_Expand\<close>: \<open>ExpandVariables\<close>, its commands, modules and file lists, and
    the processing of lists, dictionaries and conditions; \<open>Input_Commands\<close>, \<open>Input_Patterns\<close>,
    \<open>Input_Templates\<close>, \<open>Input_Expand_Errors\<close>, \<open>Input_Settled\<close>: what holds of them.
  \<^item> \<open>Input_Driver\<close>, \<open>Input_Pipeline\<close>: \<open>LoadTargetBuildFile\<close> and \<open>Load\<close>, which compose all of
    \<open>input.py\<close> into the function that a generator calls.
  \<^item> \<open>Input_Graph\<close>, \<open>Input_Deps\<close>: \<open>DependencyGraphNode\<close>, the two graph builders behind one
    locale, flattening, cycle detection, the dependency lists and the settings passed
    along them.
  \<^item> \<open>Input_Targets\<close>, \<open>Input_Filters\<close>, \<open>Input_Config\<close>, \<open>Input_Validate\<close>: the table of targets and
    its qualified dependencies, list filters, configurations, validation.
  \<^item> \<open>MSVS_Settings\<close>, \<open>MSVS_Tables\<close>, \<open>MSVS_Convert\<close>: \<open>MSVSSettings.py\<close>, the types of settings, the
    tables of every registered setting, their validation and conversion.
  \<^item> \<open>Test_Expr\<close>, \<open>Test_Config\<close>: outcome expressions, their tokenizer and parser, status files
    and classification; \<open>Test_Runner\<close>: \<open>ProgressIndicator\<close> as a state machine of threads with
    its lock; \<open>Test_Main\<close>: waiting for a process, the indicators, options, \<open>Main\<close>.
  \<^item> \<open>Ninja_Syntax\<close>, \<open>Easy_Xml\<close>: the writers \<open>ninja_syntax.py\<close> and \<open>easy_xml.py\<close>.

  \<^bold>\<open>What the lemmas show.\<close>  The dependency list is a topological order of all targets, or
  the code reports a cycle and there is one; merging follows the documented list
  policies, keeps values well-formed and leaves other keys alone; each dependency
  search returns exactly the targets its relation reaches; loading in parallel
  hands every needed file to a worker once, stores what each reports and ends; a file is loaded with its includes merged in
  order and every file it names is known afterwards; settings that validate for the
  older tools are converted to settings that validate for MSBuild; toolset expansion is idempotent; variable
  expansion is substitution on texts that refer to variables, its pattern is the
  declarative one, it reports an undefined variable, never runs a command twice and leaves a value alone
  in which there is nothing to expand; loading finitely many files ends unless reading a single one does not, with every
  dependency of every loaded file loaded, and what \<open>Load\<close> returns is sorted, complete and validated; filters
  partition a list; the parser of conditions ends on every input and reads back what is
  printed; evaluation agrees with a semantics by sets; every schedule of the test runner
  counts and reports each test at most once, and exactly once when no exception stops a
  thread; it ends unless a verdict raises while the lock is held; build statements of the
  ninja writer, shell words and XML texts are read back by models of the programs that
  read them.  Some theorems prove a
  defect: an item prepended twice, a parser that runs off its tokens, an assertion that a
  guarded rule violates, a thread's exception that goes unnoticed or leaves the lock held,
  a path with a bar in a build statement, a file merged into itself.

  \<^bold>\<open>Conventions.\<close>  The host is POSIX.  An exception is a value of \<open>exn\<close>, its text kept where the
  code composes one.  A value of the wrong class where a string, list or dictionary is
  needed raises \<open>TypeError\<close> at the first use (\<open>as_str\<close>, \<open>as_list\<close>, \<open>as_dict\<close>).  Dictionaries
  iterate in the order of their association list, and \<open>set.pop\<close> takes the element that
  an arbitrary function picks, so theorems about all lists and all picks hold for every
  order.  The code copies nested values where it merges them, so values are passed by value,
  except during expansion, which changes lists and dictionaries that several owners share:
  there a value is a reference into a store (\<open>thaw\<close> and \<open>freeze\<close> convert).  In this part a
  dictionary that is merged in is read as a value, and the deep copy made for \<open><|\<close> drops the
  sharing between variables, and between two phases a target is a value again (the items of
  a list that two lists share are then expanded once for each).
  The keys of \<open>replace_map\<close> never overlap a replacement, so its order is free.
  Regular expressions, Python's parser, \<open>textwrap\<close> and what a process or a worker returns
  are parameters; so are what a command or module answers, \<open>eval\<close> of a list of arguments and the
  evaluation of a condition (\<open>xenv\<close>).

  \<^bold>\<open>Fuel and bounds.\<close>  Recursion that is not structural has a termination proof where a
  measure exists.  The parser carries fuel \<open>4 n + 4\<close> for \<open>n\<close> tokens, \<open>GetIncludedBuildFiles\<close>
  one more than the number of known files, \<open>LoadOneBuildFile\<close> takes its
  fuel as an argument (more fuel never changes an answer, and a large amount is proved to answer
  where the included files include none themselves; files that include each other find the
  unfinished dictionary in the table; there is no answer where a list of dictionaries is
  appended to itself for ever, as in the code, and where a part of a file includes that
  file, which is left out), the functions of variable expansion call each other
  through a record of calls nested to a depth that is an argument (\<open>calls_to\<close>; the number of
  rounds of substitution is enough for texts, and a variable that refers to itself has no
  answer, as the code has none), \<open>Visit\<close> and \<open>Evaluate\<close> the bounds given with
  their theorems; each is proved enough.  The loop of \<open>FlattenToList\<close> is a
  \<open>while_option\<close> proved to end, the wait loop of \<open>RunProcess\<close> an option with its end proved.

  \<^bold>\<open>Not modelled.\<close>  The reading of files from disk, the option parsers, the
  generators and their support modules, and the third-party style checkers.
\<close>

end
